(* ===== verification/Batter_Prelude.thy ===== *)
theory Batter_Prelude
  imports Main "HOL-Library.Word" "HOL-Library.List_Lexorder" "HOL-Library.Product_Lexorder"
    "HOL-Library.AList"
begin

text \<open>
  Shared vocabulary of the development: the parts of Rust's core language and standard library
  that the modelled sources use, and the generic lemmas the component theories rest on.

  \<^item> Unsigned machine integers are natural numbers; every place where the source checks,
    saturates or could leave the width is written out with the operations below.
  \<^item> \<open>Result\<close> is a sum with the error on the left; \<open>try_bind\<close> is the question-mark operator.
  \<^item> \<open>std::time::Duration\<close> is its total number of nanoseconds: seconds and sub-second nanoseconds
    are its quotient and remainder by one second.
  \<^item> Byte strings are lists of 8-bit words; big-endian integer encodings are \<open>be_bytes\<close>.
  \<^item> \<open>BTreeSet\<close> is a sorted list without repetitions, \<open>HashMap\<close> and \<open>BTreeMap\<close> are association
    lists with distinct keys.
\<close>

named_theorems width_simps \<open>numeric values of the width limits\<close>
named_theorems duration_simps \<open>arithmetic of durations\<close>
named_theorems result_simps \<open>when a composed fallible computation succeeds or fails\<close>

section \<open>Machine integers\<close>

definition U32_MAX :: nat where
  "U32_MAX = 2 ^ 32 - 1"

definition U64_MAX :: nat where
  "U64_MAX = 2 ^ 64 - 1"

definition U128_MAX :: nat where
  "U128_MAX = 2 ^ 128 - 1"

definition checked_add :: "nat \<Rightarrow> nat \<Rightarrow> nat \<Rightarrow> nat option" where
  "checked_add maximum a b = (if a + b \<le> maximum then Some (a + b) else None)"

definition checked_mul :: "nat \<Rightarrow> nat \<Rightarrow> nat \<Rightarrow> nat option" where
  "checked_mul maximum a b = (if a * b \<le> maximum then Some (a * b) else None)"

definition saturating_add :: "nat \<Rightarrow> nat \<Rightarrow> nat \<Rightarrow> nat" where
  "saturating_add maximum a b = min maximum (a + b)"

definition saturating_mul :: "nat \<Rightarrow> nat \<Rightarrow> nat \<Rightarrow> nat" where
  "saturating_mul maximum a b = min maximum (a * b)"

definition try_from_nat :: "nat \<Rightarrow> nat \<Rightarrow> nat option" where
  "try_from_nat maximum a = (if a \<le> maximum then Some a else None)"

definition div_ceil :: "nat \<Rightarrow> nat \<Rightarrow> nat" where
  "div_ceil n d = n div d + (if n mod d = 0 then 0 else 1)"

lemma U32_MAX_value [width_simps]: "U32_MAX = 4294967295"
  by (simp add: U32_MAX_def)

lemma U64_MAX_value [width_simps]: "U64_MAX = 18446744073709551615"
  by (simp add: U64_MAX_def)

lemma U128_MAX_value [width_simps]: "U128_MAX = 340282366920938463463374607431768211455"
  by (simp add: U128_MAX_def)

lemma checked_add_eq_Some [simp]:
  "checked_add m a b = Some c \<longleftrightarrow> a + b \<le> m \<and> c = a + b"
  by (auto simp: checked_add_def)

lemma checked_add_eq_None [simp]: "checked_add m a b = None \<longleftrightarrow> m < a + b"
  by (auto simp: checked_add_def)

lemma checked_mul_eq_Some [simp]:
  "checked_mul m a b = Some c \<longleftrightarrow> a * b \<le> m \<and> c = a * b"
  by (auto simp: checked_mul_def)

lemma checked_mul_eq_None [simp]: "checked_mul m a b = None \<longleftrightarrow> m < a * b"
  by (auto simp: checked_mul_def)

lemma try_from_nat_eq_Some [simp]: "try_from_nat m a = Some b \<longleftrightarrow> a \<le> m \<and> b = a"
  by (auto simp: try_from_nat_def)

lemma try_from_nat_eq_None [simp]: "try_from_nat m a = None \<longleftrightarrow> m < a"
  by (auto simp: try_from_nat_def)

lemma div_ceil_le_iff:
  assumes "0 < d"
  shows "div_ceil n d \<le> k \<longleftrightarrow> n \<le> k * d"
proof -
  have n: "n = n div d * d + n mod d" by simp
  have lt: "n mod d < d" using assms by simp
  show ?thesis
  proof (cases "n mod d = 0")
    case True
    then have "n = n div d * d" using n by simp
    then show ?thesis
      using True assms by (metis div_ceil_def add_0_right mult_le_cancel2)
  next
    case False
    have "n div d + 1 \<le> k \<longleftrightarrow> n div d < k" by auto
    also have "\<dots> \<longleftrightarrow> n < k * d" using assms by (simp add: div_less_iff_less_mult)
    also have "\<dots> \<longleftrightarrow> n \<le> k * d" using False by (metis le_neq_implies_less less_imp_le mod_mult_self2_is_0)
    finally show ?thesis using False by (simp add: div_ceil_def)
  qed
qed

lemma div_ceil_mult_ge: "0 < d \<Longrightarrow> n \<le> div_ceil n d * d"
  using div_ceil_le_iff [of d n "div_ceil n d"] by simp

lemma div_ceil_least: "0 < d \<Longrightarrow> k < div_ceil n d \<Longrightarrow> k * d < n"
  using div_ceil_le_iff [of d n k] by (meson not_le)

lemma div_ceil_pos: "0 < d \<Longrightarrow> 0 < n \<Longrightarrow> 0 < div_ceil n d"
  by (metis div_ceil_mult_ge le_zero_eq mult_zero_left neq0_conv)

lemma div_ceil_0 [simp]: "div_ceil 0 d = 0"
  by (simp add: div_ceil_def)

section \<open>Results\<close>

definition try_bind :: "'e + 'a \<Rightarrow> ('a \<Rightarrow> 'e + 'b) \<Rightarrow> 'e + 'b" where
  "try_bind r f = (case r of Inl e \<Rightarrow> Inl e | Inr x \<Rightarrow> f x)"

definition map_err :: "('e \<Rightarrow> 'f) \<Rightarrow> 'e + 'a \<Rightarrow> 'f + 'a" where
  "map_err f r = (case r of Inl e \<Rightarrow> Inl (f e) | Inr x \<Rightarrow> Inr x)"

definition map_ok :: "('a \<Rightarrow> 'b) \<Rightarrow> 'e + 'a \<Rightarrow> 'e + 'b" where
  "map_ok f r = (case r of Inl e \<Rightarrow> Inl e | Inr x \<Rightarrow> Inr (f x))"

definition ok_or :: "'a option \<Rightarrow> 'e \<Rightarrow> 'e + 'a" where
  "ok_or v e = (case v of None \<Rightarrow> Inl e | Some x \<Rightarrow> Inr x)"

lemma try_bind_simps [simp]:
  "try_bind (Inl e) f = Inl e"
  "try_bind (Inr x) f = f x"
  by (simp_all add: try_bind_def)

lemma map_err_simps [simp]:
  "map_err g (Inl e) = Inl (g e)"
  "map_err g (Inr x) = Inr x"
  by (simp_all add: map_err_def)

lemma map_ok_simps [simp]:
  "map_ok g (Inl e) = Inl e"
  "map_ok g (Inr x) = Inr (g x)"
  by (simp_all add: map_ok_def)

lemma ok_or_simps [simp]:
  "ok_or None e = Inl e"
  "ok_or (Some x) e = Inr x"
  by (simp_all add: ok_or_def)

lemma try_bind_eq_Inr [result_simps]:
  "try_bind r f = Inr y \<longleftrightarrow> (\<exists>x. r = Inr x \<and> f x = Inr y)"
  by (cases r) auto

lemma try_bind_eq_Inl [result_simps]:
  "try_bind r f = Inl e \<longleftrightarrow> r = Inl e \<or> (\<exists>x. r = Inr x \<and> f x = Inl e)"
  by (cases r) auto

lemma map_err_eq_Inr [result_simps]: "map_err g r = Inr y \<longleftrightarrow> r = Inr y"
  by (cases r) auto

lemma map_err_eq_Inl [result_simps]: "map_err g r = Inl e \<longleftrightarrow> (\<exists>d. r = Inl d \<and> e = g d)"
  by (cases r) auto

lemma map_ok_eq_Inr [result_simps]: "map_ok g r = Inr y \<longleftrightarrow> (\<exists>x. r = Inr x \<and> y = g x)"
  by (cases r) auto

lemma map_ok_eq_Inl [result_simps]: "map_ok g r = Inl e \<longleftrightarrow> r = Inl e"
  by (cases r) auto

lemma ok_or_eq_Inr [result_simps]: "ok_or v e = Inr x \<longleftrightarrow> v = Some x"
  by (cases v) auto

lemma ok_or_eq_Inl [result_simps]: "ok_or v e = Inl d \<longleftrightarrow> v = None \<and> d = e"
  by (cases v) auto

section \<open>Durations\<close>

type_synonym duration = nat

definition NANOS_PER_SEC :: nat where
  "NANOS_PER_SEC = 1000000000"

definition NANOS_PER_MILLI :: nat where
  "NANOS_PER_MILLI = 1000000"

definition DURATION_MAX :: duration where
  "DURATION_MAX = U64_MAX * NANOS_PER_SEC + (NANOS_PER_SEC - 1)"

definition from_millis :: "nat \<Rightarrow> duration" where
  "from_millis ms = ms * NANOS_PER_MILLI"

definition as_millis :: "duration \<Rightarrow> nat" where
  "as_millis d = d div NANOS_PER_MILLI"

definition as_secs :: "duration \<Rightarrow> nat" where
  "as_secs d = d div NANOS_PER_SEC"

definition subsec_nanos :: "duration \<Rightarrow> nat" where
  "subsec_nanos d = d mod NANOS_PER_SEC"

definition duration_saturating_add :: "duration \<Rightarrow> duration \<Rightarrow> duration" where
  "duration_saturating_add a b = saturating_add DURATION_MAX a b"

definition duration_saturating_mul :: "duration \<Rightarrow> nat \<Rightarrow> duration" where
  "duration_saturating_mul a k = saturating_mul DURATION_MAX a k"

lemma as_millis_from_millis [simp, duration_simps]: "as_millis (from_millis ms) = ms"
  by (simp add: as_millis_def from_millis_def NANOS_PER_MILLI_def)

lemma from_millis_eq_iff [simp, duration_simps]: "from_millis a = from_millis b \<longleftrightarrow> a = b"
  by (simp add: from_millis_def NANOS_PER_MILLI_def)

lemma from_millis_le_iff [simp, duration_simps]: "from_millis a \<le> from_millis b \<longleftrightarrow> a \<le> b"
  by (simp add: from_millis_def NANOS_PER_MILLI_def)

lemma from_millis_less_iff [simp, duration_simps]: "from_millis a < from_millis b \<longleftrightarrow> a < b"
  by (simp add: from_millis_def NANOS_PER_MILLI_def)

lemma from_millis_eq_0 [simp, duration_simps]: "from_millis a = 0 \<longleftrightarrow> a = 0"
  by (simp add: from_millis_def NANOS_PER_MILLI_def)

lemma from_millis_0 [simp]: "from_millis 0 = 0"
  by (simp add: from_millis_def)

lemma whole_millis_iff: "subsec_nanos d mod NANOS_PER_MILLI = 0 \<longleftrightarrow> (\<exists>ms. d = from_millis ms)"
proof -
  have "NANOS_PER_MILLI dvd NANOS_PER_SEC"
    by (simp add: NANOS_PER_MILLI_def NANOS_PER_SEC_def)
  then have "subsec_nanos d mod NANOS_PER_MILLI = d mod NANOS_PER_MILLI"
    by (simp add: subsec_nanos_def mod_mod_cancel)
  then show ?thesis
    by (auto simp: from_millis_def mult.commute dvd_def simp flip: dvd_eq_mod_eq_0)
qed

lemma from_millis_le_DURATION_MAX: "ms \<le> U64_MAX \<Longrightarrow> from_millis ms \<le> DURATION_MAX"
  by (simp add: from_millis_def DURATION_MAX_def NANOS_PER_MILLI_def NANOS_PER_SEC_def U64_MAX_value)

lemma as_millis_mono: "a \<le> b \<Longrightarrow> as_millis a \<le> as_millis b"
  by (simp add: as_millis_def div_le_mono)

section \<open>Bytes\<close>

type_synonym byte = "8 word"

type_synonym bytes = "byte list"

fun be_bytes :: "nat \<Rightarrow> nat \<Rightarrow> bytes" where
  "be_bytes 0 n = []"
| "be_bytes (Suc k) n = be_bytes k (n div 256) @ [of_nat n]"

definition from_be_bytes :: "bytes \<Rightarrow> nat" where
  "from_be_bytes bs = foldl (\<lambda>acc b. acc * 256 + unat b) 0 bs"

lemma length_be_bytes [simp]: "length (be_bytes k n) = k"
  by (induction k arbitrary: n) auto

lemma from_be_bytes_snoc [simp]: "from_be_bytes (bs @ [b]) = from_be_bytes bs * 256 + unat b"
  by (simp add: from_be_bytes_def)

lemma from_be_bytes_Nil [simp]: "from_be_bytes [] = 0"
  by (simp add: from_be_bytes_def)

lemma unat_byte_less [simp]: "unat (b :: byte) < 256"
  using unsigned_less [of b] by simp

lemma unat_of_nat_byte: "unat (of_nat n :: byte) = n mod 256"
  by (simp add: unat_of_nat)

lemma from_be_be: "n < 256 ^ k \<Longrightarrow> from_be_bytes (be_bytes k n) = n"
proof (induction k arbitrary: n)
  case 0
  then show ?case by simp
next
  case (Suc k)
  then have "n div 256 < 256 ^ k"
    by (simp add: div_less_iff_less_mult mult.commute)
  then have "from_be_bytes (be_bytes k (n div 256)) = n div 256"
    by (rule Suc.IH)
  then show ?case
    by (simp add: unat_of_nat_byte)
qed

lemma be_from_be: "length bs = k \<Longrightarrow> be_bytes k (from_be_bytes bs) = bs"
proof (induction k arbitrary: bs)
  case 0
  then show ?case by simp
next
  case (Suc k)
  then obtain cs b where bs: "bs = cs @ [b]" and len: "length cs = k"
    by (metis length_Suc_conv_rev)
  have div: "(from_be_bytes cs * 256 + unat b) div 256 = from_be_bytes cs"
    using unat_byte_less [of b] by simp
  have "(of_nat (from_be_bytes cs * 256 + unat b) :: byte) = b"
    by (simp add: word_unat_eq_iff unat_of_nat del: of_nat_add of_nat_mult)
  then show ?case
    using Suc.IH [OF len] by (simp add: bs div del: of_nat_add of_nat_mult)
qed

lemma from_be_bound: "from_be_bytes bs < 256 ^ length bs"
proof (induction bs rule: rev_induct)
  case Nil
  then show ?case by simp
next
  case (snoc b bs)
  have "from_be_bytes bs * 256 + unat b < (from_be_bytes bs + 1) * 256"
    using unat_byte_less [of b] by simp
  also have "\<dots> \<le> 256 ^ length bs * 256"
    using snoc by (intro mult_le_mono1) simp
  finally show ?case by (simp add: mult.commute)
qed

lemma be_bytes_inject: "a < 256 ^ k \<Longrightarrow> b < 256 ^ k \<Longrightarrow> be_bytes k a = be_bytes k b \<longleftrightarrow> a = b"
  by (metis from_be_be)

section \<open>Panics\<close>

text \<open>
  An operation of the source may return an error or panic, by \<open>expect\<close> for instance. A failing
  result carries either the error value or \<open>Panicked\<close>.
\<close>

datatype 'e failure =
    Failure 'e
  | Panicked

definition expect :: "'a option \<Rightarrow> 'e failure + 'a" where
  "expect x = ok_or x Panicked"

definition expect_ok :: "'d + 'a \<Rightarrow> 'e failure + 'a" where
  "expect_ok r = map_err (\<lambda>_. Panicked) r"

lemma expect_simps [simp]:
  "expect None = Inl Panicked"
  "expect (Some x) = Inr x"
  by (simp_all add: expect_def)

lemma expect_ok_simps [simp]:
  "expect_ok (Inl e) = Inl Panicked"
  "expect_ok (Inr x) = Inr x"
  by (simp_all add: expect_ok_def)

lemma expect_eq_Inr [result_simps]: "expect x = Inr y \<longleftrightarrow> x = Some y"
  by (cases x) simp_all

lemma expect_ok_eq_Inr [result_simps]: "expect_ok r = Inr y \<longleftrightarrow> r = Inr y"
  by (cases r) simp_all

section \<open>Ordered sets as sorted lists\<close>

definition btree_insert :: "'a::linorder \<Rightarrow> 'a list \<Rightarrow> 'a list" where
  "btree_insert x xs = (if x \<in> set xs then xs else insort x xs)"

definition btree_first :: "'a list \<Rightarrow> 'a option" where
  "btree_first xs = (case xs of [] \<Rightarrow> None | x # _ \<Rightarrow> Some x)"

definition btree_ok :: "'a::linorder list \<Rightarrow> bool" where
  "btree_ok xs \<longleftrightarrow> sorted xs \<and> distinct xs"

lemma btree_first_simps [simp]:
  "btree_first [] = None"
  "btree_first (x # xs) = Some x"
  by (simp_all add: btree_first_def)

lemma set_btree_insert [simp]: "set (btree_insert x xs) = insert x (set xs)"
  by (auto simp: btree_insert_def set_insort_key)

lemma btree_ok_insert [intro]: "btree_ok xs \<Longrightarrow> btree_ok (btree_insert x xs)"
  by (auto simp: btree_ok_def btree_insert_def sorted_insort distinct_insort)

lemma btree_ok_remove1 [intro]: "btree_ok xs \<Longrightarrow> btree_ok (remove1 x xs)"
  by (simp add: btree_ok_def sorted_remove1 distinct_remove1)

lemma btree_ok_Nil [simp]: "btree_ok []"
  by (simp add: btree_ok_def)

lemma btree_ok_Cons: "btree_ok (x # xs) \<longleftrightarrow> btree_ok xs \<and> (\<forall>y\<in>set xs. x < y)"
  by (auto simp: btree_ok_def order.strict_iff_order)

section \<open>Keyed maps as association lists\<close>

definition keys_ok :: "('k \<times> 'v) list \<Rightarrow> bool" where
  "keys_ok m \<longleftrightarrow> distinct (map fst m)"

lemma keys_ok_Nil [simp]: "keys_ok []"
  by (simp add: keys_ok_def)

lemma keys_ok_update [intro]: "keys_ok m \<Longrightarrow> keys_ok (AList.update k v m)"
  by (simp add: keys_ok_def AList.distinct_update)

lemma keys_ok_delete [intro]: "keys_ok m \<Longrightarrow> keys_ok (AList.delete k m)"
  by (simp add: keys_ok_def AList.distinct_delete)

lemma map_of_update [simp]: "map_of (AList.update k v m) = (map_of m)(k \<mapsto> v)"
  by (rule AList.update_conv')

lemma map_of_delete [simp]: "map_of (AList.delete k m) = (map_of m)(k := None)"
  by (rule AList.delete_conv')

lemma length_update_present:
  "map_of m k \<noteq> None \<Longrightarrow> length (AList.update k v m) = length m"
  by (induction m) auto

lemma length_update_absent:
  "map_of m k = None \<Longrightarrow> length (AList.update k v m) = Suc (length m)"
  by (induction m) (auto split: if_splits)

lemma length_update: "length (AList.update k v m) = (if map_of m k = None then Suc (length m) else length m)"
  by (simp add: length_update_present length_update_absent)

lemma length_delete_present:
  assumes "keys_ok m" and "map_of m k \<noteq> None"
  shows "Suc (length (AList.delete k m)) = length m"
  using assms
proof (induction m)
  case Nil
  then show ?case by simp
next
  case (Cons p m)
  show ?case
  proof (cases "fst p = k")
    case True
    with Cons.prems have "k \<notin> set (map fst m)" by (auto simp: keys_ok_def)
    then have "AList.delete k m = m" by (simp add: AList.delete_id image_iff)
    with True show ?thesis by (cases p) (simp add: AList.delete_eq)
  next
    case False
    with Cons show ?thesis by (cases p) (auto simp: keys_ok_def AList.delete_eq split: if_splits)
  qed
qed

lemma length_delete_le: "length (AList.delete k m) \<le> length m"
  by (simp add: AList.length_delete_le)

lemma map_of_eq_iff_mem: "keys_ok m \<Longrightarrow> map_of m k = Some v \<longleftrightarrow> (k, v) \<in> set m"
  by (simp add: keys_ok_def)

lemma length_eq_card_dom: "keys_ok m \<Longrightarrow> length m = card (dom (map_of m))"
  by (metis keys_ok_def distinct_card dom_map_of_conv_image_fst length_map set_map)

section \<open>Ordered maps as sorted association lists\<close>

fun bm_insert :: "'k::linorder \<Rightarrow> 'v \<Rightarrow> ('k \<times> 'v) list \<Rightarrow> ('k \<times> 'v) list" where
  "bm_insert k v [] = [(k, v)]"
| "bm_insert k v ((k', v') # m) =
     (if k < k' then (k, v) # (k', v') # m
      else if k = k' then (k, v) # m
      else (k', v') # bm_insert k v m)"

definition bm_ok :: "('k::linorder \<times> 'v) list \<Rightarrow> bool" where
  "bm_ok m \<longleftrightarrow> sorted_wrt (<) (map fst m)"

lemma bm_ok_Nil [simp]: "bm_ok []"
  by (simp add: bm_ok_def)

lemma map_of_bm_insert [simp]: "map_of (bm_insert k v m) = (map_of m)(k \<mapsto> v)"
  by (induction k v m rule: bm_insert.induct) auto

lemma set_fst_bm_insert: "fst ` set (bm_insert k v m) = insert k (fst ` set m)"
  by (induction k v m rule: bm_insert.induct) auto

lemma bm_ok_insert [intro]: "bm_ok m \<Longrightarrow> bm_ok (bm_insert k v m)"
proof (induction k v m rule: bm_insert.induct)
  case (2 k v k' v' m)
  then show ?case
    by (auto simp: bm_ok_def set_fst_bm_insert [unfolded image_def] image_iff simp flip: set_map)
       (metis fst_conv imageE image_set insertE set_fst_bm_insert not_less_iff_gr_or_eq)+
qed (simp add: bm_ok_def)

lemma bm_ok_delete [intro]: "bm_ok m \<Longrightarrow> bm_ok (AList.delete k m)"
  by (induction m) (auto simp: bm_ok_def AList.delete_eq)

lemma bm_ok_keys: "bm_ok m \<Longrightarrow> keys_ok m"
  by (simp add: bm_ok_def keys_ok_def strict_sorted_iff)

lemma length_bm_insert:
  "bm_ok m \<Longrightarrow> length (bm_insert k v m) = (if map_of m k = None then Suc (length m) else length m)"
proof (induction k v m rule: bm_insert.induct)
  case (2 k v k' v' m)
  have "k \<notin> fst ` set m" if "k < k'" using 2(2) that by (fastforce simp: bm_ok_def)
  then have "map_of m k = None" if "k < k'" using that by (simp add: map_of_eq_None_iff)
  with 2 show ?case by (auto simp: bm_ok_def)
qed simp

end
