(* ===== verification/Rust_Text.thy ===== *)
theory Rust_Text
  imports Batter_Prelude
begin

text \<open>
  Rust's \<open>str\<close>: a sequence of Unicode scalar values whose \<open>len\<close> and indices count the bytes of
  its UTF-8 encoding. The identifier, header and codec components validate strings character by
  character and then use their bytes, so both views are needed. Literals of the sources enter
  through \<open>lit\<close>.
\<close>

type_synonym rchar = nat

type_synonym rstr = "rchar list"

definition lit :: "string \<Rightarrow> rstr" where
  "lit s = map of_char s"

definition utf8_char :: "rchar \<Rightarrow> bytes" where
  "utf8_char c =
     (if c < 0x80 then [of_nat c]
      else if c < 0x800 then [of_nat (0xC0 + c div 0x40), of_nat (0x80 + c mod 0x40)]
      else if c < 0x10000 then
        [of_nat (0xE0 + c div 0x1000), of_nat (0x80 + c div 0x40 mod 0x40),
         of_nat (0x80 + c mod 0x40)]
      else
        [of_nat (0xF0 + c div 0x40000), of_nat (0x80 + c div 0x1000 mod 0x40),
         of_nat (0x80 + c div 0x40 mod 0x40), of_nat (0x80 + c mod 0x40)])"

definition str_bytes :: "rstr \<Rightarrow> bytes" where
  "str_bytes s = concat (map utf8_char s)"

definition str_len :: "rstr \<Rightarrow> nat" where
  "str_len s = length (str_bytes s)"

fun char_indices_from :: "nat \<Rightarrow> rstr \<Rightarrow> (nat \<times> rchar) list" where
  "char_indices_from i [] = []"
| "char_indices_from i (c # cs) = (i, c) # char_indices_from (i + length (utf8_char c)) cs"

definition char_indices :: "rstr \<Rightarrow> (nat \<times> rchar) list" where
  "char_indices s = char_indices_from 0 s"

definition is_ascii_digit :: "rchar \<Rightarrow> bool" where
  "is_ascii_digit c \<longleftrightarrow> 48 \<le> c \<and> c \<le> 57"

definition is_ascii_uppercase :: "rchar \<Rightarrow> bool" where
  "is_ascii_uppercase c \<longleftrightarrow> 65 \<le> c \<and> c \<le> 90"

definition is_ascii_lowercase :: "rchar \<Rightarrow> bool" where
  "is_ascii_lowercase c \<longleftrightarrow> 97 \<le> c \<and> c \<le> 122"

definition is_ascii_alphanumeric :: "rchar \<Rightarrow> bool" where
  "is_ascii_alphanumeric c \<longleftrightarrow>
     is_ascii_digit c \<or> is_ascii_uppercase c \<or> is_ascii_lowercase c"

text \<open>The Unicode \<open>White_Space\<close> property, which \<open>str::trim\<close> strips from both ends.\<close>

definition is_whitespace :: "rchar \<Rightarrow> bool" where
  "is_whitespace c \<longleftrightarrow>
     9 \<le> c \<and> c \<le> 13 \<or> c = 0x20 \<or> c = 0x85 \<or> c = 0xA0 \<or> c = 0x1680 \<or>
     0x2000 \<le> c \<and> c \<le> 0x200A \<or> c = 0x2028 \<or> c = 0x2029 \<or> c = 0x202F \<or> c = 0x205F \<or>
     c = 0x3000"

definition trim :: "rstr \<Rightarrow> rstr" where
  "trim s = rev (dropWhile is_whitespace (rev (dropWhile is_whitespace s)))"

definition is_blank :: "rstr \<Rightarrow> bool" where
  "is_blank s \<longleftrightarrow> trim s = []"

lemma is_blank_iff: "is_blank s \<longleftrightarrow> (\<forall>c\<in>set s. is_whitespace c)"
proof
  assume "is_blank s"
  then have "\<forall>c\<in>set (dropWhile is_whitespace s). is_whitespace c"
    by (simp add: is_blank_def trim_def)
  then show "\<forall>c\<in>set s. is_whitespace c"
    by (metis Un_iff set_append set_takeWhileD takeWhile_dropWhile_id)
next
  assume "\<forall>c\<in>set s. is_whitespace c"
  then show "is_blank s"
    by (auto simp: is_blank_def trim_def dest: set_dropWhileD)
qed

lemma utf8_char_not_Nil [simp]: "utf8_char c \<noteq> []"
  by (simp add: utf8_char_def)

lemma utf8_char_ascii: "c < 0x80 \<Longrightarrow> utf8_char c = [of_nat c]"
  by (simp add: utf8_char_def)

lemma str_bytes_Nil [simp]: "str_bytes [] = []"
  by (simp add: str_bytes_def)

lemma str_bytes_Cons [simp]: "str_bytes (c # cs) = utf8_char c @ str_bytes cs"
  by (simp add: str_bytes_def)

lemma str_bytes_eq_Nil [simp]: "str_bytes s = [] \<longleftrightarrow> s = []"
  by (cases s) auto

lemma str_len_eq_0 [simp]: "str_len s = 0 \<longleftrightarrow> s = []"
  by (simp add: str_len_def)

lemma char_indices_Nil_iff [simp]: "char_indices s = [] \<longleftrightarrow> s = []"
  by (cases s) (auto simp: char_indices_def)

lemma map_snd_char_indices_from [simp]: "map snd (char_indices_from i s) = s"
  by (induction s arbitrary: i) auto

lemma snd_char_indices [simp]: "snd ` set (char_indices s) = set s"
  by (metis char_indices_def map_snd_char_indices_from set_map)

text \<open>An index reported by \<open>char_indices\<close> is the byte length of what precedes it.\<close>

lemma char_indices_from_append:
  "char_indices_from i (xs @ c # ys) =
     char_indices_from i xs @ (i + str_len xs, c) # char_indices_from (i + str_len xs + length (utf8_char c)) ys"
  by (induction xs arbitrary: i) (auto simp: str_len_def add.assoc)

subsection \<open>ASCII strings\<close>

definition all_ascii :: "rstr \<Rightarrow> bool" where
  "all_ascii s \<longleftrightarrow> (\<forall>c\<in>set s. c < 128)"

lemma all_ascii_simps [simp]:
  "all_ascii []"
  "all_ascii (c # cs) \<longleftrightarrow> c < 128 \<and> all_ascii cs"
  by (auto simp: all_ascii_def)

lemma str_bytes_ascii: "all_ascii s \<Longrightarrow> str_bytes s = map of_nat s"
  by (induction s) (auto simp: utf8_char_ascii)

lemma str_len_ascii: "all_ascii s \<Longrightarrow> str_len s = length s"
  by (simp add: str_len_def str_bytes_ascii)

lemma of_nat_byte_inject: "a < 256 \<Longrightarrow> b < 256 \<Longrightarrow> (of_nat a :: byte) = of_nat b \<longleftrightarrow> a = b"
  by (metis mod_less unat_of_nat_byte)

lemma of_nat_byte_eq_0: "a < 256 \<Longrightarrow> (of_nat a :: byte) = 0 \<longleftrightarrow> a = 0"
  using of_nat_byte_inject [of a 0] by simp

lemma str_bytes_ascii_inject:
  assumes "all_ascii s" and "all_ascii t" and "str_bytes s = str_bytes t"
  shows "s = t"
proof -
  have eq: "map of_nat s = (map of_nat t :: bytes)"
    using assms by (simp add: str_bytes_ascii)
  then have len: "length s = length t"
    by (metis length_map)
  show ?thesis
    using len eq assms(1,2)
    by (induction s t rule: list_induct2) (auto simp: of_nat_byte_inject)
qed

lemma zero_notin_str_bytes_ascii:
  "all_ascii s \<Longrightarrow> 0 \<notin> set s \<Longrightarrow> 0 \<notin> set (str_bytes s)"
proof (induction s)
  case Nil
  then show ?case by simp
next
  case (Cons c s)
  then have "(of_nat c :: byte) \<noteq> 0"
    by (simp add: of_nat_byte_eq_0)
  with Cons show ?case by (auto simp: utf8_char_ascii)
qed

text \<open>Two NUL-terminated fields that agree as a whole agree field by field.\<close>

lemma nul_terminated_inject:
  assumes "0 \<notin> set a" and "0 \<notin> set b"
  shows "a @ (0 :: byte) # r = b @ 0 # s \<longleftrightarrow> a = b \<and> r = s"
proof
  assume eq: "a @ 0 # r = b @ 0 # s"
  then have "takeWhile (\<lambda>x. x \<noteq> 0) (a @ 0 # r) = takeWhile (\<lambda>x. x \<noteq> 0) (b @ 0 # s)"
    by simp
  moreover have "takeWhile (\<lambda>x. x \<noteq> 0) (c @ 0 # t) = c" if "0 \<notin> set c" for c t :: bytes
    using that by (induction c) auto
  ultimately have "a = b" using assms by simp
  with eq show "a = b \<and> r = s" by simp
qed simp

section \<open>Decoding UTF-8\<close>

text \<open>
  \<open>str::from_utf8\<close> accepts exactly the encodings of sequences of scalar values. \<open>utf8_read\<close> reads one
  sequence per leading byte, and \<open>from_utf8\<close> keeps the result only if encoding it gives the bytes
  back, which rules out overlong and ill-formed sequences, and if it holds scalar values only.
\<close>

definition is_scalar :: "rchar \<Rightarrow> bool" where
  "is_scalar c \<longleftrightarrow> c < 0xD800 \<or> 0xE000 \<le> c \<and> c < 0x110000"

fun utf8_read :: "nat list \<Rightarrow> rstr" where
  "utf8_read [] = []"
| "utf8_read (a # bs) =
     (if a < 0x80 then a # utf8_read bs
      else if a < 0xE0 then
        (case bs of
           b # bs \<Rightarrow> ((a - 0xC0) * 0x40 + (b - 0x80)) # utf8_read bs
         | _ \<Rightarrow> [])
      else if a < 0xF0 then
        (case bs of
           b # c # bs \<Rightarrow> ((a - 0xE0) * 0x1000 + (b - 0x80) * 0x40 + (c - 0x80)) # utf8_read bs
         | _ \<Rightarrow> [])
      else
        (case bs of
           b # c # d # bs \<Rightarrow>
             ((a - 0xF0) * 0x40000 + (b - 0x80) * 0x1000 + (c - 0x80) * 0x40 + (d - 0x80)) # utf8_read bs
         | _ \<Rightarrow> []))"

definition from_utf8 :: "bytes \<Rightarrow> rstr option" where
  "from_utf8 bs =
     (let s = utf8_read (map unat bs)
      in if list_all is_scalar s \<and> str_bytes s = bs then Some s else None)"

lemma from_utf8_bytes: "from_utf8 bs = Some s \<Longrightarrow> str_bytes s = bs"
  by (auto simp: from_utf8_def Let_def split: if_splits)

lemma utf8_read_ascii: "all_ascii s \<Longrightarrow> utf8_read s = s"
  by (induction s) auto

lemma from_utf8_ascii:
  assumes "all_ascii s"
  shows "from_utf8 (str_bytes s) = Some s"
proof -
  have "map unat (map of_nat s :: bytes) = s"
    using assms by (induction s) (auto simp: unat_of_nat_byte)
  then have "utf8_read (map unat (str_bytes s)) = s"
    using assms by (simp add: str_bytes_ascii utf8_read_ascii)
  moreover have "list_all is_scalar s"
    using assms by (induction s) (auto simp: is_scalar_def)
  ultimately show ?thesis
    by (simp add: from_utf8_def)
qed

lemma ascii_bytes_all_ascii:
  assumes "\<forall>b\<in>set (str_bytes s). unat b < 128"
  shows "all_ascii s"
  using assms
proof (induction s)
  case Nil
  then show ?case by simp
next
  case (Cons c s)
  have "c < 128"
  proof (rule ccontr)
    assume "\<not> c < 128"
    then have "last (utf8_char c) = of_nat (0x80 + c mod 0x40)"
      by (simp add: utf8_char_def)
    moreover have "unat (of_nat (0x80 + c mod 0x40) :: byte) = 0x80 + c mod 0x40"
      unfolding unat_of_nat_byte by (rule mod_less) (simp add: less_trans [OF mod_less_divisor])
    moreover have "last (utf8_char c) \<in> set (str_bytes (c # s))"
      by simp
    ultimately have "0x80 + c mod 0x40 < 128"
      using Cons.prems by metis
    then show False by simp
  qed
  with Cons show ?case by simp
qed

end
