(* ===== verification/Identifier.thy ===== *)
theory Identifier
  imports Rust_Text
begin

text \<open>
  Policy and scope identifiers of \<open>runlimit-core\<close> (\<open>identifier.rs\<close>): the shared validation
  function, the two newtypes the macro \<open>identifier_type!\<close> declares, and the alphabet facts the
  storage-key encodings rest on.
\<close>

section \<open>Model\<close>

definition MAX_IDENTIFIER_LENGTH :: nat where
  "MAX_IDENTIFIER_LENGTH = 128"

datatype identifier_error =
    IdentifierError_Empty
  | IdentifierError_TooLong (actual_len: nat) (maximum_len: nat)
  | IdentifierError_InvalidCharacter (bad_index: nat) (bad_character: rchar)

definition identifier_char :: "rchar \<Rightarrow> bool" where
  "identifier_char c \<longleftrightarrow> is_ascii_alphanumeric c \<or> c \<in> set (lit ''-._:/'')"

fun validate_characters :: "(nat \<times> rchar) list \<Rightarrow> identifier_error + unit" where
  "validate_characters [] = Inr ()"
| "validate_characters ((index, character) # rest) =
     (if \<not> identifier_char character
      then Inl (IdentifierError_InvalidCharacter index character)
      else validate_characters rest)"

definition validate :: "rstr \<Rightarrow> identifier_error + unit" where
  "validate value =
     (if value = [] then Inl IdentifierError_Empty
      else if str_len value > MAX_IDENTIFIER_LENGTH
      then Inl (IdentifierError_TooLong (str_len value) MAX_IDENTIFIER_LENGTH)
      else validate_characters (char_indices value))"

datatype policy_id = PolicyId (policy_id_str: rstr)

datatype scope_id = ScopeId (scope_id_str: rstr)

definition PolicyId_new :: "rstr \<Rightarrow> identifier_error + policy_id" where
  "PolicyId_new value = try_bind (validate value) (\<lambda>_. Inr (PolicyId value))"

definition ScopeId_new :: "rstr \<Rightarrow> identifier_error + scope_id" where
  "ScopeId_new value = try_bind (validate value) (\<lambda>_. Inr (ScopeId value))"

section \<open>The validated type\<close>

definition identifier_ok :: "rstr \<Rightarrow> bool" where
  "identifier_ok s \<longleftrightarrow> s \<noteq> [] \<and> length s \<le> MAX_IDENTIFIER_LENGTH \<and> (\<forall>c\<in>set s. identifier_char c)"

lemma identifier_char_ascii: "identifier_char c \<Longrightarrow> 0 < c \<and> c < 128"
  by (auto simp: identifier_char_def lit_def is_ascii_alphanumeric_def is_ascii_digit_def
      is_ascii_uppercase_def is_ascii_lowercase_def)

lemma identifier_ok_ascii: "identifier_ok s \<Longrightarrow> all_ascii s \<and> 0 \<notin> set s"
  using identifier_char_ascii by (force simp: identifier_ok_def all_ascii_def)

lemma identifier_ok_no_nul: "identifier_ok s \<Longrightarrow> 0 \<notin> set (str_bytes s)"
  by (simp add: identifier_ok_ascii zero_notin_str_bytes_ascii)

lemma identifier_bytes_inject:
  "identifier_ok s \<Longrightarrow> identifier_ok t \<Longrightarrow> str_bytes s = str_bytes t \<Longrightarrow> s = t"
  by (simp add: identifier_ok_ascii str_bytes_ascii_inject)

lemma validate_characters_ok:
  "validate_characters (char_indices_from i s) = Inr () \<longleftrightarrow> (\<forall>c\<in>set s. identifier_char c)"
  by (induction s arbitrary: i) auto

lemma validate_characters_first_bad:
  assumes "\<forall>c\<in>set xs. identifier_char c" and "\<not> identifier_char c"
  shows "validate_characters (char_indices_from i (xs @ c # ys)) =
     Inl (IdentifierError_InvalidCharacter (i + str_len xs) c)"
  using assms by (induction xs arbitrary: i) (auto simp: str_len_def add.assoc)

lemma identifier_chars_len: "\<forall>c\<in>set s. identifier_char c \<Longrightarrow> str_len s = length s"
  using identifier_char_ascii by (force intro: str_len_ascii simp: all_ascii_def)

lemma validate_ok_iff: "validate s = Inr () \<longleftrightarrow> identifier_ok s"
proof (cases "\<forall>c\<in>set s. identifier_char c")
  case True
  then show ?thesis
    by (auto simp: validate_def identifier_ok_def char_indices_def validate_characters_ok
        identifier_chars_len)
next
  case False
  then show ?thesis
    by (auto simp: validate_def identifier_ok_def char_indices_def validate_characters_ok)
qed

lemma PolicyId_new_ok: "PolicyId_new s = Inr p \<longleftrightarrow> identifier_ok s \<and> p = PolicyId s"
  by (auto simp: PolicyId_new_def result_simps validate_ok_iff [symmetric])

lemma ScopeId_new_ok: "ScopeId_new s = Inr p \<longleftrightarrow> identifier_ok s \<and> p = ScopeId s"
  by (auto simp: ScopeId_new_def result_simps validate_ok_iff [symmetric])

section \<open>Properties\<close>

text \<open>
  Identifier validation is exact. \<open>PolicyId::new\<close> and \<open>ScopeId::new\<close> accept precisely the
  non-empty strings of at most 128 characters from the storage-safe alphabet, keeping the string;
  a string that is short enough but has a foreign character is rejected with the byte index and the
  value of the first one.
\<close>

theorem identifier_validation_exact:
  "(PolicyId_new v = Inr p \<longleftrightarrow> identifier_ok v \<and> policy_id_str p = v) \<and>
   (ScopeId_new v = Inr q \<longleftrightarrow> identifier_ok v \<and> scope_id_str q = v) \<and>
   (list_all identifier_char xs \<and> \<not> identifier_char c \<and> str_len (xs @ c # ys) \<le> MAX_IDENTIFIER_LENGTH \<longrightarrow>
      PolicyId_new (xs @ c # ys) = Inl (IdentifierError_InvalidCharacter (str_len xs) c))"
proof -
  have "PolicyId_new (xs @ c # ys) = Inl (IdentifierError_InvalidCharacter (str_len xs) c)"
    if "list_all identifier_char xs" and "\<not> identifier_char c"
      and "str_len (xs @ c # ys) \<le> MAX_IDENTIFIER_LENGTH"
    using validate_characters_first_bad [of xs c 0 ys] that
    by (simp add: PolicyId_new_def validate_def char_indices_def list_all_iff)
  then show ?thesis by (cases p; cases q) (auto simp: PolicyId_new_ok ScopeId_new_ok)
qed

theorem identifier_validation_exact_witness:
  "PolicyId_new (lit ''ab'' @ 233 # lit ''c'') = Inl (IdentifierError_InvalidCharacter 2 233)"
  using identifier_validation_exact [of "lit ''ab''" "PolicyId (lit ''ab'')" "ScopeId (lit ''ab'')" "lit ''ab''" 233 "lit ''c''"]
  by (simp add: lit_def identifier_char_def is_ascii_alphanumeric_def is_ascii_digit_def
      is_ascii_uppercase_def is_ascii_lowercase_def str_len_def utf8_char_def MAX_IDENTIFIER_LENGTH_def)

end
