(* ===== verification/Policy.thy ===== *)
theory Policy
  imports Identifier
begin

text \<open>
  Rate-limit policies of \<open>runlimit-core\<close> (\<open>policy.rs\<close>): validated capacities and periods, the
  fixed-window and GCRA policies with their storage-key fingerprints, the trait
  \<open>RateLimitPolicy\<close> as a dictionary record, and the Serde wire forms. SHA-256 comes from a crate
  outside the repository and is the parameter \<open>sha256\<close> of every definition that hashes.
\<close>

section \<open>Validated numbers\<close>

definition MAX_EXACT_DOUBLE_INTEGER :: nat where
  "MAX_EXACT_DOUBLE_INTEGER = 2 ^ 53"

definition MAX_LIMIT :: nat where
  "MAX_LIMIT = 2 ^ 63 - 1"

definition MAX_WINDOW_MILLIS :: nat where
  "MAX_WINDOW_MILLIS = MAX_EXACT_DOUBLE_INTEGER div 1000"

definition MAX_WINDOW :: duration where
  "MAX_WINDOW = from_millis MAX_WINDOW_MILLIS"

datatype capacity = Capacity (capacity_get: nat)

datatype capacity_error =
    CapacityError_Zero
  | CapacityError_TooLarge nat nat

definition Capacity_new :: "nat \<Rightarrow> capacity_error + capacity" where
  "Capacity_new value =
     (if value = 0 then Inl CapacityError_Zero
      else if value > MAX_LIMIT then Inl (CapacityError_TooLarge value MAX_LIMIT)
      else Inr (Capacity value))"

datatype quota_period = QuotaPeriod (period_millis: nat)

datatype quota_period_error =
    QuotaPeriodError_Zero
  | QuotaPeriodError_NotWholeMilliseconds
  | QuotaPeriodError_TooLarge duration duration

definition QuotaPeriod_new :: "duration \<Rightarrow> quota_period_error + quota_period" where
  "QuotaPeriod_new period =
     (if period = 0 then Inl QuotaPeriodError_Zero
      else if subsec_nanos period mod 1000000 \<noteq> 0
      then Inl QuotaPeriodError_NotWholeMilliseconds
      else if period > MAX_WINDOW then Inl (QuotaPeriodError_TooLarge period MAX_WINDOW)
      else try_bind
        (ok_or (try_from_nat U64_MAX (as_millis period))
          (QuotaPeriodError_TooLarge period MAX_WINDOW))
        (\<lambda>millis. if millis = 0 then Inl QuotaPeriodError_Zero else Inr (QuotaPeriod millis)))"

definition period_duration :: "quota_period \<Rightarrow> duration" where
  "period_duration p = from_millis (period_millis p)"

datatype quota_mode = Enforce | Shadow

section \<open>Fingerprints\<close>

datatype policy_fingerprint = PolicyFingerprint (fingerprint_bytes: bytes)

definition FIXED_WINDOW_FINGERPRINT_DOMAIN :: bytes where
  "FIXED_WINDOW_FINGERPRINT_DOMAIN = str_bytes (lit ''runlimit/fixed-window-policy/v1'') @ [0]"

definition GCRA_FINGERPRINT_DOMAIN :: bytes where
  "GCRA_FINGERPRINT_DOMAIN = str_bytes (lit ''runlimit/gcra-policy/v1'') @ [0]"

definition fixed_window_preimage ::
  "policy_id \<Rightarrow> scope_id \<Rightarrow> capacity \<Rightarrow> quota_period \<Rightarrow> bytes" where
  "fixed_window_preimage i s limit window =
     FIXED_WINDOW_FINGERPRINT_DOMAIN @ str_bytes (policy_id_str i) @ [0] @
     str_bytes (scope_id_str s) @ [0] @ be_bytes 8 (capacity_get limit) @
     be_bytes 8 (period_millis window)"

definition fingerprint ::
  "(bytes \<Rightarrow> bytes) \<Rightarrow> policy_id \<Rightarrow> scope_id \<Rightarrow> capacity \<Rightarrow> quota_period \<Rightarrow> policy_fingerprint" where
  "fingerprint sha256 i s limit window =
     PolicyFingerprint (sha256 (fixed_window_preimage i s limit window))"

definition gcra_preimage ::
  "policy_id \<Rightarrow> scope_id \<Rightarrow> capacity \<Rightarrow> quota_period \<Rightarrow> capacity \<Rightarrow> bytes" where
  "gcra_preimage i s quota period burst =
     GCRA_FINGERPRINT_DOMAIN @ str_bytes (policy_id_str i) @ [0] @
     str_bytes (scope_id_str s) @ [0] @ be_bytes 8 (capacity_get quota) @
     be_bytes 8 (period_millis period) @ be_bytes 8 (capacity_get burst)"

definition gcra_fingerprint ::
  "(bytes \<Rightarrow> bytes) \<Rightarrow> policy_id \<Rightarrow> scope_id \<Rightarrow> capacity \<Rightarrow> quota_period \<Rightarrow> capacity
    \<Rightarrow> policy_fingerprint" where
  "gcra_fingerprint sha256 i s quota period burst =
     PolicyFingerprint (sha256 (gcra_preimage i s quota period burst))"

section \<open>The fixed-window policy\<close>

record fixed_window_policy =
  fw_id :: policy_id
  fw_scope :: scope_id
  fw_limit :: capacity
  fw_window :: quota_period
  fw_fingerprint :: policy_fingerprint
  fw_quota_mode :: quota_mode

datatype policy_error =
    PolicyError_ZeroLimit
  | PolicyError_LimitTooLarge nat nat
  | PolicyError_ZeroWindow
  | PolicyError_WindowNotWholeMilliseconds
  | PolicyError_WindowTooLarge duration duration

fun policy_error_of_capacity :: "capacity_error \<Rightarrow> policy_error" where
  "policy_error_of_capacity CapacityError_Zero = PolicyError_ZeroLimit"
| "policy_error_of_capacity (CapacityError_TooLarge actual maximum) =
     PolicyError_LimitTooLarge actual maximum"

fun policy_error_of_period :: "quota_period_error \<Rightarrow> policy_error" where
  "policy_error_of_period QuotaPeriodError_Zero = PolicyError_ZeroWindow"
| "policy_error_of_period QuotaPeriodError_NotWholeMilliseconds =
     PolicyError_WindowNotWholeMilliseconds"
| "policy_error_of_period (QuotaPeriodError_TooLarge actual maximum) =
     PolicyError_WindowTooLarge actual maximum"

definition FixedWindowPolicy_new ::
  "(bytes \<Rightarrow> bytes) \<Rightarrow> policy_id \<Rightarrow> scope_id \<Rightarrow> nat \<Rightarrow> duration
    \<Rightarrow> policy_error + fixed_window_policy" where
  "FixedWindowPolicy_new sha256 i s limit window =
     try_bind (map_err policy_error_of_capacity (Capacity_new limit)) (\<lambda>limit.
     try_bind (map_err policy_error_of_period (QuotaPeriod_new window)) (\<lambda>window.
       Inr \<lparr>fw_id = i, fw_scope = s, fw_limit = limit, fw_window = window,
            fw_fingerprint = fingerprint sha256 i s limit window, fw_quota_mode = Enforce\<rparr>))"

definition fw_with_quota_mode :: "quota_mode \<Rightarrow> fixed_window_policy \<Rightarrow> fixed_window_policy" where
  "fw_with_quota_mode mode p = p\<lparr>fw_quota_mode := mode\<rparr>"

section \<open>The GCRA policy\<close>

record gcra_policy =
  gp_id :: policy_id
  gp_scope :: scope_id
  gp_quota :: capacity
  gp_period :: quota_period
  gp_burst_capacity :: capacity
  gp_fingerprint :: policy_fingerprint
  gp_quota_mode :: quota_mode

datatype gcra_policy_error =
    GcraPolicyError_ZeroQuota
  | GcraPolicyError_QuotaTooLarge nat nat
  | GcraPolicyError_ZeroBurstCapacity
  | GcraPolicyError_BurstCapacityTooLarge nat nat
  | GcraPolicyError_ZeroPeriod
  | GcraPolicyError_PeriodNotWholeMilliseconds
  | GcraPolicyError_PeriodTooLarge duration duration
  | GcraPolicyError_RefillDurationTooLarge nat nat

fun gcra_error_of_quota :: "capacity_error \<Rightarrow> gcra_policy_error" where
  "gcra_error_of_quota CapacityError_Zero = GcraPolicyError_ZeroQuota"
| "gcra_error_of_quota (CapacityError_TooLarge actual maximum) =
     GcraPolicyError_QuotaTooLarge actual maximum"

fun gcra_error_of_burst :: "capacity_error \<Rightarrow> gcra_policy_error" where
  "gcra_error_of_burst CapacityError_Zero = GcraPolicyError_ZeroBurstCapacity"
| "gcra_error_of_burst (CapacityError_TooLarge actual maximum) =
     GcraPolicyError_BurstCapacityTooLarge actual maximum"

fun gcra_error_of_period :: "quota_period_error \<Rightarrow> gcra_policy_error" where
  "gcra_error_of_period QuotaPeriodError_Zero = GcraPolicyError_ZeroPeriod"
| "gcra_error_of_period QuotaPeriodError_NotWholeMilliseconds =
     GcraPolicyError_PeriodNotWholeMilliseconds"
| "gcra_error_of_period (QuotaPeriodError_TooLarge actual maximum) =
     GcraPolicyError_PeriodTooLarge actual maximum"

definition div_ceil_u128 :: "nat \<Rightarrow> nat \<Rightarrow> nat" where
  "div_ceil_u128 numerator denominator =
     numerator div denominator + (if numerator mod denominator = 0 then 0 else 1)"

definition GcraPolicy_new ::
  "(bytes \<Rightarrow> bytes) \<Rightarrow> policy_id \<Rightarrow> scope_id \<Rightarrow> nat \<Rightarrow> duration \<Rightarrow> nat
    \<Rightarrow> gcra_policy_error + gcra_policy" where
  "GcraPolicy_new sha256 i s quota period burst_capacity =
     try_bind (map_err gcra_error_of_quota (Capacity_new quota)) (\<lambda>quota.
     try_bind (map_err gcra_error_of_burst (Capacity_new burst_capacity)) (\<lambda>burst_capacity.
     try_bind (map_err gcra_error_of_period (QuotaPeriod_new period)) (\<lambda>period.
       let full_refill_millis =
             div_ceil_u128 (capacity_get burst_capacity * period_millis period) (capacity_get quota)
       in if full_refill_millis > MAX_WINDOW_MILLIS
          then Inl (GcraPolicyError_RefillDurationTooLarge full_refill_millis MAX_WINDOW_MILLIS)
          else Inr \<lparr>gp_id = i, gp_scope = s, gp_quota = quota, gp_period = period,
                    gp_burst_capacity = burst_capacity,
                    gp_fingerprint = gcra_fingerprint sha256 i s quota period burst_capacity,
                    gp_quota_mode = Enforce\<rparr>)))"

definition gp_with_quota_mode :: "quota_mode \<Rightarrow> gcra_policy \<Rightarrow> gcra_policy" where
  "gp_with_quota_mode mode p = p\<lparr>gp_quota_mode := mode\<rparr>"

section \<open>The trait as a dictionary\<close>

record 'p rate_limit_policy_trait =
  trait_id :: "'p \<Rightarrow> policy_id"
  trait_scope :: "'p \<Rightarrow> scope_id"
  trait_quota :: "'p \<Rightarrow> capacity"
  trait_quota_period :: "'p \<Rightarrow> quota_period"
  trait_capacity :: "'p \<Rightarrow> capacity"
  trait_fingerprint :: "'p \<Rightarrow> policy_fingerprint"
  trait_quota_mode :: "'p \<Rightarrow> quota_mode"

definition fixed_window_trait :: "fixed_window_policy rate_limit_policy_trait" where
  "fixed_window_trait =
     \<lparr>trait_id = fw_id, trait_scope = fw_scope, trait_quota = fw_limit,
      trait_quota_period = fw_window, trait_capacity = fw_limit,
      trait_fingerprint = fw_fingerprint, trait_quota_mode = fw_quota_mode\<rparr>"

definition gcra_trait :: "gcra_policy rate_limit_policy_trait" where
  "gcra_trait =
     \<lparr>trait_id = gp_id, trait_scope = gp_scope, trait_quota = gp_quota,
      trait_quota_period = gp_period, trait_capacity = gp_burst_capacity,
      trait_fingerprint = gp_fingerprint, trait_quota_mode = gp_quota_mode\<rparr>"

section \<open>Wire forms\<close>

record fixed_window_wire =
  fww_id :: policy_id
  fww_scope :: scope_id
  fww_limit :: nat
  fww_window_millis :: nat
  fww_quota_mode :: quota_mode

definition fixed_window_serialize :: "fixed_window_policy \<Rightarrow> fixed_window_wire" where
  "fixed_window_serialize p =
     \<lparr>fww_id = fw_id p, fww_scope = fw_scope p, fww_limit = capacity_get (fw_limit p),
      fww_window_millis = period_millis (fw_window p), fww_quota_mode = fw_quota_mode p\<rparr>"

definition fixed_window_deserialize ::
  "(bytes \<Rightarrow> bytes) \<Rightarrow> fixed_window_wire \<Rightarrow> policy_error + fixed_window_policy" where
  "fixed_window_deserialize sha256 wire =
     map_ok (fw_with_quota_mode (fww_quota_mode wire))
       (FixedWindowPolicy_new sha256 (fww_id wire) (fww_scope wire) (fww_limit wire)
         (from_millis (fww_window_millis wire)))"

record gcra_wire =
  gpw_id :: policy_id
  gpw_scope :: scope_id
  gpw_quota :: nat
  gpw_period_millis :: nat
  gpw_burst_capacity :: nat
  gpw_quota_mode :: quota_mode

definition gcra_serialize :: "gcra_policy \<Rightarrow> gcra_wire" where
  "gcra_serialize p =
     \<lparr>gpw_id = gp_id p, gpw_scope = gp_scope p, gpw_quota = capacity_get (gp_quota p),
      gpw_period_millis = period_millis (gp_period p),
      gpw_burst_capacity = capacity_get (gp_burst_capacity p),
      gpw_quota_mode = gp_quota_mode p\<rparr>"

definition gcra_deserialize ::
  "(bytes \<Rightarrow> bytes) \<Rightarrow> gcra_wire \<Rightarrow> gcra_policy_error + gcra_policy" where
  "gcra_deserialize sha256 wire =
     map_ok (gp_with_quota_mode (gpw_quota_mode wire))
       (GcraPolicy_new sha256 (gpw_id wire) (gpw_scope wire) (gpw_quota wire)
         (from_millis (gpw_period_millis wire)) (gpw_burst_capacity wire))"

section \<open>Validity\<close>

definition capacity_ok :: "capacity \<Rightarrow> bool" where
  "capacity_ok c \<longleftrightarrow> 0 < capacity_get c \<and> capacity_get c \<le> MAX_LIMIT"

definition period_ok :: "quota_period \<Rightarrow> bool" where
  "period_ok p \<longleftrightarrow> 0 < period_millis p \<and> period_millis p \<le> MAX_WINDOW_MILLIS"

definition fixed_window_ok :: "(bytes \<Rightarrow> bytes) \<Rightarrow> fixed_window_policy \<Rightarrow> bool" where
  "fixed_window_ok sha256 p \<longleftrightarrow>
     capacity_ok (fw_limit p) \<and> period_ok (fw_window p) \<and>
     fw_fingerprint p = fingerprint sha256 (fw_id p) (fw_scope p) (fw_limit p) (fw_window p)"

definition gcra_ok :: "(bytes \<Rightarrow> bytes) \<Rightarrow> gcra_policy \<Rightarrow> bool" where
  "gcra_ok sha256 p \<longleftrightarrow>
     capacity_ok (gp_quota p) \<and> period_ok (gp_period p) \<and> capacity_ok (gp_burst_capacity p) \<and>
     capacity_get (gp_burst_capacity p) * period_millis (gp_period p)
       \<le> MAX_WINDOW_MILLIS * capacity_get (gp_quota p) \<and>
     gp_fingerprint p =
       gcra_fingerprint sha256 (gp_id p) (gp_scope p) (gp_quota p) (gp_period p)
         (gp_burst_capacity p)"

lemma MAX_LIMIT_value [width_simps]: "MAX_LIMIT = 9223372036854775807"
  by (simp add: MAX_LIMIT_def)

lemma MAX_WINDOW_MILLIS_value [width_simps]: "MAX_WINDOW_MILLIS = 9007199254740"
  by (simp add: MAX_WINDOW_MILLIS_def MAX_EXACT_DOUBLE_INTEGER_def)

lemma div_ceil_u128_eq: "div_ceil_u128 n d = div_ceil n d"
  by (simp add: div_ceil_u128_def div_ceil_def)

lemma Capacity_new_ok: "Capacity_new v = Inr c \<longleftrightarrow> c = Capacity v \<and> capacity_ok c"
  by (auto simp: Capacity_new_def capacity_ok_def)

lemma Capacity_new_get: "capacity_ok c \<Longrightarrow> Capacity_new (capacity_get c) = Inr c"
  by (simp add: Capacity_new_ok)

lemma QuotaPeriod_new_from_millis:
  "QuotaPeriod_new (from_millis ms) =
     (if ms = 0 then Inl QuotaPeriodError_Zero
      else if MAX_WINDOW_MILLIS < ms
      then Inl (QuotaPeriodError_TooLarge (from_millis ms) MAX_WINDOW)
      else Inr (QuotaPeriod ms))"
proof -
  have "subsec_nanos (from_millis ms) mod 1000000 = 0"
    using whole_millis_iff [of "from_millis ms"] by (simp add: NANOS_PER_MILLI_def)
  then show ?thesis
    by (auto simp: QuotaPeriod_new_def MAX_WINDOW_def width_simps try_from_nat_def)
qed

lemma QuotaPeriod_new_fraction:
  "(\<nexists>ms. d = from_millis ms) \<Longrightarrow>
   QuotaPeriod_new d = Inl QuotaPeriodError_NotWholeMilliseconds"
  using whole_millis_iff [of d] from_millis_0
  by (cases "d = 0") (auto simp: QuotaPeriod_new_def NANOS_PER_MILLI_def)

lemma QuotaPeriod_new_ok:
  "QuotaPeriod_new d = Inr p \<longleftrightarrow> d = period_duration p \<and> period_ok p"
proof (cases "\<exists>ms. d = from_millis ms")
  case True
  then show ?thesis
    by (cases p)
       (auto simp: QuotaPeriod_new_from_millis period_duration_def period_ok_def split: if_splits)
next
  case False
  then show ?thesis
    by (auto simp: QuotaPeriod_new_fraction period_duration_def)
qed

lemma QuotaPeriod_new_millis:
  "period_ok p \<Longrightarrow> QuotaPeriod_new (from_millis (period_millis p)) = Inr p"
  by (simp add: QuotaPeriod_new_ok period_duration_def)

lemma FixedWindowPolicy_new_ok:
  "FixedWindowPolicy_new sha i s limit window = Inr p \<longleftrightarrow>
     fixed_window_ok sha p \<and> fw_id p = i \<and> fw_scope p = s \<and> capacity_get (fw_limit p) = limit \<and>
     period_duration (fw_window p) = window \<and> fw_quota_mode p = Enforce"
  by (cases p)
     (auto simp: FixedWindowPolicy_new_def result_simps Capacity_new_ok QuotaPeriod_new_ok
       fixed_window_ok_def)

lemma GcraPolicy_new_ok:
  "GcraPolicy_new sha i s quota period burst = Inr p \<longleftrightarrow>
     gcra_ok sha p \<and> gp_id p = i \<and> gp_scope p = s \<and> capacity_get (gp_quota p) = quota \<and>
     period_duration (gp_period p) = period \<and> capacity_get (gp_burst_capacity p) = burst \<and>
     gp_quota_mode p = Enforce"
  by (cases p)
     (auto simp: GcraPolicy_new_def result_simps Capacity_new_ok QuotaPeriod_new_ok
       gcra_ok_def Let_def not_less capacity_ok_def div_ceil_u128_eq div_ceil_le_iff
       split: if_splits)

subsection \<open>The products the policies form stay inside 128 bits\<close>

lemma capacity_le_U64: "capacity_ok c \<Longrightarrow> capacity_get c \<le> U64_MAX"
  by (simp add: capacity_ok_def width_simps)

lemma period_le_U64: "period_ok p \<Longrightarrow> period_millis p \<le> U64_MAX"
  by (simp add: period_ok_def width_simps)

lemma capacity_period_le:
  assumes "c \<le> MAX_LIMIT" and "period_ok p"
  shows "c * period_millis p \<le> MAX_LIMIT * MAX_WINDOW_MILLIS"
  using assms by (intro mult_le_mono) (auto simp: period_ok_def)

lemma capacity_period_le_U128:
  assumes "c \<le> MAX_LIMIT" and "period_ok p"
  shows "c * period_millis p \<le> U128_MAX"
proof -
  have "c * period_millis p \<le> MAX_LIMIT * MAX_WINDOW_MILLIS"
    by (rule capacity_period_le [OF assms])
  also have "\<dots> \<le> U128_MAX" by (simp add: width_simps)
  finally show ?thesis .
qed

subsection \<open>The trait's contract\<close>

text \<open>
  Every policy implementation returns validated numbers and identifies its storage by a
  fingerprint that ignores the deployment mode. Checks, batches and stores rely on nothing else
  about a policy.
\<close>

locale rate_limit_policy =
  fixes policy :: "'p rate_limit_policy_trait"
    and valid :: "'p \<Rightarrow> bool"
    and with_mode :: "quota_mode \<Rightarrow> 'p \<Rightarrow> 'p"
  assumes quota_valid: "valid p \<Longrightarrow> capacity_ok (trait_quota policy p)"
    and period_valid: "valid p \<Longrightarrow> period_ok (trait_quota_period policy p)"
    and capacity_valid: "valid p \<Longrightarrow> capacity_ok (trait_capacity policy p)"
    and mode_fingerprint: "trait_fingerprint policy (with_mode m p) = trait_fingerprint policy p"
    and mode_set: "trait_quota_mode policy (with_mode m p) = m"
    and mode_valid: "valid p \<Longrightarrow> valid (with_mode m p)"
begin

lemma unit_cost_fits: "valid p \<Longrightarrow> 1 \<le> capacity_get (trait_capacity policy p)"
  using capacity_valid [of p] by (simp add: capacity_ok_def)

lemma mode_change_keeps_storage:
  "valid p \<Longrightarrow> valid (with_mode m p) \<and>
   trait_fingerprint policy (with_mode m p) = trait_fingerprint policy p"
  by (simp add: mode_fingerprint mode_valid)

end

interpretation fixed_window_rlp: rate_limit_policy fixed_window_trait "fixed_window_ok sha256"
    fw_with_quota_mode for sha256
  by unfold_locales (auto simp: fixed_window_trait_def fixed_window_ok_def fw_with_quota_mode_def)

interpretation gcra_rlp: rate_limit_policy gcra_trait "gcra_ok sha256" gp_with_quota_mode
    for sha256
  by unfold_locales (auto simp: gcra_trait_def gcra_ok_def gp_with_quota_mode_def)

subsection \<open>Fingerprint preimages\<close>

definition policy_names_ok :: "policy_id \<Rightarrow> scope_id \<Rightarrow> bool" where
  "policy_names_ok i s \<longleftrightarrow> identifier_ok (policy_id_str i) \<and> identifier_ok (scope_id_str s)"

lemma domains_no_nul:
  "0 \<notin> set (str_bytes (lit ''runlimit/fixed-window-policy/v1''))"
  "0 \<notin> set (str_bytes (lit ''runlimit/gcra-policy/v1''))"
  by (rule zero_notin_str_bytes_ascii; simp add: lit_def)+

lemma domains_differ:
  "str_bytes (lit ''runlimit/fixed-window-policy/v1'') \<noteq> str_bytes (lit ''runlimit/gcra-policy/v1'')"
  using str_bytes_ascii_inject [of "lit ''runlimit/fixed-window-policy/v1''" "lit ''runlimit/gcra-policy/v1''"]
  by (auto simp: lit_def)

lemma be8_capacity_inject:
  "capacity_ok a \<Longrightarrow> capacity_ok b \<Longrightarrow>
   be_bytes 8 (capacity_get a) = be_bytes 8 (capacity_get b) \<longleftrightarrow> a = b"
  by (subst be_bytes_inject) (auto simp: capacity_ok_def width_simps capacity.expand)

lemma be8_period_inject:
  "period_ok a \<Longrightarrow> period_ok b \<Longrightarrow>
   be_bytes 8 (period_millis a) = be_bytes 8 (period_millis b) \<longleftrightarrow> a = b"
  by (subst be_bytes_inject) (auto simp: period_ok_def width_simps quota_period.expand)

lemma named_prefix_inject:
  assumes "policy_names_ok i s" and "policy_names_ok i' s'"
  shows "str_bytes (policy_id_str i) @ 0 # str_bytes (scope_id_str s) @ 0 # r =
     str_bytes (policy_id_str i') @ 0 # str_bytes (scope_id_str s') @ 0 # r' \<longleftrightarrow>
     i = i' \<and> s = s' \<and> r = r'"
  using assms
  by (auto simp: policy_names_ok_def nul_terminated_inject identifier_ok_no_nul
      policy_id.expand scope_id.expand dest: identifier_bytes_inject)

lemma fixed_window_preimage_inject:
  assumes "policy_names_ok i s" and "policy_names_ok i' s'"
    and "capacity_ok l" and "capacity_ok l'" and "period_ok w" and "period_ok w'"
  shows "fixed_window_preimage i s l w = fixed_window_preimage i' s' l' w' \<longleftrightarrow>
     i = i' \<and> s = s' \<and> l = l' \<and> w = w'"
  using assms
  by (auto simp: fixed_window_preimage_def named_prefix_inject be8_capacity_inject
      be8_period_inject)

lemma gcra_preimage_inject:
  assumes "policy_names_ok i s" and "policy_names_ok i' s'"
    and "capacity_ok q" and "capacity_ok q'" and "period_ok t" and "period_ok t'"
    and "capacity_ok b" and "capacity_ok b'"
  shows "gcra_preimage i s q t b = gcra_preimage i' s' q' t' b' \<longleftrightarrow>
     i = i' \<and> s = s' \<and> q = q' \<and> t = t' \<and> b = b'"
  using assms
  by (auto simp: gcra_preimage_def named_prefix_inject be8_capacity_inject be8_period_inject)

lemma preimages_disjoint: "fixed_window_preimage i s l w \<noteq> gcra_preimage i' s' q t b"
  using domains_differ domains_no_nul
  by (simp add: fixed_window_preimage_def gcra_preimage_def FIXED_WINDOW_FINGERPRINT_DOMAIN_def
      GCRA_FINGERPRINT_DOMAIN_def nul_terminated_inject)

section \<open>Properties\<close>

text \<open>
  \<open>GcraPolicy::new\<close> accepts exactly the policies whose numbers the rate limiter can represent:
  quota and burst from one to \<open>MAX_LIMIT\<close>, a period of a positive whole number of milliseconds up to
  \<open>MAX_WINDOW\<close>, and a full refill of the burst that takes at most \<open>MAX_WINDOW\<close>.
\<close>

theorem gcra_policy_accepts:
  "(\<exists>p. GcraPolicy_new sha256 i s quota period burst = Inr p) \<longleftrightarrow>
   0 < quota \<and> quota \<le> MAX_LIMIT \<and> 0 < burst \<and> burst \<le> MAX_LIMIT \<and>
   (\<exists>ms. period = from_millis ms \<and> 0 < ms \<and> ms \<le> MAX_WINDOW_MILLIS \<and>
      burst * ms \<le> MAX_WINDOW_MILLIS * quota)"
  (is "?accepted \<longleftrightarrow> ?numbers")
proof
  assume ?accepted
  then show ?numbers
    by (auto simp: GcraPolicy_new_ok gcra_ok_def capacity_ok_def period_ok_def period_duration_def)
next
  assume ?numbers
  then obtain ms where ms: "period = from_millis ms" "0 < ms" "ms \<le> MAX_WINDOW_MILLIS"
      "burst * ms \<le> MAX_WINDOW_MILLIS * quota" by blast
  with \<open>?numbers\<close> have "GcraPolicy_new sha256 i s quota period burst =
     Inr \<lparr>gp_id = i, gp_scope = s, gp_quota = Capacity quota, gp_period = QuotaPeriod ms,
          gp_burst_capacity = Capacity burst,
          gp_fingerprint = gcra_fingerprint sha256 i s (Capacity quota) (QuotaPeriod ms) (Capacity burst),
          gp_quota_mode = Enforce\<rparr>"
    by (simp add: GcraPolicy_new_ok gcra_ok_def capacity_ok_def period_ok_def period_duration_def)
  then show ?accepted by blast
qed

text \<open>
  Policies survive their wire form. Deserializing what a valid policy of either kind serializes
  to gives that policy back, its deployment mode and recomputed fingerprint included, and whatever
  deserialization accepts is a valid policy.
\<close>

theorem policy_serde_roundtrip:
  assumes "fixed_window_ok sha256 p" and "gcra_ok sha256 g"
  shows "fixed_window_deserialize sha256 (fixed_window_serialize p) = Inr p \<and>
    gcra_deserialize sha256 (gcra_serialize g) = Inr g \<and>
    (fixed_window_deserialize sha256 w = Inr p' \<longrightarrow> fixed_window_ok sha256 p') \<and>
    (gcra_deserialize sha256 v = Inr g' \<longrightarrow> gcra_ok sha256 g')"
proof (intro conjI impI)
  show "fixed_window_deserialize sha256 (fixed_window_serialize p) = Inr p"
    using assms(1)
    by (simp add: fixed_window_deserialize_def fixed_window_serialize_def FixedWindowPolicy_new_def
        Capacity_new_get QuotaPeriod_new_millis fixed_window_ok_def fw_with_quota_mode_def)
  show "gcra_deserialize sha256 (gcra_serialize g) = Inr g"
    using assms(2)
    by (simp add: gcra_deserialize_def gcra_serialize_def GcraPolicy_new_def Capacity_new_get
        QuotaPeriod_new_millis gcra_ok_def gp_with_quota_mode_def Let_def div_ceil_u128_eq not_less
        div_ceil_le_iff capacity_ok_def)
next
  assume "fixed_window_deserialize sha256 w = Inr p'"
  then show "fixed_window_ok sha256 p'"
    by (auto simp: fixed_window_deserialize_def result_simps FixedWindowPolicy_new_ok
        fixed_window_rlp.mode_valid)
next
  assume "gcra_deserialize sha256 v = Inr g'"
  then show "gcra_ok sha256 g'"
    by (auto simp: gcra_deserialize_def result_simps GcraPolicy_new_ok gcra_rlp.mode_valid)
qed

text \<open>Concrete policies for the witnesses.\<close>

definition sample_window_policy :: "(bytes \<Rightarrow> bytes) \<Rightarrow> nat \<Rightarrow> fixed_window_policy" where
  "sample_window_policy sha256 limit =
     \<lparr>fw_id = PolicyId (lit ''login''), fw_scope = ScopeId (lit ''global''),
      fw_limit = Capacity limit, fw_window = QuotaPeriod 60000,
      fw_fingerprint = fingerprint sha256 (PolicyId (lit ''login'')) (ScopeId (lit ''global''))
        (Capacity limit) (QuotaPeriod 60000),
      fw_quota_mode = Enforce\<rparr>"

definition sample_gcra_policy :: "(bytes \<Rightarrow> bytes) \<Rightarrow> gcra_policy" where
  "sample_gcra_policy sha256 =
     \<lparr>gp_id = PolicyId (lit ''login''), gp_scope = ScopeId (lit ''global''),
      gp_quota = Capacity 10, gp_period = QuotaPeriod 1000, gp_burst_capacity = Capacity 5,
      gp_fingerprint = gcra_fingerprint sha256 (PolicyId (lit ''login'')) (ScopeId (lit ''global''))
        (Capacity 10) (QuotaPeriod 1000) (Capacity 5),
      gp_quota_mode = Enforce\<rparr>"

lemma sample_window_policy_ok:
  "0 < limit \<Longrightarrow> limit \<le> 1000 \<Longrightarrow> fixed_window_ok sha256 (sample_window_policy sha256 limit)"
  by (simp add: sample_window_policy_def fixed_window_ok_def capacity_ok_def period_ok_def width_simps)

lemma sample_gcra_policy_ok: "gcra_ok sha256 (sample_gcra_policy sha256)"
  by (simp add: sample_gcra_policy_def gcra_ok_def capacity_ok_def period_ok_def width_simps)

lemma sample_names_ok: "policy_names_ok (PolicyId (lit ''login'')) (ScopeId (lit ''global''))"
  by (simp add: policy_names_ok_def identifier_ok_def identifier_char_def lit_def
      MAX_IDENTIFIER_LENGTH_def is_ascii_alphanumeric_def is_ascii_digit_def is_ascii_lowercase_def)

theorem policy_serde_roundtrip_witness:
  "fixed_window_deserialize (\<lambda>b. b) (fixed_window_serialize (sample_window_policy (\<lambda>b. b) 3)) =
     Inr (sample_window_policy (\<lambda>b. b) 3) \<and>
   gcra_deserialize (\<lambda>b. b) (gcra_serialize (sample_gcra_policy (\<lambda>b. b))) =
     Inr (sample_gcra_policy (\<lambda>b. b))"
  using policy_serde_roundtrip [OF sample_window_policy_ok sample_gcra_policy_ok, of 3 "\<lambda>b. b"] by simp

text \<open>
  Storage fingerprints separate policies. If the hash has no collision among the four preimages
  concerned, two fixed-window policies share a fingerprint exactly when they agree on identifier,
  scope, limit and window, two GCRA policies exactly when they agree on identifier, scope, quota,
  period and burst, and a fixed-window policy never shares one with a GCRA policy. The deployment
  mode takes no part.
\<close>

theorem policy_fingerprint_separates:
  assumes "fixed_window_ok sha256 p" and "fixed_window_ok sha256 p'"
    and "gcra_ok sha256 g" and "gcra_ok sha256 g'"
    and "policy_names_ok (fw_id p) (fw_scope p)" and "policy_names_ok (fw_id p') (fw_scope p')"
    and "policy_names_ok (gp_id g) (gp_scope g)" and "policy_names_ok (gp_id g') (gp_scope g')"
    and no_collision: "inj_on sha256
      {fixed_window_preimage (fw_id p) (fw_scope p) (fw_limit p) (fw_window p),
       fixed_window_preimage (fw_id p') (fw_scope p') (fw_limit p') (fw_window p'),
       gcra_preimage (gp_id g) (gp_scope g) (gp_quota g) (gp_period g) (gp_burst_capacity g),
       gcra_preimage (gp_id g') (gp_scope g') (gp_quota g') (gp_period g') (gp_burst_capacity g')}"
  shows "(fw_fingerprint p = fw_fingerprint p' \<longleftrightarrow>
      fw_id p = fw_id p' \<and> fw_scope p = fw_scope p' \<and> fw_limit p = fw_limit p' \<and>
      fw_window p = fw_window p') \<and>
    (gp_fingerprint g = gp_fingerprint g' \<longleftrightarrow>
      gp_id g = gp_id g' \<and> gp_scope g = gp_scope g' \<and> gp_quota g = gp_quota g' \<and>
      gp_period g = gp_period g' \<and> gp_burst_capacity g = gp_burst_capacity g') \<and>
    fw_fingerprint p \<noteq> gp_fingerprint g"
proof -
  note fp = fixed_window_ok_def fingerprint_def gcra_ok_def gcra_fingerprint_def
  have "fw_fingerprint p = fw_fingerprint p' \<longleftrightarrow>
      fixed_window_preimage (fw_id p) (fw_scope p) (fw_limit p) (fw_window p) =
      fixed_window_preimage (fw_id p') (fw_scope p') (fw_limit p') (fw_window p')"
    using assms(1,2) inj_on_eq_iff [OF no_collision] by (simp add: fp)
  moreover have "gp_fingerprint g = gp_fingerprint g' \<longleftrightarrow>
      gcra_preimage (gp_id g) (gp_scope g) (gp_quota g) (gp_period g) (gp_burst_capacity g) =
      gcra_preimage (gp_id g') (gp_scope g') (gp_quota g') (gp_period g') (gp_burst_capacity g')"
    using assms(3,4) inj_on_eq_iff [OF no_collision] by (simp add: fp)
  moreover have "fw_fingerprint p = gp_fingerprint g \<longleftrightarrow>
      fixed_window_preimage (fw_id p) (fw_scope p) (fw_limit p) (fw_window p) =
      gcra_preimage (gp_id g) (gp_scope g) (gp_quota g) (gp_period g) (gp_burst_capacity g)"
    using assms(1,3) inj_on_eq_iff [OF no_collision] by (simp add: fp)
  ultimately show ?thesis
    using assms(1-8)
    by (simp add: fixed_window_preimage_inject gcra_preimage_inject preimages_disjoint
        fixed_window_ok_def gcra_ok_def)
qed

theorem policy_fingerprint_separates_witness:
  "fw_fingerprint (sample_window_policy (\<lambda>b. b) 3) \<noteq> fw_fingerprint (sample_window_policy (\<lambda>b. b) 4) \<and>
   fw_fingerprint (sample_window_policy (\<lambda>b. b) 3) \<noteq> gp_fingerprint (sample_gcra_policy (\<lambda>b. b))"
  using policy_fingerprint_separates [OF sample_window_policy_ok sample_window_policy_ok
      sample_gcra_policy_ok sample_gcra_policy_ok, of 3 4 "\<lambda>b. b"] sample_names_ok
  by (simp add: sample_window_policy_def sample_gcra_policy_def inj_on_def)

end
