(* ===== verification/Subject_Key.thy ===== *)
theory Subject_Key
  imports Policy
begin

text \<open>
  Subject keys (\<open>key.rs\<close>), storage counter keys (\<open>counter.rs\<close>) and their total orders in
  \<open>runlimit-core\<close>. HMAC-SHA-256 comes from a crate outside the repository: \<open>hmac key message\<close> is
  a parameter. A \<open>KeyHasher\<close> caches the keyed state after absorbing the key domain; the model
  keeps the key and the bytes absorbed so far.
\<close>

section \<open>Keys\<close>

datatype subject_key = SubjectKey (subject_bytes: bytes)

datatype counter_key = CounterKey (ck_fingerprint: policy_fingerprint) (ck_subject: subject_key)

definition CounterKey_to_bytes :: "counter_key \<Rightarrow> bytes" where
  "CounterKey_to_bytes k = fingerprint_bytes (ck_fingerprint k) @ subject_bytes (ck_subject k)"

definition counter_key_order :: "counter_key \<Rightarrow> bytes \<times> bytes" where
  "counter_key_order k = (fingerprint_bytes (ck_fingerprint k), subject_bytes (ck_subject k))"

text \<open>The derived \<open>Ord\<close>: fingerprint first, then subject, each compared byte by byte.\<close>

instantiation counter_key :: linorder
begin

definition less_eq_counter_key :: "counter_key \<Rightarrow> counter_key \<Rightarrow> bool" where
  "less_eq_counter_key a b \<longleftrightarrow> counter_key_order a \<le> counter_key_order b"

definition less_counter_key :: "counter_key \<Rightarrow> counter_key \<Rightarrow> bool" where
  "less_counter_key a b \<longleftrightarrow> counter_key_order a < counter_key_order b"

instance
proof
  fix x y z :: counter_key
  show "x < y \<longleftrightarrow> x \<le> y \<and> \<not> y \<le> x"
    by (auto simp: less_eq_counter_key_def less_counter_key_def)
  show "x \<le> x"
    by (simp add: less_eq_counter_key_def)
  show "x \<le> y \<Longrightarrow> y \<le> z \<Longrightarrow> x \<le> z"
    unfolding less_eq_counter_key_def by (rule order_trans)
  show "x \<le> y \<or> y \<le> x"
    unfolding less_eq_counter_key_def by (rule linear)
  show "x = y" if "x \<le> y" and "y \<le> x"
  proof -
    have "counter_key_order x = counter_key_order y"
      using that unfolding less_eq_counter_key_def by (rule antisym)
    then show ?thesis
      by (cases x; cases y)
         (simp add: counter_key_order_def policy_fingerprint.expand subject_key.expand)
  qed
qed

end

section \<open>Policy-bound subjects and the key hasher\<close>

record 'p policy_subject =
  ps_policy :: 'p
  ps_subject :: subject_key

definition subject_bind :: "subject_key \<Rightarrow> 'p \<Rightarrow> 'p policy_subject" where
  "subject_bind subject policy = \<lparr>ps_policy = policy, ps_subject = subject\<rparr>"

definition KEY_DOMAIN :: bytes where
  "KEY_DOMAIN = str_bytes (lit ''runlimit/subject-key/v1'') @ [0]"

definition ATTEMPT_DOMAIN :: bytes where
  "ATTEMPT_DOMAIN = str_bytes (lit ''attempt/v1'') @ [0]"

definition MINIMUM_SECRET_LENGTH :: nat where
  "MINIMUM_SECRET_LENGTH = 32"

record key_hasher =
  template_key :: bytes
  template_absorbed :: bytes

datatype key_hasher_error = KeyHasherError_SecretTooShort nat nat

definition KeyHasher_new :: "bytes \<Rightarrow> key_hasher_error + key_hasher" where
  "KeyHasher_new secret =
     (if length secret < MINIMUM_SECRET_LENGTH
      then Inl (KeyHasherError_SecretTooShort (length secret) MINIMUM_SECRET_LENGTH)
      else Inr \<lparr>template_key = secret, template_absorbed = KEY_DOMAIN\<rparr>)"

definition hash_for_message :: "key_hasher \<Rightarrow> policy_id \<Rightarrow> scope_id \<Rightarrow> bytes \<Rightarrow> bytes" where
  "hash_for_message hasher i s subject =
     template_absorbed hasher @ str_bytes (policy_id_str i) @ [0] @
     str_bytes (scope_id_str s) @ [0] @ subject"

definition hash_for ::
  "(bytes \<Rightarrow> bytes \<Rightarrow> bytes) \<Rightarrow> 'p rate_limit_policy_trait \<Rightarrow> key_hasher \<Rightarrow> 'p \<Rightarrow> bytes
    \<Rightarrow> 'p policy_subject" where
  "hash_for hmac D hasher policy subject =
     subject_bind
       (SubjectKey (hmac (template_key hasher)
         (hash_for_message hasher (trait_id D policy) (trait_scope D policy) subject)))
       policy"

definition hash_attempt_message :: "key_hasher \<Rightarrow> policy_id \<Rightarrow> scope_id \<Rightarrow> bytes \<Rightarrow> bytes" where
  "hash_attempt_message hasher i s subject =
     template_absorbed hasher @ ATTEMPT_DOMAIN @ str_bytes (policy_id_str i) @ [0] @
     str_bytes (scope_id_str s) @ [0] @ subject"

section \<open>Separation of derived keys\<close>

lemma hash_for_message_inject:
  assumes "policy_names_ok i s" and "policy_names_ok i' s'"
  shows "hash_for_message h i s x = hash_for_message h i' s' x' \<longleftrightarrow> i = i' \<and> s = s' \<and> x = x'"
  using assms by (simp add: hash_for_message_def named_prefix_inject)

lemma hash_attempt_message_inject:
  assumes "policy_names_ok i s" and "policy_names_ok i' s'"
  shows "hash_attempt_message h i s x = hash_attempt_message h i' s' x' \<longleftrightarrow>
     i = i' \<and> s = s' \<and> x = x'"
  using assms by (simp add: hash_attempt_message_def named_prefix_inject)

lemma attempt_domain_identifier_ok: "identifier_ok (lit ''attempt/v1'')"
  by (simp add: identifier_ok_def identifier_char_def lit_def MAX_IDENTIFIER_LENGTH_def
      is_ascii_alphanumeric_def is_ascii_digit_def is_ascii_lowercase_def)

lemma attempt_message_as_quota_message:
  "hash_attempt_message h i s x =
   hash_for_message h (PolicyId (lit ''attempt/v1'')) (ScopeId (policy_id_str i))
     (str_bytes (scope_id_str s) @ 0 # x)"
  by (simp add: hash_attempt_message_def hash_for_message_def ATTEMPT_DOMAIN_def)

lemma counter_key_eq_iff: "a = b \<longleftrightarrow> counter_key_order a = counter_key_order b"
  by (cases a; cases b)
     (auto simp: counter_key_order_def policy_fingerprint.expand subject_key.expand)

section \<open>Properties\<close>

text \<open>
  C39: quota subjects are separated by policy identifier and scope. For one hasher and policies with
  valid names, if the keyed hash has no collision between the two messages, two derived subject keys
  are equal exactly when policy identifier, scope and subject bytes are all equal, although the
  three are only joined by NUL bytes and the subject is arbitrary.
\<close>

theorem subject_keys_separate:
  assumes "policy_names_ok (trait_id D p) (trait_scope D p)"
    and "policy_names_ok (trait_id D p') (trait_scope D p')"
    and "inj_on (hmac (template_key h))
      {hash_for_message h (trait_id D p) (trait_scope D p) x,
       hash_for_message h (trait_id D p') (trait_scope D p') x'}"
  shows "ps_subject (hash_for hmac D h p x) = ps_subject (hash_for hmac D h p' x') \<longleftrightarrow>
    trait_id D p = trait_id D p' \<and> trait_scope D p = trait_scope D p' \<and> x = x'"
  using inj_on_eq_iff [OF assms(3)] hash_for_message_inject [OF assms(1,2)]
  by (simp add: hash_for_def subject_bind_def)

definition sample_hasher :: key_hasher where
  "sample_hasher = \<lparr>template_key = replicate 32 7, template_absorbed = KEY_DOMAIN\<rparr>"

theorem subject_keys_separate_witness:
  "KeyHasher_new (replicate 32 7) = Inr sample_hasher \<and>
   ps_subject (hash_for (\<lambda>k m. m) fixed_window_trait sample_hasher (sample_window_policy (\<lambda>b. b) 3) [0, 1]) \<noteq>
   ps_subject (hash_for (\<lambda>k m. m) fixed_window_trait sample_hasher (sample_window_policy (\<lambda>b. b) 3) [0])"
  using subject_keys_separate [of fixed_window_trait "sample_window_policy (\<lambda>b. b) 3"
      "sample_window_policy (\<lambda>b. b) 3" "\<lambda>k m. m" sample_hasher "[0, 1]" "[0]"] sample_names_ok
  by (simp add: fixed_window_trait_def sample_window_policy_def sample_hasher_def KeyHasher_new_def
      MINIMUM_SECRET_LENGTH_def)

text \<open>
  C40: exactly which quota messages an attempt message coincides with. Attempt keys are hashed with
  the extra prefix \<open>attempt/v1\<close> NUL; that prefix is itself a valid policy identifier, so the message
  of an attempt subject equals the message of a quota subject exactly when the quota policy is named
  \<open>attempt/v1\<close>, its scope is the attempt policy's identifier, and its subject is the attempt scope,
  a NUL and the attempt subject. Every other quota policy is separated from every attempt policy.
\<close>

theorem attempt_domain_overlap:
  assumes "policy_names_ok i s" and "policy_names_ok i' s'"
  shows "hash_attempt_message h i s x = hash_for_message h i' s' y \<longleftrightarrow>
    policy_id_str i' = lit ''attempt/v1'' \<and> scope_id_str s' = policy_id_str i \<and>
    y = str_bytes (scope_id_str s) @ 0 # x"
proof -
  have "policy_names_ok (PolicyId (lit ''attempt/v1'')) (ScopeId (policy_id_str i))"
    using assms(1) attempt_domain_identifier_ok by (simp add: policy_names_ok_def)
  from hash_for_message_inject [OF this assms(2)] show ?thesis
    by (cases i'; cases s') (auto simp: attempt_message_as_quota_message)
qed

theorem attempt_domain_overlap_witness:
  "hash_attempt_message sample_hasher (PolicyId (lit ''login'')) (ScopeId (lit ''global'')) [1] =
   hash_for_message sample_hasher (PolicyId (lit ''attempt/v1'')) (ScopeId (lit ''login''))
     (str_bytes (lit ''global'') @ [0, 1])"
  using attempt_domain_overlap [of "PolicyId (lit ''login'')" "ScopeId (lit ''global'')"
      "PolicyId (lit ''attempt/v1'')" "ScopeId (lit ''login'')" sample_hasher "[1]"
      "str_bytes (lit ''global'') @ [0, 1]"] sample_names_ok attempt_domain_identifier_ok
  by (simp add: policy_names_ok_def)

end
