(* ===== verification/Decision.thy ===== *)
theory Decision
  imports Policy
begin

text \<open>
  Decisions of \<open>runlimit-core\<close> (\<open>decision.rs\<close>): delays, allowances, denials, single and batch
  decisions with their views and predicates, and the Serde wire forms. A wire value is the tagged
  object Serde reads or writes; a shadow outcome on the wire accepts only a quota denial.
\<close>

section \<open>Delays, denials and allowances\<close>

datatype delay = Delay (delay_duration: duration)

definition Delay_seconds :: "delay \<Rightarrow> nat" where
  "Delay_seconds d =
     (let seconds = as_secs (delay_duration d)
      in if subsec_nanos (delay_duration d) = 0 then seconds
         else saturating_add U64_MAX seconds 1)"

datatype decision_error =
    DecisionError_AvailableExceedsCapacity capacity nat
  | DecisionError_DeniedIndexOutOfRange nat nat
  | DecisionError_EmptyBatch

record quota_denial =
  qd_capacity :: capacity
  qd_retry_after :: delay

definition QuotaDenial_new :: "capacity \<Rightarrow> duration \<Rightarrow> quota_denial" where
  "QuotaDenial_new c retry_after = \<lparr>qd_capacity = c, qd_retry_after = Delay retry_after\<rparr>"

datatype denial =
    QuotaExceeded quota_denial
  | StorageCapacity "delay option"

record allowance =
  al_capacity :: capacity
  al_available :: nat
  al_replenishes_after :: delay

definition Allowance_new :: "capacity \<Rightarrow> nat \<Rightarrow> duration \<Rightarrow> decision_error + allowance" where
  "Allowance_new c available replenishes_after =
     (if available > capacity_get c
      then Inl (DecisionError_AvailableExceedsCapacity c available)
      else Inr \<lparr>al_capacity = c, al_available = available,
                al_replenishes_after = Delay replenishes_after\<rparr>)"

section \<open>Decisions\<close>

datatype admitted =
    Admitted_Allowed allowance
  | Admitted_ShadowDenied quota_denial

datatype decision =
    Decision_Admitted admitted
  | Decision_Denied denial

definition Decision_allowed :: "allowance \<Rightarrow> decision" where
  "Decision_allowed a = Decision_Admitted (Admitted_Allowed a)"

definition Decision_shadow_denied :: "quota_denial \<Rightarrow> decision" where
  "Decision_shadow_denied d = Decision_Admitted (Admitted_ShadowDenied d)"

datatype decision_view =
    View_Allowed allowance
  | View_Denied denial
  | View_ShadowDenied quota_denial

fun Decision_view :: "decision \<Rightarrow> decision_view" where
  "Decision_view (Decision_Admitted (Admitted_Allowed a)) = View_Allowed a"
| "Decision_view (Decision_Admitted (Admitted_ShadowDenied d)) = View_ShadowDenied d"
| "Decision_view (Decision_Denied d) = View_Denied d"

fun permits_request :: "decision \<Rightarrow> bool" where
  "permits_request (Decision_Admitted _) = True"
| "permits_request (Decision_Denied _) = False"

fun admit :: "decision \<Rightarrow> denial + admitted" where
  "admit (Decision_Admitted a) = Inr a"
| "admit (Decision_Denied d) = Inl d"

datatype batch_decision =
    Batch_Allowed "allowance list"
  | Batch_Denied nat nat denial
  | Batch_ShadowDenied nat nat quota_denial

definition validate_batch_index :: "nat \<Rightarrow> nat \<Rightarrow> decision_error + nat" where
  "validate_batch_index index batch_size =
     (if batch_size \<noteq> 0 \<and> index < batch_size then Inr batch_size
      else Inl (DecisionError_DeniedIndexOutOfRange index batch_size))"

definition BatchDecision_allowed :: "allowance list \<Rightarrow> decision_error + batch_decision" where
  "BatchDecision_allowed allowances =
     (if allowances = [] then Inl DecisionError_EmptyBatch else Inr (Batch_Allowed allowances))"

definition BatchDecision_denied :: "nat \<Rightarrow> nat \<Rightarrow> denial \<Rightarrow> decision_error + batch_decision" where
  "BatchDecision_denied index batch_size d =
     try_bind (validate_batch_index index batch_size) (\<lambda>batch_size.
       Inr (Batch_Denied index batch_size d))"

definition BatchDecision_shadow_denied ::
  "nat \<Rightarrow> nat \<Rightarrow> quota_denial \<Rightarrow> decision_error + batch_decision" where
  "BatchDecision_shadow_denied index batch_size d =
     try_bind (validate_batch_index index batch_size) (\<lambda>batch_size.
       Inr (Batch_ShadowDenied index batch_size d))"

fun batch_permits_request :: "batch_decision \<Rightarrow> bool" where
  "batch_permits_request (Batch_Denied _ _ _) = False"
| "batch_permits_request (Batch_Allowed _) = True"
| "batch_permits_request (Batch_ShadowDenied _ _ _) = True"

section \<open>Wire forms\<close>

datatype denial_wire =
    DenialWire_QuotaExceeded nat duration
  | DenialWire_StorageCapacity "duration option"

record allowance_wire =
  aw_capacity :: nat
  aw_available :: nat
  aw_replenishes_after :: duration

datatype decision_wire =
    DecisionWire_Allowed nat nat duration
  | DecisionWire_Denied denial_wire
  | DecisionWire_ShadowDenied denial_wire

datatype batch_decision_wire =
    BatchWire_Allowed "allowance_wire list"
  | BatchWire_Denied nat nat denial_wire
  | BatchWire_ShadowDenied nat nat denial_wire

datatype wire_error =
    WireError_Capacity capacity_error
  | WireError_Decision decision_error
  | WireError_UnknownVariant

fun Denial_serialize :: "denial \<Rightarrow> denial_wire" where
  "Denial_serialize (QuotaExceeded d) =
     DenialWire_QuotaExceeded (capacity_get (qd_capacity d)) (delay_duration (qd_retry_after d))"
| "Denial_serialize (StorageCapacity retry_after) =
     DenialWire_StorageCapacity (map_option delay_duration retry_after)"

fun Denial_deserialize :: "denial_wire \<Rightarrow> wire_error + denial" where
  "Denial_deserialize (DenialWire_QuotaExceeded c retry_after) =
     map_err WireError_Capacity
       (map_ok (\<lambda>c. QuotaExceeded (QuotaDenial_new c retry_after)) (Capacity_new c))"
| "Denial_deserialize (DenialWire_StorageCapacity retry_after) =
     Inr (StorageCapacity (map_option Delay retry_after))"

fun QuotaDenialWire_validate :: "denial_wire \<Rightarrow> wire_error + quota_denial" where
  "QuotaDenialWire_validate (DenialWire_QuotaExceeded c retry_after) =
     map_err WireError_Capacity (map_ok (\<lambda>c. QuotaDenial_new c retry_after) (Capacity_new c))"
| "QuotaDenialWire_validate (DenialWire_StorageCapacity _) = Inl WireError_UnknownVariant"

definition Allowance_serialize :: "allowance \<Rightarrow> allowance_wire" where
  "Allowance_serialize a =
     \<lparr>aw_capacity = capacity_get (al_capacity a), aw_available = al_available a,
      aw_replenishes_after = delay_duration (al_replenishes_after a)\<rparr>"

definition AllowanceWire_validate :: "allowance_wire \<Rightarrow> wire_error + allowance" where
  "AllowanceWire_validate w =
     try_bind (map_err WireError_Capacity (Capacity_new (aw_capacity w))) (\<lambda>c.
       map_err WireError_Decision (Allowance_new c (aw_available w) (aw_replenishes_after w)))"

fun Decision_serialize :: "decision \<Rightarrow> decision_wire" where
  "Decision_serialize (Decision_Admitted (Admitted_Allowed a)) =
     DecisionWire_Allowed (capacity_get (al_capacity a)) (al_available a)
       (delay_duration (al_replenishes_after a))"
| "Decision_serialize (Decision_Admitted (Admitted_ShadowDenied d)) =
     DecisionWire_ShadowDenied (Denial_serialize (QuotaExceeded d))"
| "Decision_serialize (Decision_Denied d) = DecisionWire_Denied (Denial_serialize d)"

fun Decision_deserialize :: "decision_wire \<Rightarrow> wire_error + decision" where
  "Decision_deserialize (DecisionWire_Allowed c available replenishes_after) =
     map_ok Decision_allowed
       (AllowanceWire_validate
         \<lparr>aw_capacity = c, aw_available = available, aw_replenishes_after = replenishes_after\<rparr>)"
| "Decision_deserialize (DecisionWire_Denied d) = map_ok Decision_Denied (Denial_deserialize d)"
| "Decision_deserialize (DecisionWire_ShadowDenied d) =
     map_ok Decision_shadow_denied (QuotaDenialWire_validate d)"

fun try_map :: "('a \<Rightarrow> 'e + 'b) \<Rightarrow> 'a list \<Rightarrow> 'e + 'b list" where
  "try_map f [] = Inr []"
| "try_map f (x # xs) = try_bind (f x) (\<lambda>y. map_ok (\<lambda>ys. y # ys) (try_map f xs))"

fun BatchDecision_serialize :: "batch_decision \<Rightarrow> batch_decision_wire" where
  "BatchDecision_serialize (Batch_Allowed as) = BatchWire_Allowed (map Allowance_serialize as)"
| "BatchDecision_serialize (Batch_Denied index batch_size d) =
     BatchWire_Denied index batch_size (Denial_serialize d)"
| "BatchDecision_serialize (Batch_ShadowDenied index batch_size d) =
     BatchWire_ShadowDenied index batch_size (Denial_serialize (QuotaExceeded d))"

fun BatchDecision_deserialize :: "batch_decision_wire \<Rightarrow> wire_error + batch_decision" where
  "BatchDecision_deserialize (BatchWire_Allowed ws) =
     try_bind (try_map AllowanceWire_validate ws) (\<lambda>as.
       map_err WireError_Decision (BatchDecision_allowed as))"
| "BatchDecision_deserialize (BatchWire_Denied index batch_size d) =
     try_bind (Denial_deserialize d) (\<lambda>d.
       map_err WireError_Decision (BatchDecision_denied index batch_size d))"
| "BatchDecision_deserialize (BatchWire_ShadowDenied index batch_size d) =
     try_bind (QuotaDenialWire_validate d) (\<lambda>d.
       map_err WireError_Decision (BatchDecision_shadow_denied index batch_size d))"

section \<open>Validity\<close>

definition allowance_ok :: "allowance \<Rightarrow> bool" where
  "allowance_ok a \<longleftrightarrow> capacity_ok (al_capacity a) \<and> al_available a \<le> capacity_get (al_capacity a)"

fun denial_ok :: "denial \<Rightarrow> bool" where
  "denial_ok (QuotaExceeded d) = capacity_ok (qd_capacity d)"
| "denial_ok (StorageCapacity _) = True"

fun decision_ok :: "decision \<Rightarrow> bool" where
  "decision_ok (Decision_Admitted (Admitted_Allowed a)) = allowance_ok a"
| "decision_ok (Decision_Admitted (Admitted_ShadowDenied d)) = capacity_ok (qd_capacity d)"
| "decision_ok (Decision_Denied d) = denial_ok d"

fun batch_decision_ok :: "batch_decision \<Rightarrow> bool" where
  "batch_decision_ok (Batch_Allowed as) \<longleftrightarrow> as \<noteq> [] \<and> (\<forall>a\<in>set as. allowance_ok a)"
| "batch_decision_ok (Batch_Denied index batch_size d) \<longleftrightarrow> index < batch_size \<and> denial_ok d"
| "batch_decision_ok (Batch_ShadowDenied index batch_size d) \<longleftrightarrow>
     index < batch_size \<and> capacity_ok (qd_capacity d)"

lemma Allowance_new_ok:
  "Allowance_new c n d = Inr a \<longleftrightarrow>
     n \<le> capacity_get c \<and> a = \<lparr>al_capacity = c, al_available = n, al_replenishes_after = Delay d\<rparr>"
  by (auto simp: Allowance_new_def)

lemma validate_batch_index_ok: "validate_batch_index i n = Inr m \<longleftrightarrow> i < n \<and> m = n"
  by (auto simp: validate_batch_index_def)

lemma QuotaDenial_new_get:
  "QuotaDenial_new (qd_capacity d) (delay_duration (qd_retry_after d)) = d"
  by (cases d) (simp add: QuotaDenial_new_def)

lemma AllowanceWire_roundtrip:
  "allowance_ok a \<Longrightarrow> AllowanceWire_validate (Allowance_serialize a) = Inr a"
  by (cases a)
     (auto simp: AllowanceWire_validate_def Allowance_serialize_def allowance_ok_def
       Capacity_new_get Allowance_new_def)

lemma Denial_roundtrip: "denial_ok d \<Longrightarrow> Denial_deserialize (Denial_serialize d) = Inr d"
proof (cases d)
  case (StorageCapacity r)
  then show ?thesis by (cases r) auto
qed (simp add: Capacity_new_get QuotaDenial_new_get)

lemma QuotaDenial_roundtrip:
  "capacity_ok (qd_capacity d) \<Longrightarrow>
   QuotaDenialWire_validate (Denial_serialize (QuotaExceeded d)) = Inr d"
  by (simp add: Capacity_new_get QuotaDenial_new_get)

lemma try_map_ok: "(\<And>x. x \<in> set xs \<Longrightarrow> f (g x) = Inr x) \<Longrightarrow> try_map f (map g xs) = Inr xs"
  by (induction xs) auto

lemma try_map_eq_Inr:
  "try_map f xs = Inr ys \<Longrightarrow> length ys = length xs \<and> (\<forall>y\<in>set ys. \<exists>x\<in>set xs. f x = Inr y)"
  by (induction xs arbitrary: ys) (fastforce simp: result_simps)+

lemma Decision_roundtrip:
  "decision_ok d \<Longrightarrow> Decision_deserialize (Decision_serialize d) = Inr d"
proof (cases d rule: Decision_serialize.cases)
  case (1 a)
  assume "decision_ok d"
  then show ?thesis
    using 1 AllowanceWire_roundtrip [of a]
    by (simp add: Allowance_serialize_def Decision_allowed_def)
next
  case (2 e)
  assume "decision_ok d"
  then show ?thesis
    using 2 QuotaDenial_roundtrip [of e] by (simp add: Decision_shadow_denied_def)
next
  case (3 e)
  assume "decision_ok d"
  then show ?thesis using 3 Denial_roundtrip [of e] by simp
qed

lemma BatchDecision_roundtrip:
  "batch_decision_ok d \<Longrightarrow> BatchDecision_deserialize (BatchDecision_serialize d) = Inr d"
proof (cases d)
  case (Batch_Allowed as)
  assume "batch_decision_ok d"
  then have "try_map AllowanceWire_validate (map Allowance_serialize as) = Inr as" and "as \<noteq> []"
    using Batch_Allowed by (auto intro: try_map_ok AllowanceWire_roundtrip)
  then show ?thesis using Batch_Allowed by (simp add: BatchDecision_allowed_def)
next
  case (Batch_Denied i n e)
  assume "batch_decision_ok d"
  then show ?thesis
    using Batch_Denied Denial_roundtrip [of e]
    by (simp add: BatchDecision_denied_def validate_batch_index_def)
next
  case (Batch_ShadowDenied i n e)
  assume "batch_decision_ok d"
  then show ?thesis
    using Batch_ShadowDenied QuotaDenial_roundtrip [of e]
    by (simp add: BatchDecision_shadow_denied_def validate_batch_index_def)
qed

lemma AllowanceWire_validate_ok: "AllowanceWire_validate w = Inr a \<Longrightarrow> allowance_ok a"
  by (auto simp: AllowanceWire_validate_def result_simps Capacity_new_ok Allowance_new_ok
      allowance_ok_def)

lemma Denial_deserialize_ok: "Denial_deserialize w = Inr d \<Longrightarrow> denial_ok d"
  by (cases w) (auto simp: result_simps Capacity_new_ok QuotaDenial_new_def)

lemma QuotaDenialWire_validate_ok:
  "QuotaDenialWire_validate w = Inr d \<Longrightarrow> capacity_ok (qd_capacity d)"
  by (cases w) (auto simp: result_simps Capacity_new_ok QuotaDenial_new_def)

lemma try_map_validate_ok:
  "try_map AllowanceWire_validate ws = Inr as \<Longrightarrow> \<forall>a\<in>set as. allowance_ok a"
  using try_map_eq_Inr AllowanceWire_validate_ok by blast

lemma BatchDecision_deserialize_ok:
  "BatchDecision_deserialize w = Inr d \<Longrightarrow> batch_decision_ok d"
  by (cases w)
     (auto simp: result_simps BatchDecision_allowed_def BatchDecision_denied_def
       BatchDecision_shadow_denied_def validate_batch_index_ok
       dest!: try_map_validate_ok Denial_deserialize_ok QuotaDenialWire_validate_ok
       split: if_splits)

lemma Decision_deserialize_ok: "Decision_deserialize w = Inr d \<Longrightarrow> decision_ok d"
  by (cases w)
     (auto simp: result_simps Decision_allowed_def Decision_shadow_denied_def
       intro: AllowanceWire_validate_ok Denial_deserialize_ok QuotaDenialWire_validate_ok)

lemma Delay_seconds_eq:
  assumes "d \<le> U64_MAX * NANOS_PER_SEC"
  shows "Delay_seconds (Delay d) = div_ceil d NANOS_PER_SEC"
proof -
  have le: "as_secs d \<le> U64_MAX"
    using div_le_mono [OF assms, of NANOS_PER_SEC]
    by (simp add: as_secs_def NANOS_PER_SEC_def)
  have "as_secs d < U64_MAX" if "subsec_nanos d \<noteq> 0"
  proof (rule ccontr)
    assume "\<not> as_secs d < U64_MAX"
    with le have "as_secs d = U64_MAX" by simp
    then have "d = U64_MAX * NANOS_PER_SEC + subsec_nanos d"
      by (metis as_secs_def div_mult_mod_eq subsec_nanos_def)
    with that assms show False by simp
  qed
  then show ?thesis
    by (auto simp: Delay_seconds_def Let_def div_ceil_def as_secs_def subsec_nanos_def
        saturating_add_def)
qed

section \<open>Properties\<close>

text \<open>
  Decisions survive their wire form. Deserializing a serialized valid decision or batch decision
  gives it back, and deserialization only ever accepts valid ones: an allowance never exceeds its
  capacity, a batch is never empty, a denied index lies inside its batch, and a shadow denial always
  carries a quota denial.
\<close>

theorem decision_serde_roundtrip:
  assumes "decision_ok d" and "batch_decision_ok b"
  shows "Decision_deserialize (Decision_serialize d) = Inr d \<and>
    BatchDecision_deserialize (BatchDecision_serialize b) = Inr b \<and>
    (Decision_deserialize w = Inr d' \<longrightarrow> decision_ok d') \<and>
    (BatchDecision_deserialize v = Inr b' \<longrightarrow> batch_decision_ok b')"
  using Decision_roundtrip [OF assms(1)] BatchDecision_roundtrip [OF assms(2)]
    Decision_deserialize_ok BatchDecision_deserialize_ok by blast

theorem decision_serde_roundtrip_witness:
  "Decision_deserialize (Decision_serialize (Decision_Denied (StorageCapacity (Some (Delay 5))))) =
     Inr (Decision_Denied (StorageCapacity (Some (Delay 5)))) \<and>
   BatchDecision_deserialize (BatchDecision_serialize
     (Batch_ShadowDenied 1 2 (QuotaDenial_new (Capacity 3) 7))) =
     Inr (Batch_ShadowDenied 1 2 (QuotaDenial_new (Capacity 3) 7))"
  using decision_serde_roundtrip [of "Decision_Denied (StorageCapacity (Some (Delay 5)))"
      "Batch_ShadowDenied 1 2 (QuotaDenial_new (Capacity 3) 7)"]
  by (simp add: QuotaDenial_new_def capacity_ok_def width_simps)

text \<open>
  \<open>Delay::seconds\<close> rounds up. For every duration of the standard library the delay in whole
  seconds is the smallest 64-bit number of seconds that is not shorter than the duration, and the
  largest such number when no number of seconds is long enough.
\<close>

theorem delay_seconds_rounds_up:
  assumes "d \<le> DURATION_MAX"
  shows "Delay_seconds (Delay d) \<le> U64_MAX \<and>
    (if d \<le> U64_MAX * NANOS_PER_SEC
     then d \<le> Delay_seconds (Delay d) * NANOS_PER_SEC \<and>
       (k * NANOS_PER_SEC < d \<longleftrightarrow> k < Delay_seconds (Delay d))
     else Delay_seconds (Delay d) = U64_MAX)"
proof (cases "d \<le> U64_MAX * NANOS_PER_SEC")
  case True
  have pos: "0 < NANOS_PER_SEC" by (simp add: NANOS_PER_SEC_def)
  show ?thesis
    using True div_ceil_le_iff [OF pos, of d U64_MAX] div_ceil_le_iff [OF pos, of d k]
      div_ceil_mult_ge [OF pos, of d]
    by (auto simp: Delay_seconds_eq not_le [symmetric])
next
  case False
  have "U64_MAX \<le> as_secs d"
    using False by (simp add: as_secs_def NANOS_PER_SEC_def div_less_iff_less_mult not_le [symmetric])
  moreover have "as_secs d \<le> U64_MAX"
    using div_le_mono [OF assms, of NANOS_PER_SEC]
    by (simp add: as_secs_def DURATION_MAX_def NANOS_PER_SEC_def width_simps)
  ultimately show ?thesis
    using False by (simp add: Delay_seconds_def Let_def saturating_add_def)
qed

theorem delay_seconds_rounds_up_witness:
  "1500000000 \<le> Delay_seconds (Delay 1500000000) * NANOS_PER_SEC \<and>
   1 < Delay_seconds (Delay 1500000000)"
  using delay_seconds_rounds_up [of 1500000000 1]
  by (simp add: DURATION_MAX_def NANOS_PER_SEC_def width_simps)

end
