(* ===== verification/Check_Batch.thy ===== *)
theory Check_Batch
  imports Subject_Key Decision
begin

text \<open>
  Checks (\<open>check.rs\<close>) and structural batch validation (\<open>batch.rs\<close>) of \<open>runlimit-core\<close>. Both are
  generic over the policy type, so they take the trait dictionary \<open>D\<close>. The hash map of first
  occurrences that validation builds is an association list from counter keys to input indices.
\<close>

section \<open>Checks\<close>

record 'p check =
  check_policy :: 'p
  check_subject :: subject_key
  check_cost :: nat

datatype check_error =
    CheckError_ZeroCost
  | CheckError_CostExceedsCapacity nat capacity

definition Check_new :: "'p policy_subject \<Rightarrow> 'p check" where
  "Check_new subject =
     \<lparr>check_policy = ps_policy subject, check_subject = ps_subject subject, check_cost = 1\<rparr>"

definition validate_cost :: "'p rate_limit_policy_trait \<Rightarrow> 'p \<Rightarrow> nat \<Rightarrow> check_error + unit" where
  "validate_cost D policy cost =
     (if cost = 0 then Inl CheckError_ZeroCost
      else if cost > capacity_get (trait_capacity D policy)
      then Inl (CheckError_CostExceedsCapacity cost (trait_capacity D policy))
      else Inr ())"

definition with_cost ::
  "'p rate_limit_policy_trait \<Rightarrow> 'p check \<Rightarrow> nat \<Rightarrow> check_error + 'p check" where
  "with_cost D check cost =
     try_bind (validate_cost D (check_policy check) cost) (\<lambda>_. Inr (check\<lparr>check_cost := cost\<rparr>))"

definition counter_key :: "'p rate_limit_policy_trait \<Rightarrow> 'p check \<Rightarrow> counter_key" where
  "counter_key D check = CounterKey (trait_fingerprint D (check_policy check)) (check_subject check)"

definition check_mode :: "'p rate_limit_policy_trait \<Rightarrow> 'p check \<Rightarrow> quota_mode" where
  "check_mode D check = trait_quota_mode D (check_policy check)"

section \<open>Batches\<close>

datatype batch_error =
    BatchError_EmptyBatch
  | BatchError_DuplicateKey nat nat
  | BatchError_BatchTooLarge nat nat
  | BatchError_MixedQuotaModes quota_mode nat quota_mode

fun validate_batch_loop ::
  "'p rate_limit_policy_trait \<Rightarrow> quota_mode \<Rightarrow> nat \<Rightarrow> (counter_key \<times> nat) list \<Rightarrow> 'p check list
    \<Rightarrow> batch_error + unit" where
  "validate_batch_loop D first_mode duplicate_index first_indices [] = Inr ()"
| "validate_batch_loop D first_mode duplicate_index first_indices (check # checks) =
     (if check_mode D check \<noteq> first_mode
      then Inl (BatchError_MixedQuotaModes first_mode duplicate_index (check_mode D check))
      else case map_of first_indices (counter_key D check) of
        None \<Rightarrow> validate_batch_loop D first_mode (Suc duplicate_index)
          (AList.update (counter_key D check) duplicate_index first_indices) checks
      | Some first_index \<Rightarrow> Inl (BatchError_DuplicateKey first_index duplicate_index))"

definition validate_batch ::
  "'p rate_limit_policy_trait \<Rightarrow> 'p check list \<Rightarrow> nat \<Rightarrow> batch_error + unit" where
  "validate_batch D checks maximum =
     (case checks of
        [] \<Rightarrow> Inl BatchError_EmptyBatch
      | first # _ \<Rightarrow>
          if length checks > maximum
          then Inl (BatchError_BatchTooLarge (length checks) maximum)
          else validate_batch_loop D (check_mode D first) 0 [] checks)"

section \<open>What a valid check is\<close>

definition check_ok ::
  "'p rate_limit_policy_trait \<Rightarrow> ('p \<Rightarrow> bool) \<Rightarrow> 'p check \<Rightarrow> bool" where
  "check_ok D valid c \<longleftrightarrow>
     valid (check_policy c) \<and> 0 < check_cost c \<and>
     check_cost c \<le> capacity_get (trait_capacity D (check_policy c))"

context rate_limit_policy
begin

lemma Check_new_ok: "valid (ps_policy s) \<Longrightarrow> check_ok policy valid (Check_new s)"
  using unit_cost_fits [of "ps_policy s"] by (simp add: check_ok_def Check_new_def)

lemma with_cost_ok:
  assumes "valid (check_policy c)"
  shows "with_cost policy c cost = Inr c' \<longleftrightarrow>
     c' = c\<lparr>check_cost := cost\<rparr> \<and> check_ok policy valid c'"
  using assms
  by (auto simp: with_cost_def validate_cost_def check_ok_def split: if_splits)

lemma counter_key_ignores_mode:
  "counter_key policy (c\<lparr>check_policy := with_mode m p\<rparr>) =
   counter_key policy (c\<lparr>check_policy := p\<rparr>)"
  by (simp add: counter_key_def mode_fingerprint)

end

section \<open>What batch validation accepts and reports\<close>

text \<open>
  The loop's map holds exactly the positions of the keys already seen. \<open>seen D ps m\<close> says so for
  the prefix \<open>ps\<close> of the input.
\<close>

definition seen :: "'p rate_limit_policy_trait \<Rightarrow> 'p check list \<Rightarrow> (counter_key \<times> nat) list \<Rightarrow> bool" where
  "seen D ps m \<longleftrightarrow>
     distinct (map (counter_key D) ps) \<and>
     (\<forall>k i. map_of m k = Some i \<longleftrightarrow> i < length ps \<and> counter_key D (ps ! i) = k)"

lemma seen_Nil [simp]: "seen D [] []"
  by (simp add: seen_def)

lemma seen_absent:
  assumes "seen D ps m"
  shows "map_of m k = None \<longleftrightarrow> k \<notin> set (map (counter_key D) ps)"
proof -
  have "map_of m k = None \<longleftrightarrow> (\<nexists>i. i < length ps \<and> counter_key D (ps ! i) = k)"
    using assms by (auto simp: seen_def simp flip: not_Some_eq)
  then show ?thesis by (simp only: in_set_conv_nth length_map) (metis nth_map)
qed

lemma seen_snoc:
  assumes "seen D ps m" and "counter_key D c \<notin> set (map (counter_key D) ps)"
  shows "seen D (ps @ [c]) (AList.update (counter_key D c) (length ps) m)"
  unfolding seen_def
proof (intro conjI allI)
  show "distinct (map (counter_key D) (ps @ [c]))"
    using assms by (auto simp: seen_def)
next
  fix k i
  have none: "i < length ps \<Longrightarrow> counter_key D (ps ! i) \<noteq> counter_key D c"
    using assms(2) by (metis imageI list.set_map nth_mem)
  have old: "map_of m k = Some i \<longleftrightarrow> i < length ps \<and> counter_key D (ps ! i) = k"
    using assms(1) by (simp add: seen_def)
  show "(map_of (AList.update (counter_key D c) (length ps) m) k = Some i) =
    (i < length (ps @ [c]) \<and> counter_key D ((ps @ [c]) ! i) = k)"
    using none old by (auto simp: nth_append less_Suc_eq)
qed

lemma validate_batch_loop_ok:
  assumes "seen D ps m"
  shows "validate_batch_loop D mode (length ps) m cs = Inr () \<longleftrightarrow>
     (\<forall>c\<in>set cs. check_mode D c = mode) \<and> distinct (map (counter_key D) (ps @ cs))"
  using assms
proof (induction cs arbitrary: ps m)
  case Nil
  then show ?case by (simp add: seen_def)
next
  case (Cons c cs)
  show ?case
  proof (cases "counter_key D c \<in> set (map (counter_key D) ps)")
    case True
    then obtain i where "map_of m (counter_key D c) = Some i"
      using seen_absent [OF Cons.prems] by fastforce
    with True show ?thesis by auto
  next
    case False
    then have "map_of m (counter_key D c) = None"
      using seen_absent [OF Cons.prems] by blast
    with Cons.IH [OF seen_snoc [OF Cons.prems False]] show ?thesis by auto
  qed
qed

lemma validate_batch_loop_duplicate:
  assumes "seen D ps m"
    and "validate_batch_loop D mode (length ps) m cs = Inl (BatchError_DuplicateKey i j)"
  shows "i < j \<and> j < length (ps @ cs) \<and> length ps \<le> j \<and>
     counter_key D ((ps @ cs) ! i) = counter_key D ((ps @ cs) ! j) \<and>
     distinct (map (counter_key D) (take j (ps @ cs)))"
  using assms
proof (induction cs arbitrary: ps m)
  case Nil
  then show ?case by simp
next
  case (Cons c cs)
  show ?case
  proof (cases "map_of m (counter_key D c)")
    case None
    then have new: "counter_key D c \<notin> set (map (counter_key D) ps)"
      using seen_absent [OF Cons.prems(1)] by blast
    have "validate_batch_loop D mode (length (ps @ [c])) (AList.update (counter_key D c) (length ps) m) cs
        = Inl (BatchError_DuplicateKey i j)"
      using Cons.prems(2) None by (auto split: if_splits)
    from Cons.IH [OF seen_snoc [OF Cons.prems(1) new] this] show ?thesis
      unfolding append_assoc append.simps by (simp del: take_append)
  next
    case (Some f)
    with Cons.prems(2) have "i = f" and "j = length ps" by (auto split: if_splits)
    moreover from Some Cons.prems(1) have "f < length ps" and "counter_key D (ps ! f) = counter_key D c"
      by (auto simp: seen_def)
    ultimately show ?thesis
      using Cons.prems(1) by (simp add: nth_append seen_def)
  qed
qed

lemma validate_batch_loop_mixed:
  assumes "seen D ps m"
    and "validate_batch_loop D mode (length ps) m cs = Inl (BatchError_MixedQuotaModes mode' i actual)"
  shows "mode' = mode \<and> length ps \<le> i \<and> i < length (ps @ cs) \<and>
     check_mode D ((ps @ cs) ! i) = actual \<and> actual \<noteq> mode \<and>
     (\<forall>k. length ps \<le> k \<longrightarrow> k < i \<longrightarrow> check_mode D ((ps @ cs) ! k) = mode)"
  using assms
proof (induction cs arbitrary: ps m)
  case Nil
  then show ?case by simp
next
  case (Cons c cs)
  show ?case
  proof (cases "check_mode D c = mode")
    case False
    with Cons.prems(2) show ?thesis by auto
  next
    case True
    with Cons.prems(2) have none: "map_of m (counter_key D c) = None"
      by (auto split: option.splits)
    then have new: "counter_key D c \<notin> set (map (counter_key D) ps)"
      using seen_absent [OF Cons.prems(1)] by blast
    have "validate_batch_loop D mode (length (ps @ [c])) (AList.update (counter_key D c) (length ps) m) cs
        = Inl (BatchError_MixedQuotaModes mode' i actual)"
      using Cons.prems(2) none True by simp
    from Cons.IH [OF seen_snoc [OF Cons.prems(1) new] this] True show ?thesis
      by (auto simp: Suc_le_eq nth_append dest: le_neq_implies_less)
  qed
qed

lemma validate_batch_ok:
  "validate_batch D cs maximum = Inr () \<longleftrightarrow>
     cs \<noteq> [] \<and> length cs \<le> maximum \<and> (\<forall>c\<in>set cs. check_mode D c = check_mode D (hd cs)) \<and>
     distinct (map (counter_key D) cs)"
  using validate_batch_loop_ok [OF seen_Nil, of D "check_mode D (hd cs)" cs]
  by (cases cs) (auto simp: validate_batch_def)

lemma validate_batch_duplicate:
  assumes "validate_batch D cs maximum = Inl (BatchError_DuplicateKey i j)"
  shows "i < j \<and> j < length cs \<and> counter_key D (cs ! i) = counter_key D (cs ! j) \<and>
     distinct (map (counter_key D) (take j cs))"
  using assms validate_batch_loop_duplicate [OF seen_Nil, of D "check_mode D (hd cs)" cs i j]
  by (cases cs) (auto simp: validate_batch_def split: if_splits)

lemma validate_batch_mixed:
  assumes "validate_batch D cs maximum = Inl (BatchError_MixedQuotaModes first i actual)"
  shows "i < length cs \<and> first = check_mode D (hd cs) \<and> check_mode D (cs ! i) = actual \<and>
     actual \<noteq> first \<and> (\<forall>k<i. check_mode D (cs ! k) = first)"
  using assms
    validate_batch_loop_mixed [OF seen_Nil, of D "check_mode D (hd cs)" cs first i actual]
  by (cases cs) (auto simp: validate_batch_def split: if_splits)

lemma validate_batch_loop_errors:
  "validate_batch_loop D mode k m cs \<noteq> Inl BatchError_EmptyBatch"
  "validate_batch_loop D mode k m cs \<noteq> Inl (BatchError_BatchTooLarge n b)"
  by (induction cs arbitrary: k m) (auto split: option.splits)

lemma validate_batch_empty:
  "validate_batch D cs maximum = Inl BatchError_EmptyBatch \<Longrightarrow> cs = []"
  by (cases cs) (auto simp: validate_batch_def validate_batch_loop_errors split: if_splits
      simp del: validate_batch_loop.simps)

lemma validate_batch_too_large:
  "validate_batch D cs maximum = Inl (BatchError_BatchTooLarge n m) \<Longrightarrow>
   n = length cs \<and> m = maximum \<and> maximum < n"
  by (cases cs) (auto simp: validate_batch_def validate_batch_loop_errors split: if_splits
      simp del: validate_batch_loop.simps)

section \<open>Properties\<close>

text \<open>
  Structural batch validation is exact and its errors tell the truth. It accepts precisely the
  non-empty batches within the maximum whose checks share one deployment mode and have pairwise
  distinct counter keys. A reported duplicate is the first index whose key occurred before, together
  with the position of that occurrence; a reported mode mismatch is the first index whose mode
  differs from the first check's.
\<close>

theorem validate_batch_exact:
  "case validate_batch D cs maximum of
     Inr _ \<Rightarrow> cs \<noteq> [] \<and> length cs \<le> maximum \<and> distinct (map (counter_key D) cs) \<and>
       list_all (\<lambda>c. check_mode D c = check_mode D (hd cs)) cs
   | Inl BatchError_EmptyBatch \<Rightarrow> cs = []
   | Inl (BatchError_BatchTooLarge n m) \<Rightarrow> n = length cs \<and> m = maximum \<and> maximum < n
   | Inl (BatchError_DuplicateKey i j) \<Rightarrow>
       i < j \<and> j < length cs \<and> counter_key D (cs ! i) = counter_key D (cs ! j) \<and>
       distinct (map (counter_key D) (take j cs))
   | Inl (BatchError_MixedQuotaModes first i actual) \<Rightarrow>
       i < length cs \<and> first = check_mode D (hd cs) \<and> check_mode D (cs ! i) = actual \<and>
       actual \<noteq> first \<and> list_all (\<lambda>c. check_mode D c = first) (take i cs)"
proof (cases "validate_batch D cs maximum")
  case (Inr u)
  then have ok: "validate_batch D cs maximum = Inr ()" by simp
  show ?thesis
    unfolding ok sum.case list_all_iff using iffD1 [OF validate_batch_ok ok] by blast
next
  case (Inl e)
  show ?thesis
  proof (cases e)
    case BatchError_EmptyBatch
    with Inl validate_batch_empty [of D cs maximum] show ?thesis by auto
  next
    case (BatchError_DuplicateKey i j)
    with Inl validate_batch_duplicate [of D cs maximum i j] show ?thesis by auto
  next
    case (BatchError_BatchTooLarge n m)
    with Inl validate_batch_too_large [of D cs maximum n m] show ?thesis by auto
  next
    case (BatchError_MixedQuotaModes first i actual)
    with Inl validate_batch_mixed [of D cs maximum first i actual] show ?thesis
      by (auto simp: list_all_length)
  qed
qed

text \<open>
  Changing the deployment mode of a policy keeps its stored counters. For both policy kinds the
  counter key a check addresses is the same in every mode, and the check stays valid.
\<close>

theorem mode_change_keeps_counters:
  assumes "check_ok fixed_window_trait (fixed_window_ok sha256) c"
    and "check_ok gcra_trait (gcra_ok sha256) g"
  shows "counter_key fixed_window_trait (c\<lparr>check_policy := fw_with_quota_mode m (check_policy c)\<rparr>) =
      counter_key fixed_window_trait c \<and>
    check_ok fixed_window_trait (fixed_window_ok sha256)
      (c\<lparr>check_policy := fw_with_quota_mode m (check_policy c)\<rparr>) \<and>
    counter_key gcra_trait (g\<lparr>check_policy := gp_with_quota_mode m (check_policy g)\<rparr>) =
      counter_key gcra_trait g \<and>
    check_ok gcra_trait (gcra_ok sha256)
      (g\<lparr>check_policy := gp_with_quota_mode m (check_policy g)\<rparr>)"
proof (intro conjI)
  show "counter_key fixed_window_trait (c\<lparr>check_policy := fw_with_quota_mode m (check_policy c)\<rparr>) =
      counter_key fixed_window_trait c"
    using fixed_window_rlp.counter_key_ignores_mode [where c = c and m = m and p = "check_policy c"] by simp
  show "counter_key gcra_trait (g\<lparr>check_policy := gp_with_quota_mode m (check_policy g)\<rparr>) =
      counter_key gcra_trait g"
    using gcra_rlp.counter_key_ignores_mode [where c = g and m = m and p = "check_policy g"] by simp
qed (use assms in \<open>simp_all add: check_ok_def fixed_window_trait_def gcra_trait_def
    fixed_window_ok_def gcra_ok_def fw_with_quota_mode_def gp_with_quota_mode_def\<close>)

theorem mode_change_keeps_counters_witness:
  "counter_key gcra_trait \<lparr>check_policy = gp_with_quota_mode Shadow (sample_gcra_policy (\<lambda>b. b)),
      check_subject = SubjectKey [], check_cost = 1\<rparr> =
   counter_key gcra_trait \<lparr>check_policy = sample_gcra_policy (\<lambda>b. b),
      check_subject = SubjectKey [], check_cost = 1\<rparr>"
  using mode_change_keeps_counters [of "\<lambda>b. b"
      "\<lparr>check_policy = sample_window_policy (\<lambda>b. b) 3, check_subject = SubjectKey [], check_cost = 1\<rparr>"
      "\<lparr>check_policy = sample_gcra_policy (\<lambda>b. b), check_subject = SubjectKey [], check_cost = 1\<rparr>" Shadow]
    sample_window_policy_ok [of 3 "\<lambda>b. b"] sample_gcra_policy_ok [of "\<lambda>b. b"]
  by (simp add: check_ok_def sample_window_policy_def sample_gcra_policy_def fixed_window_trait_def
      gcra_trait_def)

end
