(* ===== verification/Observation.thy ===== *)
theory Observation
  imports Check_Batch
begin

text \<open>
  Operational observations of \<open>runlimit-core\<close> (\<open>observation.rs\<close>): what an admission, a cleanup pass
  and a shard report to an observer. Callback panics are caught by \<open>observe_safely\<close>, so an observed
  operation is modelled by the list of observations it emits.
\<close>

section \<open>Model\<close>

record admission_policy =
  adp_id :: policy_id
  adp_scope :: scope_id
  adp_fingerprint :: policy_fingerprint

definition AdmissionPolicy_new :: "'p rate_limit_policy_trait \<Rightarrow> 'p \<Rightarrow> admission_policy" where
  "AdmissionPolicy_new D policy =
     \<lparr>adp_id = trait_id D policy, adp_scope = trait_scope D policy,
      adp_fingerprint = trait_fingerprint D policy\<rparr>"

definition AdmissionPolicy_from_check :: "'p rate_limit_policy_trait \<Rightarrow> 'p check \<Rightarrow> admission_policy" where
  "AdmissionPolicy_from_check D check = AdmissionPolicy_new D (check_policy check)"

datatype admission_operation =
    Operation_Check admission_policy
  | Operation_Batch nat "admission_policy option"

datatype admission_outcome =
    Outcome_Allowed
  | Outcome_QuotaDenied
  | Outcome_ShadowDenied
  | Outcome_CapacityDenied
  | Outcome_Failed

datatype consumption_status =
    Consumed
  | NotConsumed
  | PossiblyConsumed

record admission_observation =
  ado_operation :: admission_operation
  ado_outcome :: admission_outcome
  ado_consumption :: consumption_status
  ado_elapsed :: duration

definition failed_check ::
  "'p rate_limit_policy_trait \<Rightarrow> 'p check \<Rightarrow> consumption_status \<Rightarrow> duration \<Rightarrow> admission_observation" where
  "failed_check D check consumption elapsed =
     \<lparr>ado_operation = Operation_Check (AdmissionPolicy_from_check D check),
      ado_outcome = Outcome_Failed, ado_consumption = consumption, ado_elapsed = elapsed\<rparr>"

definition failed_batch ::
  "'p rate_limit_policy_trait \<Rightarrow> 'p check list \<Rightarrow> consumption_status \<Rightarrow> duration
    \<Rightarrow> admission_observation" where
  "failed_batch D checks consumption elapsed =
     \<lparr>ado_operation = Operation_Batch (length checks)
        (case checks of [check] \<Rightarrow> Some (AdmissionPolicy_from_check D check) | _ \<Rightarrow> None),
      ado_outcome = Outcome_Failed, ado_consumption = consumption, ado_elapsed = elapsed\<rparr>"

fun classify_denial :: "denial \<Rightarrow> admission_outcome \<times> consumption_status" where
  "classify_denial (QuotaExceeded _) = (Outcome_QuotaDenied, NotConsumed)"
| "classify_denial (StorageCapacity _) = (Outcome_CapacityDenied, NotConsumed)"

definition classify_decision :: "decision \<Rightarrow> admission_outcome \<times> consumption_status" where
  "classify_decision decision =
     (case Decision_view decision of
        View_Allowed _ \<Rightarrow> (Outcome_Allowed, Consumed)
      | View_Denied denial \<Rightarrow> classify_denial denial
      | View_ShadowDenied _ \<Rightarrow> (Outcome_ShadowDenied, NotConsumed))"

fun classify_batch :: "batch_decision \<Rightarrow> admission_outcome \<times> consumption_status" where
  "classify_batch (Batch_Allowed _) = (Outcome_Allowed, Consumed)"
| "classify_batch (Batch_Denied _ _ denial) = classify_denial denial"
| "classify_batch (Batch_ShadowDenied _ _ _) = (Outcome_ShadowDenied, NotConsumed)"

definition slice_get :: "'a list \<Rightarrow> nat \<Rightarrow> 'a option" where
  "slice_get xs i = (if i < length xs then Some (xs ! i) else None)"

fun batch_relevant_check :: "'p check list \<Rightarrow> batch_decision \<Rightarrow> 'p check option" where
  "batch_relevant_check checks (Batch_Allowed allowances) =
     (if length allowances = 1 then slice_get checks 0 else None)"
| "batch_relevant_check checks (Batch_Denied index _ _) = slice_get checks index"
| "batch_relevant_check checks (Batch_ShadowDenied index _ _) = slice_get checks index"

definition observe_from_check ::
  "'p rate_limit_policy_trait \<Rightarrow> 'p check \<Rightarrow> decision \<Rightarrow> duration \<Rightarrow> admission_observation" where
  "observe_from_check D check decision elapsed =
     (let (outcome, consumption) = classify_decision decision
      in \<lparr>ado_operation = Operation_Check (AdmissionPolicy_from_check D check),
          ado_outcome = outcome, ado_consumption = consumption, ado_elapsed = elapsed\<rparr>)"

definition observe_from_batch ::
  "'p rate_limit_policy_trait \<Rightarrow> 'p check list \<Rightarrow> batch_decision \<Rightarrow> duration \<Rightarrow> admission_observation" where
  "observe_from_batch D checks decision elapsed =
     (let (outcome, consumption) = classify_batch decision
      in \<lparr>ado_operation = Operation_Batch (length checks)
            (map_option (AdmissionPolicy_from_check D) (batch_relevant_check checks decision)),
          ado_outcome = outcome, ado_consumption = consumption, ado_elapsed = elapsed\<rparr>)"

datatype cleanup_outcome =
    Cleanup_Confirmed nat
  | Cleanup_NoEffect
  | Cleanup_Unknown

record cleanup_observation =
  clo_requested :: nat
  clo_outcome :: cleanup_outcome
  clo_elapsed :: duration

record capacity_observation =
  cpo_used :: nat
  cpo_capacity :: nat
  cpo_shard_index :: nat

definition headroom :: "capacity_observation \<Rightarrow> nat" where
  "headroom c = cpo_capacity c - cpo_used c"

datatype observation =
    Observation_Admission admission_observation
  | Observation_Cleanup cleanup_observation
  | Observation_Capacity capacity_observation

section \<open>Consumption is reported truthfully\<close>

fun decision_consumes :: "decision \<Rightarrow> bool" where
  "decision_consumes (Decision_Admitted (Admitted_Allowed _)) = True"
| "decision_consumes _ = False"

fun batch_consumes :: "batch_decision \<Rightarrow> bool" where
  "batch_consumes (Batch_Allowed _) = True"
| "batch_consumes _ = False"

lemma classify_denial_not_consumed [simp]: "snd (classify_denial d) = NotConsumed"
  by (cases d) simp_all

lemma classify_decision_consumption:
  "snd (classify_decision d) = (if decision_consumes d then Consumed else NotConsumed)"
  by (cases d rule: Decision_view.cases) (simp_all add: classify_decision_def)

lemma classify_batch_consumption:
  "snd (classify_batch b) = (if batch_consumes b then Consumed else NotConsumed)"
  by (cases b) simp_all

lemma observe_from_check_consumption:
  "ado_consumption (observe_from_check D c d t) = (if decision_consumes d then Consumed else NotConsumed)"
  using classify_decision_consumption [of d]
  by (cases "classify_decision d") (simp add: observe_from_check_def)

lemma observe_from_batch_consumption:
  "ado_consumption (observe_from_batch D cs b t) = (if batch_consumes b then Consumed else NotConsumed)"
  using classify_batch_consumption [of b]
  by (cases "classify_batch b") (simp add: observe_from_batch_def)

end
