(* ===== verification/Store_Config.thy ===== *)
theory Store_Config
  imports Batter_Prelude
begin

text \<open>
  The configuration of the bounded in-memory stores (\<open>runlimit-memory\<close>, \<open>config.rs\<close>) and the
  division of the global key capacity among the shards.
\<close>

section \<open>Model\<close>

definition DEFAULT_SHARD_COUNT :: nat where
  "DEFAULT_SHARD_COUNT = 1"

definition DEFAULT_MAX_EXPIRED_REMOVALS :: nat where
  "DEFAULT_MAX_EXPIRED_REMOVALS = 8"

definition DEFAULT_MAX_BATCH_SIZE :: nat where
  "DEFAULT_MAX_BATCH_SIZE = 32"

record memory_store_config =
  cfg_max_keys :: nat
  cfg_shard_count :: nat
  cfg_max_expired_removals_per_check :: nat
  cfg_max_batch_size :: nat

datatype memory_store_config_error =
    ZeroMaxKeys
  | ZeroShardCount
  | MoreShardsThanKeys nat nat
  | ZeroExpiredRemovalLimit
  | ZeroBatchSize

definition MemoryStoreConfig_new :: "nat \<Rightarrow> memory_store_config_error + memory_store_config" where
  "MemoryStoreConfig_new max_keys =
     (if max_keys = 0 then Inl ZeroMaxKeys
      else Inr \<lparr>cfg_max_keys = max_keys,
                cfg_shard_count = min DEFAULT_SHARD_COUNT max_keys,
                cfg_max_expired_removals_per_check = DEFAULT_MAX_EXPIRED_REMOVALS,
                cfg_max_batch_size = DEFAULT_MAX_BATCH_SIZE\<rparr>)"

definition with_shard_count ::
  "nat \<Rightarrow> memory_store_config \<Rightarrow> memory_store_config_error + memory_store_config" where
  "with_shard_count shard_count config =
     (if shard_count = 0 then Inl ZeroShardCount
      else if shard_count > cfg_max_keys config
      then Inl (MoreShardsThanKeys shard_count (cfg_max_keys config))
      else Inr (config\<lparr>cfg_shard_count := shard_count\<rparr>))"

definition with_max_expired_removals_per_check ::
  "nat \<Rightarrow> memory_store_config \<Rightarrow> memory_store_config_error + memory_store_config" where
  "with_max_expired_removals_per_check maximum config =
     (if maximum = 0 then Inl ZeroExpiredRemovalLimit
      else Inr (config\<lparr>cfg_max_expired_removals_per_check := maximum\<rparr>))"

definition with_max_batch_size ::
  "nat \<Rightarrow> memory_store_config \<Rightarrow> memory_store_config_error + memory_store_config" where
  "with_max_batch_size maximum config =
     (if maximum = 0 then Inl ZeroBatchSize
      else Inr (config\<lparr>cfg_max_batch_size := maximum\<rparr>))"

definition shard_capacity :: "memory_store_config \<Rightarrow> nat \<Rightarrow> nat" where
  "shard_capacity config shard_index =
     (let base = cfg_max_keys config div cfg_shard_count config;
          extra = (if shard_index < cfg_max_keys config mod cfg_shard_count config then 1 else 0)
      in base + extra)"

record memory_store_config_wire =
  cfw_max_keys :: nat
  cfw_shard_count :: "nat option"
  cfw_max_expired_removals_per_check :: "nat option"
  cfw_max_batch_size :: "nat option"

definition MemoryStoreConfig_serialize :: "memory_store_config \<Rightarrow> memory_store_config_wire" where
  "MemoryStoreConfig_serialize config =
     \<lparr>cfw_max_keys = cfg_max_keys config, cfw_shard_count = Some (cfg_shard_count config),
      cfw_max_expired_removals_per_check = Some (cfg_max_expired_removals_per_check config),
      cfw_max_batch_size = Some (cfg_max_batch_size config)\<rparr>"

definition unwrap_or :: "'a \<Rightarrow> 'a option \<Rightarrow> 'a" where
  "unwrap_or d x = (case x of None \<Rightarrow> d | Some v \<Rightarrow> v)"

definition MemoryStoreConfig_deserialize ::
  "memory_store_config_wire \<Rightarrow> memory_store_config_error + memory_store_config" where
  "MemoryStoreConfig_deserialize wire =
     try_bind (MemoryStoreConfig_new (cfw_max_keys wire)) (\<lambda>config.
     try_bind (with_shard_count (unwrap_or DEFAULT_SHARD_COUNT (cfw_shard_count wire)) config) (\<lambda>config.
     try_bind (with_max_expired_removals_per_check
       (unwrap_or DEFAULT_MAX_EXPIRED_REMOVALS (cfw_max_expired_removals_per_check wire)) config) (\<lambda>config.
       with_max_batch_size (unwrap_or DEFAULT_MAX_BATCH_SIZE (cfw_max_batch_size wire)) config)))"

section \<open>Validity\<close>

definition config_ok :: "memory_store_config \<Rightarrow> bool" where
  "config_ok c \<longleftrightarrow>
     0 < cfg_shard_count c \<and> cfg_shard_count c \<le> cfg_max_keys c \<and>
     0 < cfg_max_expired_removals_per_check c \<and> 0 < cfg_max_batch_size c"

lemma MemoryStoreConfig_new_ok: "MemoryStoreConfig_new n = Inr c \<Longrightarrow> config_ok c"
  by (auto simp: MemoryStoreConfig_new_def config_ok_def DEFAULT_SHARD_COUNT_def
      DEFAULT_MAX_EXPIRED_REMOVALS_def DEFAULT_MAX_BATCH_SIZE_def split: if_splits)

lemma config_setters_ok:
  "config_ok c \<Longrightarrow> with_shard_count n c = Inr c' \<Longrightarrow> config_ok c'"
  "config_ok c \<Longrightarrow> with_max_expired_removals_per_check n c = Inr c' \<Longrightarrow> config_ok c'"
  "config_ok c \<Longrightarrow> with_max_batch_size n c = Inr c' \<Longrightarrow> config_ok c'"
  by (auto simp: with_shard_count_def with_max_expired_removals_per_check_def
      with_max_batch_size_def config_ok_def split: if_splits)

lemma MemoryStoreConfig_deserialize_ok:
  assumes "MemoryStoreConfig_deserialize w = Inr c"
  shows "config_ok c"
  using assms
  by (auto simp: MemoryStoreConfig_deserialize_def result_simps
      dest!: MemoryStoreConfig_new_ok)
     (metis config_setters_ok)

lemma MemoryStoreConfig_roundtrip:
  "config_ok c \<Longrightarrow> MemoryStoreConfig_deserialize (MemoryStoreConfig_serialize c) = Inr c"
  by (simp add: MemoryStoreConfig_deserialize_def MemoryStoreConfig_serialize_def unwrap_or_def
      MemoryStoreConfig_new_def with_shard_count_def with_max_expired_removals_per_check_def
      with_max_batch_size_def config_ok_def)

lemma shard_capacity_pos: "config_ok c \<Longrightarrow> 0 < shard_capacity c i"
  by (simp add: shard_capacity_def Let_def config_ok_def div_greater_zero_iff)

lemma sum_below: "(\<Sum>i<n. if i < m then 1 else 0) = min m (n :: nat)"
  by (induction n) auto

lemma shard_capacity_sum:
  assumes "config_ok c"
  shows "(\<Sum>i < cfg_shard_count c. shard_capacity c i) = cfg_max_keys c"
proof -
  let ?n = "cfg_shard_count c" and ?k = "cfg_max_keys c"
  have "?k mod ?n < ?n" using assms by (simp add: config_ok_def)
  then have "(\<Sum>i < ?n. shard_capacity c i) = ?n * (?k div ?n) + ?k mod ?n"
    by (simp add: shard_capacity_def Let_def sum.distrib sum_below)
  then show ?thesis by simp
qed

section \<open>Properties\<close>

text \<open>
  The shards divide the configured capacity exactly. For every accepted configuration the shard
  capacities are positive, sum up to the global maximum of keys, and differ by at most one; and an
  accepted configuration survives its wire form.
\<close>

theorem shard_capacities_partition:
  assumes "config_ok c"
  shows "(\<Sum>i < cfg_shard_count c. shard_capacity c i) = cfg_max_keys c \<and>
    0 < shard_capacity c i \<and> shard_capacity c i \<le> Suc (shard_capacity c j) \<and>
    MemoryStoreConfig_deserialize (MemoryStoreConfig_serialize c) = Inr c"
  using shard_capacity_sum [OF assms] shard_capacity_pos [OF assms] MemoryStoreConfig_roundtrip [OF assms]
  by (simp add: shard_capacity_def Let_def)

theorem shard_capacities_partition_witness:
  "(\<Sum>i < (3::nat). shard_capacity \<lparr>cfg_max_keys = 10, cfg_shard_count = 3,
      cfg_max_expired_removals_per_check = 8, cfg_max_batch_size = 32\<rparr> i) = 10"
  using shard_capacities_partition [of "\<lparr>cfg_max_keys = 10, cfg_shard_count = 3,
      cfg_max_expired_removals_per_check = 8, cfg_max_batch_size = 32\<rparr>"]
  by (simp add: config_ok_def)

end
