(* ===== verification/Shards.thy ===== *)
theory Shards
  imports Observation Store_Config
begin

unbundle bit_operations_syntax

text \<open>
  The bounded shards of the in-memory stores (\<open>runlimit-memory\<close>, \<open>shards.rs\<close>): one shard with its
  entries and its expiration index, the topology of an atomic batch, and the locked array of shards
  with mutex poisoning. A machine word \<open>usize\<close> has 64 bits.

  A panic while shards are locked poisons them. The content of a poisoned shard is never read again
  (locking fails, recovery discards it), so the model keeps the content it had before the operation.
\<close>

section \<open>Hashing keys to shards\<close>

definition leading_u64 :: "bytes \<Rightarrow> 64 word" where
  "leading_u64 bs = of_nat (from_be_bytes (rev (take 8 bs)))"

definition counter_key_hash :: "counter_key \<Rightarrow> 64 word" where
  "counter_key_hash key =
     leading_u64 (subject_bytes (ck_subject key)) XOR
     word_rotl 32 (leading_u64 (fingerprint_bytes (ck_fingerprint key)))"

section \<open>One shard\<close>

type_synonym expiration = "nat \<times> counter_key"

record 'e stored_entry =
  se_value :: 'e
  se_expires_at_millis :: nat

record 'e shard =
  sh_capacity :: nat
  sh_latest_observed_millis :: nat
  sh_entries :: "(counter_key \<times> 'e stored_entry) list"
  sh_expirations :: "expiration list"

definition Shard_new :: "nat \<Rightarrow> 'e shard" where
  "Shard_new capacity =
     \<lparr>sh_capacity = capacity, sh_latest_observed_millis = 0, sh_entries = [], sh_expirations = []\<rparr>"

definition Shard_clear :: "'e shard \<Rightarrow> 'e shard" where
  "Shard_clear s = s\<lparr>sh_entries := [], sh_expirations := []\<rparr>"

definition shard_used :: "'e shard \<Rightarrow> nat" where
  "shard_used s = length (sh_entries s)"

definition record_observed_millis :: "nat \<Rightarrow> 'e shard \<Rightarrow> 'e shard" where
  "record_observed_millis now_millis s = s\<lparr>sh_latest_observed_millis := now_millis\<rparr>"

definition contains_key :: "'e shard \<Rightarrow> counter_key \<Rightarrow> bool" where
  "contains_key s key \<longleftrightarrow> map_of (sh_entries s) key \<noteq> None"

definition active_entry :: "'e shard \<Rightarrow> counter_key \<Rightarrow> nat \<Rightarrow> ('e \<times> nat) option" where
  "active_entry s key now_millis =
     (case map_of (sh_entries s) key of
        None \<Rightarrow> None
      | Some entry \<Rightarrow>
          if se_expires_at_millis entry > now_millis
          then Some (se_value entry, se_expires_at_millis entry) else None)"

definition update_value :: "counter_key \<Rightarrow> ('e \<Rightarrow> 'e) \<Rightarrow> 'e shard \<Rightarrow> 'e shard option" where
  "update_value key update s =
     map_option (\<lambda>entry. s\<lparr>sh_entries :=
         AList.update key (entry\<lparr>se_value := update (se_value entry)\<rparr>) (sh_entries s)\<rparr>)
       (map_of (sh_entries s) key)"

definition shard_replace :: "counter_key \<Rightarrow> 'e \<Rightarrow> nat \<Rightarrow> 'e shard \<Rightarrow> 'e shard" where
  "shard_replace key v expires_at_millis s =
     (let previous = map_of (sh_entries s) key;
          expirations = (case previous of
              None \<Rightarrow> sh_expirations s
            | Some entry \<Rightarrow> remove1 (se_expires_at_millis entry, key) (sh_expirations s))
      in s\<lparr>sh_entries := AList.update key
             \<lparr>se_value = v, se_expires_at_millis = expires_at_millis\<rparr> (sh_entries s),
           sh_expirations := btree_insert (expires_at_millis, key) expirations\<rparr>)"

fun prune_expired :: "nat \<Rightarrow> nat \<Rightarrow> 'e shard \<Rightarrow> 'e shard \<times> nat" where
  "prune_expired now_millis 0 s = (s, 0)"
| "prune_expired now_millis (Suc maximum) s =
     (case sh_expirations s of
        [] \<Rightarrow> (s, 0)
      | (expires_at_millis, key) # rest \<Rightarrow>
          if expires_at_millis > now_millis then (s, 0)
          else let removed = map_of (sh_entries s) key;
                   (s', removed_count) = prune_expired now_millis maximum
                     (s\<lparr>sh_expirations := rest, sh_entries := AList.delete key (sh_entries s)\<rparr>)
               in (s', (if removed = None then 0 else 1) + removed_count))"

lemma prune_expired_numeral:
  "prune_expired now (numeral n) s =
     (case sh_expirations s of
        [] \<Rightarrow> (s, 0)
      | (x, key) # rest \<Rightarrow>
          if x > now then (s, 0)
          else let removed = map_of (sh_entries s) key;
                   (s', removed_count) = prune_expired now (pred_numeral n)
                     (s\<lparr>sh_expirations := rest, sh_entries := AList.delete key (sh_entries s)\<rparr>)
               in (s', (if removed = None then 0 else 1) + removed_count))"
  by (simp add: numeral_eq_Suc)

definition capacity_retry_after_millis :: "'e shard \<Rightarrow> nat \<Rightarrow> nat option" where
  "capacity_retry_after_millis s now_millis =
     map_option (\<lambda>(expires_at_millis, key). max (expires_at_millis - now_millis) 1)
       (btree_first (sh_expirations s))"

text \<open>The conversion to 64 bits is an \<open>expect\<close>; \<open>None\<close> stands for its panic.\<close>

definition storage_capacity_denial :: "'e shard \<Rightarrow> nat \<Rightarrow> denial option" where
  "storage_capacity_denial s now_millis =
     (case capacity_retry_after_millis s now_millis of
        None \<Rightarrow> Some (StorageCapacity None)
      | Some millis \<Rightarrow>
          map_option (\<lambda>ms. StorageCapacity (Some (Delay (from_millis ms))))
            (try_from_nat U64_MAX millis))"

section \<open>The topology of a batch\<close>

datatype memory_batch_error =
    InvalidBatch batch_error
  | BatchExceedsShardCapacity nat nat nat
  | BatchPoisonedShard nat

record batch_shard =
  bs_index :: nat
  bs_check_count :: nat

record batch_topology =
  bt_shards :: "batch_shard list"
  bt_input_positions :: "nat list"

fun dedup_by_key :: "('a \<Rightarrow> 'k) \<Rightarrow> 'a list \<Rightarrow> 'a list" where
  "dedup_by_key key (x # y # xs) =
     (if key x = key y then dedup_by_key key (x # xs) else x # dedup_by_key key (y # xs))"
| "dedup_by_key key xs = xs"

definition partition_point :: "('a \<Rightarrow> bool) \<Rightarrow> 'a list \<Rightarrow> nat" where
  "partition_point pred xs = length (takeWhile pred xs)"

fun count_positions ::
  "batch_shard list \<Rightarrow> nat list \<Rightarrow> memory_batch_error failure + (batch_shard list \<times> nat list)" where
  "count_positions shards [] = Inr (shards, [])"
| "count_positions shards (shard_index # rest) =
     (let position = partition_point (\<lambda>s. bs_index s < shard_index) shards
      in if position < length shards
         then map_ok (\<lambda>(shards', positions). (shards', position # positions))
           (count_positions
             (shards[position := (shards ! position)\<lparr>bs_check_count := Suc (bs_check_count (shards ! position))\<rparr>])
             rest)
         else Inl Panicked)"

fun check_shard_capacities :: "memory_store_config \<Rightarrow> batch_shard list \<Rightarrow> memory_batch_error failure + unit" where
  "check_shard_capacities config [] = Inr ()"
| "check_shard_capacities config (s # rest) =
     (let capacity = shard_capacity config (bs_index s)
      in if bs_check_count s > capacity
         then Inl (Failure (BatchExceedsShardCapacity (bs_index s) (bs_check_count s) capacity))
         else check_shard_capacities config rest)"

definition BatchTopology_new ::
  "nat list \<Rightarrow> memory_store_config \<Rightarrow> memory_batch_error failure + batch_topology" where
  "BatchTopology_new shard_indexes config =
     (let shards = map (\<lambda>i. \<lparr>bs_index = i, bs_check_count = 0\<rparr>) shard_indexes;
          shards = dedup_by_key bs_index (sort_key bs_index shards)
      in try_bind (count_positions shards shard_indexes) (\<lambda>(shards, input_positions).
         try_bind (check_shard_capacities config shards) (\<lambda>_.
           Inr \<lparr>bt_shards = shards, bt_input_positions = input_positions\<rparr>)))"

section \<open>The array of locked shards\<close>

record 'e mutex =
  mx_poisoned :: bool
  mx_shard :: "'e shard"

type_synonym 'e bounded_shards = "'e mutex list"

definition BoundedShards_new :: "memory_store_config \<Rightarrow> 'e bounded_shards" where
  "BoundedShards_new config =
     map (\<lambda>index. \<lparr>mx_poisoned = False, mx_shard = Shard_new (shard_capacity config index)\<rparr>)
       [0..<cfg_shard_count config]"

definition poisoned_count :: "'e bounded_shards \<Rightarrow> nat" where
  "poisoned_count shards = length (filter mx_poisoned shards)"

definition shard_index :: "'e bounded_shards \<Rightarrow> counter_key \<Rightarrow> nat" where
  "shard_index shards key = unat (counter_key_hash key) mod length shards"

datatype poisoned_shard_error = PoisonedShardError nat

definition lock_shard :: "'e bounded_shards \<Rightarrow> nat \<Rightarrow> poisoned_shard_error failure + 'e shard" where
  "lock_shard shards index =
     (if index < length shards
      then if mx_poisoned (shards ! index) then Inl (Failure (PoisonedShardError index))
           else Inr (mx_shard (shards ! index))
      else Inl Panicked)"

fun lock_shards ::
  "'e bounded_shards \<Rightarrow> nat list \<Rightarrow> poisoned_shard_error failure + (nat \<times> 'e shard) list" where
  "lock_shards shards [] = Inr []"
| "lock_shards shards (index # rest) =
     try_bind (lock_shard shards index) (\<lambda>shard.
       map_ok (\<lambda>locked. (index, shard) # locked) (lock_shards shards rest))"

definition lock_topology ::
  "'e bounded_shards \<Rightarrow> batch_topology \<Rightarrow> poisoned_shard_error failure + (nat \<times> 'e shard) list" where
  "lock_topology shards topology = lock_shards shards (map bs_index (bt_shards topology))"

text \<open>
  Releasing the guards leaves the shards as the operation made them; unwinding through them sets
  the poison flags.
\<close>

fun unlock :: "'e bounded_shards \<Rightarrow> (nat \<times> 'e shard) list \<Rightarrow> 'e bounded_shards" where
  "unlock shards [] = shards"
| "unlock shards ((index, shard) # rest) =
     unlock (shards[index := (shards ! index)\<lparr>mx_shard := shard\<rparr>]) rest"

fun unwind :: "'e bounded_shards \<Rightarrow> nat list \<Rightarrow> 'e bounded_shards" where
  "unwind shards [] = shards"
| "unwind shards (index # rest) = unwind (shards[index := (shards ! index)\<lparr>mx_poisoned := True\<rparr>]) rest"

record memory_store_stats =
  st_entries :: nat
  st_capacity :: nat
  st_shard_count :: nat

definition BoundedShards_stats ::
  "'e bounded_shards \<Rightarrow> memory_store_config \<Rightarrow> poisoned_shard_error failure + memory_store_stats" where
  "BoundedShards_stats shards config =
     map_ok (\<lambda>locked. \<lparr>st_entries = sum_list (map (\<lambda>(_, s). shard_used s) locked),
                       st_capacity = cfg_max_keys config, st_shard_count = cfg_shard_count config\<rparr>)
       (lock_shards shards [0..<length shards])"

definition BoundedShards_clear ::
  "'e bounded_shards \<Rightarrow> 'e bounded_shards \<times> (poisoned_shard_error failure + unit)" where
  "BoundedShards_clear shards =
     (case lock_shards shards [0..<length shards] of
        Inl e \<Rightarrow> (shards, Inl e)
      | Inr locked \<Rightarrow> (unlock shards (map (\<lambda>(i, s). (i, Shard_clear s)) locked), Inr ()))"

fun recover_loop :: "memory_store_config \<Rightarrow> nat \<Rightarrow> 'e bounded_shards \<Rightarrow> 'e bounded_shards \<times> nat" where
  "recover_loop config index [] = ([], 0)"
| "recover_loop config index (m # rest) =
     (let (rest', recovered) = recover_loop config (Suc index) rest
      in if mx_poisoned m
         then (\<lparr>mx_poisoned = False, mx_shard = Shard_new (shard_capacity config index)\<rparr> # rest',
               Suc recovered)
         else (m # rest', recovered))"

definition recover_poisoned :: "'e bounded_shards \<Rightarrow> memory_store_config \<Rightarrow> 'e bounded_shards \<times> nat" where
  "recover_poisoned shards config = recover_loop config 0 shards"

section \<open>Effects reported to observers\<close>

record cleanup_effect =
  ce_requested :: nat
  ce_removed :: nat
  ce_elapsed :: duration

record shard_effect =
  sf_shard_index :: nat
  sf_cleanup :: cleanup_effect
  sf_used :: nat
  sf_capacity :: nat

definition collect_shard_effects ::
  "(nat \<times> 'e shard) list \<Rightarrow> cleanup_effect list \<Rightarrow> shard_effect list" where
  "collect_shard_effects locked_shards cleanup_effects =
     map (\<lambda>((index, s), cleanup). \<lparr>sf_shard_index = index, sf_cleanup = cleanup,
            sf_used = shard_used s, sf_capacity = sh_capacity s\<rparr>)
       (zip locked_shards cleanup_effects)"

definition usize_to_u64 :: "nat \<Rightarrow> nat" where
  "usize_to_u64 v = unwrap_or U64_MAX (try_from_nat U64_MAX v)"

section \<open>The shard invariant\<close>

text \<open>
  The entries and the expiration index describe the same keys: every entry has exactly its own
  expiration in the index and the index holds nothing else; the number of entries never exceeds the
  hard capacity.
\<close>

definition shard_ok :: "'e shard \<Rightarrow> bool" where
  "shard_ok s \<longleftrightarrow>
     keys_ok (sh_entries s) \<and> btree_ok (sh_expirations s) \<and>
     (\<forall>x k. (x, k) \<in> set (sh_expirations s) \<longleftrightarrow>
        (\<exists>e. map_of (sh_entries s) k = Some e \<and> se_expires_at_millis e = x)) \<and>
     shard_used s \<le> sh_capacity s"

lemma shard_okD:
  assumes "shard_ok s"
  shows "keys_ok (sh_entries s)" and "btree_ok (sh_expirations s)" and "shard_used s \<le> sh_capacity s"
    and "(x, k) \<in> set (sh_expirations s) \<longleftrightarrow>
      (\<exists>e. map_of (sh_entries s) k = Some e \<and> se_expires_at_millis e = x)"
  using assms by (auto simp: shard_ok_def)

lemma Shard_new_ok [simp]: "shard_ok (Shard_new n)"
  by (simp add: shard_ok_def Shard_new_def shard_used_def)

lemma Shard_new_capacity [simp]: "sh_capacity (Shard_new n) = n"
  by (simp add: Shard_new_def)

lemma Shard_clear_ok [simp]: "shard_ok s \<Longrightarrow> shard_ok (Shard_clear s)"
  by (simp add: shard_ok_def Shard_clear_def shard_used_def)

lemma record_observed_fields [simp]:
  "sh_entries (record_observed_millis t s) = sh_entries s"
  "sh_expirations (record_observed_millis t s) = sh_expirations s"
  "sh_capacity (record_observed_millis t s) = sh_capacity s"
  "sh_latest_observed_millis (record_observed_millis t s) = t"
  "shard_used (record_observed_millis t s) = shard_used s"
  by (simp_all add: record_observed_millis_def shard_used_def)

lemma record_observed_ok [simp]: "shard_ok (record_observed_millis t s) = shard_ok s"
  by (simp add: shard_ok_def)

lemma active_entry_record [simp]:
  "active_entry (record_observed_millis t s) k now = active_entry s k now"
  by (simp add: active_entry_def)

lemma active_entry_Some:
  "active_entry s k now = Some (v, x) \<longleftrightarrow>
   (\<exists>e. map_of (sh_entries s) k = Some e \<and> se_value e = v \<and> se_expires_at_millis e = x \<and> now < x)"
  by (auto simp: active_entry_def split: option.splits)

lemma active_entry_contains: "active_entry s k now \<noteq> None \<Longrightarrow> contains_key s k"
  by (auto simp: active_entry_def contains_key_def split: option.splits)

lemma active_entry_cong:
  "map_of (sh_entries s) k = map_of (sh_entries s') k \<Longrightarrow> active_entry s k now = active_entry s' k now"
  by (simp add: active_entry_def)

lemma contains_key_index:
  assumes "shard_ok s"
  shows "contains_key s k \<longleftrightarrow> (\<exists>x. (x, k) \<in> set (sh_expirations s))"
  using shard_okD(4) [OF assms] by (auto simp: contains_key_def)

subsection \<open>Updating and replacing\<close>

lemma update_value_fields:
  assumes "update_value k f s = Some s'"
  shows "map_of (sh_entries s') = (map_of (sh_entries s))(k := map_option (\<lambda>e. e\<lparr>se_value := f (se_value e)\<rparr>)
      (map_of (sh_entries s) k))"
    and "sh_capacity s' = sh_capacity s" and "shard_used s' = shard_used s"
    and "sh_latest_observed_millis s' = sh_latest_observed_millis s"
  using assms by (auto simp: update_value_def shard_used_def length_update)

lemma update_value_ok:
  assumes "shard_ok s" and "update_value k f s = Some s'"
  shows "shard_ok s'"
proof -
  have "keys_ok (sh_entries s')" and "sh_expirations s' = sh_expirations s"
    using assms by (auto simp: update_value_def shard_ok_def)
  then show ?thesis
    using assms(1) update_value_fields [OF assms(2)]
    by (auto simp: shard_ok_def split: if_splits)
qed

lemma update_value_active:
  assumes "update_value k f s = Some s'"
  shows "active_entry s' j t = (if j = k then map_option (\<lambda>(v, x). (f v, x)) (active_entry s k t)
    else active_entry s j t)"
  using update_value_fields(1) [OF assms] by (auto simp: active_entry_def split: option.splits)

lemma replace_fields [simp]:
  "map_of (sh_entries (shard_replace k v x s)) =
     (map_of (sh_entries s))(k \<mapsto> \<lparr>se_value = v, se_expires_at_millis = x\<rparr>)"
  "sh_capacity (shard_replace k v x s) = sh_capacity s"
  "sh_latest_observed_millis (shard_replace k v x s) = sh_latest_observed_millis s"
  "shard_used (shard_replace k v x s) = (if contains_key s k then shard_used s else Suc (shard_used s))"
  by (auto simp: shard_replace_def Let_def shard_used_def length_update contains_key_def)

lemma replace_expirations:
  assumes "shard_ok s"
  shows "(y, j) \<in> set (sh_expirations (shard_replace k v x s)) \<longleftrightarrow>
    (if j = k then y = x else (y, j) \<in> set (sh_expirations s))"
proof -
  have "distinct (sh_expirations s)" using shard_okD(2) [OF assms] by (simp add: btree_ok_def)
  moreover have "\<And>y. (y, k) \<in> set (sh_expirations s) \<longleftrightarrow>
      (\<exists>e. map_of (sh_entries s) k = Some e \<and> se_expires_at_millis e = y)"
    by (rule shard_okD(4) [OF assms])
  ultimately show ?thesis
    by (auto simp: shard_replace_def Let_def split: option.splits)
qed

lemma replace_ok:
  assumes "shard_ok s" and "contains_key s k \<or> shard_used s < sh_capacity s"
  shows "shard_ok (shard_replace k v x s)"
proof -
  have "keys_ok (sh_entries (shard_replace k v x s))" "btree_ok (sh_expirations (shard_replace k v x s))"
    using shard_okD(1,2) [OF assms(1)] by (auto simp: shard_replace_def Let_def split: option.splits)
  moreover have "\<forall>y j. (y, j) \<in> set (sh_expirations (shard_replace k v x s)) \<longleftrightarrow>
      (\<exists>e. map_of (sh_entries (shard_replace k v x s)) j = Some e \<and> se_expires_at_millis e = y)"
    using shard_okD(4) [OF assms(1)] by (auto simp: replace_expirations [OF assms(1)])
  moreover have "shard_used (shard_replace k v x s) \<le> sh_capacity (shard_replace k v x s)"
    using assms(2) shard_okD(3) [OF assms(1)] by auto
  ultimately show ?thesis by (simp add: shard_ok_def)
qed

lemma replace_active:
  "active_entry (shard_replace k v x s) j t =
     (if j = k then if t < x then Some (v, x) else None else active_entry s j t)"
  by (simp add: active_entry_def)

subsection \<open>Pruning\<close>

text \<open>
  \<open>prunes now s s'\<close>: \<open>s'\<close> results from \<open>s\<close> by dropping entries that have expired at \<open>now\<close>.
\<close>

definition prunes :: "nat \<Rightarrow> 'e shard \<Rightarrow> 'e shard \<Rightarrow> bool" where
  "prunes now s s' \<longleftrightarrow>
     sh_capacity s' = sh_capacity s \<and> sh_latest_observed_millis s' = sh_latest_observed_millis s \<and>
     (\<forall>k. map_of (sh_entries s') k = map_of (sh_entries s) k \<or>
        map_of (sh_entries s') k = None \<and>
        (\<exists>e. map_of (sh_entries s) k = Some e \<and> se_expires_at_millis e \<le> now))"

lemma prunes_refl [simp]: "prunes now s s"
  by (simp add: prunes_def)

lemma prunes_trans: "prunes now s s' \<Longrightarrow> prunes now s' s'' \<Longrightarrow> prunes now s s''"
  unfolding prunes_def by metis

lemma prunes_active:
  assumes "prunes now s s'" and "now \<le> t"
  shows "active_entry s' k t = active_entry s k t"
proof (cases "map_of (sh_entries s') k = map_of (sh_entries s) k")
  case True
  then show ?thesis by (rule active_entry_cong)
next
  case False
  then obtain e where "map_of (sh_entries s') k = None" "map_of (sh_entries s) k = Some e"
      "se_expires_at_millis e \<le> now"
    using assms(1) unfolding prunes_def by metis
  with assms(2) show ?thesis by (simp add: active_entry_def)
qed

lemma prunes_contains: "prunes now s s' \<Longrightarrow> contains_key s' k \<Longrightarrow> contains_key s k"
  unfolding prunes_def contains_key_def by metis

lemma drop_first_expired:
  assumes "shard_ok s" and "sh_expirations s = (x, k) # rest" and "x \<le> now"
  defines "s' \<equiv> s\<lparr>sh_expirations := rest, sh_entries := AList.delete k (sh_entries s)\<rparr>"
  shows "shard_ok s'" and "prunes now s s'" and "Suc (shard_used s') = shard_used s"
    and "map_of (sh_entries s) k \<noteq> None"
proof -
  from assms(2) shard_okD(4) [OF assms(1), of x k]
  obtain e where e: "map_of (sh_entries s) k = Some e" "se_expires_at_millis e = x" by auto
  then show "map_of (sh_entries s) k \<noteq> None" by simp
  from e show used: "Suc (shard_used s') = shard_used s"
    using length_delete_present [OF shard_okD(1) [OF assms(1)], of k] by (simp add: shard_used_def s'_def)
  from e assms(3) show "prunes now s s'" by (auto simp: prunes_def s'_def)
  have bt: "btree_ok rest" "(x, k) \<notin> set rest"
    using shard_okD(2) [OF assms(1)] by (auto simp: assms(2) btree_ok_def)
  have "(y, j) \<in> set rest \<longleftrightarrow> (y, j) \<noteq> (x, k) \<and> (y, j) \<in> set (sh_expirations s)" for y j
    using bt(2) assms(2) by auto
  then have "(y, j) \<in> set rest \<longleftrightarrow> j \<noteq> k \<and>
      (\<exists>e. map_of (sh_entries s) j = Some e \<and> se_expires_at_millis e = y)" for y j
    using shard_okD(4) [OF assms(1), of y j] e by auto
  then show "shard_ok s'"
    using bt(1) shard_okD(1,3) [OF assms(1)] used by (auto simp: shard_ok_def s'_def)
qed

lemma prune_expired_spec:
  assumes "shard_ok s" and "prune_expired now m s = (s', n)"
  shows "shard_ok s' \<and> prunes now s s' \<and> shard_used s' + n = shard_used s \<and> n \<le> m \<and>
    (n < m \<longrightarrow> (\<forall>k e. map_of (sh_entries s') k = Some e \<longrightarrow> now < se_expires_at_millis e))"
  using assms
proof (induction m arbitrary: s s' n)
  case 0
  then show ?case by simp
next
  case (Suc m)
  show ?case
  proof (cases "\<exists>x k rest. sh_expirations s = (x, k) # rest \<and> x \<le> now")
    case True
    then obtain x k rest where x: "sh_expirations s = (x, k) # rest" "x \<le> now" by blast
    let ?s = "s\<lparr>sh_expirations := rest, sh_entries := AList.delete k (sh_entries s)\<rparr>"
    note first = drop_first_expired [OF Suc.prems(1) x]
    obtain s2 n2 where rec: "prune_expired now m ?s = (s2, n2)" by fastforce
    with Suc.prems(2) x first(4) have "s' = s2" and "n = Suc n2" by auto
    with Suc.IH [OF first(1) rec] first(2,3) show ?thesis by (auto intro: prunes_trans)
  next
    case False
    have stop: "s' = s \<and> n = 0"
      using Suc.prems(2) False by (cases "sh_expirations s") (auto split: if_splits)
    have "now < se_expires_at_millis e" if "map_of (sh_entries s) k = Some e" for k e
    proof -
      have mem: "(se_expires_at_millis e, k) \<in> set (sh_expirations s)"
        using shard_okD(4) [OF Suc.prems(1)] that by blast
      then obtain y j rest where y: "sh_expirations s = (y, j) # rest"
        by (cases "sh_expirations s") auto
      have "(y, j) \<le> (se_expires_at_millis e, k)"
        using shard_okD(2) [OF Suc.prems(1)] mem by (auto simp: y btree_ok_def)
      moreover have "now < y" using False y by (meson not_le)
      ultimately show ?thesis by (auto simp: less_eq_prod_def)
    qed
    with stop Suc.prems(1) show ?thesis by simp
  qed
qed

lemmas prune_expired_facts =
  prune_expired_spec [THEN conjunct1]
  prune_expired_spec [THEN conjunct2, THEN conjunct1]
  prune_expired_spec [THEN conjunct2, THEN conjunct2, THEN conjunct1]

section \<open>Batch topology\<close>

lemma dedup_by_key_map: "map key (dedup_by_key key xs) = remdups_adj (map key xs)"
  by (induction key xs rule: dedup_by_key.induct) auto

lemma sorted_remdups_adj_strict: "sorted xs \<Longrightarrow> sorted_wrt (<) (remdups_adj xs)"
  by (induction xs rule: remdups_adj.induct) (auto simp: order.strict_iff_order)

abbreviation batch_shards_of :: "nat list \<Rightarrow> batch_shard list" where
  "batch_shards_of is \<equiv> dedup_by_key bs_index
     (sort_key bs_index (map (\<lambda>i. \<lparr>bs_index = i, bs_check_count = 0\<rparr>) is))"

lemma batch_shards_of_indexes: "map bs_index (batch_shards_of is) = sorted_list_of_set (set is)"
proof -
  let ?ys = "map bs_index (batch_shards_of is)"
  have "sorted_wrt (<) ?ys"
    unfolding dedup_by_key_map by (rule sorted_remdups_adj_strict) (rule sorted_sort_key)
  moreover have "set ?ys = set is"
    unfolding dedup_by_key_map by (auto simp: image_image)
  ultimately show ?thesis
    by (metis sorted_list_of_set.idem_if_sorted_distinct strict_sorted_iff)
qed

lemma dedup_by_key_subset: "set (dedup_by_key key xs) \<subseteq> set xs"
  by (induction key xs rule: dedup_by_key.induct) auto

lemma batch_shards_of_counts: "s \<in> set (batch_shards_of is) \<Longrightarrow> bs_check_count s = 0"
  using dedup_by_key_subset [of bs_index "sort_key bs_index (map (\<lambda>i. \<lparr>bs_index = i, bs_check_count = 0\<rparr>) is)"]
  by auto

lemma partition_point_eq:
  assumes "sorted_wrt (<) (map bs_index shards)" and "p < length shards"
  shows "partition_point (\<lambda>s. bs_index s < bs_index (shards ! p)) shards = p"
  using assms
proof (induction shards arbitrary: p)
  case Nil
  then show ?case by simp
next
  case (Cons s shards)
  show ?case
  proof (cases p)
    case 0
    then show ?thesis by (simp add: partition_point_def)
  next
    case (Suc q)
    with Cons.prems have "bs_index s < bs_index (shards ! q)" by auto
    with Cons Suc show ?thesis by (simp add: partition_point_def)
  qed
qed

definition positions_ok :: "batch_shard list \<Rightarrow> nat list \<Rightarrow> nat list \<Rightarrow> bool" where
  "positions_ok shards is ps \<longleftrightarrow>
     length ps = length is \<and>
     (\<forall>j < length is. ps ! j < length shards \<and> bs_index (shards ! (ps ! j)) = is ! j)"

lemma positions_ok_Cons:
  "positions_ok shards (i # is) (p # ps) \<longleftrightarrow>
     p < length shards \<and> bs_index (shards ! p) = i \<and> positions_ok shards is ps"
  by (auto simp: positions_ok_def less_Suc_eq_0_disj)

lemma positions_ok_cong:
  assumes "map bs_index shards = map bs_index shards'"
  shows "positions_ok shards is ps = positions_ok shards' is ps"
proof -
  have "length shards = length shards'" using assms by (rule map_eq_imp_length_eq)
  moreover have "p < length shards \<Longrightarrow> bs_index (shards ! p) = bs_index (shards' ! p)" for p
    using assms calculation by (metis nth_map)
  ultimately show ?thesis unfolding positions_ok_def by metis
qed

lemma count_positions_total:
  assumes "sorted_wrt (<) (map bs_index shards)" and "set is \<subseteq> bs_index ` set shards"
  shows "\<exists>shards' ps. count_positions shards is = Inr (shards', ps) \<and>
    map bs_index shards' = map bs_index shards \<and> positions_ok shards is ps \<and>
    (\<forall>p < length shards. bs_check_count (shards' ! p) =
       bs_check_count (shards ! p) + count_list is (bs_index (shards ! p)))"
  using assms
proof (induction "is" arbitrary: shards)
  case Nil
  then show ?case by (simp add: positions_ok_def)
next
  case (Cons i "is")
  from Cons.prems(2) obtain p where p: "p < length shards" "bs_index (shards ! p) = i"
    by (auto simp: in_set_conv_nth)
  let ?bump = "(shards ! p)\<lparr>bs_check_count := Suc (bs_check_count (shards ! p))\<rparr>"
  let ?shards = "shards[p := ?bump]"
  have pp: "partition_point (\<lambda>s. bs_index s < i) shards = p"
    using partition_point_eq [OF Cons.prems(1) p(1)] p(2) by simp
  have same: "map bs_index ?shards = map bs_index shards"
    using p by (simp add: map_update list_update_same_conv)
  have sorted': "sorted_wrt (<) (map bs_index ?shards)" using Cons.prems(1) unfolding same .
  have "bs_index ` set ?shards = bs_index ` set shards"
    using same by (metis set_map)
  with Cons.prems(2) have "set is \<subseteq> bs_index ` set ?shards" by simp
  from Cons.IH [OF sorted' this]
  obtain shards' ps where rec: "count_positions ?shards is = Inr (shards', ps)"
      "map bs_index shards' = map bs_index shards" "positions_ok shards is ps"
      "\<forall>q < length shards. bs_check_count (shards' ! q) =
         bs_check_count (?shards ! q) + count_list is (bs_index (?shards ! q))"
    unfolding same positions_ok_cong [OF same] length_list_update by blast
  have idx: "bs_index (?shards ! q) = bs_index (shards ! q)" if "q < length shards" for q
    using same that by (metis length_list_update nth_map)
  have inj: "q = p" if "q < length shards" "bs_index (shards ! q) = i" for q
    using partition_point_eq [OF Cons.prems(1) that(1)] that(2) pp by simp
  have "bs_check_count (shards' ! q) =
      bs_check_count (shards ! q) + count_list (i # is) (bs_index (shards ! q))"
    if q: "q < length shards" for q
  proof (cases "q = p")
    case True
    then show ?thesis using rec(4) q p idx [OF q] by simp
  next
    case False
    then have "bs_index (shards ! q) \<noteq> i" using inj [OF q] by blast
    then show ?thesis using False rec(4) q idx [OF q] by simp
  qed
  moreover have "count_positions shards (i # is) = Inr (shards', p # ps)"
    by (simp only: count_positions.simps Let_def pp p(1) if_True rec(1) map_ok_simps prod.case)
  moreover have "positions_ok shards (i # is) (p # ps)"
    using rec(3) p by (simp add: positions_ok_Cons)
  ultimately show ?case using rec(2) by blast
qed

lemma check_shard_capacities_ok:
  "check_shard_capacities config ss = Inr () \<longleftrightarrow>
     (\<forall>s \<in> set ss. bs_check_count s \<le> shard_capacity config (bs_index s))"
  by (induction ss) (auto simp: Let_def)

lemma check_shard_capacities_Inl:
  "check_shard_capacities config ss = Inl e \<Longrightarrow>
     \<exists>s \<in> set ss. shard_capacity config (bs_index s) < bs_check_count s \<and>
       e = Failure (BatchExceedsShardCapacity (bs_index s) (bs_check_count s) (shard_capacity config (bs_index s)))"
  by (induction ss) (auto simp: Let_def split: if_splits)

definition topology_ok :: "memory_store_config \<Rightarrow> nat list \<Rightarrow> batch_topology \<Rightarrow> bool" where
  "topology_ok config is t \<longleftrightarrow>
     map bs_index (bt_shards t) = sorted_list_of_set (set is) \<and>
     positions_ok (bt_shards t) is (bt_input_positions t) \<and>
     (\<forall>s \<in> set (bt_shards t). bs_check_count s = count_list is (bs_index s) \<and>
        bs_check_count s \<le> shard_capacity config (bs_index s))"

lemma count_positions_batch:
  obtains shards' ps where "count_positions (batch_shards_of is) is = Inr (shards', ps)"
    and "map bs_index shards' = sorted_list_of_set (set is)" and "positions_ok shards' is ps"
    and "\<forall>s \<in> set shards'. bs_check_count s = count_list is (bs_index s)"
proof -
  let ?b = "batch_shards_of is"
  have "sorted_wrt (<) (map bs_index ?b)"
    unfolding batch_shards_of_indexes by (rule strict_sorted_list_of_set)
  moreover have "bs_index ` set ?b = set is"
    using arg_cong [OF batch_shards_of_indexes [of "is"], of set] by simp
  ultimately obtain shards' ps where r: "count_positions ?b is = Inr (shards', ps)"
      "map bs_index shards' = map bs_index ?b" "positions_ok ?b is ps"
      "\<forall>p < length ?b. bs_check_count (shards' ! p) =
         bs_check_count (?b ! p) + count_list is (bs_index (?b ! p))"
    using count_positions_total [of ?b "is"] by auto
  have len: "length shards' = length ?b" using r(2) by (rule map_eq_imp_length_eq)
  have "bs_check_count s = count_list is (bs_index s)" if "s \<in> set shards'" for s
  proof -
    from that obtain p where p: "p < length shards'" "s = shards' ! p" by (auto simp: in_set_conv_nth)
    have "bs_index (shards' ! p) = bs_index (?b ! p)" using r(2) p(1) len by (metis nth_map)
    moreover have "bs_check_count (?b ! p) = 0" using p(1) len by (intro batch_shards_of_counts [of _ "is"] nth_mem) simp
    ultimately show ?thesis using r(4) p len by simp
  qed
  moreover have "positions_ok shards' is ps" using r(3) positions_ok_cong [OF r(2)] by simp
  moreover have "map bs_index shards' = sorted_list_of_set (set is)"
    using r(2) batch_shards_of_indexes [of "is"] by simp
  ultimately show ?thesis using that [OF r(1)] by blast
qed

lemma BatchTopology_new_cases:
  "case BatchTopology_new is config of
     Inr t \<Rightarrow> topology_ok config is t
   | Inl (Failure (BatchExceedsShardCapacity i n c)) \<Rightarrow>
       i \<in> set is \<and> n = count_list is i \<and> c = shard_capacity config i \<and> c < n
   | Inl _ \<Rightarrow> False"
proof -
  obtain ss ps where r: "count_positions (batch_shards_of is) is = Inr (ss, ps)"
      "map bs_index ss = sorted_list_of_set (set is)" "positions_ok ss is ps"
      "\<forall>s \<in> set ss. bs_check_count s = count_list is (bs_index s)"
    by (rule count_positions_batch)
  have mem: "bs_index s \<in> set is" if "s \<in> set ss" for s
    using arg_cong [OF r(2), of set] that by auto
  show ?thesis
  proof (cases "check_shard_capacities config ss")
    case (Inr u)
    then have ok: "check_shard_capacities config ss = Inr ()" by simp
    then have "topology_ok config is \<lparr>bt_shards = ss, bt_input_positions = ps\<rparr>"
      using r(2-4) by (simp add: topology_ok_def check_shard_capacities_ok)
    then show ?thesis
      unfolding BatchTopology_new_def Let_def by (simp add: r(1) ok)
  next
    case (Inl e)
    from check_shard_capacities_Inl [OF Inl] r(4) mem obtain i n c where
        "e = Failure (BatchExceedsShardCapacity i n c)" "i \<in> set is" "n = count_list is i"
        "c = shard_capacity config i" "c < n" by auto
    then show ?thesis
      unfolding BatchTopology_new_def Let_def by (simp add: r(1) Inl)
  qed
qed

section \<open>Locking and releasing\<close>

lemma lock_shards_Inr:
  "lock_shards shards is = Inr locked \<longleftrightarrow>
     (\<forall>i \<in> set is. i < length shards \<and> \<not> mx_poisoned (shards ! i)) \<and>
     locked = map (\<lambda>i. (i, mx_shard (shards ! i))) is"
  by (induction "is" arbitrary: locked) (auto simp: lock_shard_def result_simps split: if_splits)

lemma lock_shards_Inl:
  assumes "lock_shards shards is = Inl e" and "\<forall>i \<in> set is. i < length shards"
  shows "\<exists>i \<in> set is. mx_poisoned (shards ! i) \<and> e = Failure (PoisonedShardError i)"
  using assms
  by (induction "is" arbitrary: e) (auto simp: lock_shard_def result_simps split: if_splits)

lemma length_unlock [simp]: "length (unlock shards locked) = length shards"
  by (induction shards locked rule: unlock.induct) simp_all

lemma length_unwind [simp]: "length (unwind shards is) = length shards"
  by (induction shards "is" rule: unwind.induct) simp_all

lemma unlock_nth:
  assumes "distinct (map fst locked)" and "i < length shards"
  shows "unlock shards locked ! i =
    (case map_of locked i of None \<Rightarrow> shards ! i | Some s \<Rightarrow> (shards ! i)\<lparr>mx_shard := s\<rparr>)"
  using assms
proof (induction shards locked rule: unlock.induct)
  case (1 shards)
  then show ?case by simp
next
  case (2 shards index shard rest)
  then have "map_of rest index = None" by (auto simp: map_of_eq_None_iff)
  with 2 show ?case by (cases "index = i") (auto split: option.splits)
qed

lemma unwind_nth:
  "i < length shards \<Longrightarrow> unwind shards is ! i =
    (shards ! i)\<lparr>mx_poisoned := mx_poisoned (shards ! i) \<or> i \<in> set is\<rparr>"
proof (induction shards "is" rule: unwind.induct)
  case (1 shards)
  then show ?case by simp
next
  case (2 shards index rest)
  then show ?case by (cases "index = i") auto
qed

lemma recover_loop_spec:
  assumes "recover_loop config k ms = (ms', n)"
  shows "length ms' = length ms \<and> n = poisoned_count ms \<and>
    (\<forall>i < length ms. ms' ! i =
       (if mx_poisoned (ms ! i)
        then \<lparr>mx_poisoned = False, mx_shard = Shard_new (shard_capacity config (k + i))\<rparr>
        else ms ! i))"
  using assms
proof (induction ms arbitrary: k ms' n)
  case Nil
  then show ?case by (simp add: poisoned_count_def)
next
  case (Cons m ms)
  obtain rest n' where r: "recover_loop config (Suc k) ms = (rest, n')" by fastforce
  from Cons.IH [OF r] Cons.prems r show ?case
    by (auto simp: poisoned_count_def nth_Cons less_Suc_eq_0_disj split: if_splits nat.splits)
qed

section \<open>The store invariant\<close>

text \<open>
  Every healthy shard satisfies its own invariant, has the capacity the configuration gives it, and
  holds no entry that lives longer than the longest policy window past the greatest time observed.
  Nothing is said about the content of poisoned shards.
\<close>

definition timely :: "nat \<Rightarrow> 'e shard \<Rightarrow> bool" where
  "timely now s \<longleftrightarrow>
     (\<forall>k e. map_of (sh_entries s) k = Some e \<longrightarrow> se_expires_at_millis e \<le> now + MAX_WINDOW_MILLIS)"

lemma timely_mono: "timely now s \<Longrightarrow> now \<le> t \<Longrightarrow> timely t s"
  by (fastforce simp: timely_def)

lemma timely_record [simp]: "timely now (record_observed_millis t s) = timely now s"
  by (simp add: timely_def)

lemma timely_new [simp]: "timely now (Shard_new n)"
  by (simp add: timely_def Shard_new_def)

lemma timely_clear [simp]: "timely now (Shard_clear s)"
  by (simp add: timely_def Shard_clear_def)

lemma prunes_timely: "prunes now s s' \<Longrightarrow> timely t s \<Longrightarrow> timely t s'"
  unfolding prunes_def timely_def by (metis option.distinct(1))

definition shards_ok :: "memory_store_config \<Rightarrow> 'e bounded_shards \<Rightarrow> bool" where
  "shards_ok config shards \<longleftrightarrow>
     config_ok config \<and> length shards = cfg_shard_count config \<and>
     (\<forall>i < length shards. \<not> mx_poisoned (shards ! i) \<longrightarrow>
        shard_ok (mx_shard (shards ! i)) \<and>
        sh_capacity (mx_shard (shards ! i)) = shard_capacity config i \<and>
        timely (sh_latest_observed_millis (mx_shard (shards ! i))) (mx_shard (shards ! i)))"

lemma shard_index_less: "shards_ok config shards \<Longrightarrow> shard_index shards k < length shards"
  by (simp add: shards_ok_def config_ok_def shard_index_def)

lemma BoundedShards_new_ok: "config_ok config \<Longrightarrow> shards_ok config (BoundedShards_new config)"
  by (simp add: shards_ok_def BoundedShards_new_def)

lemma shards_ok_unwind: "shards_ok config shards \<Longrightarrow> shards_ok config (unwind shards is)"
  by (simp add: shards_ok_def unwind_nth)

lemma shards_ok_unlock:
  assumes "shards_ok config shards" and "distinct (map fst locked)"
    and "\<And>i s. (i, s) \<in> set locked \<Longrightarrow> shard_ok s \<and> sh_capacity s = shard_capacity config i \<and>
      timely (sh_latest_observed_millis s) s"
  shows "shards_ok config (unlock shards locked)"
  using assms(1) unlock_nth [OF assms(2)] assms(3)
  by (auto simp: shards_ok_def split: option.splits dest: map_of_SomeD)

lemma storage_capacity_denial_total:
  assumes "shard_ok s" and "timely now s"
  shows "\<exists>r. storage_capacity_denial s now = Some (StorageCapacity r)"
proof (cases "sh_expirations s")
  case Nil
  then show ?thesis by (simp add: storage_capacity_denial_def capacity_retry_after_millis_def)
next
  case (Cons p rest)
  obtain x k where p: "p = (x, k)" by (cases p)
  then have "x \<le> now + MAX_WINDOW_MILLIS"
    using assms(2) shard_okD(4) [OF assms(1), of x k] Cons by (auto simp: timely_def)
  then have "max (x - now) 1 \<le> U64_MAX" by (simp add: width_simps)
  then show ?thesis
    using Cons p by (simp add: storage_capacity_denial_def capacity_retry_after_millis_def try_from_nat_def)
qed

section \<open>Properties\<close>

text \<open>
  Every operation of a shard keeps the entry map and the expiration index coherent and the shard
  within its hard capacity: creation, clearing, recording time, updating a value, replacing an entry
  when the key is stored or there is room, and pruning. Pruning removes nothing but entries that have
  expired, as many as its work limit allows, and reports how many it removed.
\<close>

theorem shard_operations_coherent:
  assumes "shard_ok s"
  shows "shard_ok (Shard_new n :: 'e shard) \<and> shard_ok (Shard_clear s) \<and>
    shard_ok (record_observed_millis now s) \<and>
    (case update_value k f s of None \<Rightarrow> \<not> contains_key s k | Some s' \<Rightarrow> shard_ok s') \<and>
    (contains_key s k \<or> shard_used s < sh_capacity s \<longrightarrow>
      shard_ok (shard_replace k v x s) \<and>
      active_entry (shard_replace k v x s) k t = (if t < x then Some (v, x) else None)) \<and>
    (case prune_expired now m s of (s', removed) \<Rightarrow>
      shard_ok s' \<and> prunes now s s' \<and> shard_used s' + removed = shard_used s \<and> removed \<le> m \<and>
      (removed < m \<longrightarrow> (\<forall>j e. map_of (sh_entries s') j = Some e \<longrightarrow> now < se_expires_at_millis e)))"
proof -
  obtain s' r where r: "prune_expired now m s = (s', r)" by fastforce
  have "case update_value k f s of None \<Rightarrow> \<not> contains_key s k | Some s' \<Rightarrow> shard_ok s'"
    using update_value_ok [OF assms, of k f]
    by (auto simp: update_value_def contains_key_def split: option.splits)
  moreover have "contains_key s k \<or> shard_used s < sh_capacity s \<longrightarrow>
      shard_ok (shard_replace k v x s) \<and>
      active_entry (shard_replace k v x s) k t = (if t < x then Some (v, x) else None)"
    using replace_ok [OF assms, of k v x] by (simp add: replace_active)
  ultimately show ?thesis
    using prune_expired_spec [OF assms r] assms by (simp add: r)
qed

theorem shard_operations_coherent_witness:
  "shard_ok (fst (prune_expired 10 3
     (shard_replace (CounterKey (PolicyFingerprint []) (SubjectKey [])) (7::nat) 10 (Shard_new 2))))"
proof -
  have "shard_ok (shard_replace (CounterKey (PolicyFingerprint []) (SubjectKey [])) (7::nat) 10 (Shard_new 2))"
    by (rule replace_ok) (simp, simp add: shard_used_def Shard_new_def)
  note coherent = shard_operations_coherent [OF this, where now = 10 and m = 3]
  show ?thesis
    using coherent [THEN conjunct2, THEN conjunct2, THEN conjunct2, THEN conjunct2, THEN conjunct2]
    by (auto split: prod.splits)
qed

text \<open>
  The topology of a batch is exact. It never panics; a batch is rejected only for a shard that
  more of its checks address than the shard can ever store, with the true numbers; otherwise the
  shards are the addressed ones in strictly increasing order (the order they are locked in, so two
  batches cannot deadlock), each with its number of checks, and every check is mapped to the position
  of its own shard.
\<close>

theorem batch_topology_exact:
  "case BatchTopology_new indexes config of
     Inl Panicked \<Rightarrow> False
   | Inl (Failure (BatchExceedsShardCapacity i n c)) \<Rightarrow>
       i \<in> set indexes \<and> n = count_list indexes i \<and> c = shard_capacity config i \<and> c < n
   | Inl (Failure _) \<Rightarrow> False
   | Inr t \<Rightarrow>
       map bs_index (bt_shards t) = sorted_list_of_set (set indexes) \<and>
       list_all (\<lambda>s. bs_check_count s = count_list indexes (bs_index s) \<and>
         bs_check_count s \<le> shard_capacity config (bs_index s)) (bt_shards t) \<and>
       list_all2 (\<lambda>i p. p < length (bt_shards t) \<and> bs_index (bt_shards t ! p) = i)
         indexes (bt_input_positions t)"
  using BatchTopology_new_cases [of indexes config]
  by (auto simp: topology_ok_def positions_ok_def list_all_iff list_all2_conv_all_nth
      split: sum.splits failure.splits memory_batch_error.splits)

text \<open>
  C38: poisoned shards fail closed until they are rebuilt. Locking reports a poisoned shard whenever
  one of the requested shards is poisoned, so statistics and clearing succeed only on a fully
  healthy store; recovery reopens every poisoned shard empty and with its configured capacity,
  returns how many there were, and leaves healthy shards as they are.
\<close>

theorem poisoning_fails_closed:
  assumes "shards_ok config shards" and "i < length shards"
  shows "(mx_poisoned (shards ! i) \<longrightarrow> lock_shard shards i = Inl (Failure (PoisonedShardError i))) \<and>
    ((\<exists>st. BoundedShards_stats shards config = Inr st) \<longleftrightarrow> poisoned_count shards = 0) \<and>
    (snd (BoundedShards_clear shards) = Inr () \<longleftrightarrow> poisoned_count shards = 0) \<and>
    snd (recover_poisoned shards config) = poisoned_count shards \<and>
    fst (recover_poisoned shards config) ! i =
      (if mx_poisoned (shards ! i)
       then \<lparr>mx_poisoned = False, mx_shard = Shard_new (shard_capacity config i)\<rparr>
       else shards ! i) \<and>
    shards_ok config (fst (recover_poisoned shards config))"
proof -
  have healthy: "poisoned_count shards = 0 \<longleftrightarrow> (\<forall>j < length shards. \<not> mx_poisoned (shards ! j))"
    by (auto simp: poisoned_count_def filter_empty_conv all_set_conv_all_nth)
  have locked: "\<exists>locked. lock_shards shards [0..<length shards] = Inr locked" if "poisoned_count shards = 0"
    using healthy that lock_shards_Inr [of shards "[0..<length shards]"] by simp
  have fails: "\<exists>e. lock_shards shards [0..<length shards] = Inl e" if "poisoned_count shards \<noteq> 0"
  proof (cases "lock_shards shards [0..<length shards]")
    case (Inr locked)
    with lock_shards_Inr [of shards "[0..<length shards]" locked] healthy that show ?thesis by auto
  qed simp
  obtain ms n where r: "recover_loop config 0 shards = (ms, n)" by fastforce
  note spec = recover_loop_spec [OF r]
  have "shard_ok (mx_shard (ms ! j)) \<and> sh_capacity (mx_shard (ms ! j)) = shard_capacity config j \<and>
      timely (sh_latest_observed_millis (mx_shard (ms ! j))) (mx_shard (ms ! j))"
    if "j < length shards" for j
    using assms(1) spec that by (cases "mx_poisoned (shards ! j)") (simp_all add: shards_ok_def)
  then have "shards_ok config ms"
    using assms(1) spec by (simp add: shards_ok_def)
  moreover have "(\<exists>st. BoundedShards_stats shards config = Inr st) \<longleftrightarrow> poisoned_count shards = 0"
    using locked fails
    by (cases "lock_shards shards [0..<length shards]") (auto simp: BoundedShards_stats_def)
  moreover have "snd (BoundedShards_clear shards) = Inr () \<longleftrightarrow> poisoned_count shards = 0"
    using locked fails
    by (cases "lock_shards shards [0..<length shards]") (auto simp: BoundedShards_clear_def)
  ultimately show ?thesis
    using spec assms(2) by (simp add: recover_poisoned_def r lock_shard_def)
qed

theorem poisoning_fails_closed_witness:
  "snd (recover_poisoned (unwind (BoundedShards_new
       \<lparr>cfg_max_keys = 4, cfg_shard_count = 2, cfg_max_expired_removals_per_check = 8,
        cfg_max_batch_size = 32\<rparr> :: nat bounded_shards) [1])
     \<lparr>cfg_max_keys = 4, cfg_shard_count = 2, cfg_max_expired_removals_per_check = 8,
      cfg_max_batch_size = 32\<rparr>) = 1"
proof -
  let ?c = "\<lparr>cfg_max_keys = 4, cfg_shard_count = 2, cfg_max_expired_removals_per_check = 8,
        cfg_max_batch_size = 32\<rparr>"
  let ?s = "unwind (BoundedShards_new ?c :: nat bounded_shards) [1]"
  have "shards_ok ?c ?s"
    by (intro shards_ok_unwind BoundedShards_new_ok) (simp add: config_ok_def)
  from poisoning_fails_closed [OF this, of 1] show ?thesis
    by (simp add: BoundedShards_new_def poisoned_count_def upt_rec)
qed

end
