(* ===== verification/Shard_Batches.thy ===== *)
theory Shard_Batches
  imports Shards
begin

text \<open>
  The loops of an atomic batch, which \<open>store.rs\<close> and \<open>gcra.rs\<close> of \<open>runlimit-memory\<close> share: bounded
  cleanup of the locked shards, the admission pass that decides before anything is written, and the
  consumption pass. The two stores differ in how one check is decided and consumed, which the loops
  take as arguments; the locale \<open>shard_quota\<close> is the contract they rely on.
\<close>

section \<open>Model\<close>

record prepared_check =
  pc_input_index :: nat
  pc_counter_key :: counter_key
  pc_shard_position :: nat

type_synonym 'e locked_shards = "(nat \<times> 'e shard) list"

definition locked_shard :: "'e locked_shards \<Rightarrow> nat \<Rightarrow> 'x failure + 'e shard" where
  "locked_shard locked position =
     (if position < length locked then Inr (snd (locked ! position)) else Inl Panicked)"

definition batch_now :: "nat \<Rightarrow> 'e locked_shards \<Rightarrow> nat" where
  "batch_now observed_millis locked =
     fold (\<lambda>(_, s) latest. max latest (sh_latest_observed_millis s)) locked observed_millis"

fun cleanup_loop ::
  "nat \<Rightarrow> nat \<Rightarrow> (nat \<Rightarrow> duration) \<Rightarrow> nat \<Rightarrow> ((nat \<times> 'e shard) \<times> nat) list
    \<Rightarrow> 'e locked_shards \<times> cleanup_effect list" where
  "cleanup_loop now_millis max_removals timer i [] = ([], [])"
| "cleanup_loop now_millis max_removals timer i (((index, s), check_count) # rest) =
     (let s = record_observed_millis now_millis s;
          cleanup_limit = saturating_mul U64_MAX max_removals check_count;
          (s, removed) = prune_expired now_millis cleanup_limit s;
          (locked, effects) = cleanup_loop now_millis max_removals timer (Suc i) rest
      in ((index, s) # locked,
          \<lparr>ce_requested = cleanup_limit, ce_removed = removed, ce_elapsed = timer i\<rparr> # effects))"

fun admission_loop ::
  "('c prepared_check_scheme \<Rightarrow> 'e shard \<Rightarrow> 'x failure + quota_denial option)
    \<Rightarrow> ('c prepared_check_scheme \<Rightarrow> bool) \<Rightarrow> nat \<Rightarrow> nat \<Rightarrow> 'e locked_shards \<Rightarrow> nat list
    \<Rightarrow> 'c prepared_check_scheme list \<Rightarrow> 'x failure + batch_decision option" where
  "admission_loop quota shadow now_millis batch_size locked pending [] = Inr None"
| "admission_loop quota shadow now_millis batch_size locked pending (check # rest) =
     try_bind (locked_shard locked (pc_shard_position check)) (\<lambda>shard.
     try_bind (quota check shard) (\<lambda>quota_denied.
       case quota_denied of
         Some denial \<Rightarrow>
           map_ok Some (expect_ok
             (if shadow check
              then BatchDecision_shadow_denied (pc_input_index check) batch_size denial
              else BatchDecision_denied (pc_input_index check) batch_size (QuotaExceeded denial)))
       | None \<Rightarrow>
           if contains_key shard (pc_counter_key check)
           then admission_loop quota shadow now_millis batch_size locked pending rest
           else if shard_used shard + pending ! pc_shard_position check \<ge> sh_capacity shard
           then try_bind (expect (storage_capacity_denial shard now_millis)) (\<lambda>denial.
             map_ok Some (expect_ok (BatchDecision_denied (pc_input_index check) batch_size denial)))
           else admission_loop quota shadow now_millis batch_size locked
             (pending[pc_shard_position check := Suc (pending ! pc_shard_position check)]) rest))"

text \<open>
  A critical section works on the shards its guards protect. Nothing is rolled back when it stops: it
  yields the protected state as it is at that moment together with the outcome, and
  \<open>section_try s r f\<close> is the operator \<open>?\<close>, or an \<open>expect\<close>, on \<open>r\<close> while the protected state
  is \<open>s\<close>.
\<close>

fun section_try :: "'s \<Rightarrow> 'x failure + 'a \<Rightarrow> ('a \<Rightarrow> 's \<times> ('x failure + 'b)) \<Rightarrow> 's \<times> ('x failure + 'b)" where
  "section_try s (Inl e) f = (s, Inl e)"
| "section_try s (Inr a) f = f a"

fun consume_loop ::
  "('c prepared_check_scheme \<Rightarrow> 'e shard \<Rightarrow> 'e shard \<times> ('x failure + allowance))
    \<Rightarrow> 'e locked_shards \<Rightarrow> 'c prepared_check_scheme list
    \<Rightarrow> 'e locked_shards \<times> ('x failure + allowance list)" where
  "consume_loop consume locked [] = (locked, Inr [])"
| "consume_loop consume locked (check # rest) =
     section_try locked (locked_shard locked (pc_shard_position check)) (\<lambda>shard.
       let (shard, result) = consume check shard;
           locked = locked[pc_shard_position check := (fst (locked ! pc_shard_position check), shard)]
       in section_try locked result (\<lambda>allowance.
            case consume_loop consume locked rest of
              (locked, allowances) \<Rightarrow> (locked, map_ok (Cons allowance) allowances)))"

text \<open>The admission pass decides the whole batch; only a batch without a denial is consumed.\<close>

definition admit_batch ::
  "('c prepared_check_scheme \<Rightarrow> 'e shard \<Rightarrow> 'x failure + quota_denial option)
    \<Rightarrow> ('c prepared_check_scheme \<Rightarrow> 'e shard \<Rightarrow> 'e shard \<times> ('x failure + allowance))
    \<Rightarrow> ('c prepared_check_scheme \<Rightarrow> bool) \<Rightarrow> nat \<Rightarrow> nat \<Rightarrow> 'e locked_shards
    \<Rightarrow> 'c prepared_check_scheme list \<Rightarrow> 'e locked_shards \<times> ('x failure + batch_decision)" where
  "admit_batch quota consume shadow now_millis batch_size locked prepared =
     section_try locked (admission_loop quota shadow now_millis batch_size locked
         (replicate (length locked) 0) prepared) (\<lambda>denied.
       case denied of
         Some decision \<Rightarrow> (locked, Inr decision)
       | None \<Rightarrow>
           let (locked, consumed) = consume_loop consume locked prepared
           in section_try locked consumed (\<lambda>allowances.
                (locked, expect_ok (BatchDecision_allowed allowances))))"

text \<open>A single check on its locked shard.\<close>

definition decide_single ::
  "('c prepared_check_scheme \<Rightarrow> 'e shard \<Rightarrow> 'x failure + quota_denial option)
    \<Rightarrow> ('c prepared_check_scheme \<Rightarrow> 'e shard \<Rightarrow> 'e shard \<times> ('x failure + allowance))
    \<Rightarrow> bool \<Rightarrow> nat \<Rightarrow> 'c prepared_check_scheme \<Rightarrow> 'e shard \<Rightarrow> 'e shard \<times> ('x failure + decision)" where
  "decide_single quota consume shadow now_millis check shard =
     section_try shard (quota check shard) (\<lambda>quota_denied.
       case quota_denied of
         Some denial \<Rightarrow>
           (shard, Inr (if shadow then Decision_shadow_denied denial
                        else Decision_Denied (QuotaExceeded denial)))
       | None \<Rightarrow>
           if \<not> contains_key shard (pc_counter_key check) \<and> shard_used shard \<ge> sh_capacity shard
           then (shard, map_ok Decision_Denied (expect (storage_capacity_denial shard now_millis)))
           else (case consume check shard of
                   (shard, allowance) \<Rightarrow> (shard, map_ok Decision_allowed allowance)))"

text \<open>
  Leaving the critical section drops the guards. Whatever the section wrote stays in the shards, also
  when it returns an error; a panic that unwinds through the guards poisons the locked shards.
\<close>

definition leave ::
  "'e bounded_shards \<Rightarrow> 'e locked_shards \<times> ('x failure + 'v) \<Rightarrow> 'e bounded_shards \<times> ('x failure + 'v)" where
  "leave shards section =
     (case section of (locked, result) \<Rightarrow>
        (case result of
           Inl Panicked \<Rightarrow> unwind (unlock shards locked) (map fst locked)
         | _ \<Rightarrow> unlock shards locked,
         result))"

lemma leave_simps [simp]:
  "leave shards (locked, Inr v) = (unlock shards locked, Inr v)"
  "leave shards (locked, Inl (Failure e)) = (unlock shards locked, Inl (Failure e))"
  "leave shards (locked, Inl Panicked) = (unwind (unlock shards locked) (map fst locked), Inl Panicked)"
  by (simp_all add: leave_def)

text \<open>Guards that were not written through leave the shards as they were.\<close>

lemma mutex_same [simp]: "m\<lparr>mx_shard := mx_shard m\<rparr> = m"
  by (cases m) simp

lemma unlock_unchanged: "unlock shards (map (\<lambda>i. (i, mx_shard (shards ! i))) is) = shards"
  by (induction "is") simp_all

lemma unlock_locked: "lock_topology shards topology = Inr locked \<Longrightarrow> unlock shards locked = shards"
  unfolding lock_topology_def lock_shards_Inr using unlock_unchanged by metis

section \<open>Writing one key\<close>

text \<open>\<open>puts k v x s s'\<close>: \<open>s'\<close> is \<open>s\<close> with the entry of \<open>k\<close> set to \<open>v\<close>, expiring at \<open>x\<close>.\<close>

definition puts :: "counter_key \<Rightarrow> 'e \<Rightarrow> nat \<Rightarrow> 'e shard \<Rightarrow> 'e shard \<Rightarrow> bool" where
  "puts k v x s s' \<longleftrightarrow>
     sh_capacity s' = sh_capacity s \<and>
     sh_latest_observed_millis s' = sh_latest_observed_millis s \<and>
     map_of (sh_entries s') = (map_of (sh_entries s))(k \<mapsto> \<lparr>se_value = v, se_expires_at_millis = x\<rparr>) \<and>
     shard_used s' = (if contains_key s k then shard_used s else Suc (shard_used s)) \<and>
     (shard_ok s \<longrightarrow> contains_key s k \<or> shard_used s < sh_capacity s \<longrightarrow> shard_ok s')"

lemma puts_replace: "puts k v x s (shard_replace k v x s)"
  using replace_ok [of s k v x] by (simp add: puts_def)

lemma puts_update:
  assumes "update_value k f s = Some s'" and "map_of (sh_entries s) k = Some e"
  shows "puts k (f (se_value e)) (se_expires_at_millis e) s s'"
  using update_value_fields [OF assms(1)] update_value_ok [OF _ assms(1)] assms(2)
  by (auto simp: puts_def contains_key_def)

lemma puts_active:
  "puts k v x s s' \<Longrightarrow> active_entry s' j t =
     (if j = k then if t < x then Some (v, x) else None else active_entry s j t)"
  by (simp add: puts_def active_entry_def)

lemma puts_contains: "puts k v x s s' \<Longrightarrow> contains_key s' j \<longleftrightarrow> j = k \<or> contains_key s j"
  by (auto simp: puts_def contains_key_def)

lemma puts_timely: "puts k v x s s' \<Longrightarrow> timely now s \<Longrightarrow> x \<le> now + MAX_WINDOW_MILLIS \<Longrightarrow> timely now s'"
  by (auto simp: puts_def timely_def split: if_splits)

lemma puts_ok:
  "puts k v x s s' \<Longrightarrow> shard_ok s \<Longrightarrow> contains_key s k \<or> shard_used s < sh_capacity s \<Longrightarrow> shard_ok s'"
  by (simp add: puts_def)

section \<open>Cleanup\<close>

lemma cleanup_loop_spec:
  assumes "cleanup_loop now m timer i (zip locked counts) = (locked', effects)"
    and "length counts = length locked" and "\<forall>(j, s) \<in> set locked. shard_ok s"
  shows "length locked' = length locked \<and> map fst locked' = map fst locked \<and>
    (\<forall>p < length locked. \<exists>s. prunes now (record_observed_millis now (snd (locked ! p))) s \<and>
       shard_ok s \<and> locked' ! p = (fst (locked ! p), s))"
  using assms
proof (induction locked arbitrary: counts locked' effects i)
  case Nil
  then show ?case by simp
next
  case (Cons l locked)
  obtain j s where l: "l = (j, s)" by (cases l)
  from Cons.prems(2) obtain n ns where counts: "counts = n # ns" by (cases counts) auto
  obtain s' r where pr: "prune_expired now (saturating_mul U64_MAX m n) (record_observed_millis now s) = (s', r)"
    by fastforce
  obtain rest effs where rec: "cleanup_loop now m timer (Suc i) (zip locked ns) = (rest, effs)" by fastforce
  have "shard_ok s' \<and> prunes now (record_observed_millis now s) s'"
    using prune_expired_spec [OF _ pr] Cons.prems(3) l by simp
  with Cons.IH [OF rec] Cons.prems rec pr l counts show ?case
    by (auto simp: less_Suc_eq_0_disj)
qed

lemma batch_now_ge: "observed \<le> batch_now observed locked"
  by (induction locked arbitrary: observed)
     (auto simp: batch_now_def intro: order_trans [OF max.cobounded1])

lemma batch_now_latest: "(i, s) \<in> set locked \<Longrightarrow> sh_latest_observed_millis s \<le> batch_now observed locked"
proof (induction locked arbitrary: observed)
  case (Cons l locked)
  obtain j r where l: "l = (j, r)" by (cases l)
  show ?case
  proof (cases "(i, s) = l")
    case True
    then show ?thesis
      using batch_now_ge [of "max observed (sh_latest_observed_millis s)" locked] l
      by (simp add: batch_now_def)
  next
    case False
    with Cons l show ?thesis by (auto simp: batch_now_def)
  qed
qed simp

section \<open>The contract of a quota algorithm and what the loops make of it\<close>

definition shard_of :: "'e locked_shards \<Rightarrow> 'c prepared_check_scheme \<Rightarrow> 'e shard" where
  "shard_of locked c = snd (locked ! pc_shard_position c)"

definition active_of :: "nat \<Rightarrow> 'e locked_shards \<Rightarrow> 'c prepared_check_scheme \<Rightarrow> ('e \<times> nat) option" where
  "active_of now locked c = active_entry (shard_of locked c) (pc_counter_key c) now"

definition known_in :: "'e locked_shards \<Rightarrow> 'c prepared_check_scheme \<Rightarrow> bool" where
  "known_in locked c = contains_key (shard_of locked c) (pc_counter_key c)"

definition locked_ok :: "nat \<Rightarrow> 'e locked_shards \<Rightarrow> bool" where
  "locked_ok now locked \<longleftrightarrow> (\<forall>p < length locked. shard_ok (snd (locked ! p)) \<and> timely now (snd (locked ! p)))"

fun fits ::
  "(nat \<Rightarrow> nat) \<Rightarrow> (nat \<Rightarrow> nat) \<Rightarrow> ('c prepared_check_scheme \<Rightarrow> bool) \<Rightarrow> 'c prepared_check_scheme list \<Rightarrow> bool" where
  "fits cap occ known [] = True"
| "fits cap occ known (c # cs) =
     (if known c then fits cap occ known cs
      else occ (pc_shard_position c) < cap (pc_shard_position c) \<and>
        fits cap (occ(pc_shard_position c := Suc (occ (pc_shard_position c)))) known cs)"

lemma fits_cong: "(\<And>c. c \<in> set cs \<Longrightarrow> known c = known' c) \<Longrightarrow> fits cap occ known cs = fits cap occ known' cs"
  by (induction cs arbitrary: occ) auto

lemma fits_occ_cong:
  assumes "\<forall>c \<in> set cs. pc_shard_position c < n" and "\<And>p. p < n \<Longrightarrow> occ p = occ' p"
  shows "fits cap occ known cs = fits cap occ' known cs"
  using assms
proof (induction cs arbitrary: occ occ')
  case Nil
  then show ?case by simp
next
  case (Cons c cs)
  let ?p = "pc_shard_position c"
  have pos: "\<forall>c \<in> set cs. pc_shard_position c < n" and p: "occ ?p = occ' ?p"
    using Cons.prems by auto
  have "fits cap occ known cs = fits cap occ' known cs"
    by (rule Cons.IH [OF pos Cons.prems(2)])
  moreover have "fits cap (occ(?p := Suc (occ ?p))) known cs = fits cap (occ'(?p := Suc (occ' ?p))) known cs"
    by (rule Cons.IH [OF pos]) (simp add: Cons.prems(2) p)
  ultimately show ?case using p by simp
qed

definition capacities :: "'e locked_shards \<Rightarrow> nat \<Rightarrow> nat" where
  "capacities locked p = sh_capacity (snd (locked ! p))"

definition occupied :: "'e locked_shards \<Rightarrow> nat list \<Rightarrow> nat \<Rightarrow> nat" where
  "occupied locked pending p = shard_used (snd (locked ! p)) + pending ! p"

lemma occupied_bump:
  "p < length pending \<Longrightarrow>
   occupied locked (pending[p := Suc (pending ! p)]) = (occupied locked pending)(p := Suc (occupied locked pending p))"
  by (auto simp: occupied_def fun_eq_iff nth_list_update)

text \<open>
  The contract: deciding a check depends on nothing but the active entry of its key, and consuming
  an undenied check writes exactly that key, with an expiration later than now and within the
  longest window.
\<close>

locale shard_quota =
  fixes quota :: "nat \<Rightarrow> 'c prepared_check_scheme \<Rightarrow> 'e shard \<Rightarrow> 'x failure + quota_denial option"
    and consume :: "nat \<Rightarrow> 'c prepared_check_scheme \<Rightarrow> 'e shard \<Rightarrow> 'e shard \<times> ('x failure + allowance)"
    and good :: "nat \<Rightarrow> 'c prepared_check_scheme \<Rightarrow> bool"
    and decide :: "nat \<Rightarrow> 'c prepared_check_scheme \<Rightarrow> ('e \<times> nat) option \<Rightarrow> quota_denial option"
    and plan :: "nat \<Rightarrow> 'c prepared_check_scheme \<Rightarrow> ('e \<times> nat) option \<Rightarrow> 'e \<times> nat \<times> allowance"
  assumes quota_decide: "good now c \<Longrightarrow> shard_ok s \<Longrightarrow> timely now s \<Longrightarrow>
      quota now c s = Inr (decide now c (active_entry s (pc_counter_key c) now))"
    and consume_plan: "good now c \<Longrightarrow> shard_ok s \<Longrightarrow> timely now s \<Longrightarrow>
      decide now c (active_entry s (pc_counter_key c) now) = None \<Longrightarrow>
      plan now c (active_entry s (pc_counter_key c) now) = (v, x, a) \<Longrightarrow>
      \<exists>s'. consume now c s = (s', Inr a) \<and> puts (pc_counter_key c) v x s s' \<and>
        now < x \<and> x \<le> now + MAX_WINDOW_MILLIS"
begin

definition denies :: "nat \<Rightarrow> 'e locked_shards \<Rightarrow> 'c prepared_check_scheme \<Rightarrow> quota_denial option" where
  "denies now locked c = decide now c (active_of now locked c)"

definition ready :: "nat \<Rightarrow> 'e locked_shards \<Rightarrow> 'c prepared_check_scheme list \<Rightarrow> bool" where
  "ready now locked cs \<longleftrightarrow>
     locked_ok now locked \<and> distinct (map pc_counter_key cs) \<and>
     (\<forall>c \<in> set cs. good now c \<and> pc_shard_position c < length locked)"

lemma readyD:
  assumes "ready now locked (c # cs)"
  shows "good now c" and "shard_ok (shard_of locked c)" and "timely now (shard_of locked c)"
    and "locked_shard locked (pc_shard_position c) = Inr (shard_of locked c)"
    and "pc_shard_position c < length locked" and "ready now locked cs"
    and "c' \<in> set cs \<Longrightarrow> pc_counter_key c' \<noteq> pc_counter_key c"
  using assms by (auto simp: ready_def locked_ok_def shard_of_def locked_shard_def intro: rev_image_eqI)

definition denied_at ::
  "('c prepared_check_scheme \<Rightarrow> bool) \<Rightarrow> nat \<Rightarrow> nat \<Rightarrow> 'e locked_shards \<Rightarrow> 'c prepared_check_scheme
    \<Rightarrow> batch_decision \<Rightarrow> bool" where
  "denied_at shadow now n locked c d \<longleftrightarrow>
     (case denies now locked c of
        Some q \<Rightarrow> d = (if shadow c then Batch_ShadowDenied (pc_input_index c) n q
                       else Batch_Denied (pc_input_index c) n (QuotaExceeded q))
      | None \<Rightarrow> \<not> known_in locked c \<and>
          (\<exists>r. storage_capacity_denial (shard_of locked c) now = Some (StorageCapacity r) \<and>
             d = Batch_Denied (pc_input_index c) n (StorageCapacity r)))"

definition outcome_ok ::
  "('c prepared_check_scheme \<Rightarrow> bool) \<Rightarrow> nat \<Rightarrow> nat \<Rightarrow> 'e locked_shards \<Rightarrow> bool
    \<Rightarrow> 'c prepared_check_scheme list \<Rightarrow> batch_decision option \<Rightarrow> bool" where
  "outcome_ok shadow now n locked room cs r \<longleftrightarrow>
     (case r of
        None \<Rightarrow> room \<and> (\<forall>c \<in> set cs. denies now locked c = None)
      | Some d \<Rightarrow> \<exists>pre c post. cs = pre @ c # post \<and> (\<forall>c' \<in> set pre. denies now locked c' = None) \<and>
          denied_at shadow now n locked c d)"

lemma outcome_ok_skip:
  assumes "denies now locked c = None" and "outcome_ok shadow now n locked room cs r" and "room \<longrightarrow> room'"
  shows "outcome_ok shadow now n locked room' (c # cs) r"
proof (cases r)
  case None
  with assms show ?thesis by (simp add: outcome_ok_def)
next
  case (Some d)
  with assms(2) obtain pre c' post where "cs = pre @ c' # post"
      "\<forall>c' \<in> set pre. denies now locked c' = None" "denied_at shadow now n locked c' d"
    by (auto simp: outcome_ok_def)
  with assms(1) have "c # cs = (c # pre) @ c' # post \<and> (\<forall>c' \<in> set (c # pre). denies now locked c' = None) \<and>
      denied_at shadow now n locked c' d" by simp
  then show ?thesis unfolding outcome_ok_def Some option.case by blast
qed

lemma outcome_ok_here:
  "denied_at shadow now n locked c d \<Longrightarrow> outcome_ok shadow now n locked room (c # cs) (Some d)"
  unfolding outcome_ok_def option.case by (rule exI [of _ "[]"]) auto

lemma admission_loop_result:
  assumes "ready now locked cs" and "length pending = length locked"
    and "\<forall>c \<in> set cs. pc_input_index c < n"
  shows "\<exists>r. admission_loop (quota now) shadow now n locked pending cs = Inr r \<and>
    outcome_ok shadow now n locked
      (fits (capacities locked) (occupied locked pending) (known_in locked) cs) cs r"
  using assms
proof (induction cs arbitrary: pending)
  case Nil
  then show ?case by (simp add: outcome_ok_def)
next
  case (Cons c cs)
  note c = readyD [OF Cons.prems(1)]
  have index: "pc_input_index c < n" using Cons.prems(3) by simp
  have quota: "quota now c (shard_of locked c) = Inr (denies now locked c)"
    unfolding denies_def active_of_def by (rule quota_decide [OF c(1-3)])
  note step = admission_loop.simps(2) c(4) try_bind_simps quota
  let ?p = "pc_shard_position c" and ?s = "shard_of locked c"
  show ?case
  proof (cases "denies now locked c")
    case (Some q)
    let ?d = "if shadow c then Batch_ShadowDenied (pc_input_index c) n q
      else Batch_Denied (pc_input_index c) n (QuotaExceeded q)"
    have "admission_loop (quota now) shadow now n locked pending (c # cs) = Inr (Some ?d)"
      using index by (simp add: step Some BatchDecision_shadow_denied_def BatchDecision_denied_def
          validate_batch_index_def)
    moreover have "denied_at shadow now n locked c ?d"
      using Some by (simp add: denied_at_def)
    ultimately show ?thesis using outcome_ok_here by blast
  next
    case None
    show ?thesis
    proof (cases "known_in locked c")
      case True
      then have "admission_loop (quota now) shadow now n locked pending (c # cs) =
          admission_loop (quota now) shadow now n locked pending cs"
        by (simp add: step None known_in_def)
      moreover obtain r where "admission_loop (quota now) shadow now n locked pending cs = Inr r"
          "outcome_ok shadow now n locked
            (fits (capacities locked) (occupied locked pending) (known_in locked) cs) cs r"
        using Cons.IH [OF c(6) Cons.prems(2)] Cons.prems(3) by auto
      ultimately show ?thesis
        using outcome_ok_skip [OF None] True by (metis fits.simps(2))
    next
      case False
      let ?pending = "pending[?p := Suc (pending ! ?p)]"
      show ?thesis
      proof (cases "sh_capacity ?s \<le> shard_used ?s + pending ! ?p")
        case True
        obtain r where r: "storage_capacity_denial ?s now = Some (StorageCapacity r)"
          using storage_capacity_denial_total [OF c(2,3)] by blast
        let ?d = "Batch_Denied (pc_input_index c) n (StorageCapacity r)"
        have "admission_loop (quota now) shadow now n locked pending (c # cs) = Inr (Some ?d)"
          using True False index r
          by (simp add: step None known_in_def BatchDecision_denied_def validate_batch_index_def)
        moreover have "denied_at shadow now n locked c ?d"
          using None False r by (simp add: denied_at_def)
        ultimately show ?thesis using outcome_ok_here by blast
      next
        case room: False
        then have "admission_loop (quota now) shadow now n locked pending (c # cs) =
            admission_loop (quota now) shadow now n locked ?pending cs"
          using False by (simp add: step None known_in_def)
        moreover obtain r where "admission_loop (quota now) shadow now n locked ?pending cs = Inr r"
            "outcome_ok shadow now n locked
              (fits (capacities locked) (occupied locked ?pending) (known_in locked) cs) cs r"
          using Cons.IH [OF c(6), of ?pending] Cons.prems(2,3) by auto
        moreover have "fits (capacities locked) (occupied locked ?pending) (known_in locked) cs \<longrightarrow>
            fits (capacities locked) (occupied locked pending) (known_in locked) (c # cs)"
          using False room c(5) Cons.prems(2)
          by (simp add: occupied_bump) (simp add: occupied_def capacities_def shard_of_def)
        ultimately show ?thesis using outcome_ok_skip [OF None] by metis
      qed
    qed
  qed
qed

text \<open>
  The consumption pass writes, for every check, the entry its plan gives on the state the batch
  started from, and nothing else.
\<close>

definition planned :: "nat \<Rightarrow> 'e locked_shards \<Rightarrow> 'c prepared_check_scheme \<Rightarrow> 'e \<times> nat \<times> allowance" where
  "planned now locked c = plan now c (active_of now locked c)"

definition written ::
  "nat \<Rightarrow> 'e locked_shards \<Rightarrow> 'c prepared_check_scheme list \<Rightarrow> nat \<Rightarrow> counter_key \<Rightarrow> nat \<Rightarrow> ('e \<times> nat) option" where
  "written now locked cs p k t =
     (case find (\<lambda>c. pc_shard_position c = p \<and> pc_counter_key c = k) cs of
        None \<Rightarrow> active_entry (snd (locked ! p)) k t
      | Some c \<Rightarrow> (case planned now locked c of (v, x, a) \<Rightarrow> if t < x then Some (v, x) else None))"

lemma consume_step:
  assumes "ready now locked (c # cs)" and "denies now locked c = None" and "planned now locked c = (v, x, a)"
    and "known_in locked c \<or> shard_used (shard_of locked c) < sh_capacity (shard_of locked c)"
  obtains s where "consume now c (shard_of locked c) = (s, Inr a)"
    and "puts (pc_counter_key c) v x (shard_of locked c) s"
    and "ready now (locked[pc_shard_position c := (fst (locked ! pc_shard_position c), s)]) cs"
proof -
  note c = readyD [OF assms(1)]
  obtain s where s: "consume now c (shard_of locked c) = (s, Inr a)"
      "puts (pc_counter_key c) v x (shard_of locked c) s" "x \<le> now + MAX_WINDOW_MILLIS"
    using consume_plan [OF c(1-3)] assms(2,3) unfolding denies_def planned_def active_of_def by blast
  have "shard_ok s" "timely now s"
    using puts_ok [OF s(2) c(2)] puts_timely [OF s(2) c(3) s(3)] assms(4) by (auto simp: known_in_def)
  then have "ready now (locked[pc_shard_position c := (fst (locked ! pc_shard_position c), s)]) cs"
    using c(5,6) by (auto simp: ready_def locked_ok_def nth_list_update)
  with s(1,2) that show ?thesis by blast
qed

lemma active_of_other:
  assumes "puts k v x (snd (locked ! p)) s" and "pc_counter_key c \<noteq> k" and "p < length locked"
  shows "active_of now (locked[p := (i, s)]) c = active_of now locked c"
    and "known_in (locked[p := (i, s)]) c = known_in locked c"
  using assms puts_active [OF assms(1), of "pc_counter_key c"] puts_contains [OF assms(1), of "pc_counter_key c"]
  by (auto simp: active_of_def known_in_def shard_of_def nth_list_update)

lemma written_step:
  assumes "ready now locked (c # cs)" and "planned now locked c = (v, x, a)"
    and "puts (pc_counter_key c) v x (shard_of locked c) s"
  defines "locked1 \<equiv> locked[pc_shard_position c := (fst (locked ! pc_shard_position c), s)]"
  shows "written now locked1 cs p k t = written now locked (c # cs) p k t"
proof -
  note c = readyD [OF assms(1)]
  have put: "puts (pc_counter_key c) v x (snd (locked ! pc_shard_position c)) s"
    using assms(3) by (simp add: shard_of_def)
  have same: "planned now locked1 c' = planned now locked c'" if "c' \<in> set cs" for c'
    unfolding planned_def locked1_def active_of_other(1) [OF put c(7) [OF that] c(5)] ..
  let ?m = "\<lambda>c. pc_shard_position c = p \<and> pc_counter_key c = k"
  show ?thesis
  proof (cases "find ?m cs")
    case (Some c')
    then have c': "c' \<in> set cs" "?m c'" by (auto simp: find_Some_iff)
    have "\<not> ?m c" using c(7) [OF c'(1)] c'(2) by auto
    with Some same [OF c'(1)] show ?thesis by (auto simp: written_def)
  next
    case None
    with assms(2) c(5) puts_active [OF put, of k t] show ?thesis
      by (auto simp: written_def locked1_def nth_list_update)
  qed
qed

lemma fits_step:
  assumes "ready now locked (c # cs)" and "puts (pc_counter_key c) v x (shard_of locked c) s"
    and "fits (capacities locked) (\<lambda>p. shard_used (snd (locked ! p))) (known_in locked) (c # cs)"
  defines "locked1 \<equiv> locked[pc_shard_position c := (fst (locked ! pc_shard_position c), s)]"
  shows "fits (capacities locked1) (\<lambda>p. shard_used (snd (locked1 ! p))) (known_in locked1) cs"
    and "known_in locked c \<or> shard_used (shard_of locked c) < sh_capacity (shard_of locked c)"
proof -
  note c = readyD [OF assms(1)]
  have put: "puts (pc_counter_key c) v x (snd (locked ! pc_shard_position c)) s"
    using assms(2) by (simp add: shard_of_def)
  have caps: "capacities locked1 = capacities locked"
    using put c(5) by (auto simp: capacities_def locked1_def nth_list_update puts_def fun_eq_iff)
  have used: "(\<lambda>p. shard_used (snd (locked1 ! p))) = (if known_in locked c then (\<lambda>p. shard_used (snd (locked ! p)))
      else (\<lambda>p. shard_used (snd (locked ! p)))
        (pc_shard_position c := Suc (shard_used (snd (locked ! pc_shard_position c)))))"
    using put c(5)
    by (auto simp: locked1_def nth_list_update puts_def fun_eq_iff known_in_def shard_of_def)
  have "known_in locked1 c' = known_in locked c'" if "c' \<in> set cs" for c'
    unfolding locked1_def by (rule active_of_other(2) [OF put c(7) [OF that] c(5)])
  then have known: "fits cap occ (known_in locked1) cs = fits cap occ (known_in locked) cs" for cap occ
    by (rule fits_cong)
  show "fits (capacities locked1) (\<lambda>p. shard_used (snd (locked1 ! p))) (known_in locked1) cs"
    unfolding caps used known using assms(3) by (simp split: if_splits)
  show "known_in locked c \<or> shard_used (shard_of locked c) < sh_capacity (shard_of locked c)"
    using assms(3) by (auto simp: capacities_def shard_of_def split: if_splits)
qed

lemma consume_loop_result:
  assumes "ready now locked cs" and "\<forall>c \<in> set cs. denies now locked c = None"
    and "fits (capacities locked) (\<lambda>p. shard_used (snd (locked ! p))) (known_in locked) cs"
  shows "\<exists>locked'. consume_loop (consume now) locked cs =
      (locked', Inr (map (\<lambda>c. snd (snd (planned now locked c))) cs)) \<and>
    locked_ok now locked' \<and> map fst locked' = map fst locked \<and>
    (\<forall>p < length locked. sh_capacity (snd (locked' ! p)) = sh_capacity (snd (locked ! p)) \<and>
       sh_latest_observed_millis (snd (locked' ! p)) = sh_latest_observed_millis (snd (locked ! p)) \<and>
       (\<forall>k t. active_entry (snd (locked' ! p)) k t = written now locked cs p k t))"
  using assms
proof (induction cs arbitrary: locked)
  case Nil
  then show ?case by (simp add: ready_def written_def)
next
  case (Cons c cs)
  note c = readyD [OF Cons.prems(1)]
  obtain v x a where plan: "planned now locked c = (v, x, a)" by (metis prod_cases3)
  have "known_in locked c \<or> shard_used (shard_of locked c) < sh_capacity (shard_of locked c)"
    using Cons.prems(3) by (auto simp: capacities_def shard_of_def split: if_splits)
  then obtain s where s: "consume now c (shard_of locked c) = (s, Inr a)"
      "puts (pc_counter_key c) v x (shard_of locked c) s"
      "ready now (locked[pc_shard_position c := (fst (locked ! pc_shard_position c), s)]) cs"
    using consume_step [OF Cons.prems(1) _ plan] Cons.prems(2) by auto
  let ?l = "locked[pc_shard_position c := (fst (locked ! pc_shard_position c), s)]"
  have put: "puts (pc_counter_key c) v x (snd (locked ! pc_shard_position c)) s"
    using s(2) by (simp add: shard_of_def)
  have other: "active_of now ?l c' = active_of now locked c'" if "c' \<in> set cs" for c'
    by (rule active_of_other(1) [OF put c(7) [OF that] c(5)])
  have "\<forall>c' \<in> set cs. denies now ?l c' = None"
    using Cons.prems(2) other by (simp add: denies_def)
  from Cons.IH [OF s(3) this fits_step(1) [OF Cons.prems(1) s(2) Cons.prems(3)]]
  obtain locked' where rec: "consume_loop (consume now) ?l cs =
      (locked', Inr (map (\<lambda>c. snd (snd (planned now ?l c))) cs))"
      "locked_ok now locked'" "map fst locked' = map fst ?l"
      "\<forall>p < length locked. sh_capacity (snd (locked' ! p)) = sh_capacity (snd (?l ! p)) \<and>
       sh_latest_observed_millis (snd (locked' ! p)) = sh_latest_observed_millis (snd (?l ! p)) \<and>
       (\<forall>k t. active_entry (snd (locked' ! p)) k t = written now ?l cs p k t)"
    by auto
  have same: "map (\<lambda>c. snd (snd (planned now ?l c))) cs = map (\<lambda>c. snd (snd (planned now locked c))) cs"
    using other by (simp add: planned_def)
  have "consume_loop (consume now) locked (c # cs) =
      (locked', Inr (map (\<lambda>c. snd (snd (planned now locked c))) (c # cs)))"
    by (simp add: c(4) s(1) rec(1) plan same)
  moreover have "map fst ?l = map fst locked"
    using c(5) by (simp add: map_update list_update_same_conv)
  moreover have "sh_capacity (snd (?l ! p)) = sh_capacity (snd (locked ! p)) \<and>
      sh_latest_observed_millis (snd (?l ! p)) = sh_latest_observed_millis (snd (locked ! p))" for p
    using put c(5) by (auto simp: nth_list_update puts_def)
  ultimately show ?case
    using rec(2-4) written_step [OF Cons.prems(1) plan s(2)] by auto
qed

lemma admit_batch_result:
  assumes "ready now locked cs" and "\<forall>c \<in> set cs. pc_input_index c < n" and "cs \<noteq> []"
  shows "\<exists>locked' d. admit_batch (quota now) (consume now) shadow now n locked cs = (locked', Inr d) \<and>
    locked_ok now locked' \<and> map fst locked' = map fst locked \<and>
    (\<forall>p < length locked. sh_capacity (snd (locked' ! p)) = sh_capacity (snd (locked ! p)) \<and>
       sh_latest_observed_millis (snd (locked' ! p)) = sh_latest_observed_millis (snd (locked ! p))) \<and>
    (if batch_consumes d
     then d = Batch_Allowed (map (\<lambda>c. snd (snd (planned now locked c))) cs) \<and>
       (\<forall>c \<in> set cs. denies now locked c = None) \<and>
       (\<forall>p < length locked. \<forall>k t. active_entry (snd (locked' ! p)) k t = written now locked cs p k t)
     else locked' = locked \<and> (\<exists>pre c post. cs = pre @ c # post \<and>
       (\<forall>c' \<in> set pre. denies now locked c' = None) \<and> denied_at shadow now n locked c d))"
proof -
  obtain r where r: "admission_loop (quota now) shadow now n locked (replicate (length locked) 0) cs = Inr r"
      "outcome_ok shadow now n locked (fits (capacities locked)
        (occupied locked (replicate (length locked) 0)) (known_in locked) cs) cs r"
    using admission_loop_result [OF assms(1) _ assms(2)] by (metis length_replicate)
  show ?thesis
  proof (cases r)
    case (Some d)
    have "\<not> batch_consumes d"
      using r(2) Some by (auto simp: outcome_ok_def denied_at_def split: option.splits if_splits)
    with r Some assms(1) show ?thesis
      by (simp add: admit_batch_def outcome_ok_def ready_def)
  next
    case None
    have occ: "p < length locked \<Longrightarrow> occupied locked (replicate (length locked) 0) p = shard_used (snd (locked ! p))" for p
      by (simp add: occupied_def)
    have pos: "\<forall>c \<in> set cs. pc_shard_position c < length locked" using assms(1) by (simp add: ready_def)
    have "fits (capacities locked) (\<lambda>p. shard_used (snd (locked ! p))) (known_in locked) cs"
      using r(2) None fits_occ_cong [OF pos occ] by (simp add: outcome_ok_def)
    then obtain locked' where "consume_loop (consume now) locked cs =
        (locked', Inr (map (\<lambda>c. snd (snd (planned now locked c))) cs))"
      "locked_ok now locked'" "map fst locked' = map fst locked"
      "\<forall>p < length locked. sh_capacity (snd (locked' ! p)) = sh_capacity (snd (locked ! p)) \<and>
         sh_latest_observed_millis (snd (locked' ! p)) = sh_latest_observed_millis (snd (locked ! p)) \<and>
         (\<forall>k t. active_entry (snd (locked' ! p)) k t = written now locked cs p k t)"
      using consume_loop_result [OF assms(1)] r(2) None by (auto simp: outcome_ok_def)
    with r None assms(3) show ?thesis
      by (simp add: admit_batch_def outcome_ok_def BatchDecision_allowed_def)
  qed
qed

lemma decide_single_result:
  assumes "good now c" and "shard_ok s" and "timely now s"
  shows "\<exists>s' d. decide_single (quota now) (consume now) shadow now c s = (s', Inr d) \<and>
    (case decide now c (active_entry s (pc_counter_key c) now) of
       Some q \<Rightarrow> s' = s \<and> d = (if shadow then Decision_shadow_denied q else Decision_Denied (QuotaExceeded q))
     | None \<Rightarrow>
         if \<not> contains_key s (pc_counter_key c) \<and> sh_capacity s \<le> shard_used s
         then s' = s \<and> (\<exists>r. storage_capacity_denial s now = Some (StorageCapacity r) \<and>
           d = Decision_Denied (StorageCapacity r))
         else (case plan now c (active_entry s (pc_counter_key c) now) of (v, x, a) \<Rightarrow>
           d = Decision_allowed a \<and> puts (pc_counter_key c) v x s s' \<and> now < x \<and>
           shard_ok s' \<and> timely now s'))"
proof (cases "decide now c (active_entry s (pc_counter_key c) now)")
  case (Some q)
  then show ?thesis by (simp add: decide_single_def quota_decide [OF assms])
next
  case None
  obtain v x a where plan: "plan now c (active_entry s (pc_counter_key c) now) = (v, x, a)" by (metis prod_cases3)
  from consume_plan [OF assms None plan]
  obtain s' where s': "consume now c s = (s', Inr a)" "puts (pc_counter_key c) v x s s'" "now < x"
      "x \<le> now + MAX_WINDOW_MILLIS" by blast
  obtain r where r: "storage_capacity_denial s now = Some (StorageCapacity r)"
    using storage_capacity_denial_total [OF assms(2,3)] by blast
  show ?thesis
  proof (cases "\<not> contains_key s (pc_counter_key c) \<and> sh_capacity s \<le> shard_used s")
    case True
    then show ?thesis by (simp add: decide_single_def quota_decide [OF assms] None r)
  next
    case False
    then have "shard_ok s'" "timely now s'"
      using puts_ok [OF s'(2) assms(2)] puts_timely [OF s'(2) assms(3) s'(4)] by auto
    with False s' show ?thesis by (auto simp: decide_single_def quota_decide [OF assms] None plan)
  qed
qed

end

end
