(* ===== verification/Limiter.thy ===== *)
theory Limiter
  imports Observation
begin

text \<open>
  The limiter trait of \<open>runlimit-core\<close> (\<open>limiter.rs\<close>) as an interface. A backend evaluates one check
  or an atomic batch against its own clock. What the trait's documentation promises, that a denied
  check or batch consumes nothing, that an allowed batch charges every check and answers in input
  order, and that an empty batch is rejected, is stated on the quota state each counter key is
  observed to have.
\<close>

section \<open>Requests and charges\<close>

datatype 'p request =
    Single "'p check"
  | Atomic "'p check list"

text \<open>
  \<open>charged\<close> compares the states before and after a request that consumed the checks \<open>cs\<close>: every key
  observes time that does not go backwards; a key that was not charged looks the same from then on;
  a key that was charged was admissible, and from then on looks as its algorithm prescribes.
\<close>

definition charged ::
  "'p rate_limit_policy_trait \<Rightarrow> ('s \<Rightarrow> counter_key \<Rightarrow> nat \<Rightarrow> 'q option) \<Rightarrow> ('s \<Rightarrow> counter_key \<Rightarrow> nat)
    \<Rightarrow> (nat \<Rightarrow> 'p check \<Rightarrow> 'q option \<Rightarrow> bool) \<Rightarrow> (nat \<Rightarrow> 'p check \<Rightarrow> 'q option \<Rightarrow> nat \<Rightarrow> 'q option)
    \<Rightarrow> 'p check list \<Rightarrow> 's \<Rightarrow> 's \<Rightarrow> bool" where
  "charged D quota_at observed admissible charge cs s s' \<longleftrightarrow>
     (\<forall>k. observed s k \<le> observed s' k \<and>
        (case find (\<lambda>c. counter_key D c = k) cs of
           None \<Rightarrow> (\<forall>t \<ge> observed s' k. quota_at s' k t = quota_at s k t)
         | Some c \<Rightarrow>
             admissible (observed s' k) c (quota_at s k (observed s' k)) \<and>
             (\<forall>t \<ge> observed s' k. quota_at s' k t =
                charge (observed s' k) c (quota_at s k (observed s' k)) t)))"

lemma charged_nothing:
  assumes "\<And>k. observed s k \<le> observed s' k" and "\<And>k t. observed s' k \<le> t \<Longrightarrow> quota_at s' k t = quota_at s k t"
  shows "charged D quota_at observed admissible charge [] s s'"
  using assms by (simp add: charged_def)

lemma charged_refl: "charged D quota_at observed admissible charge [] s s"
  by (simp add: charged_def)

lemma charged_comp:
  "charged D (\<lambda>s. quota_at (f s)) (\<lambda>s. observed (f s)) admissible charge cs s s' =
   charged D quota_at observed admissible charge cs (f s) (f s')"
  by (simp only: charged_def)

text \<open>The history of one key: charges at non-decreasing times, each admissible when it was made.\<close>

fun chain ::
  "(nat \<Rightarrow> 'p check \<Rightarrow> 'q option \<Rightarrow> bool) \<Rightarrow> (nat \<Rightarrow> 'p check \<Rightarrow> 'q option \<Rightarrow> nat \<Rightarrow> 'q option)
    \<Rightarrow> (nat \<Rightarrow> 'q option) \<Rightarrow> nat \<Rightarrow> (nat \<times> 'p check) list \<Rightarrow> bool" where
  "chain admissible charge view start [] = True"
| "chain admissible charge view start ((now, c) # rest) \<longleftrightarrow>
     start \<le> now \<and> admissible now c (view now) \<and>
     chain admissible charge (charge now c (view now)) now rest"

lemma chain_cong:
  "(\<And>t. start' \<le> t \<Longrightarrow> view t = view' t) \<Longrightarrow> start \<le> start' \<Longrightarrow>
   chain admissible charge view' start' log \<Longrightarrow> chain admissible charge view start log"
  by (cases log) auto

section \<open>The interface\<close>

locale limiter =
  fixes D :: "'p rate_limit_policy_trait"
    and inv :: "'s \<Rightarrow> bool"
    and valid :: "'p check \<Rightarrow> bool"
    and check :: "'s \<Rightarrow> 'clock \<Rightarrow> 'p check \<Rightarrow> 's \<times> ('e + decision)"
    and check_all :: "'s \<Rightarrow> 'clock \<Rightarrow> 'p check list \<Rightarrow> 's \<times> ('f + batch_decision)"
    and quota_at :: "'s \<Rightarrow> counter_key \<Rightarrow> nat \<Rightarrow> 'q option"
    and observed :: "'s \<Rightarrow> counter_key \<Rightarrow> nat"
    and admissible :: "nat \<Rightarrow> 'p check \<Rightarrow> 'q option \<Rightarrow> bool"
    and charge :: "nat \<Rightarrow> 'p check \<Rightarrow> 'q option \<Rightarrow> nat \<Rightarrow> 'q option"
  assumes check_inv: "inv s \<Longrightarrow> valid c \<Longrightarrow> inv (fst (check s clock c))"
    and check_all_inv: "inv s \<Longrightarrow> \<forall>c \<in> set cs. valid c \<Longrightarrow> inv (fst (check_all s clock cs))"
    and check_charges: "inv s \<Longrightarrow> valid c \<Longrightarrow> check s clock c = (s', r) \<Longrightarrow>
      charged D quota_at observed admissible charge
        (case r of Inr d \<Rightarrow> if decision_consumes d then [c] else [] | Inl _ \<Rightarrow> []) s s'"
    and check_all_charges: "inv s \<Longrightarrow> \<forall>c \<in> set cs. valid c \<Longrightarrow> check_all s clock cs = (s', b) \<Longrightarrow>
      charged D quota_at observed admissible charge
        (case b of Inr d \<Rightarrow> if batch_consumes d then cs else [] | Inl _ \<Rightarrow> []) s s'"
    and check_all_order: "inv s \<Longrightarrow> \<forall>c \<in> set cs. valid c \<Longrightarrow>
      snd (check_all s clock cs) = Inr (Batch_Allowed as) \<Longrightarrow> length as = length cs"
    and check_all_empty: "\<exists>e. snd (check_all s clock []) = Inl e"
begin

definition request_ok :: "'p request \<Rightarrow> bool" where
  "request_ok req \<longleftrightarrow> (case req of Single c \<Rightarrow> valid c | Atomic cs \<Rightarrow> \<forall>c \<in> set cs. valid c)"

definition serve :: "'s \<Rightarrow> 'clock \<Rightarrow> 'p request \<Rightarrow> 's \<times> 'p check list" where
  "serve s clock req =
     (case req of
        Single c \<Rightarrow> (case check s clock c of (s', r) \<Rightarrow>
          (s', case r of Inr d \<Rightarrow> if decision_consumes d then [c] else [] | Inl _ \<Rightarrow> []))
      | Atomic cs \<Rightarrow> (case check_all s clock cs of (s', r) \<Rightarrow>
          (s', case r of Inr d \<Rightarrow> if batch_consumes d then cs else [] | Inl _ \<Rightarrow> [])))"

fun run :: "counter_key \<Rightarrow> 's \<Rightarrow> ('clock \<times> 'p request) list \<Rightarrow> 's \<times> (nat \<times> 'p check) list" where
  "run k s [] = (s, [])"
| "run k s ((clock, req) # rest) =
     (let (s', cs) = serve s clock req;
          (s'', log) = run k s' rest
      in (s'', case find (\<lambda>c. counter_key D c = k) cs of
                 None \<Rightarrow> log | Some c \<Rightarrow> (observed s' k, c) # log))"

lemma serve_spec:
  assumes "inv s" and "request_ok req" and "serve s clock req = (s', cs)"
  shows "inv s' \<and> charged D quota_at observed admissible charge cs s s' \<and> set cs \<subseteq> {c. valid c}"
proof (cases req)
  case (Single c)
  obtain r where r: "check s clock c = (s', r)"
    using assms(3) Single by (auto simp: serve_def split: prod.splits)
  have ok: "valid c" using assms(2) Single by (simp add: request_ok_def)
  show ?thesis
    using check_inv [OF assms(1) ok, of clock] check_charges [OF assms(1) ok r] assms(3) Single r ok
    by (auto simp: serve_def split: sum.splits if_splits)
next
  case (Atomic bs)
  obtain r where r: "check_all s clock bs = (s', r)"
    using assms(3) Atomic by (auto simp: serve_def split: prod.splits)
  have ok: "\<forall>c \<in> set bs. valid c" using assms(2) Atomic by (simp add: request_ok_def)
  show ?thesis
    using check_all_inv [OF assms(1) ok, of clock] check_all_charges [OF assms(1) ok r] assms(3) Atomic r ok
    by (auto simp: serve_def split: sum.splits if_splits)
qed

lemma run_spec:
  assumes "inv s" and "\<forall>(clock, req) \<in> set reqs. request_ok req" and "run k s reqs = (s', log)"
  shows "inv s' \<and> observed s k \<le> observed s' k \<and> chain admissible charge (quota_at s k) (observed s k) log \<and>
    (\<forall>(t, c) \<in> set log. observed s k \<le> t \<and> t \<le> observed s' k \<and> valid c \<and> counter_key D c = k)"
  using assms
proof (induction reqs arbitrary: s s' log)
  case Nil
  then show ?case by simp
next
  case (Cons e reqs)
  obtain clock req where e: "e = (clock, req)" by (cases e)
  obtain s1 cs where sv: "serve s clock req = (s1, cs)" by fastforce
  obtain s2 log2 where rn: "run k s1 reqs = (s2, log2)" by fastforce
  have ok: "request_ok req" using Cons.prems(2) e by simp
  note step = serve_spec [OF Cons.prems(1) ok sv]
  have rest: "inv s2 \<and> observed s1 k \<le> observed s2 k \<and> chain admissible charge (quota_at s1 k) (observed s1 k) log2 \<and>
      (\<forall>(t, c) \<in> set log2. observed s1 k \<le> t \<and> t \<le> observed s2 k \<and> valid c \<and> counter_key D c = k)"
    using Cons.IH [OF _ _ rn] Cons.prems(2) step by auto
  have mono: "observed s k \<le> observed s1 k" using step by (simp add: charged_def)
  have s': "s' = s2" using Cons.prems(3) e sv rn by (simp split: option.splits)
  show ?case
  proof (cases "find (\<lambda>c. counter_key D c = k) cs")
    case None
    then have "log = log2" using Cons.prems(3) e sv rn by simp
    moreover have "quota_at s k t = quota_at s1 k t" if "observed s1 k \<le> t" for t
      using step None that by (auto simp: charged_def dest!: spec [of _ k])
    ultimately show ?thesis
      using rest mono s' chain_cong [of "observed s1 k" "quota_at s k" "quota_at s1 k" "observed s k"] by fastforce
  next
    case (Some c)
    then have log: "log = (observed s1 k, c) # log2" using Cons.prems(3) e sv rn by simp
    from Some have c: "c \<in> set cs" "counter_key D c = k" by (auto simp: find_Some_iff)
    have ch: "admissible (observed s1 k) c (quota_at s k (observed s1 k))"
        "\<And>t. observed s1 k \<le> t \<Longrightarrow> quota_at s1 k t = charge (observed s1 k) c (quota_at s k (observed s1 k)) t"
      using step Some by (auto simp: charged_def dest!: spec [of _ k])
    have "chain admissible charge (charge (observed s1 k) c (quota_at s k (observed s1 k))) (observed s1 k) log2"
    proof (rule chain_cong)
      show "chain admissible charge (quota_at s1 k) (observed s1 k) log2" using rest by blast
    qed (simp_all add: ch(2))
    with rest mono s' log ch(1) c step show ?thesis by fastforce
  qed
qed

text \<open>A run in which no request consumed leaves every quota as it was.\<close>

lemma denied_run_keeps_quota:
  assumes "inv s" and "\<forall>(clock, req) \<in> set reqs. request_ok req"
    and "\<And>k. snd (run k s reqs) = []" and "observed (fst (run k s reqs)) k \<le> t"
  shows "quota_at (fst (run k s reqs)) k t = quota_at s k t"
  using assms
proof (induction reqs arbitrary: s)
  case Nil
  then show ?case by simp
next
  case (Cons e reqs)
  obtain clock req where e: "e = (clock, req)" by (cases e)
  obtain s1 cs where sv: "serve s clock req = (s1, cs)" by fastforce
  have ok: "request_ok req" and oks: "\<forall>(clock, req) \<in> set reqs. request_ok req"
    using Cons.prems(2) e by auto
  note step = serve_spec [OF Cons.prems(1) ok sv]
  have fst: "fst (run j s (e # reqs)) = fst (run j s1 reqs)" for j
    using e sv by (simp split: prod.splits)
  have none: "find (\<lambda>c. counter_key D c = j) cs = None" and nil: "snd (run j s1 reqs) = []" for j
    using Cons.prems(3) [of j] e sv by (auto split: prod.splits option.splits)
  have "observed s1 k \<le> t"
    using run_spec [OF _ oks, of s1 k "fst (run k s1 reqs)" "snd (run k s1 reqs)"] step Cons.prems(4) fst
    by (auto intro: order_trans)
  then have "quota_at s1 k t = quota_at s k t"
    using step none [of k] by (auto simp: charged_def dest!: spec [of _ k])
  then show ?case
    using Cons.IH [OF _ oks] step nil Cons.prems(4) fst by simp
qed

end

end
