(* ===== verification/Sharded_Limiter.thy ===== *)
theory Sharded_Limiter
  imports Shard_Batches Limiter
begin

text \<open>
  What the two in-memory stores have in common above the shard level: the quota state a counter key
  is seen to have in an array of shards, and the proof that a critical section built from the shared
  loops charges keys exactly as the quota algorithm prescribes. The stores obtain it by interpreting
  the locale \<open>sharded_limiter\<close>.
\<close>

section \<open>Observing an operation\<close>

text \<open>
  Both stores report in the same way, by private methods with the same bodies. The environment of a
  call is the clock reading, \<open>None\<close> when the clock panics, the measured cleanup times and the elapsed
  time.
\<close>

fun batch_error_of_poison :: "poisoned_shard_error failure \<Rightarrow> memory_batch_error failure" where
  "batch_error_of_poison (Failure (PoisonedShardError i)) = Failure (BatchPoisonedShard i)"
| "batch_error_of_poison Panicked = Panicked"

definition observe_shard_effect :: "bool \<Rightarrow> shard_effect \<Rightarrow> observation list" where
  "observe_shard_effect has_observer effect =
     (if \<not> has_observer then []
      else [Observation_Cleanup
              \<lparr>clo_requested = ce_requested (sf_cleanup effect),
               clo_outcome = Cleanup_Confirmed (usize_to_u64 (ce_removed (sf_cleanup effect))),
               clo_elapsed = ce_elapsed (sf_cleanup effect)\<rparr>,
            Observation_Capacity
              \<lparr>cpo_used = usize_to_u64 (sf_used effect), cpo_capacity = usize_to_u64 (sf_capacity effect),
               cpo_shard_index = sf_shard_index effect\<rparr>])"

definition observe_shard_effects :: "bool \<Rightarrow> shard_effect list \<Rightarrow> observation list" where
  "observe_shard_effects has_observer effects = concat (map (observe_shard_effect has_observer) effects)"

definition observe_admission :: "bool \<Rightarrow> admission_observation \<Rightarrow> observation list" where
  "observe_admission has_observer admission =
     (if has_observer then [Observation_Admission admission] else [])"

type_synonym call_environment = "duration option \<times> (nat \<Rightarrow> duration) \<times> duration"

section \<open>The state of a key in the array of shards\<close>

definition store_active :: "'e bounded_shards \<Rightarrow> counter_key \<Rightarrow> nat \<Rightarrow> ('e \<times> nat) option" where
  "store_active shards k t = active_entry (mx_shard (shards ! shard_index shards k)) k t"

definition store_observed :: "'e bounded_shards \<Rightarrow> counter_key \<Rightarrow> nat" where
  "store_observed shards k = sh_latest_observed_millis (mx_shard (shards ! shard_index shards k))"

lemma shard_index_length: "length shards = length shards' \<Longrightarrow> shard_index shards k = shard_index shards' k"
  by (simp add: shard_index_def)

lemma shard_index_unlock [simp]: "shard_index (unlock shards locked) k = shard_index shards k"
  by (simp add: shard_index_def)

lemma shard_index_unwind [simp]: "shard_index (unwind shards is) k = shard_index shards k"
  by (simp add: shard_index_def)

lemma store_unwind [simp]:
  assumes "shards_ok config shards"
  shows "store_active (unwind shards is) k t = store_active shards k t"
    and "store_observed (unwind shards is) k = store_observed shards k"
  using shard_index_less [OF assms, of k]
  by (simp_all add: store_active_def store_observed_def unwind_nth)

lemma store_unlock:
  assumes "shards_ok config shards" and "distinct (map fst locked)"
  shows "store_active (unlock shards locked) k t =
      (case map_of locked (shard_index shards k) of
         None \<Rightarrow> store_active shards k t | Some s \<Rightarrow> active_entry s k t)"
    and "store_observed (unlock shards locked) k =
      (case map_of locked (shard_index shards k) of
         None \<Rightarrow> store_observed shards k | Some s \<Rightarrow> sh_latest_observed_millis s)"
  using shard_index_less [OF assms(1), of k]
  by (simp_all add: store_active_def store_observed_def unlock_nth [OF assms(2)] split: option.splits)

lemma shards_okD:
  assumes "shards_ok config shards" and "i < length shards" and "\<not> mx_poisoned (shards ! i)"
  shows "shard_ok (mx_shard (shards ! i))" and "sh_capacity (mx_shard (shards ! i)) = shard_capacity config i"
    and "timely (sh_latest_observed_millis (mx_shard (shards ! i))) (mx_shard (shards ! i))"
  using assms by (auto simp: shards_ok_def)

lemma find_distinct:
  assumes "distinct (map f xs)" and "x \<in> set xs" and "P x" and "\<And>y. P y \<Longrightarrow> f y = f x"
  shows "find P xs = Some x"
proof (cases "find P xs")
  case None
  with assms(2,3) show ?thesis by (auto simp: find_None_iff)
next
  case (Some y)
  then have "y \<in> set xs" "P y" by (auto simp: find_Some_iff)
  with assms have "y = x" by (auto simp: distinct_map dest: inj_onD)
  with Some show ?thesis by simp
qed

section \<open>One check\<close>

text \<open>The shard of a single check after its time was recorded and the bounded cleanup ran.\<close>

definition swept :: "memory_store_config \<Rightarrow> nat \<Rightarrow> 'e shard \<Rightarrow> 'e shard" where
  "swept config now s =
     fst (prune_expired now (cfg_max_expired_removals_per_check config) (record_observed_millis now s))"

lemma swept_spec:
  assumes "shard_ok s"
  shows "prunes now (record_observed_millis now s) (swept config now s)" and "shard_ok (swept config now s)"
proof -
  obtain s' n where pr: "prune_expired now (cfg_max_expired_removals_per_check config)
      (record_observed_millis now s) = (s', n)" by fastforce
  with prune_expired_spec [OF _ pr] assms
  show "prunes now (record_observed_millis now s) (swept config now s)" and "shard_ok (swept config now s)"
    by (simp_all add: swept_def)
qed

text \<open>A key with an active entry still has it after the cleanup.\<close>

lemma swept_contains:
  assumes "shards_ok config shards" and "\<not> mx_poisoned (shards ! shard_index shards k)"
    and "store_active shards k now \<noteq> None"
  shows "contains_key (swept config now (mx_shard (shards ! shard_index shards k))) k"
proof -
  have ok: "shard_ok (mx_shard (shards ! shard_index shards k))"
    using shards_okD(1) [OF assms(1) shard_index_less [OF assms(1)] assms(2)] .
  have "active_entry (swept config now (mx_shard (shards ! shard_index shards k))) k now \<noteq> None"
    using prunes_active [OF swept_spec(1) [OF ok] order.refl] assms(3) by (simp add: store_active_def)
  then show ?thesis by (auto simp: active_entry_def contains_key_def split: option.splits)
qed

lemma capacity_denial_retry:
  assumes "storage_capacity_denial s now = Some (StorageCapacity r)"
  shows "r = map_option (\<lambda>(x, _). Delay (from_millis (max (x - now) 1))) (btree_first (sh_expirations s))"
  using assms
  by (auto simp: storage_capacity_denial_def capacity_retry_after_millis_def try_from_nat_def
      split: option.splits if_splits)

lemma lock_shard_cases:
  assumes "shards_ok config shards"
  shows "lock_shard shards (shard_index shards k) =
    (if mx_poisoned (shards ! shard_index shards k)
     then Inl (Failure (PoisonedShardError (shard_index shards k)))
     else Inr (mx_shard (shards ! shard_index shards k)))"
  using shard_index_less [OF assms] by (simp add: lock_shard_def)

lemma charged_unwind:
  "shards_ok config shards \<Longrightarrow> charged D store_active store_observed admissible charge [] shards (unwind shards is)"
  by (rule charged_nothing) simp_all

lemma topology_indexes_ok:
  assumes "shards_ok config shards"
    and "topology_ok config (map (\<lambda>c. shard_index shards (counter_key D c)) cs) t"
  shows "\<forall>i \<in> set (map bs_index (bt_shards t)). i < length shards"
  using assms(2) shard_index_less [OF assms(1)] by (auto simp: topology_ok_def)

definition total_cost :: "(nat \<times> 'p check) list \<Rightarrow> nat" where
  "total_cost log = sum_list (map (\<lambda>(t, c). check_cost c) log)"

lemma total_cost_simps [simp]:
  "total_cost [] = 0"
  "total_cost ((t, c) # log) = check_cost c + total_cost log"
  by (simp_all add: total_cost_def)

lemma chain_prefix: "chain A C v start (log @ post) \<Longrightarrow> chain A C v start log"
proof (induction log arbitrary: v start)
  case (Cons e log)
  then show ?case by (cases e) auto
qed simp

lemma no_admission:
  "\<forall>o' \<in> set (observe_shard_effect b eff). \<forall>a'. o' \<noteq> Observation_Admission a'"
  "\<forall>o' \<in> set (observe_shard_effects b effs). \<forall>a'. o' \<noteq> Observation_Admission a'"
  by (auto simp: observe_shard_effects_def observe_shard_effect_def split: if_splits)

lemma observes_once:
  assumes "charged D quota_at observed admissible charge (if b then cs else []) s s'"
    and "ado_consumption a = (if b then Consumed else NotConsumed)"
    and "obs = pre @ [Observation_Admission a]" and "\<forall>o' \<in> set pre. \<forall>a'. o' \<noteq> Observation_Admission a'"
  shows "\<exists>pre a. obs = pre @ [Observation_Admission a] \<and>
    (\<forall>o' \<in> set pre. \<forall>a'. o' \<noteq> Observation_Admission a') \<and>
    (ado_consumption a = Consumed \<or> ado_consumption a = NotConsumed) \<and>
    charged D quota_at observed admissible charge (if ado_consumption a = Consumed then cs else []) s s'"
  using assms by (cases b) auto

lemma charged_batch:
  assumes "charged D quota_at observed admissible charge
      (case r of Inr d \<Rightarrow> if batch_consumes d then cs else [] | Inl _ \<Rightarrow> []) s s'"
    and "\<forall>as. r = Inr (Batch_Allowed as) \<longrightarrow> length as = length cs"
    and "\<forall>d. r = Inr d \<longrightarrow> distinct (map (counter_key D) cs)"
  shows "(\<forall>k. observed s k \<le> observed s' k) \<and>
    (case r of
       Inr (Batch_Allowed as) \<Rightarrow>
         length as = length cs \<and> distinct (map (counter_key D) cs) \<and>
         (\<forall>c \<in> set cs. let k = counter_key D c; now = observed s' k in
            admissible now c (quota_at s k now) \<and>
            (\<forall>t \<ge> now. quota_at s' k t = charge now c (quota_at s k now) t)) \<and>
         (\<forall>k t. k \<notin> counter_key D ` set cs \<longrightarrow> observed s' k \<le> t \<longrightarrow> quota_at s' k t = quota_at s k t)
     | _ \<Rightarrow> \<forall>k t. observed s' k \<le> t \<longrightarrow> quota_at s' k t = quota_at s k t)"
proof (cases "\<exists>as. r = Inr (Batch_Allowed as)")
  case False
  then have "(case r of Inr d \<Rightarrow> if batch_consumes d then cs else [] | Inl _ \<Rightarrow> []) = []"
    by (auto split: sum.splits elim: batch_consumes.elims)
  with assms(1) False show ?thesis by (auto simp: charged_def split: sum.splits batch_decision.splits)
next
  case True
  then obtain as where r: "r = Inr (Batch_Allowed as)" by blast
  then have dist: "distinct (map (counter_key D) cs)" and len: "length as = length cs" using assms(2,3) by simp_all
  have ch: "charged D quota_at observed admissible charge cs s s'" using assms(1) r by simp
  have each: "admissible (observed s' (counter_key D c)) c (quota_at s (counter_key D c) (observed s' (counter_key D c))) \<and>
      (\<forall>t \<ge> observed s' (counter_key D c). quota_at s' (counter_key D c) t =
        charge (observed s' (counter_key D c)) c (quota_at s (counter_key D c) (observed s' (counter_key D c))) t)"
    if "c \<in> set cs" for c
    using ch find_distinct [OF dist that, of "\<lambda>d. counter_key D d = counter_key D c"]
    by (auto simp: charged_def dest!: spec [of _ "counter_key D c"])
  have others: "quota_at s' k t = quota_at s k t" if "k \<notin> counter_key D ` set cs" "observed s' k \<le> t" for k t
  proof -
    have "find (\<lambda>c. counter_key D c = k) cs = None" using that(1) by (auto simp: find_None_iff)
    with ch that(2) show ?thesis by (auto simp: charged_def dest!: spec [of _ k])
  qed
  have "\<forall>k. observed s k \<le> observed s' k" using ch by (simp add: charged_def)
  with r dist len each others show ?thesis by (simp add: Let_def)
qed

locale sharded_limiter =
  shard_quota quota consume good decide plan
  for quota :: "nat \<Rightarrow> 'c prepared_check_scheme \<Rightarrow> 'e shard \<Rightarrow> 'x failure + quota_denial option"
    and consume :: "nat \<Rightarrow> 'c prepared_check_scheme \<Rightarrow> 'e shard \<Rightarrow> 'e shard \<times> ('x failure + allowance)"
    and good decide plan +
  fixes D :: "'p rate_limit_policy_trait"
    and valid :: "'p check \<Rightarrow> bool"
    and represents :: "nat \<Rightarrow> 'p check \<Rightarrow> ('e \<times> nat) option \<Rightarrow> 'c prepared_check_scheme \<Rightarrow> bool"
    and admissible :: "nat \<Rightarrow> 'p check \<Rightarrow> ('e \<times> nat) option \<Rightarrow> bool"
    and charge :: "nat \<Rightarrow> 'p check \<Rightarrow> ('e \<times> nat) option \<Rightarrow> nat \<Rightarrow> ('e \<times> nat) option"
  assumes represents_key: "represents now c q pc \<Longrightarrow> pc_counter_key pc = counter_key D c"
    and represents_good: "valid c \<Longrightarrow> represents now c q pc \<Longrightarrow> good now pc"
    and represents_admissible: "represents now c q pc \<Longrightarrow> decide now pc q = None \<Longrightarrow> admissible now c q"
    and represents_charge: "represents now c q pc \<Longrightarrow> decide now pc q = None \<Longrightarrow> plan now pc q = (v, x, a) \<Longrightarrow>
      charge now c q t = (if t < x then Some (v, x) else None)"
begin

lemma single_charged:
  assumes "shards_ok config shards" and "valid c"
    and "\<not> mx_poisoned (shards ! i)" and "i = shard_index shards (counter_key D c)"
    and "store_observed shards (counter_key D c) \<le> now"
    and "represents now c (store_active shards (counter_key D c) now) pc"
    and "prunes now (record_observed_millis now (mx_shard (shards ! i))) s1" and "shard_ok s1"
  shows "\<exists>s' d. decide_single (quota now) (consume now) shadow now pc s1 = (s', Inr d) \<and>
    shards_ok config (unlock shards [(i, s')]) \<and>
    store_observed (unlock shards [(i, s')]) (counter_key D c) = now \<and>
    charged D store_active store_observed admissible charge (if decision_consumes d then [c] else [])
      shards (unlock shards [(i, s')]) \<and>
    (decision_consumes d \<longleftrightarrow> decide now pc (store_active shards (counter_key D c) now) = None \<and>
       (contains_key s1 (counter_key D c) \<or> shard_used s1 < sh_capacity s1)) \<and>
    (\<forall>v x a. decision_consumes d \<longrightarrow> plan now pc (store_active shards (counter_key D c) now) = (v, x, a) \<longrightarrow>
       d = Decision_allowed a) \<and>
    (case decide now pc (store_active shards (counter_key D c) now) of
       Some q \<Rightarrow> d = (if shadow then Decision_shadow_denied q else Decision_Denied (QuotaExceeded q))
     | None \<Rightarrow>
         if \<not> contains_key s1 (counter_key D c) \<and> sh_capacity s1 \<le> shard_used s1
         then \<exists>r. storage_capacity_denial s1 now = Some (StorageCapacity r) \<and> d = Decision_Denied (StorageCapacity r)
         else decision_consumes d)"
proof -
  let ?k = "counter_key D c" and ?s = "mx_shard (shards ! i)"
  have i: "i < length shards" using shard_index_less [OF assms(1)] assms(4) by simp
  note s = shards_okD [OF assms(1) i assms(3)]
  have latest: "sh_latest_observed_millis ?s \<le> now"
    using assms(4,5) by (simp add: store_observed_def)
  have s1: "timely now s1" "sh_capacity s1 = shard_capacity config i" "sh_latest_observed_millis s1 = now"
    using prunes_timely [OF assms(7)] timely_mono [OF s(3) latest] assms(7) s(2)
    by (auto simp: prunes_def)
  have act: "active_entry s1 j t = active_entry ?s j t" if "now \<le> t" for j t
    using prunes_active [OF assms(7) that] by simp
  have key: "pc_counter_key pc = ?k" by (rule represents_key [OF assms(6)])
  have q: "active_entry s1 ?k now = store_active shards ?k now"
    using act assms(4) by (simp add: store_active_def)
  obtain s' d where r: "decide_single (quota now) (consume now) shadow now pc s1 = (s', Inr d)"
    and res: "case decide now pc (store_active shards ?k now) of
       Some q \<Rightarrow> s' = s1 \<and> d = (if shadow then Decision_shadow_denied q else Decision_Denied (QuotaExceeded q))
     | None \<Rightarrow>
         if \<not> contains_key s1 ?k \<and> sh_capacity s1 \<le> shard_used s1
         then s' = s1 \<and> (\<exists>r. storage_capacity_denial s1 now = Some (StorageCapacity r) \<and>
           d = Decision_Denied (StorageCapacity r))
         else (case plan now pc (store_active shards ?k now) of (v, x, a) \<Rightarrow>
           d = Decision_allowed a \<and> puts ?k v x s1 s' \<and> now < x \<and> shard_ok s' \<and> timely now s')"
    using decide_single_result [OF represents_good [OF assms(2,6)] assms(8) s1(1), of shadow]
    unfolding key q by blast
  let ?shards = "unlock shards [(i, s')]"
  have view: "store_active ?shards j t = (if shard_index shards j = i then active_entry s' j t
      else store_active shards j t)" for j t
    using store_unlock(1) [OF assms(1), of "[(i, s')]" j t] by simp
  have obs: "store_observed ?shards j = (if shard_index shards j = i then sh_latest_observed_millis s'
      else store_observed shards j)" for j
    using store_unlock(2) [OF assms(1), of "[(i, s')]" j] by simp
  have fields: "shard_ok s' \<and> timely now s' \<and> sh_capacity s' = shard_capacity config i \<and>
      sh_latest_observed_millis s' = now"
    using res s1 assms(8) by (auto simp: puts_def split: option.splits if_splits prod.splits)
  have ok: "shards_ok config ?shards"
    by (rule shards_ok_unlock [OF assms(1)]) (use fields in auto)
  have mono: "store_observed shards j \<le> store_observed ?shards j" for j
    using obs fields latest by (simp add: store_observed_def)
  show ?thesis
  proof (cases "decide now pc (store_active shards ?k now) = None \<and>
      (contains_key s1 ?k \<or> shard_used s1 < sh_capacity s1)")
    case False
    then have d: "\<not> decision_consumes d" "s' = s1"
      using res by (auto simp: Decision_shadow_denied_def split: option.splits if_splits)
    have "store_active ?shards j t = store_active shards j t" if "store_observed ?shards j \<le> t" for j t
      using that view obs fields act d(2) by (auto simp: store_active_def)
    then have "charged D store_active store_observed admissible charge [] shards ?shards"
      using mono by (intro charged_nothing)
    moreover have "case decide now pc (store_active shards ?k now) of
        Some q \<Rightarrow> d = (if shadow then Decision_shadow_denied q else Decision_Denied (QuotaExceeded q))
      | None \<Rightarrow>
          if \<not> contains_key s1 ?k \<and> sh_capacity s1 \<le> shard_used s1
          then \<exists>r. storage_capacity_denial s1 now = Some (StorageCapacity r) \<and> d = Decision_Denied (StorageCapacity r)
          else decision_consumes d"
      using res False by (auto split: option.splits if_splits)
    ultimately show ?thesis using r ok False d(1) obs fields assms(4) by auto
  next
    case True
    obtain v x a where plan: "plan now pc (store_active shards ?k now) = (v, x, a)" by (metis prod_cases3)
    with True res have p: "d = Decision_allowed a" "puts ?k v x s1 s'" "now < x" by auto
    have obsk: "store_observed ?shards ?k = now" using obs assms(4) fields by simp
    have "charged D store_active store_observed admissible charge [c] shards ?shards"
      unfolding charged_def
    proof (intro allI conjI)
      fix j
      show "store_observed shards j \<le> store_observed ?shards j" by (rule mono)
      show "case find (\<lambda>c. counter_key D c = j) [c] of
          None \<Rightarrow> (\<forall>t\<ge>store_observed ?shards j. store_active ?shards j t = store_active shards j t)
        | Some c \<Rightarrow> admissible (store_observed ?shards j) c (store_active shards j (store_observed ?shards j)) \<and>
            (\<forall>t\<ge>store_observed ?shards j. store_active ?shards j t =
               charge (store_observed ?shards j) c (store_active shards j (store_observed ?shards j)) t)"
      proof (cases "j = ?k")
        case jk: True
        have "store_active ?shards ?k t = (if t < x then Some (v, x) else None)" for t
          using view assms(4) puts_active [OF p(2)] by simp
        then show ?thesis
          using jk obsk represents_admissible [OF assms(6)] represents_charge [OF assms(6) _ plan] True by simp
      next
        case False
        then show ?thesis
          using view obs fields act puts_active [OF p(2)] by (auto simp: store_active_def)
      qed
    qed
    with r ok True p(1) obsk plan show ?thesis by (auto simp: Decision_allowed_def)
  qed
qed

text \<open>
  The setting of a batch: the shards its checks address are healthy, locked in index order and
  cleaned up at \<open>now\<close>; \<open>pcs\<close> are the prepared checks.
\<close>

definition batch_setting ::
  "memory_store_config \<Rightarrow> 'e bounded_shards \<Rightarrow> nat \<Rightarrow> 'p check list \<Rightarrow> 'e locked_shards
    \<Rightarrow> 'c prepared_check_scheme list \<Rightarrow> bool" where
  "batch_setting config shards now cs locked1 pcs \<longleftrightarrow>
     shards_ok config shards \<and> (\<forall>c \<in> set cs. valid c) \<and> distinct (map (counter_key D) cs) \<and> cs \<noteq> [] \<and>
     map fst locked1 = sorted_list_of_set (set (map (\<lambda>c. shard_index shards (counter_key D c)) cs)) \<and>
     (\<forall>(i, s1) \<in> set locked1. \<not> mx_poisoned (shards ! i) \<and> shard_ok s1 \<and>
        sh_latest_observed_millis (mx_shard (shards ! i)) \<le> now \<and>
        prunes now (record_observed_millis now (mx_shard (shards ! i))) s1) \<and>
     length pcs = length cs \<and>
     (\<forall>j < length cs. pc_input_index (pcs ! j) = j \<and> pc_shard_position (pcs ! j) < length locked1 \<and>
        fst (locked1 ! pc_shard_position (pcs ! j)) = shard_index shards (counter_key D (cs ! j)) \<and>
        represents now (cs ! j) (store_active shards (counter_key D (cs ! j)) now) (pcs ! j))"

lemma batch_settingD:
  assumes "batch_setting config shards now cs locked1 pcs" and "p < length locked1"
  shows "\<not> mx_poisoned (shards ! fst (locked1 ! p))" and "fst (locked1 ! p) < length shards"
    and "shard_ok (snd (locked1 ! p))" and "timely now (snd (locked1 ! p))"
    and "sh_capacity (snd (locked1 ! p)) = shard_capacity config (fst (locked1 ! p))"
    and "sh_latest_observed_millis (snd (locked1 ! p)) = now"
    and "sh_latest_observed_millis (mx_shard (shards ! fst (locked1 ! p))) \<le> now"
    and "now \<le> t \<Longrightarrow> active_entry (snd (locked1 ! p)) k t = active_entry (mx_shard (shards ! fst (locked1 ! p))) k t"
proof -
  obtain i s1 where l: "locked1 ! p = (i, s1)" by fastforce
  with assms(2) have mem: "(i, s1) \<in> set locked1" by (metis nth_mem)
  have ok: "shards_ok config shards" using assms(1) by (simp add: batch_setting_def)
  have "map fst locked1 = sorted_list_of_set (set (map (\<lambda>c. shard_index shards (counter_key D c)) cs))"
    using assms(1) by (simp add: batch_setting_def)
  from arg_cong [OF this, of set]
  have "fst ` set locked1 = (\<lambda>c. shard_index shards (counter_key D c)) ` set cs" by simp
  moreover have "i \<in> fst ` set locked1" using mem by force
  ultimately show len: "fst (locked1 ! p) < length shards" using shard_index_less [OF ok] l by auto
  have m: "\<not> mx_poisoned (shards ! i)" "shard_ok s1" "sh_latest_observed_millis (mx_shard (shards ! i)) \<le> now"
      "prunes now (record_observed_millis now (mx_shard (shards ! i))) s1"
    using assms(1) mem by (auto simp: batch_setting_def)
  note s = shards_okD [OF ok len, unfolded l fst_conv, OF m(1)]
  show "\<not> mx_poisoned (shards ! fst (locked1 ! p))" "shard_ok (snd (locked1 ! p))"
    "sh_latest_observed_millis (mx_shard (shards ! fst (locked1 ! p))) \<le> now"
    using m l by auto
  show "timely now (snd (locked1 ! p))"
    using prunes_timely [OF m(4)] timely_mono [OF s(3) m(3)] l by simp
  show "sh_capacity (snd (locked1 ! p)) = shard_capacity config (fst (locked1 ! p))"
    "sh_latest_observed_millis (snd (locked1 ! p)) = now"
    using m(4) s(2) l by (auto simp: prunes_def)
  show "active_entry (snd (locked1 ! p)) k t = active_entry (mx_shard (shards ! fst (locked1 ! p))) k t"
    if "now \<le> t" using prunes_active [OF m(4) that] l by simp
qed

lemma batch_ready:
  assumes "batch_setting config shards now cs locked1 pcs"
  shows "ready now locked1 pcs" and "\<forall>pc \<in> set pcs. pc_input_index pc < length cs" and "pcs \<noteq> []"
    and "distinct (map fst locked1)" and "map pc_counter_key pcs = map (counter_key D) cs"
proof -
  show keys: "map pc_counter_key pcs = map (counter_key D) cs"
    using assms represents_key by (auto simp: batch_setting_def intro!: nth_equalityI)
  have good: "good now pc \<and> pc_shard_position pc < length locked1 \<and> pc_input_index pc < length cs"
    if "pc \<in> set pcs" for pc
  proof -
    from that assms obtain j where "j < length cs" "pc = pcs ! j"
      by (auto simp: batch_setting_def in_set_conv_nth)
    with assms have "valid (cs ! j)" "pc_shard_position pc < length locked1" "pc_input_index pc < length cs"
        "represents now (cs ! j) (store_active shards (counter_key D (cs ! j)) now) pc"
      by (simp_all add: batch_setting_def)
    with represents_good show ?thesis by blast
  qed
  then show "ready now locked1 pcs"
    using assms keys batch_settingD(3,4) [OF assms] by (simp add: ready_def locked_ok_def batch_setting_def)
  show "\<forall>pc \<in> set pcs. pc_input_index pc < length cs" using good by blast
  show "pcs \<noteq> []" "distinct (map fst locked1)" using assms by (auto simp: batch_setting_def)
qed

lemma batch_denies:
  assumes "batch_setting config shards now cs locked1 pcs" and "j < length cs"
  shows "active_of now locked1 (pcs ! j) = store_active shards (counter_key D (cs ! j)) now"
proof -
  let ?pc = "pcs ! j"
  have p: "pc_shard_position ?pc < length locked1" "pc_counter_key ?pc = counter_key D (cs ! j)"
      "fst (locked1 ! pc_shard_position ?pc) = shard_index shards (counter_key D (cs ! j))"
    using assms represents_key by (auto simp: batch_setting_def)
  show ?thesis
    using batch_settingD(8) [OF assms(1) p(1), of now "counter_key D (cs ! j)"] p
    by (simp add: active_of_def shard_of_def store_active_def)
qed

lemma written_key:
  assumes "batch_setting config shards now cs locked1 pcs" and "p < length locked1"
    and "fst (locked1 ! p) = shard_index shards k" and "now \<le> t"
    and "\<forall>pc \<in> set pcs. denies now locked1 pc = None"
  shows "case find (\<lambda>c. counter_key D c = k) cs of
      None \<Rightarrow> written now locked1 pcs p k t = store_active shards k t
    | Some c \<Rightarrow> admissible now c (store_active shards k now) \<and>
        written now locked1 pcs p k t = charge now c (store_active shards k now) t"
proof (cases "find (\<lambda>c. counter_key D c = k) cs")
  case None
  then have "k \<notin> set (map pc_counter_key pcs)"
    unfolding batch_ready(5) [OF assms(1)] by (auto simp: find_None_iff)
  then have "find (\<lambda>c. pc_shard_position c = p \<and> pc_counter_key c = k) pcs = None"
    by (auto simp: find_None_iff)
  with None assms(3) batch_settingD(8) [OF assms(1,2,4), of k] show ?thesis
    by (simp add: written_def store_active_def)
next
  case (Some c)
  then obtain j where j: "j < length cs" "c = cs ! j" "counter_key D c = k" by (auto simp: find_Some_iff)
  let ?pc = "pcs ! j"
  have pc: "?pc \<in> set pcs" "represents now c (store_active shards k now) ?pc"
      "pc_shard_position ?pc < length locked1" "fst (locked1 ! pc_shard_position ?pc) = shard_index shards k"
    using assms(1) j by (auto simp: batch_setting_def)
  have "pc_shard_position ?pc = p"
    using batch_ready(4) [OF assms(1)] pc(3,4) assms(2,3)
    by (metis length_map nth_eq_iff_index_eq nth_map)
  then have "find (\<lambda>c. pc_shard_position c = p \<and> pc_counter_key c = k) pcs = Some ?pc"
    using pc(1) represents_key [OF pc(2)] j(3) batch_ready(1) [OF assms(1)]
    by (intro find_distinct [of pc_counter_key]) (auto simp: ready_def)
  moreover obtain v x a where plan: "plan now ?pc (store_active shards k now) = (v, x, a)" by (metis prod_cases3)
  moreover have none: "decide now ?pc (store_active shards k now) = None"
    using assms(5) pc(1) batch_denies [OF assms(1) j(1)] j by (auto simp: denies_def)
  ultimately show ?thesis
    using Some represents_admissible [OF pc(2) none] represents_charge [OF pc(2) none plan]
      batch_denies [OF assms(1) j(1)] j
    by (simp add: written_def planned_def)
qed

lemma unlock_batch:
  assumes "batch_setting config shards now cs locked1 pcs" and "map fst locked2 = map fst locked1"
    and "\<forall>p < length locked1. sh_capacity (snd (locked2 ! p)) = sh_capacity (snd (locked1 ! p)) \<and>
       sh_latest_observed_millis (snd (locked2 ! p)) = sh_latest_observed_millis (snd (locked1 ! p))"
    and "locked_ok now locked2"
  shows "shards_ok config (unlock shards locked2)"
    and "p < length locked1 \<Longrightarrow> fst (locked1 ! p) = shard_index shards k \<Longrightarrow>
      store_active (unlock shards locked2) k t = active_entry (snd (locked2 ! p)) k t \<and>
      store_observed (unlock shards locked2) k = now \<and> store_observed shards k \<le> now"
    and "shard_index shards k \<notin> fst ` set locked1 \<Longrightarrow>
      store_active (unlock shards locked2) k t = store_active shards k t \<and>
      store_observed (unlock shards locked2) k = store_observed shards k"
proof -
  have ok: "shards_ok config shards" using assms(1) by (simp add: batch_setting_def)
  have len: "length locked2 = length locked1" using assms(2) by (rule map_eq_imp_length_eq)
  have dist: "distinct (map fst locked2)" using batch_ready(4) [OF assms(1)] assms(2) by simp
  have fst2: "p < length locked1 \<Longrightarrow> fst (locked2 ! p) = fst (locked1 ! p)" for p
    using assms(2) len by (metis nth_map)
  have upd: "p < length locked1 \<Longrightarrow> shard_ok (snd (locked2 ! p)) \<and>
      sh_capacity (snd (locked2 ! p)) = shard_capacity config (fst (locked1 ! p)) \<and>
      sh_latest_observed_millis (snd (locked2 ! p)) = now \<and> timely now (snd (locked2 ! p))" for p
    using assms(3,4) batch_settingD(5,6) [OF assms(1), of p] len by (simp add: locked_ok_def)
  show "shards_ok config (unlock shards locked2)"
  proof (rule shards_ok_unlock [OF ok dist])
    fix i s assume "(i, s) \<in> set locked2"
    then obtain p where "p < length locked1" "locked2 ! p = (i, s)" by (metis in_set_conv_nth len)
    with upd [of p] fst2 [of p]
    show "shard_ok s \<and> sh_capacity s = shard_capacity config i \<and> timely (sh_latest_observed_millis s) s"
      by simp
  qed
  show "store_active (unlock shards locked2) k t = active_entry (snd (locked2 ! p)) k t \<and>
      store_observed (unlock shards locked2) k = now \<and> store_observed shards k \<le> now"
    if p: "p < length locked1" "fst (locked1 ! p) = shard_index shards k"
  proof -
    have "(shard_index shards k, snd (locked2 ! p)) \<in> set locked2"
      using p fst2 len by (metis nth_mem prod.collapse)
    then have "map_of locked2 (shard_index shards k) = Some (snd (locked2 ! p))"
      using dist by simp
    then show ?thesis
      using store_unlock [OF ok dist, of k] upd [OF p(1)] batch_settingD(7) [OF assms(1) p(1)] p(2)
      by (simp add: store_observed_def)
  qed
  show "store_active (unlock shards locked2) k t = store_active shards k t \<and>
      store_observed (unlock shards locked2) k = store_observed shards k"
    if "shard_index shards k \<notin> fst ` set locked1"
  proof -
    have "fst ` set locked2 = fst ` set locked1" using assms(2) by (metis set_map)
    with that have "map_of locked2 (shard_index shards k) = None" by (simp add: map_of_eq_None_iff)
    then show ?thesis using store_unlock [OF ok dist, of k] by simp
  qed
qed

lemma batch_charged:
  assumes "batch_setting config shards now cs locked1 pcs"
  shows "\<exists>locked2 d. admit_batch (quota now) (consume now) shadow now (length cs) locked1 pcs = (locked2, Inr d) \<and>
    shards_ok config (unlock shards locked2) \<and>
    charged D store_active store_observed admissible charge (if batch_consumes d then cs else [])
      shards (unlock shards locked2) \<and>
    (\<forall>as. d = Batch_Allowed as \<longrightarrow> length as = length cs)"
proof -
  note ready = batch_ready [OF assms]
  obtain locked2 d where r: "admit_batch (quota now) (consume now) shadow now (length cs) locked1 pcs = (locked2, Inr d)"
      "locked_ok now locked2" "map fst locked2 = map fst locked1"
      "\<forall>p < length locked1. sh_capacity (snd (locked2 ! p)) = sh_capacity (snd (locked1 ! p)) \<and>
       sh_latest_observed_millis (snd (locked2 ! p)) = sh_latest_observed_millis (snd (locked1 ! p))"
      "if batch_consumes d
       then d = Batch_Allowed (map (\<lambda>c. snd (snd (planned now locked1 c))) pcs) \<and>
         (\<forall>c \<in> set pcs. denies now locked1 c = None) \<and>
         (\<forall>p < length locked1. \<forall>k t. active_entry (snd (locked2 ! p)) k t = written now locked1 pcs p k t)
       else locked2 = locked1 \<and> (\<exists>pre c post. pcs = pre @ c # post \<and>
         (\<forall>c' \<in> set pre. denies now locked1 c' = None) \<and> denied_at shadow now (length cs) locked1 c d)"
    using admit_batch_result [OF ready(1-3), of shadow] by blast
  let ?shards = "unlock shards locked2"
  note un = unlock_batch [OF assms r(3,4,2)]
  have locked: "\<exists>p < length locked1. fst (locked1 ! p) = shard_index shards k"
    if "shard_index shards k \<in> fst ` set locked1" for k
  proof -
    from that have "shard_index shards k \<in> set (map fst locked1)" by simp
    then show ?thesis by (auto simp only: in_set_conv_nth length_map nth_map)
  qed
  have idx: "shard_index shards k \<in> fst ` set locked1" if "find (\<lambda>c. counter_key D c = k) cs = Some c" for k c
  proof -
    have "map fst locked1 = sorted_list_of_set (set (map (\<lambda>c. shard_index shards (counter_key D c)) cs))"
      using assms by (simp add: batch_setting_def)
    from arg_cong [OF this, of set] that show ?thesis by (auto simp: find_Some_iff)
  qed
  have "charged D store_active store_observed admissible charge (if batch_consumes d then cs else []) shards ?shards"
    unfolding charged_def
  proof (rule allI, rule conjI)
    fix k
    show "store_observed shards k \<le> store_observed ?shards k"
    proof (cases "shard_index shards k \<in> fst ` set locked1")
      case True
      then obtain p where "p < length locked1" "fst (locked1 ! p) = shard_index shards k"
        using locked by blast
      from un(2) [OF this] show ?thesis by simp
    next
      case False
      from un(3) [OF this] show ?thesis by simp
    qed
    show "case find (\<lambda>c. counter_key D c = k) (if batch_consumes d then cs else []) of
          None \<Rightarrow> (\<forall>t\<ge>store_observed ?shards k. store_active ?shards k t = store_active shards k t)
        | Some c \<Rightarrow> admissible (store_observed ?shards k) c (store_active shards k (store_observed ?shards k)) \<and>
            (\<forall>t\<ge>store_observed ?shards k. store_active ?shards k t =
               charge (store_observed ?shards k) c (store_active shards k (store_observed ?shards k)) t)"
    proof (cases "shard_index shards k \<in> fst ` set locked1")
      case False
      have "find (\<lambda>c. counter_key D c = k) (if batch_consumes d then cs else []) = None"
        using idx False by (cases "find (\<lambda>c. counter_key D c = k) cs") auto
      then show ?thesis using un(3) [OF False] by simp
    next
      case True
      then obtain p where p: "p < length locked1" "fst (locked1 ! p) = shard_index shards k"
        using locked by blast
      note view = un(2) [OF p]
      show ?thesis
      proof (cases "batch_consumes d")
        case False
        then have "locked2 = locked1" using r(5) by simp
        then show ?thesis
          using False view batch_settingD(8) [OF assms p(1)] p(2) by (simp add: store_active_def)
      next
        case consumes: True
        then have den: "\<forall>c \<in> set pcs. denies now locked1 c = None"
          and wr: "active_entry (snd (locked2 ! p)) k t = written now locked1 pcs p k t" for t
          using r(5) p(1) by auto
        have act: "store_active ?shards k t = written now locked1 pcs p k t" for t
          using view [of t] wr by simp
        have obs: "store_observed ?shards k = now" using view by simp
        note key = written_key [OF assms p _ den]
        show ?thesis
        proof (cases "find (\<lambda>c. counter_key D c = k) cs")
          case None
          with key consumes show ?thesis by (simp add: act obs)
        next
          case (Some c)
          with key [of now] key consumes show ?thesis by (simp add: act obs)
        qed
      qed
    qed
  qed
  moreover have "length as = length cs" if "d = Batch_Allowed as" for as
    using r(5) that assms by (simp add: batch_setting_def)
  ultimately show ?thesis using r(1) un(1) by blast
qed

lemma batch_setting_intro:
  assumes "shards_ok config shards" and "\<forall>c \<in> set cs. valid c" and "validate_batch D cs m = Inr ()"
    and "topology_ok config (map (\<lambda>c. shard_index shards (counter_key D c)) cs) topology"
    and "lock_topology shards topology = Inr locked"
    and "cleanup_loop now r timer 0 (zip locked (map bs_check_count (bt_shards topology))) = (locked1, effects)"
    and "\<forall>(i, s) \<in> set locked. sh_latest_observed_millis s \<le> now"
    and "length pcs = length cs"
    and "\<And>j. j < length cs \<Longrightarrow> pc_input_index (pcs ! j) = j \<and>
       pc_shard_position (pcs ! j) = bt_input_positions topology ! j \<and>
       represents now (cs ! j) (store_active shards (counter_key D (cs ! j)) now) (pcs ! j)"
  shows "batch_setting config shards now cs locked1 pcs" and "map fst locked1 = map fst locked"
proof -
  let ?is = "map (\<lambda>c. shard_index shards (counter_key D c)) cs"
  let ?sorted = "sorted_list_of_set (set ?is)"
  have idx: "map bs_index (bt_shards topology) = ?sorted" using assms(4) by (simp add: topology_ok_def)
  have healthy: "\<forall>i \<in> set ?is. i < length shards \<and> \<not> mx_poisoned (shards ! i)"
    and locked: "locked = map (\<lambda>i. (i, mx_shard (shards ! i))) ?sorted"
    using assms(5) unfolding lock_topology_def idx lock_shards_Inr by auto
  have fst_locked: "map fst locked = ?sorted" by (simp add: locked comp_def)
  have ok: "\<forall>(i, s) \<in> set locked. shard_ok s"
    using healthy shards_okD(1) [OF assms(1)] by (auto simp: locked)
  have len: "length (map bs_check_count (bt_shards topology)) = length locked"
    using arg_cong [OF idx, of length] arg_cong [OF fst_locked, of length] by simp
  from cleanup_loop_spec [OF assms(6) len ok]
  have len1: "length locked1 = length locked" and fst1: "map fst locked1 = map fst locked"
    and clean: "\<And>p. p < length locked \<Longrightarrow> \<exists>s. prunes now (record_observed_millis now (snd (locked ! p))) s \<and>
       shard_ok s \<and> locked1 ! p = (fst (locked ! p), s)" by auto
  show "map fst locked1 = map fst locked" by (rule fst1)
  have each: "\<not> mx_poisoned (shards ! i) \<and> shard_ok s1 \<and>
      sh_latest_observed_millis (mx_shard (shards ! i)) \<le> now \<and>
      prunes now (record_observed_millis now (mx_shard (shards ! i))) s1" if mem: "(i, s1) \<in> set locked1" for i s1
  proof -
    from mem obtain p where p: "p < length locked" "locked1 ! p = (i, s1)" by (metis in_set_conv_nth len1)
    from p(1) have l: "locked ! p = (?sorted ! p, mx_shard (shards ! (?sorted ! p)))" "?sorted ! p \<in> set ?is"
      using nth_mem [of p ?sorted] by (simp_all add: locked)
    have "locked ! p \<in> set locked" using p(1) by simp
    with l(1) assms(7) have "sh_latest_observed_millis (mx_shard (shards ! (?sorted ! p))) \<le> now" by auto
    with clean [OF p(1)] p(2) l healthy show ?thesis by auto
  qed
  have pos: "pc_shard_position (pcs ! j) < length locked1 \<and>
      fst (locked1 ! pc_shard_position (pcs ! j)) = shard_index shards (counter_key D (cs ! j))"
    if j: "j < length cs" for j
  proof -
    let ?p = "bt_input_positions topology ! j"
    have p: "?p < length (bt_shards topology)" "bs_index (bt_shards topology ! ?p) = ?is ! j"
      using assms(4) j by (auto simp: topology_ok_def positions_ok_def)
    have "fst (locked1 ! ?p) = map fst locked1 ! ?p" using p(1) len len1 by simp
    also have "\<dots> = map bs_index (bt_shards topology) ! ?p" using fst1 fst_locked idx by simp
    also have "\<dots> = ?is ! j" using p by simp
    finally show ?thesis using p(1) len len1 assms(9) [OF j] j by simp
  qed
  have valid: "distinct (map (counter_key D) cs) \<and> cs \<noteq> []"
    using assms(3) unfolding validate_batch_ok by blast
  have rep: "\<forall>j < length cs. pc_input_index (pcs ! j) = j \<and> pc_shard_position (pcs ! j) < length locked1 \<and>
        fst (locked1 ! pc_shard_position (pcs ! j)) = shard_index shards (counter_key D (cs ! j)) \<and>
        represents now (cs ! j) (store_active shards (counter_key D (cs ! j)) now) (pcs ! j)"
    using pos assms(9) by blast
  have all: "\<forall>(i, s1) \<in> set locked1. \<not> mx_poisoned (shards ! i) \<and> shard_ok s1 \<and>
        sh_latest_observed_millis (mx_shard (shards ! i)) \<le> now \<and>
        prunes now (record_observed_millis now (mx_shard (shards ! i))) s1"
    using each by blast
  show "batch_setting config shards now cs locked1 pcs"
    unfolding batch_setting_def
    by (intro conjI assms(1,2,8) valid [THEN conjunct1] valid [THEN conjunct2] trans [OF fst1 fst_locked]
        all rep)
qed

end

end
