(* ===== verification/Fixed_Window_Store.thy ===== *)
theory Fixed_Window_Store
  imports Sharded_Limiter
begin

text \<open>
  The fixed-window in-memory store (\<open>runlimit-memory\<close>, \<open>store.rs\<close>). The clock reading an operation
  takes inside its critical section is an argument: \<open>Some d\<close> is the duration a clock returned, \<open>None\<close>
  a clock that panicked. The elapsed times of the cleanup passes and of the whole operation, which
  are only reported to observers, are arguments as well. Addition to the time in milliseconds is the
  unbounded one: a reading fits into 74 bits and a window into 43, so the 128-bit sum cannot wrap.
\<close>

section \<open>Quota of one key\<close>

record fw_entry =
  en_used :: nat

record fw_prepared_check = prepared_check +
  fp_limit :: capacity
  fp_window_millis :: nat
  fp_cost :: nat

definition remaining_quota :: "capacity \<Rightarrow> nat \<Rightarrow> nat" where
  "remaining_quota limit used = capacity_get limit - used"

definition duration_from_millis :: "nat \<Rightarrow> 'x failure + duration" where
  "duration_from_millis millis = map_ok from_millis (expect (try_from_nat U64_MAX millis))"

definition fw_allowance :: "capacity \<Rightarrow> nat \<Rightarrow> duration \<Rightarrow> 'x failure + allowance" where
  "fw_allowance limit available replenishes_after =
     expect_ok (Allowance_new limit available replenishes_after)"

definition fw_quota_denial ::
  "nat \<Rightarrow> fw_prepared_check \<Rightarrow> fw_entry shard \<Rightarrow> 'x failure + quota_denial option" where
  "fw_quota_denial now_millis check shard =
     (case active_entry shard (pc_counter_key check) now_millis of
        None \<Rightarrow> Inr None
      | Some (entry, expires_at_millis) \<Rightarrow>
          if fp_cost check > remaining_quota (fp_limit check) (en_used entry)
          then map_ok (\<lambda>d. Some (QuotaDenial_new (fp_limit check) d))
            (duration_from_millis (expires_at_millis - now_millis))
          else Inr None)"

definition fw_consume ::
  "nat \<Rightarrow> fw_prepared_check \<Rightarrow> fw_entry shard \<Rightarrow> fw_entry shard \<times> ('x failure + allowance)" where
  "fw_consume now_millis check shard =
     (let expires_at_millis = now_millis + fp_window_millis check
      in case active_entry shard (pc_counter_key check) now_millis of
        Some (entry, active_expires_at_millis) \<Rightarrow>
          let remaining = remaining_quota (fp_limit check) (en_used entry)
          in section_try shard (expect (update_value (pc_counter_key check)
               (\<lambda>entry. entry\<lparr>en_used := saturating_add U64_MAX (en_used entry) (fp_cost check)\<rparr>) shard))
             (\<lambda>shard.
             section_try shard (duration_from_millis (active_expires_at_millis - now_millis)) (\<lambda>d.
             (shard, fw_allowance (fp_limit check) (remaining - fp_cost check) d)))
      | None \<Rightarrow>
          let shard = shard_replace (pc_counter_key check) \<lparr>en_used = fp_cost check\<rparr> expires_at_millis shard
          in section_try shard (duration_from_millis (expires_at_millis - now_millis)) (\<lambda>d.
             (shard, fw_allowance (fp_limit check) (remaining_quota (fp_limit check) (fp_cost check)) d)))"

definition fw_PreparedCheck_new :: "nat \<Rightarrow> fixed_window_policy check \<Rightarrow> nat \<Rightarrow> fw_prepared_check" where
  "fw_PreparedCheck_new input_index check shard_position =
     \<lparr>pc_input_index = input_index, pc_counter_key = counter_key fixed_window_trait check,
      pc_shard_position = shard_position, fp_limit = fw_limit (check_policy check),
      fp_window_millis = period_millis (fw_window (check_policy check)), fp_cost = check_cost check\<rparr>"

section \<open>One check\<close>

definition fw_check_locked ::
  "memory_store_config \<Rightarrow> fixed_window_policy check \<Rightarrow> nat \<Rightarrow> duration \<Rightarrow> duration \<Rightarrow> fw_entry shard
    \<Rightarrow> fw_entry locked_shards \<times> (poisoned_shard_error failure + (decision \<times> shard_effect))" where
  "fw_check_locked config check index clock_now cleanup_elapsed shard =
     (let prepared = fw_PreparedCheck_new 0 check 0;
          observed_millis = as_millis clock_now;
          now_millis = max observed_millis (sh_latest_observed_millis shard);
          shard = record_observed_millis now_millis shard;
          cleanup_requested = cfg_max_expired_removals_per_check config;
          (shard, cleanup_removed) = prune_expired now_millis cleanup_requested shard;
          (shard, decided) = decide_single (fw_quota_denial now_millis) (fw_consume now_millis)
            (check_mode fixed_window_trait check = Shadow) now_millis prepared shard
      in ([(index, shard)],
          map_ok (\<lambda>decision.
            (decision,
             \<lparr>sf_shard_index = index,
              sf_cleanup = \<lparr>ce_requested = cleanup_requested, ce_removed = cleanup_removed,
                            ce_elapsed = cleanup_elapsed\<rparr>,
              sf_used = shard_used shard, sf_capacity = sh_capacity shard\<rparr>)) decided))"

definition fw_check_inner ::
  "memory_store_config \<Rightarrow> fw_entry bounded_shards \<Rightarrow> duration option \<Rightarrow> duration
    \<Rightarrow> fixed_window_policy check
    \<Rightarrow> fw_entry bounded_shards \<times> (poisoned_shard_error failure + (decision \<times> shard_effect))" where
  "fw_check_inner config shards clock cleanup_elapsed check =
     (let key = counter_key fixed_window_trait check;
          index = shard_index shards key
      in case lock_shard shards index of
           Inl e \<Rightarrow> (shards, Inl e)
         | Inr shard \<Rightarrow>
             leave shards
               (section_try [(index, shard)] (expect clock) (\<lambda>clock_now.
                  fw_check_locked config check index clock_now cleanup_elapsed shard)))"

section \<open>Atomic batches\<close>

definition fw_prepare :: "fixed_window_policy check list \<Rightarrow> batch_topology \<Rightarrow> fw_prepared_check list" where
  "fw_prepare checks topology =
     map (\<lambda>i. fw_PreparedCheck_new i (checks ! i) (bt_input_positions topology ! i)) [0..<length checks]"

definition fw_check_all_locked ::
  "memory_store_config \<Rightarrow> fixed_window_policy check list \<Rightarrow> batch_topology \<Rightarrow> duration \<Rightarrow> (nat \<Rightarrow> duration)
    \<Rightarrow> fw_entry locked_shards
    \<Rightarrow> fw_entry locked_shards \<times> (memory_batch_error failure + (batch_decision \<times> shard_effect list))" where
  "fw_check_all_locked config checks topology clock_now timer locked =
     (let prepared = fw_prepare checks topology;
          now_millis = batch_now (as_millis clock_now) locked;
          (locked, cleanup_effects) =
            cleanup_loop now_millis (cfg_max_expired_removals_per_check config) timer 0
              (zip locked (map bs_check_count (bt_shards topology)));
          (locked, decided) = admit_batch (fw_quota_denial now_millis) (fw_consume now_millis)
            (\<lambda>check. check_mode fixed_window_trait (checks ! pc_input_index check) = Shadow)
            now_millis (length checks) locked prepared
      in (locked, map_ok (\<lambda>decision. (decision, collect_shard_effects locked cleanup_effects)) decided))"

definition fw_check_all_inner ::
  "memory_store_config \<Rightarrow> fw_entry bounded_shards \<Rightarrow> duration option \<Rightarrow> (nat \<Rightarrow> duration)
    \<Rightarrow> fixed_window_policy check list
    \<Rightarrow> fw_entry bounded_shards \<times> (memory_batch_error failure + (batch_decision \<times> shard_effect list))" where
  "fw_check_all_inner config shards clock timer checks =
     (case
        try_bind (map_err (Failure \<circ> InvalidBatch)
            (validate_batch fixed_window_trait checks (cfg_max_batch_size config))) (\<lambda>_.
        try_bind (BatchTopology_new
            (map (\<lambda>check. shard_index shards (counter_key fixed_window_trait check)) checks) config) (\<lambda>topology.
        map_ok (Pair topology) (map_err batch_error_of_poison (lock_topology shards topology))))
      of
        Inl e \<Rightarrow> (shards, Inl e)
      | Inr (topology, locked) \<Rightarrow>
          leave shards
            (section_try locked (expect clock) (\<lambda>clock_now.
               fw_check_all_locked config checks topology clock_now timer locked)))"

section \<open>The store\<close>

record memory_store =
  ms_config :: memory_store_config
  ms_shards :: "fw_entry bounded_shards"
  ms_has_observer :: bool

definition MemoryStore_build :: "memory_store_config \<Rightarrow> memory_store" where
  "MemoryStore_build config =
     \<lparr>ms_config = config, ms_shards = BoundedShards_new config, ms_has_observer = False\<rparr>"

definition ms_with_observer :: "memory_store \<Rightarrow> memory_store" where
  "ms_with_observer store = store\<lparr>ms_has_observer := True\<rparr>"

definition ms_check ::
  "memory_store \<Rightarrow> duration option \<Rightarrow> duration \<Rightarrow> duration \<Rightarrow> fixed_window_policy check
    \<Rightarrow> memory_store \<times> observation list \<times> (poisoned_shard_error failure + decision)" where
  "ms_check store clock cleanup_elapsed elapsed check =
     (let (shards, result) = fw_check_inner (ms_config store) (ms_shards store) clock cleanup_elapsed check;
          obs = (case result of
              Inr (decision, effect) \<Rightarrow>
                observe_shard_effect (ms_has_observer store) effect @
                observe_admission (ms_has_observer store)
                  (observe_from_check fixed_window_trait check decision elapsed)
            | Inl (Failure _) \<Rightarrow>
                observe_admission (ms_has_observer store)
                  (failed_check fixed_window_trait check NotConsumed elapsed)
            | Inl Panicked \<Rightarrow> [])
      in (store\<lparr>ms_shards := shards\<rparr>, obs, map_ok fst result))"

definition ms_check_all ::
  "memory_store \<Rightarrow> duration option \<Rightarrow> (nat \<Rightarrow> duration) \<Rightarrow> duration \<Rightarrow> fixed_window_policy check list
    \<Rightarrow> memory_store \<times> observation list \<times> (memory_batch_error failure + batch_decision)" where
  "ms_check_all store clock timer elapsed checks =
     (let (shards, result) = fw_check_all_inner (ms_config store) (ms_shards store) clock timer checks;
          obs = (case result of
              Inr (decision, effects) \<Rightarrow>
                observe_shard_effects (ms_has_observer store) effects @
                observe_admission (ms_has_observer store)
                  (observe_from_batch fixed_window_trait checks decision elapsed)
            | Inl (Failure _) \<Rightarrow>
                observe_admission (ms_has_observer store)
                  (failed_batch fixed_window_trait checks NotConsumed elapsed)
            | Inl Panicked \<Rightarrow> [])
      in (store\<lparr>ms_shards := shards\<rparr>, obs, map_ok fst result))"

definition ms_stats :: "memory_store \<Rightarrow> poisoned_shard_error failure + memory_store_stats" where
  "ms_stats store = BoundedShards_stats (ms_shards store) (ms_config store)"

definition ms_clear :: "memory_store \<Rightarrow> memory_store \<times> (poisoned_shard_error failure + unit)" where
  "ms_clear store =
     (let (shards, result) = BoundedShards_clear (ms_shards store)
      in (store\<lparr>ms_shards := shards\<rparr>, result))"

definition ms_recover_poisoned :: "memory_store \<Rightarrow> memory_store \<times> nat" where
  "ms_recover_poisoned store =
     (let (shards, recovered) = recover_poisoned (ms_shards store) (ms_config store)
      in (store\<lparr>ms_shards := shards\<rparr>, recovered))"

section \<open>The fixed-window algorithm on one key\<close>

text \<open>
  The specification the store implements for every key: an active window holds the cost used in it;
  a check is admissible when its cost is within what remains, and is charged to the active window or
  opens a new one.
\<close>

definition fw_decide ::
  "nat \<Rightarrow> fw_prepared_check \<Rightarrow> (fw_entry \<times> nat) option \<Rightarrow> quota_denial option" where
  "fw_decide now pc q =
     (case q of
        None \<Rightarrow> None
      | Some (e, x) \<Rightarrow>
          if fp_cost pc > remaining_quota (fp_limit pc) (en_used e)
          then Some (QuotaDenial_new (fp_limit pc) (from_millis (x - now))) else None)"

definition fw_plan ::
  "nat \<Rightarrow> fw_prepared_check \<Rightarrow> (fw_entry \<times> nat) option \<Rightarrow> fw_entry \<times> nat \<times> allowance" where
  "fw_plan now pc q =
     (case q of
        None \<Rightarrow> (\<lparr>en_used = fp_cost pc\<rparr>, now + fp_window_millis pc,
          \<lparr>al_capacity = fp_limit pc, al_available = remaining_quota (fp_limit pc) (fp_cost pc),
           al_replenishes_after = Delay (from_millis (fp_window_millis pc))\<rparr>)
      | Some (e, x) \<Rightarrow> (e\<lparr>en_used := saturating_add U64_MAX (en_used e) (fp_cost pc)\<rparr>, x,
          \<lparr>al_capacity = fp_limit pc,
           al_available = remaining_quota (fp_limit pc) (en_used e) - fp_cost pc,
           al_replenishes_after = Delay (from_millis (x - now))\<rparr>))"

definition fw_good :: "nat \<Rightarrow> fw_prepared_check \<Rightarrow> bool" where
  "fw_good now pc \<longleftrightarrow>
     0 < fp_cost pc \<and> fp_cost pc \<le> capacity_get (fp_limit pc) \<and>
     0 < fp_window_millis pc \<and> fp_window_millis pc \<le> MAX_WINDOW_MILLIS"

definition fw_represents ::
  "nat \<Rightarrow> fixed_window_policy check \<Rightarrow> (fw_entry \<times> nat) option \<Rightarrow> fw_prepared_check \<Rightarrow> bool" where
  "fw_represents now c q pc \<longleftrightarrow> (\<exists>i p. pc = fw_PreparedCheck_new i c p)"

definition fw_admissible ::
  "nat \<Rightarrow> fixed_window_policy check \<Rightarrow> (fw_entry \<times> nat) option \<Rightarrow> bool" where
  "fw_admissible now c q \<longleftrightarrow>
     (case q of None \<Rightarrow> True
      | Some (e, x) \<Rightarrow> check_cost c \<le> remaining_quota (fw_limit (check_policy c)) (en_used e))"

definition fw_charge ::
  "nat \<Rightarrow> fixed_window_policy check \<Rightarrow> (fw_entry \<times> nat) option \<Rightarrow> nat \<Rightarrow> (fw_entry \<times> nat) option" where
  "fw_charge now c q t =
     (case q of
        None \<Rightarrow>
          let x = now + period_millis (fw_window (check_policy c))
          in if t < x then Some (\<lparr>en_used = check_cost c\<rparr>, x) else None
      | Some (e, x) \<Rightarrow>
          if t < x then Some (e\<lparr>en_used := saturating_add U64_MAX (en_used e) (check_cost c)\<rparr>, x)
          else None)"

abbreviation fw_check_ok :: "(bytes \<Rightarrow> bytes) \<Rightarrow> fixed_window_policy check \<Rightarrow> bool" where
  "fw_check_ok sha \<equiv> check_ok fixed_window_trait (fixed_window_ok sha)"

lemma duration_from_millis_ok:
  "ms \<le> MAX_WINDOW_MILLIS \<Longrightarrow> duration_from_millis ms = Inr (from_millis ms)"
  by (simp add: duration_from_millis_def try_from_nat_def width_simps)

lemma timely_remaining:
  "timely now s \<Longrightarrow> active_entry s k now = Some (e, x) \<Longrightarrow> x - now \<le> MAX_WINDOW_MILLIS"
  by (fastforce simp: timely_def active_entry_Some)

lemma fw_quota_denial_eq:
  assumes "timely now s"
  shows "fw_quota_denial now pc s = Inr (fw_decide now pc (active_entry s (pc_counter_key pc) now))"
  using timely_remaining [OF assms]
  by (auto simp: fw_quota_denial_def fw_decide_def duration_from_millis_ok split: option.splits)

lemma fw_consume_active:
  assumes "timely now s" and "active_entry s (pc_counter_key pc) now = Some (e, x)"
  shows "\<exists>s'. fw_consume now pc s = (s', Inr (snd (snd (fw_plan now pc (Some (e, x)))))) \<and>
    puts (pc_counter_key pc) (fst (fw_plan now pc (Some (e, x)))) x s s'"
proof -
  let ?f = "\<lambda>entry. entry\<lparr>en_used := saturating_add U64_MAX (en_used entry) (fp_cost pc)\<rparr>"
  obtain en where en: "map_of (sh_entries s) (pc_counter_key pc) = Some en" "se_value en = e"
      "se_expires_at_millis en = x"
    using assms(2) by (auto simp: active_entry_Some)
  then obtain s' where s': "update_value (pc_counter_key pc) ?f s = Some s'"
    by (auto simp: update_value_def)
  have "Allowance_new (fp_limit pc) (remaining_quota (fp_limit pc) (en_used e) - fp_cost pc) d =
      Inr \<lparr>al_capacity = fp_limit pc,
        al_available = remaining_quota (fp_limit pc) (en_used e) - fp_cost pc,
        al_replenishes_after = Delay d\<rparr>" for d
    by (simp add: Allowance_new_ok remaining_quota_def)
  then show ?thesis
    using puts_update [OF s' en(1)] assms s' en timely_remaining [OF assms]
    by (simp add: fw_consume_def Let_def fw_plan_def duration_from_millis_ok fw_allowance_def)
qed

lemma fw_consume_fresh:
  assumes "fw_good now pc" and "active_entry s (pc_counter_key pc) now = None"
  shows "\<exists>s'. fw_consume now pc s = (s', Inr (snd (snd (fw_plan now pc None)))) \<and>
    puts (pc_counter_key pc) \<lparr>en_used = fp_cost pc\<rparr> (now + fp_window_millis pc) s s'"
proof -
  have "Allowance_new (fp_limit pc) (remaining_quota (fp_limit pc) (fp_cost pc)) d =
      Inr \<lparr>al_capacity = fp_limit pc, al_available = remaining_quota (fp_limit pc) (fp_cost pc),
        al_replenishes_after = Delay d\<rparr>" for d
    by (simp add: Allowance_new_ok remaining_quota_def)
  then show ?thesis
    using assms puts_replace [of "pc_counter_key pc" "\<lparr>en_used = fp_cost pc\<rparr>" "now + fp_window_millis pc" s]
    by (simp add: fw_consume_def Let_def fw_plan_def duration_from_millis_ok fw_allowance_def fw_good_def)
qed

interpretation fw_quota: shard_quota fw_quota_denial fw_consume fw_good fw_decide fw_plan
proof
  show "fw_quota_denial now c s = Inr (fw_decide now c (active_entry s (pc_counter_key c) now))"
    if "timely now s" for now c s
    using that by (rule fw_quota_denial_eq)
next
  fix now c s v x a
  assume a: "fw_good now c" "shard_ok s" "timely now s"
      "fw_plan now c (active_entry s (pc_counter_key c) now) = (v, x, a)"
  show "\<exists>s'. fw_consume now c s = (s', Inr a) \<and> puts (pc_counter_key c) v x s s' \<and>
      now < x \<and> x \<le> now + MAX_WINDOW_MILLIS"
  proof (cases "active_entry s (pc_counter_key c) now")
    case None
    with fw_consume_fresh [OF a(1) None] a(1,4) show ?thesis
      by (auto simp: fw_plan_def fw_good_def)
  next
    case (Some p)
    obtain e y where p: "p = (e, y)" by (cases p)
    then have act: "active_entry s (pc_counter_key c) now = Some (e, y)" using Some by simp
    then have "y - now \<le> MAX_WINDOW_MILLIS" "now < y"
      using timely_remaining [OF a(3)] by (auto simp: active_entry_Some)
    with fw_consume_active [OF a(3) act] act a(4) show ?thesis
      by (auto simp: fw_plan_def)
  qed
qed

interpretation fw_sharded: sharded_limiter fw_quota_denial fw_consume fw_good fw_decide fw_plan
    fixed_window_trait "fw_check_ok sha256" fw_represents fw_admissible fw_charge
  for sha256
proof
  fix now c q pc v x a t
  assume r: "fw_represents now c q pc"
  then show "pc_counter_key pc = counter_key fixed_window_trait c"
    by (auto simp: fw_represents_def fw_PreparedCheck_new_def)
  show "fw_good now pc" if "fw_check_ok sha256 c"
    using r that
    by (auto simp: fw_represents_def fw_PreparedCheck_new_def fw_good_def check_ok_def
        fixed_window_trait_def fixed_window_ok_def period_ok_def)
  show "fw_admissible now c q" if "fw_decide now pc q = None"
    using r that
    by (auto simp: fw_represents_def fw_PreparedCheck_new_def fw_decide_def fw_admissible_def
        split: option.splits if_splits)
  show "fw_charge now c q t = (if t < x then Some (v, x) else None)" if "fw_plan now pc q = (v, x, a)"
    using r that
    by (auto simp: fw_represents_def fw_PreparedCheck_new_def fw_plan_def fw_charge_def Let_def
        split: option.splits)
qed

section \<open>Operations of the store\<close>

lemma fw_check_inner_healthy:
  assumes "shards_ok config shards" and "fw_check_ok sha256 c"
    and "\<not> mx_poisoned (shards ! shard_index shards (counter_key fixed_window_trait c))"
    and now_def: "now = max (as_millis d0) (store_observed shards (counter_key fixed_window_trait c))"
    and s1_def: "s1 = swept config now (mx_shard (shards ! shard_index shards (counter_key fixed_window_trait c)))"
  shows "\<exists>shards' d eff. fw_check_inner config shards (Some d0) el c = (shards', Inr (d, eff)) \<and>
    shards_ok config shards' \<and> store_observed shards' (counter_key fixed_window_trait c) = now \<and>
    charged fixed_window_trait store_active store_observed fw_admissible fw_charge
      (if decision_consumes d then [c] else []) shards shards' \<and>
    (decision_consumes d \<longleftrightarrow>
       fw_decide now (fw_PreparedCheck_new 0 c 0) (store_active shards (counter_key fixed_window_trait c) now) = None \<and>
       (contains_key s1 (counter_key fixed_window_trait c) \<or> shard_used s1 < sh_capacity s1)) \<and>
    (\<forall>v x a. decision_consumes d \<longrightarrow>
       fw_plan now (fw_PreparedCheck_new 0 c 0) (store_active shards (counter_key fixed_window_trait c) now) = (v, x, a) \<longrightarrow>
       d = Decision_allowed a) \<and>
    (case fw_decide now (fw_PreparedCheck_new 0 c 0) (store_active shards (counter_key fixed_window_trait c) now) of
       Some q \<Rightarrow> d = (if check_mode fixed_window_trait c = Shadow then Decision_shadow_denied q
         else Decision_Denied (QuotaExceeded q))
     | None \<Rightarrow>
         if \<not> contains_key s1 (counter_key fixed_window_trait c) \<and> sh_capacity s1 \<le> shard_used s1
         then \<exists>r. storage_capacity_denial s1 now = Some (StorageCapacity r) \<and> d = Decision_Denied (StorageCapacity r)
         else decision_consumes d)"
proof -
  let ?k = "counter_key fixed_window_trait c"
  let ?i = "shard_index shards ?k"
  let ?s = "mx_shard (shards ! ?i)"
  let ?pc = "fw_PreparedCheck_new 0 c 0"
  have i: "?i < length shards" by (rule shard_index_less [OF assms(1)])
  obtain n where pr: "prune_expired now (cfg_max_expired_removals_per_check config)
      (record_observed_millis now ?s) = (s1, n)"
    unfolding s1_def swept_def by (metis prod.collapse)
  have s1: "prunes now (record_observed_millis now ?s) s1" "shard_ok s1"
    unfolding s1_def using swept_spec shards_okD(1) [OF assms(1) i assms(3)] by auto
  have rep: "fw_represents now c (store_active shards ?k now) ?pc"
    by (auto simp: fw_represents_def)
  have "store_observed shards ?k \<le> now" by (simp add: now_def)
  then have "\<exists>s' d. (decide_single (fw_quota_denial now) (fw_consume now)
        (check_mode fixed_window_trait c = Shadow) now ?pc s1
        :: fw_entry shard \<times> (poisoned_shard_error failure + decision)) = (s', Inr d) \<and>
      shards_ok config (unlock shards [(?i, s')]) \<and>
      store_observed (unlock shards [(?i, s')]) ?k = now \<and>
      charged fixed_window_trait store_active store_observed fw_admissible fw_charge
        (if decision_consumes d then [c] else []) shards (unlock shards [(?i, s')]) \<and>
      (decision_consumes d \<longleftrightarrow> fw_decide now ?pc (store_active shards ?k now) = None \<and>
         (contains_key s1 ?k \<or> shard_used s1 < sh_capacity s1)) \<and>
      (\<forall>v x a. decision_consumes d \<longrightarrow> fw_plan now ?pc (store_active shards ?k now) = (v, x, a) \<longrightarrow>
         d = Decision_allowed a) \<and>
      (case fw_decide now ?pc (store_active shards ?k now) of
         Some q \<Rightarrow> d = (if check_mode fixed_window_trait c = Shadow then Decision_shadow_denied q
           else Decision_Denied (QuotaExceeded q))
       | None \<Rightarrow>
           if \<not> contains_key s1 ?k \<and> sh_capacity s1 \<le> shard_used s1
           then \<exists>r. storage_capacity_denial s1 now = Some (StorageCapacity r) \<and> d = Decision_Denied (StorageCapacity r)
           else decision_consumes d)"
    by (rule fw_sharded.single_charged [OF assms(1,2,3) refl _ rep s1])
  then obtain s' d where r: "(decide_single (fw_quota_denial now) (fw_consume now)
        (check_mode fixed_window_trait c = Shadow) now ?pc s1
        :: fw_entry shard \<times> (poisoned_shard_error failure + decision)) = (s', Inr d)"
    and rest: "shards_ok config (unlock shards [(?i, s')])"
      "store_observed (unlock shards [(?i, s')]) ?k = now"
      "charged fixed_window_trait store_active store_observed fw_admissible fw_charge
        (if decision_consumes d then [c] else []) shards (unlock shards [(?i, s')])"
      "decision_consumes d \<longleftrightarrow> fw_decide now ?pc (store_active shards ?k now) = None \<and>
         (contains_key s1 ?k \<or> shard_used s1 < sh_capacity s1)"
      "\<forall>v x a. decision_consumes d \<longrightarrow> fw_plan now ?pc (store_active shards ?k now) = (v, x, a) \<longrightarrow>
         d = Decision_allowed a"
      "case fw_decide now ?pc (store_active shards ?k now) of
         Some q \<Rightarrow> d = (if check_mode fixed_window_trait c = Shadow then Decision_shadow_denied q
           else Decision_Denied (QuotaExceeded q))
       | None \<Rightarrow>
           if \<not> contains_key s1 ?k \<and> sh_capacity s1 \<le> shard_used s1
           then \<exists>r. storage_capacity_denial s1 now = Some (StorageCapacity r) \<and> d = Decision_Denied (StorageCapacity r)
           else decision_consumes d"
    by blast
  have "now = max (as_millis d0) (sh_latest_observed_millis ?s)" by (simp add: now_def store_observed_def)
  then have "\<exists>eff. fw_check_inner config shards (Some d0) el c = (unlock shards [(?i, s')], Inr (d, eff))"
    using pr r assms(3) by (simp add: fw_check_inner_def Let_def lock_shard_cases [OF assms(1)] fw_check_locked_def)
  with rest show ?thesis by blast
qed

lemma fw_check_inner_unhealthy:
  assumes "shards_ok config shards"
    and i_def: "i = shard_index shards (counter_key fixed_window_trait c)"
  shows "mx_poisoned (shards ! i) \<Longrightarrow>
      fw_check_inner config shards clock el c = (shards, Inl (Failure (PoisonedShardError i)))"
    and "\<not> mx_poisoned (shards ! i) \<Longrightarrow>
      fw_check_inner config shards None el c = (unwind shards [i], Inl Panicked)"
  by (simp_all add: fw_check_inner_def Let_def lock_shard_cases [OF assms(1)] i_def)

lemma fw_check_inner_spec:
  assumes "shards_ok config shards" and "fw_check_ok sha256 c"
    and "fw_check_inner config shards clock el c = (shards', r)"
  shows "shards_ok config shards' \<and>
    charged fixed_window_trait store_active store_observed fw_admissible fw_charge
      (case r of Inr (d, _) \<Rightarrow> if decision_consumes d then [c] else [] | Inl _ \<Rightarrow> []) shards shards' \<and>
    (r = Inl Panicked \<longrightarrow> clock = None)"
proof (cases "mx_poisoned (shards ! shard_index shards (counter_key fixed_window_trait c))")
  case True
  then show ?thesis
    using fw_check_inner_unhealthy(1) [OF assms(1) refl] assms(1,3) by (auto simp: charged_refl)
next
  case False
  show ?thesis
  proof (cases clock)
    case None
    then show ?thesis
      using fw_check_inner_unhealthy(2) [OF assms(1) refl False] assms(1,3)
      by (auto simp: charged_unwind shards_ok_unwind simp del: unwind.simps)
  next
    case (Some d0)
    with fw_check_inner_healthy [OF assms(1,2) False refl refl, of d0 el] assms(3) show ?thesis by auto
  qed
qed

lemma fw_prepare_nth:
  "j < length cs \<Longrightarrow> fw_prepare cs t ! j = fw_PreparedCheck_new j (cs ! j) (bt_input_positions t ! j)"
  "length (fw_prepare cs t) = length cs"
  by (simp_all add: fw_prepare_def)

lemma fw_check_all_locked_spec:
  assumes "shards_ok config shards" and "\<forall>c \<in> set cs. fw_check_ok sha256 c"
    and "validate_batch fixed_window_trait cs m = Inr ()"
    and "topology_ok config (map (\<lambda>c. shard_index shards (counter_key fixed_window_trait c)) cs) topology"
    and "lock_topology shards topology = Inr locked"
  shows "\<exists>locked2 d eff. fw_check_all_locked config cs topology d0 timer locked = (locked2, Inr (d, eff)) \<and>
    shards_ok config (unlock shards locked2) \<and>
    charged fixed_window_trait store_active store_observed fw_admissible fw_charge
      (if batch_consumes d then cs else []) shards (unlock shards locked2) \<and>
    (\<forall>as. d = Batch_Allowed as \<longrightarrow> length as = length cs)"
proof -
  let ?now = "batch_now (as_millis d0) locked"
  obtain locked1 effects where cl: "cleanup_loop ?now (cfg_max_expired_removals_per_check config) timer 0
      (zip locked (map bs_check_count (bt_shards topology))) = (locked1, effects)" by fastforce
  have "\<forall>(i, s) \<in> set locked. sh_latest_observed_millis s \<le> ?now"
    using batch_now_latest by fastforce
  from fw_sharded.batch_setting_intro [OF assms cl this fw_prepare_nth(2)]
  have "fw_sharded.batch_setting sha256 config shards ?now cs locked1 (fw_prepare cs topology)"
    by (auto simp: fw_prepare_nth fw_represents_def fw_PreparedCheck_new_def)
  then have "\<exists>locked2 d. (admit_batch (fw_quota_denial ?now) (fw_consume ?now)
        (\<lambda>check. check_mode fixed_window_trait (cs ! pc_input_index check) = Shadow) ?now (length cs) locked1
        (fw_prepare cs topology) :: _ \<times> (memory_batch_error failure + _)) = (locked2, Inr d) \<and>
      shards_ok config (unlock shards locked2) \<and>
      charged fixed_window_trait store_active store_observed fw_admissible fw_charge
        (if batch_consumes d then cs else []) shards (unlock shards locked2) \<and>
      (\<forall>as. d = Batch_Allowed as \<longrightarrow> length as = length cs)"
    by (rule fw_sharded.batch_charged)
  then obtain locked2 d where r: "(admit_batch (fw_quota_denial ?now) (fw_consume ?now)
        (\<lambda>check. check_mode fixed_window_trait (cs ! pc_input_index check) = Shadow) ?now (length cs) locked1
        (fw_prepare cs topology) :: _ \<times> (memory_batch_error failure + _)) = (locked2, Inr d)"
    and rest: "shards_ok config (unlock shards locked2)"
      "charged fixed_window_trait store_active store_observed fw_admissible fw_charge
        (if batch_consumes d then cs else []) shards (unlock shards locked2)"
      "\<forall>as. d = Batch_Allowed as \<longrightarrow> length as = length cs"
    by blast
  have "\<exists>eff. fw_check_all_locked config cs topology d0 timer locked = (locked2, Inr (d, eff))"
    by (simp add: fw_check_all_locked_def Let_def cl r)
  with rest show ?thesis by blast
qed

lemma fw_check_all_inner_spec:
  assumes "shards_ok config shards" and "\<forall>c \<in> set cs. fw_check_ok sha256 c"
    and "fw_check_all_inner config shards clock timer cs = (shards', r)"
  shows "shards_ok config shards' \<and>
    charged fixed_window_trait store_active store_observed fw_admissible fw_charge
      (case r of Inr (d, _) \<Rightarrow> if batch_consumes d then cs else [] | Inl _ \<Rightarrow> []) shards shards' \<and>
    (r = Inl Panicked \<longrightarrow> clock = None) \<and>
    (\<forall>as eff. r = Inr (Batch_Allowed as, eff) \<longrightarrow> length as = length cs)"
proof -
  let ?v = "validate_batch fixed_window_trait cs (cfg_max_batch_size config)"
  let ?is = "map (\<lambda>c. shard_index shards (counter_key fixed_window_trait c)) cs"
  show ?thesis
  proof (cases ?v)
    case (Inl e)
    with assms show ?thesis by (auto simp: fw_check_all_inner_def charged_refl)
  next
    case (Inr u)
    then have v: "?v = Inr ()" by simp
    show ?thesis
    proof (cases "BatchTopology_new ?is config")
      case (Inl e)
      with BatchTopology_new_cases [of ?is config] have "e \<noteq> Panicked" by auto
      with Inl v assms show ?thesis by (auto simp: fw_check_all_inner_def charged_refl)
    next
      case (Inr t)
      with BatchTopology_new_cases [of ?is config] have top: "topology_ok config ?is t" by simp
      show ?thesis
      proof (cases "lock_topology shards t")
        case (Inl e)
        then obtain i where "e = Failure (PoisonedShardError i)"
          using lock_shards_Inl topology_indexes_ok [OF assms(1) top] unfolding lock_topology_def by blast
        with Inl Inr v assms show ?thesis by (auto simp: fw_check_all_inner_def charged_refl)
      next
        case locked: (Inr locked)
        show ?thesis
        proof (cases clock)
          case None
          with locked Inr v assms(1,3) show ?thesis
            by (auto simp: fw_check_all_inner_def unlock_locked charged_unwind shards_ok_unwind)
        next
          case (Some d0)
          obtain locked2 d eff where "fw_check_all_locked config cs t d0 timer locked = (locked2, Inr (d, eff))"
              "shards_ok config (unlock shards locked2)"
              "charged fixed_window_trait store_active store_observed fw_admissible fw_charge
                (if batch_consumes d then cs else []) shards (unlock shards locked2)"
              "\<forall>as. d = Batch_Allowed as \<longrightarrow> length as = length cs"
            using fw_check_all_locked_spec [OF assms(1,2) v top locked] by blast
          with Some locked Inr v assms(3) show ?thesis by (auto simp: fw_check_all_inner_def)
        qed
      qed
    qed
  qed
qed

section \<open>The limiter contract\<close>

text \<open>
  The implementation of the limiter trait: an async body that runs the synchronous operation. The
  environment of a call is described by \<open>call_environment\<close>.
\<close>

definition ms_limiter_check ::
  "memory_store \<Rightarrow> call_environment \<Rightarrow> fixed_window_policy check
    \<Rightarrow> memory_store \<times> (poisoned_shard_error failure + decision)" where
  "ms_limiter_check store env check =
     (case env of (clock, timer, elapsed) \<Rightarrow>
        case ms_check store clock (timer 0) elapsed check of (store, _, result) \<Rightarrow> (store, result))"

definition ms_limiter_check_all ::
  "memory_store \<Rightarrow> call_environment \<Rightarrow> fixed_window_policy check list
    \<Rightarrow> memory_store \<times> (memory_batch_error failure + batch_decision)" where
  "ms_limiter_check_all store env checks =
     (case env of (clock, timer, elapsed) \<Rightarrow>
        case ms_check_all store clock timer elapsed checks of (store, _, result) \<Rightarrow> (store, result))"

definition ms_ok :: "memory_store \<Rightarrow> bool" where
  "ms_ok store \<longleftrightarrow> shards_ok (ms_config store) (ms_shards store)"

definition ms_quota :: "memory_store \<Rightarrow> counter_key \<Rightarrow> nat \<Rightarrow> (fw_entry \<times> nat) option" where
  "ms_quota = (\<lambda>store. store_active (ms_shards store))"

definition ms_observed :: "memory_store \<Rightarrow> counter_key \<Rightarrow> nat" where
  "ms_observed = (\<lambda>store. store_observed (ms_shards store))"

lemma charged_store:
  "charged D ms_quota ms_observed admissible charge cs store (store\<lparr>ms_shards := shards\<rparr>) =
   charged D store_active store_observed admissible charge cs (ms_shards store) shards"
  unfolding ms_quota_def ms_observed_def
  by (simp add: charged_comp [where f = ms_shards])

lemma ms_limiter_check_eq:
  assumes "fw_check_inner (ms_config store) (ms_shards store) clock (timer 0) c = (shards, r)"
  shows "ms_limiter_check store (clock, timer, elapsed) c = (store\<lparr>ms_shards := shards\<rparr>, map_ok fst r)"
  using assms by (simp add: ms_limiter_check_def ms_check_def Let_def)

lemma ms_limiter_check_all_eq:
  assumes "fw_check_all_inner (ms_config store) (ms_shards store) clock timer cs = (shards, r)"
  shows "ms_limiter_check_all store (clock, timer, elapsed) cs = (store\<lparr>ms_shards := shards\<rparr>, map_ok fst r)"
  using assms by (simp add: ms_limiter_check_all_def ms_check_all_def Let_def)

lemma ms_limiter_check_spec:
  assumes "ms_ok store" and "fw_check_ok sha256 c" and "ms_limiter_check store env c = (store', r)"
  shows "ms_ok store' \<and> charged fixed_window_trait ms_quota ms_observed fw_admissible fw_charge
      (case r of Inr d \<Rightarrow> if decision_consumes d then [c] else [] | Inl _ \<Rightarrow> []) store store'"
proof -
  obtain clock timer elapsed where env: "env = (clock, timer, elapsed)" by (cases env)
  obtain shards q where q: "fw_check_inner (ms_config store) (ms_shards store) clock (timer 0) c = (shards, q)"
    by fastforce
  note eq = ms_limiter_check_eq [where timer = timer, OF q, of elapsed]
  have cases: "(case map_ok fst q of Inr d \<Rightarrow> if decision_consumes d then [c] else [] | Inl _ \<Rightarrow> []) =
      (case q of Inr (d, _) \<Rightarrow> if decision_consumes d then [c] else [] | Inl _ \<Rightarrow> [])"
    by (cases q) auto
  show ?thesis
    using fw_check_inner_spec [OF _ assms(2) q] assms(1,3) eq env
    by (auto simp: ms_ok_def charged_store cases)
qed

lemma ms_limiter_check_all_spec:
  assumes "ms_ok store" and "\<forall>c \<in> set cs. fw_check_ok sha256 c"
    and "ms_limiter_check_all store env cs = (store', r)"
  shows "ms_ok store' \<and> charged fixed_window_trait ms_quota ms_observed fw_admissible fw_charge
      (case r of Inr d \<Rightarrow> if batch_consumes d then cs else [] | Inl _ \<Rightarrow> []) store store' \<and>
    (\<forall>as. r = Inr (Batch_Allowed as) \<longrightarrow> length as = length cs)"
proof -
  obtain clock timer elapsed where env: "env = (clock, timer, elapsed)" by (cases env)
  obtain shards q where q: "fw_check_all_inner (ms_config store) (ms_shards store) clock timer cs = (shards, q)"
    by fastforce
  note eq = ms_limiter_check_all_eq [OF q, of elapsed]
  have cases: "(case map_ok fst q of Inr d \<Rightarrow> if batch_consumes d then cs else [] | Inl _ \<Rightarrow> []) =
      (case q of Inr (d, _) \<Rightarrow> if batch_consumes d then cs else [] | Inl _ \<Rightarrow> [])"
    by (cases q) auto
  show ?thesis
    using fw_check_all_inner_spec [OF _ assms(2) q] assms(1,3) eq env
    by (auto simp: ms_ok_def charged_store cases result_simps)
qed

interpretation ms_limiter: limiter fixed_window_trait ms_ok "fw_check_ok sha256" ms_limiter_check
    ms_limiter_check_all ms_quota ms_observed fw_admissible fw_charge
  for sha256
proof
  fix s :: memory_store and c cs and env :: call_environment and as
  show "ms_ok (fst (ms_limiter_check s env c))" if "ms_ok s" "fw_check_ok sha256 c"
    using ms_limiter_check_spec [OF that] by (metis prod.collapse)
  show "ms_ok (fst (ms_limiter_check_all s env cs))" if "ms_ok s" "\<forall>c \<in> set cs. fw_check_ok sha256 c"
    using ms_limiter_check_all_spec [OF that] by (metis prod.collapse)
  show "length as = length cs" if "ms_ok s" "\<forall>c \<in> set cs. fw_check_ok sha256 c"
      "snd (ms_limiter_check_all s env cs) = Inr (Batch_Allowed as)"
    using ms_limiter_check_all_spec [OF that(1,2)] that(3) by (metis prod.collapse)
  show "\<exists>e. snd (ms_limiter_check_all s env []) = Inl e"
    by (cases env) (simp add: ms_limiter_check_all_def ms_check_all_def fw_check_all_inner_def
        validate_batch_def Let_def)
next
  fix s c env s' r
  assume "ms_ok s" "fw_check_ok sha256 c" "ms_limiter_check s env c = (s', r)"
  from ms_limiter_check_spec [OF this]
  show "charged fixed_window_trait ms_quota ms_observed fw_admissible fw_charge
      (case r of Inr d \<Rightarrow> if decision_consumes d then [c] else [] | Inl _ \<Rightarrow> []) s s'" by blast
next
  fix s cs env s' b
  assume "ms_ok s" "\<forall>c \<in> set cs. fw_check_ok sha256 c" "ms_limiter_check_all s env cs = (s', b)"
  from ms_limiter_check_all_spec [OF this]
  show "charged fixed_window_trait ms_quota ms_observed fw_admissible fw_charge
      (case b of Inr d \<Rightarrow> if batch_consumes d then cs else [] | Inl _ \<Rightarrow> []) s s'" by blast
qed

section \<open>What a key is charged in one window\<close>

definition window_view :: "nat \<Rightarrow> nat \<Rightarrow> nat \<Rightarrow> (fw_entry \<times> nat) option" where
  "window_view u x t = (if t < x then Some (\<lparr>en_used = u\<rparr>, x) else None)"

lemma store_active_window: "\<exists>u x. store_active shards k = window_view u x"
proof (cases "map_of (sh_entries (mx_shard (shards ! shard_index shards k))) k")
  case None
  then have "store_active shards k = window_view 0 0"
    by (auto simp: store_active_def active_entry_def window_view_def)
  then show ?thesis by blast
next
  case (Some e)
  have "\<lparr>en_used = en_used (se_value e)\<rparr> = se_value e" by simp
  with Some have "store_active shards k = window_view (en_used (se_value e)) (se_expires_at_millis e)"
    by (auto simp: store_active_def active_entry_def window_view_def fun_eq_iff)
  then show ?thesis by blast
qed

definition same_window :: "nat \<Rightarrow> nat \<Rightarrow> (nat \<times> fixed_window_policy check) list \<Rightarrow> bool" where
  "same_window L W log \<longleftrightarrow>
     (\<forall>(t, c) \<in> set log. capacity_get (fw_limit (check_policy c)) = L \<and>
        period_millis (fw_window (check_policy c)) = W \<and> check_cost c \<le> L)"

abbreviation fw_chain ::
  "(nat \<Rightarrow> (fw_entry \<times> nat) option) \<Rightarrow> nat \<Rightarrow> (nat \<times> fixed_window_policy check) list \<Rightarrow> bool" where
  "fw_chain \<equiv> chain fw_admissible fw_charge"

lemma window_view_charge:
  assumes "u \<le> L" and "L \<le> U64_MAX" and "fw_admissible now c (window_view u x now)"
    and "capacity_get (fw_limit (check_policy c)) = L" and "check_cost c \<le> L"
  shows "fw_charge now c (window_view u x now) =
    (if now < x then window_view (u + check_cost c) x
     else window_view (check_cost c) (now + period_millis (fw_window (check_policy c))))"
    and "now < x \<Longrightarrow> u + check_cost c \<le> L"
proof -
  show "u + check_cost c \<le> L" if "now < x"
    using assms that by (simp add: fw_admissible_def window_view_def remaining_quota_def)
  then show "fw_charge now c (window_view u x now) =
    (if now < x then window_view (u + check_cost c) x
     else window_view (check_cost c) (now + period_millis (fw_window (check_policy c))))"
    using assms(2) by (auto simp: fw_charge_def window_view_def fun_eq_iff saturating_add_def Let_def)
qed

lemma fw_chain_within:
  assumes "fw_chain (window_view u x) start log" and "u \<le> L" and "L \<le> U64_MAX" and "same_window L W log"
    and "\<forall>(t, c) \<in> set log. t < x"
  shows "u + total_cost log \<le> L"
  using assms
proof (induction log arbitrary: u start)
  case Nil
  then show ?case by simp
next
  case (Cons e log)
  obtain now c where e: "e = (now, c)" by (cases e)
  have h: "fw_admissible now c (window_view u x now)" "capacity_get (fw_limit (check_policy c)) = L"
      "check_cost c \<le> L" "now < x"
    using Cons.prems(1,4,5) e by (auto simp: same_window_def)
  note ch = window_view_charge [OF Cons.prems(2,3) h(1-3)]
  have "fw_chain (window_view (u + check_cost c) x) now log"
    using Cons.prems(1) e ch(1) h(4) by simp
  from Cons.IH [OF this ch(2) [OF h(4)] Cons.prems(3)] Cons.prems(4,5) e show ?case
    by (auto simp: same_window_def)
qed

lemma fw_chain_fresh:
  assumes "fw_chain (window_view u x) start log" and "u \<le> L" and "L \<le> U64_MAX" and "same_window L W log"
    and "x \<le> start" and "\<forall>(t, c) \<in> set log. t < start + W"
  shows "total_cost log \<le> L"
proof (cases log)
  case Nil
  then show ?thesis by simp
next
  case (Cons e rest)
  obtain now c where e: "e = (now, c)" by (cases e)
  have h: "fw_admissible now c (window_view u x now)" "capacity_get (fw_limit (check_policy c)) = L"
      "check_cost c \<le> L" "start \<le> now" "period_millis (fw_window (check_policy c)) = W"
    using assms(1,4) Cons e by (auto simp: same_window_def)
  have "fw_chain (window_view (check_cost c) (now + W)) now rest"
    using assms(1,5) Cons e h(4,5) window_view_charge(1) [OF assms(2,3) h(1-3)] by simp
  then have "check_cost c + total_cost rest \<le> L"
    by (rule fw_chain_within [where W = W, OF _ h(3) assms(3)])
       (use assms(4,6) Cons h(4) in \<open>auto simp: same_window_def\<close>)
  then show ?thesis using Cons e by simp
qed

lemma fw_chain_twice:
  assumes "fw_chain (window_view u x) start log" and "u \<le> L" and "L \<le> U64_MAX" and "same_window L W log"
    and "\<forall>(t, c) \<in> set log. a \<le> t \<and> t < a + W"
  shows "u + total_cost log \<le> 2 * L"
  using assms
proof (induction log arbitrary: u start)
  case Nil
  then show ?case by simp
next
  case (Cons e log)
  obtain now c where e: "e = (now, c)" by (cases e)
  have h: "fw_admissible now c (window_view u x now)" "capacity_get (fw_limit (check_policy c)) = L"
      "check_cost c \<le> L" "period_millis (fw_window (check_policy c)) = W" "a \<le> now"
    using Cons.prems(1,4,5) e by (auto simp: same_window_def)
  note ch = window_view_charge [OF Cons.prems(2,3) h(1-3)]
  have tl: "same_window L W log" "\<forall>(t, c) \<in> set log. a \<le> t \<and> t < a + W"
    using Cons.prems(4,5) by (auto simp: same_window_def)
  show ?case
  proof (cases "now < x")
    case True
    then have "fw_chain (window_view (u + check_cost c) x) now log"
      using Cons.prems(1) e ch(1) by simp
    from Cons.IH [OF this ch(2) [OF True] Cons.prems(3) tl] e show ?thesis by simp
  next
    case False
    then have "fw_chain (window_view (check_cost c) (now + W)) now log"
      using Cons.prems(1) e ch(1) h(4) by simp
    then have "check_cost c + total_cost log \<le> L"
      by (rule fw_chain_within [OF _ h(3) Cons.prems(3) tl(1)]) (use tl(2) h(5) in auto)
    then show ?thesis using e Cons.prems(2) by simp
  qed
qed

lemma fw_chain_suffix:
  assumes "fw_chain (window_view u x) start (pre @ log)" and "u \<le> L" and "L \<le> U64_MAX"
    and "same_window L W pre"
  shows "\<exists>u' x' start'. u' \<le> L \<and> fw_chain (window_view u' x') start' log"
  using assms
proof (induction pre arbitrary: u x start)
  case Nil
  then show ?case by auto
next
  case (Cons e pre)
  obtain now c where e: "e = (now, c)" by (cases e)
  have h: "fw_admissible now c (window_view u x now)" "capacity_get (fw_limit (check_policy c)) = L"
      "check_cost c \<le> L"
    using Cons.prems(1,4) e by (auto simp: same_window_def)
  note ch = window_view_charge [OF Cons.prems(2,3) h]
  have tl: "same_window L W pre" using Cons.prems(4) by (auto simp: same_window_def)
  show ?case
    using Cons.prems(1) e ch h(3) Cons.IH [OF _ _ Cons.prems(3) tl] by (cases "now < x") auto
qed

text \<open>
  The windows of a log of charges: a charge outside the window of an earlier one opens a window, and
  the charges made within the next \<open>W\<close> milliseconds belong to it.
\<close>

function fw_windows :: "nat \<Rightarrow> (nat \<times> 'p check) list \<Rightarrow> (nat \<times> 'p check) list list" where
  "fw_windows W [] = []"
| "fw_windows W ((t, c) # log) =
     ((t, c) # takeWhile (\<lambda>(t', _). t' < t + W) log) # fw_windows W (dropWhile (\<lambda>(t', _). t' < t + W) log)"
  by pat_completeness auto
termination
  by (relation "measure (length \<circ> snd)") (auto simp: length_dropWhile_le le_imp_less_Suc)

lemma fw_chain_until:
  assumes "fw_chain (window_view u x) start (pre @ log)" and "u \<le> L" and "L \<le> U64_MAX"
    and "same_window L W pre" and "\<forall>(t, c) \<in> set pre. t < x"
  shows "\<exists>u' start'. u' \<le> L \<and> fw_chain (window_view u' x) start' log"
  using assms
proof (induction pre arbitrary: u start)
  case Nil
  then show ?case by auto
next
  case (Cons e pre)
  obtain now c where e: "e = (now, c)" by (cases e)
  have h: "fw_admissible now c (window_view u x now)" "capacity_get (fw_limit (check_policy c)) = L"
      "check_cost c \<le> L" "now < x"
    using Cons.prems(1,4,5) e by (auto simp: same_window_def)
  note ch = window_view_charge [OF Cons.prems(2,3) h(1-3)]
  have "fw_chain (window_view (u + check_cost c) x) now (pre @ log)"
    using Cons.prems(1) e ch(1) h(4) by simp
  from Cons.IH [OF this ch(2) [OF h(4)] Cons.prems(3)] Cons.prems(4,5) show ?case
    by (auto simp: same_window_def)
qed

lemma fw_chain_windows:
  assumes "fw_chain (window_view u x) start log" and "u \<le> L" and "L \<le> U64_MAX" and "same_window L W log"
    and "case log of [] \<Rightarrow> True | (t, c) # _ \<Rightarrow> x \<le> t"
  shows "\<forall>w \<in> set (fw_windows W log). total_cost w \<le> L"
  using assms
proof (induction W log arbitrary: u x start rule: fw_windows.induct)
  case (1 W)
  then show ?case by simp
next
  case (2 W t c log)
  let ?P = "\<lambda>(t', _). t' < t + W"
  have h: "fw_admissible t c (window_view u x t)" "capacity_get (fw_limit (check_policy c)) = L"
      "check_cost c \<le> L" "period_millis (fw_window (check_policy c)) = W" "\<not> t < x"
    using "2.prems"(1,4,5) by (auto simp: same_window_def)
  have opened: "fw_chain (window_view (check_cost c) (t + W)) t log"
    using "2.prems"(1) window_view_charge(1) [OF "2.prems"(2,3) h(1-3)] h(4,5) by simp
  have same: "same_window L W (takeWhile ?P log)" "same_window L W (dropWhile ?P log)"
    using "2.prems"(4) by (auto simp: same_window_def dest: set_takeWhileD set_dropWhileD)
  have inside: "\<forall>(t', c') \<in> set (takeWhile ?P log). t' < t + W"
    by (auto dest: set_takeWhileD)
  have split: "fw_chain (window_view (check_cost c) (t + W)) t (takeWhile ?P log @ dropWhile ?P log)"
    using opened by simp
  have "check_cost c + total_cost (takeWhile ?P log) \<le> L"
    by (rule fw_chain_within [OF chain_prefix [OF split] h(3) "2.prems"(3) same(1) inside])
  moreover obtain u' start' where rest: "u' \<le> L" "fw_chain (window_view u' (t + W)) start' (dropWhile ?P log)"
    using fw_chain_until [OF split h(3) "2.prems"(3) same(1) inside] by blast
  have "case dropWhile ?P log of [] \<Rightarrow> True | (t', c') # _ \<Rightarrow> t + W \<le> t'"
  proof (cases "dropWhile ?P log")
    case Nil
    show ?thesis unfolding Nil by simp
  next
    case (Cons e rest)
    with hd_dropWhile [of ?P log] show ?thesis by (cases e) (simp add: not_less)
  qed
  from "2.IH" [OF rest(2,1) "2.prems"(3) same(2) this]
  have "\<forall>w \<in> set (fw_windows W (dropWhile ?P log)). total_cost w \<le> L" .
  ultimately show ?case by simp
qed

section \<open>Runs of the store\<close>

definition ms_serve ::
  "memory_store \<Rightarrow> call_environment \<Rightarrow> fixed_window_policy request
    \<Rightarrow> memory_store \<times> fixed_window_policy check list" where
  "ms_serve store env req =
     (case req of
        Single c \<Rightarrow> (case ms_limiter_check store env c of (store', r) \<Rightarrow>
          (store', case r of Inr d \<Rightarrow> if decision_consumes d then [c] else [] | Inl _ \<Rightarrow> []))
      | Atomic cs \<Rightarrow> (case ms_limiter_check_all store env cs of (store', r) \<Rightarrow>
          (store', case r of Inr d \<Rightarrow> if batch_consumes d then cs else [] | Inl _ \<Rightarrow> [])))"

text \<open>The final store and the charges one key received, with the times they were made at.\<close>

fun ms_run ::
  "counter_key \<Rightarrow> memory_store \<Rightarrow> (call_environment \<times> fixed_window_policy request) list
    \<Rightarrow> memory_store \<times> (nat \<times> fixed_window_policy check) list" where
  "ms_run k store [] = (store, [])"
| "ms_run k store ((env, req) # rest) =
     (let (store', cs) = ms_serve store env req;
          (store'', log) = ms_run k store' rest
      in (store'', case find (\<lambda>c. counter_key fixed_window_trait c = k) cs of
                 None \<Rightarrow> log | Some c \<Rightarrow> (ms_observed store' k, c) # log))"

definition fw_request_ok :: "(bytes \<Rightarrow> bytes) \<Rightarrow> fixed_window_policy request \<Rightarrow> bool" where
  "fw_request_ok sha256 req \<longleftrightarrow>
     (case req of Single c \<Rightarrow> fw_check_ok sha256 c | Atomic cs \<Rightarrow> \<forall>c \<in> set cs. fw_check_ok sha256 c)"

lemma ms_run_eq: "ms_run k store reqs = ms_limiter.run k store reqs"
proof (induction reqs arbitrary: store)
  case Nil
  then show ?case by simp
next
  case (Cons e reqs)
  obtain env req where e: "e = (env, req)" by (cases e)
  have "ms_serve store env req = ms_limiter.serve store env req"
    by (simp add: ms_serve_def ms_limiter.serve_def)
  with Cons e show ?case by (cases "ms_serve store env req") simp
qed

lemma fw_request_ok_eq: "fw_request_ok sha256 = ms_limiter.request_ok sha256"
  by (simp add: fun_eq_iff fw_request_ok_def ms_limiter.request_ok_def)

lemma ms_run_spec:
  assumes "ms_ok store" and "\<forall>(env, req) \<in> set reqs. fw_request_ok sha256 req"
    and "ms_run k store reqs = (store', log)"
  shows "ms_ok store'" and "fw_chain (ms_quota store k) (ms_observed store k) log"
    and "\<forall>(t, c) \<in> set log. fw_check_ok sha256 c \<and> counter_key fixed_window_trait c = k"
  using ms_limiter.run_spec [of store reqs sha256 k store' log] assms
  by (auto simp: ms_run_eq fw_request_ok_eq)

section \<open>Properties\<close>

text \<open>
  C2: the fixed-window store admits no more than the limit in a window. Take any run of single checks
  and atomic batches, over any keys and any clock readings (clocks that step back or panic included),
  from a store in which key \<open>k\<close> has no active window, and a part of its charges to \<open>k\<close>, from the
  start of the run, that all carry the same limit \<open>L\<close> and window length \<open>W\<close>. Cut these charges into
  the windows they open: the first charge opens one, it holds all charges of the next \<open>W\<close>
  milliseconds, the first charge after it opens the next one. The total cost charged in every one of
  these windows is at most \<open>L\<close>. Any stretch of the charges that falls into a time span of length \<open>W\<close>,
  wherever it starts, is charged at most \<open>2 * L\<close>, since it meets at most two windows.
\<close>

theorem fixed_window_quota:
  assumes "ms_ok store" and "\<forall>(env, req) \<in> set reqs. fw_request_ok sha256 req"
    and "ms_run k store reqs = (store', log @ post)"
    and "ms_quota store k (ms_observed store k) = None"
    and "\<forall>(t, c) \<in> set log. capacity_get (fw_limit (check_policy c)) = L \<and>
      period_millis (fw_window (check_policy c)) = W"
  shows "(\<forall>w \<in> set (fw_windows W log). total_cost w \<le> L) \<and>
    (\<forall>pre stretch tail a. log = pre @ stretch @ tail \<longrightarrow> (\<forall>(t, c) \<in> set stretch. a \<le> t \<and> t < a + W) \<longrightarrow>
       total_cost stretch \<le> 2 * L)"
proof (cases "log = []")
  case True
  then show ?thesis by simp
next
  case False
  note run = ms_run_spec [OF assms(1-3)]
  obtain u x where view: "ms_quota store k = window_view u x"
    using store_active_window [of "ms_shards store" k] by (auto simp: ms_quota_def)
  have x: "x \<le> ms_observed store k" using assms(4) view by (auto simp: window_view_def split: if_splits)
  have same: "same_window L W log"
    using assms(5) run(3)
    by (fastforce simp: same_window_def check_ok_def fixed_window_trait_def)
  have L: "L \<le> U64_MAX"
    using False assms(5) run(3)
    by (cases log) (auto simp: check_ok_def fixed_window_ok_def capacity_ok_def width_simps)
  have ch: "fw_chain (window_view u x) (ms_observed store k) log"
    using run(2) chain_prefix view by simp
  have ch0: "fw_chain (window_view 0 x) (ms_observed store k) log"
    by (rule chain_cong [OF _ order.refl ch]) (use x in \<open>simp add: window_view_def\<close>)
  have first: "case log of [] \<Rightarrow> True | (t, c) # _ \<Rightarrow> x \<le> t"
    using ch0 x by (auto split: list.splits)
  have "total_cost stretch \<le> 2 * L"
    if split: "log = pre @ stretch @ tail" and span: "\<forall>(t, c) \<in> set stretch. a \<le> t \<and> t < a + W"
    for pre stretch tail a
  proof -
    have parts: "same_window L W pre" "same_window L W stretch"
      using same split by (auto simp: same_window_def)
    have "fw_chain (window_view 0 x) (ms_observed store k) (pre @ stretch)"
      using ch0 split chain_prefix [of fw_admissible fw_charge _ _ "pre @ stretch" tail] by simp
    then obtain u' x' start' where "u' \<le> L" "fw_chain (window_view u' x') start' stretch"
      using fw_chain_suffix [OF _ _ L parts(1)] by blast
    from fw_chain_twice [OF this(2,1) L parts(2) span] show ?thesis by simp
  qed
  with fw_chain_windows [OF ch0 _ L same first] show ?thesis by blast
qed

text \<open>A concrete store and checks for the witnesses: one shard, three requests a minute.\<close>

definition sample_config :: memory_store_config where
  "sample_config = \<lparr>cfg_max_keys = 4, cfg_shard_count = 1, cfg_max_expired_removals_per_check = 8,
     cfg_max_batch_size = 32\<rparr>"

definition sample_window_check :: "nat \<Rightarrow> byte \<Rightarrow> fixed_window_policy check" where
  "sample_window_check cost subject =
     \<lparr>check_policy = sample_window_policy (\<lambda>b. b) 3,
      check_subject = SubjectKey [subject], check_cost = cost\<rparr>"

abbreviation sample_window_key :: "byte \<Rightarrow> counter_key" where
  "sample_window_key subject \<equiv>
     CounterKey (fw_fingerprint (sample_window_policy (\<lambda>b. b) 3)) (SubjectKey [subject])"

abbreviation sample_at :: "nat \<Rightarrow> call_environment" where
  "sample_at ms \<equiv> (Some (from_millis ms), \<lambda>_. 0, 0)"

abbreviation sample_requests :: "(call_environment \<times> fixed_window_policy request) list" where
  "sample_requests \<equiv>
     [(sample_at 5, Single (sample_window_check 2 1)),
      (sample_at 9, Single (sample_window_check 2 1)),
      (sample_at 9, Atomic [sample_window_check 1 1, sample_window_check 1 2])]"

lemmas ms_run_eval = ms_serve_def ms_limiter_check_def ms_check_def fw_check_inner_def lock_shard_def
  fw_check_locked_def decide_single_def fw_quota_denial_def fw_consume_def shard_index_def
  ms_limiter_check_all_def ms_check_all_def fw_check_all_inner_def validate_batch_def check_mode_def
  BatchTopology_new_def partition_point_def lock_topology_def fw_check_all_locked_def batch_now_def
  fw_prepare_def admit_batch_def locked_shard_def BatchDecision_allowed_def
  MemoryStore_build_def BoundedShards_new_def Shard_new_def record_observed_millis_def as_millis_def
  from_millis_def duration_from_millis_def fw_allowance_def Allowance_new_def remaining_quota_def
  try_from_nat_def active_entry_def contains_key_def update_value_def shard_replace_def shard_used_def
  btree_insert_def saturating_add_def saturating_mul_def fw_PreparedCheck_new_def ms_observed_def
  store_observed_def Let_def width_simps Decision_allowed_def Decision_shadow_denied_def
  shard_capacity_def NANOS_PER_MILLI_def prune_expired_numeral

lemma sample_window_fields:
  "check_policy (sample_window_check n s) = sample_window_policy (\<lambda>b. b) 3"
  "check_cost (sample_window_check n s) = n"
  "counter_key fixed_window_trait (sample_window_check n s) = sample_window_key s"
  "fw_limit (sample_window_policy (\<lambda>b. b) 3) = Capacity 3"
  "fw_window (sample_window_policy (\<lambda>b. b) 3) = QuotaPeriod 60000"
  "trait_quota_mode fixed_window_trait (sample_window_policy (\<lambda>b. b) 3) = Enforce"
  by (simp_all add: sample_window_check_def counter_key_def sample_window_policy_def fixed_window_trait_def)

lemma sample_window_check_ok: "0 < n \<Longrightarrow> n \<le> 3 \<Longrightarrow> fw_check_ok (\<lambda>b. b) (sample_window_check n s)"
  using sample_window_policy_ok [of 3 "\<lambda>b. b"]
  by (simp add: check_ok_def sample_window_fields fixed_window_trait_def)

lemma sample_store_ok: "ms_ok (MemoryStore_build sample_config)"
  by (simp add: ms_ok_def MemoryStore_build_def BoundedShards_new_ok config_ok_def sample_config_def)

lemma sample_requests_run:
  "snd (ms_run (sample_window_key 1) (MemoryStore_build sample_config) sample_requests) =
     [(5, sample_window_check 2 1), (9, sample_window_check 1 1)]"
  by (simp add: ms_run_eval sample_window_fields sample_config_def)

lemma sample_store_empty: "ms_quota (MemoryStore_build sample_config) k t = None"
  "ms_observed (MemoryStore_build sample_config) k = 0"
  by (simp_all add: ms_quota_def ms_observed_def store_active_def store_observed_def MemoryStore_build_def
      BoundedShards_new_def sample_config_def active_entry_def shard_index_def Shard_new_def)

theorem fixed_window_quota_witness:
  "total_cost [(5, sample_window_check 2 1), (9, sample_window_check 1 1)] \<le> 3 \<and>
   fw_windows 60000 [(5, sample_window_check 2 1), (9, sample_window_check 1 1)] =
     [[(5, sample_window_check 2 1), (9, sample_window_check 1 1)]]"
proof -
  obtain store' where "ms_run (sample_window_key 1) (MemoryStore_build sample_config) sample_requests =
      (store', [(5, sample_window_check 2 1), (9, sample_window_check 1 1)] @ [])"
    using sample_requests_run by (metis append_Nil2 prod.collapse)
  from fixed_window_quota [OF sample_store_ok _ this, of "\<lambda>b. b" 3 60000]
  show ?thesis
    by (simp add: fw_request_ok_def sample_window_check_ok sample_store_empty sample_window_fields)
qed

text \<open>
  C5: a single check of the fixed-window store is decided exactly by what its key has used in the
  active window at the store's time, which never runs backwards, and by the room in its shard. With a
  healthy shard the operation neither fails nor panics. It denies (or, for a shadow policy, reports)
  exactly the checks that would exceed the limit, with the time until the window expires. Of the
  others it refuses for storage exactly those whose key has no entry in a shard that is still full
  after the bounded cleanup of expired entries; such a key has no active window, and the refusal
  names the time until the shard's next entry expires. All remaining checks are allowed: the cost is
  added to the window, or opens one, and the allowance has the limit, what remains and the time until
  the window ends. No other key is affected, and a check that is not allowed charges nothing.
\<close>

theorem fixed_window_check_exact:
  assumes "ms_ok store" and "fw_check_ok sha256 c" and "k = counter_key fixed_window_trait c"
    and "shard = ms_shards store ! shard_index (ms_shards store) k" and "\<not> mx_poisoned shard"
    and "now = max (as_millis d0) (ms_observed store k)" and "q = ms_quota store k now"
    and "used = (case q of None \<Rightarrow> 0 | Some (e, x) \<Rightarrow> en_used e)"
    and "limit = capacity_get (fw_limit (check_policy c))"
    and "s1 = swept (ms_config store) now (mx_shard shard)"
  shows "\<exists>store' d. ms_limiter_check store (Some d0, timer, elapsed) c = (store', Inr d) \<and> ms_ok store' \<and>
    charged fixed_window_trait ms_quota ms_observed fw_admissible fw_charge
      (if decision_consumes d then [c] else []) store store' \<and>
    (case d of
       Decision_Admitted (Admitted_Allowed a) \<Rightarrow>
         used + check_cost c \<le> limit \<and> (contains_key s1 k \<or> shard_used s1 < sh_capacity s1) \<and>
         a = \<lparr>al_capacity = fw_limit (check_policy c), al_available = limit - (used + check_cost c),
              al_replenishes_after = Delay (from_millis
                (case q of None \<Rightarrow> period_millis (fw_window (check_policy c)) | Some (e, x) \<Rightarrow> x - now))\<rparr>
     | Decision_Admitted (Admitted_ShadowDenied qd) \<Rightarrow>
         check_mode fixed_window_trait c = Shadow \<and> limit < used + check_cost c \<and>
         (\<exists>e x. q = Some (e, x) \<and> qd_retry_after qd = Delay (from_millis (x - now)))
     | Decision_Denied (QuotaExceeded qd) \<Rightarrow>
         check_mode fixed_window_trait c = Enforce \<and> limit < used + check_cost c \<and>
         (\<exists>e x. q = Some (e, x) \<and> qd_retry_after qd = Delay (from_millis (x - now)))
     | Decision_Denied (StorageCapacity r) \<Rightarrow>
         used + check_cost c \<le> limit \<and> q = None \<and> \<not> contains_key s1 k \<and> sh_capacity s1 \<le> shard_used s1 \<and>
         r = map_option (\<lambda>(x, _). Delay (from_millis (max (x - now) 1))) (btree_first (sh_expirations s1)))"
proof -
  let ?pc = "fw_PreparedCheck_new 0 c 0"
  have ok: "shards_ok (ms_config store) (ms_shards store)" using assms(1) by (simp add: ms_ok_def)
  have now: "now = max (as_millis d0) (store_observed (ms_shards store) k)"
    and q: "store_active (ms_shards store) k now = q"
    using assms(6,7) by (simp_all add: ms_observed_def ms_quota_def)
  have healthy: "\<not> mx_poisoned (ms_shards store ! shard_index (ms_shards store) k)"
    and s1: "s1 = swept (ms_config store) now (mx_shard (ms_shards store ! shard_index (ms_shards store) k))"
    using assms(4,5,10) by simp_all
  obtain shards' d eff where r: "fw_check_inner (ms_config store) (ms_shards store) (Some d0) (timer 0) c = (shards', Inr (d, eff))"
      "shards_ok (ms_config store) shards'"
      "charged fixed_window_trait store_active store_observed fw_admissible fw_charge
        (if decision_consumes d then [c] else []) (ms_shards store) shards'"
      "decision_consumes d \<longleftrightarrow> fw_decide now ?pc q = None \<and> (contains_key s1 k \<or> shard_used s1 < sh_capacity s1)"
      "\<forall>v x a. decision_consumes d \<longrightarrow> fw_plan now ?pc q = (v, x, a) \<longrightarrow> d = Decision_allowed a"
      "case fw_decide now ?pc q of
         Some qd \<Rightarrow> d = (if check_mode fixed_window_trait c = Shadow then Decision_shadow_denied qd
           else Decision_Denied (QuotaExceeded qd))
       | None \<Rightarrow>
           if \<not> contains_key s1 k \<and> sh_capacity s1 \<le> shard_used s1
           then \<exists>r. storage_capacity_denial s1 now = Some (StorageCapacity r) \<and> d = Decision_Denied (StorageCapacity r)
           else decision_consumes d"
    using fw_check_inner_healthy [OF ok assms(2) healthy [unfolded assms(3)] now [unfolded assms(3)]
        s1 [unfolded assms(3)], folded assms(3), of "timer 0"] unfolding q
    by (elim exE conjE) (rule that; assumption)
  have eq: "ms_limiter_check store (Some d0, timer, elapsed) c = (store\<lparr>ms_shards := shards'\<rparr>, Inr d)"
    using ms_limiter_check_eq [where timer = timer, OF r(1)] by simp
  have within: "fw_decide now ?pc q = None \<longleftrightarrow> used + check_cost c \<le> limit"
    using assms(2,8,9)
    by (auto simp: check_ok_def fixed_window_trait_def fw_decide_def fw_PreparedCheck_new_def remaining_quota_def
        split: option.splits if_splits)
  have contained: "q = None" if "\<not> contains_key s1 k"
    using that swept_contains [OF ok healthy, of now] unfolding q s1 by blast
  have dec: "case d of
       Decision_Admitted (Admitted_Allowed a) \<Rightarrow>
         used + check_cost c \<le> limit \<and> (contains_key s1 k \<or> shard_used s1 < sh_capacity s1) \<and>
         a = \<lparr>al_capacity = fw_limit (check_policy c), al_available = limit - (used + check_cost c),
              al_replenishes_after = Delay (from_millis
                (case q of None \<Rightarrow> period_millis (fw_window (check_policy c)) | Some (e, x) \<Rightarrow> x - now))\<rparr>
     | Decision_Admitted (Admitted_ShadowDenied qd) \<Rightarrow>
         check_mode fixed_window_trait c = Shadow \<and> limit < used + check_cost c \<and>
         (\<exists>e x. q = Some (e, x) \<and> qd_retry_after qd = Delay (from_millis (x - now)))
     | Decision_Denied (QuotaExceeded qd) \<Rightarrow>
         check_mode fixed_window_trait c = Enforce \<and> limit < used + check_cost c \<and>
         (\<exists>e x. q = Some (e, x) \<and> qd_retry_after qd = Delay (from_millis (x - now)))
     | Decision_Denied (StorageCapacity r) \<Rightarrow>
         used + check_cost c \<le> limit \<and> q = None \<and> \<not> contains_key s1 k \<and> sh_capacity s1 \<le> shard_used s1 \<and>
         r = map_option (\<lambda>(x, _). Delay (from_millis (max (x - now) 1))) (btree_first (sh_expirations s1))"
  proof (cases "fw_decide now ?pc q")
    case (Some qd)
    have "\<exists>e x. q = Some (e, x) \<and> qd_retry_after qd = Delay (from_millis (x - now))"
      using Some by (auto simp: fw_decide_def QuotaDenial_new_def split: option.splits if_splits)
    moreover have "check_mode fixed_window_trait c = Enforce" if "check_mode fixed_window_trait c \<noteq> Shadow"
      using that by (cases "check_mode fixed_window_trait c") auto
    ultimately show ?thesis
      using Some r(6) within by (auto simp: Decision_shadow_denied_def not_le split: if_splits)
  next
    case None
    with within have le: "used + check_cost c \<le> limit" by simp
    show ?thesis
    proof (cases "\<not> contains_key s1 k \<and> sh_capacity s1 \<le> shard_used s1")
      case True
      with None r(6) obtain r where "storage_capacity_denial s1 now = Some (StorageCapacity r)"
          "d = Decision_Denied (StorageCapacity r)" by auto
      with True le contained capacity_denial_retry show ?thesis by simp
    next
      case False
      obtain v x a where plan: "fw_plan now ?pc q = (v, x, a)" by (metis prod_cases3)
      have d: "d = Decision_allowed a" using r(4,5) None False plan by auto
      have "a = \<lparr>al_capacity = fw_limit (check_policy c), al_available = limit - (used + check_cost c),
          al_replenishes_after = Delay (from_millis
            (case q of None \<Rightarrow> period_millis (fw_window (check_policy c)) | Some (e, x) \<Rightarrow> x - now))\<rparr>"
        using plan assms(8,9)
        by (auto simp: fw_plan_def fw_PreparedCheck_new_def remaining_quota_def split: option.splits)
      with le d False show ?thesis by (auto simp: Decision_allowed_def)
    qed
  qed
  have "ms_ok (store\<lparr>ms_shards := shards'\<rparr>)" using r(2) by (simp add: ms_ok_def)
  with eq r(3) dec charged_store show ?thesis by blast
qed

theorem fixed_window_check_exact_witness:
  "\<exists>store' d. ms_limiter_check (MemoryStore_build sample_config) (sample_at 5) (sample_window_check 2 1) =
    (store', Inr d) \<and> ms_ok store'"
  using fixed_window_check_exact [OF sample_store_ok sample_window_check_ok refl refl _ refl refl refl refl refl,
      of 2 1 "from_millis 5" "\<lambda>_. 0" 0]
  by (auto simp: MemoryStore_build_def BoundedShards_new_def sample_config_def shard_index_def)

lemma fw_check_all_inner_valid:
  assumes "fw_check_all_inner config shards clock timer cs = (shards', Inr r)"
  shows "validate_batch fixed_window_trait cs (cfg_max_batch_size config) = Inr ()"
  using assms
  by (cases "validate_batch fixed_window_trait cs (cfg_max_batch_size config)") (auto simp: fw_check_all_inner_def)

text \<open>
  C3: a batch on the fixed-window store is atomic. Whatever the clock does, the store keeps its
  invariant and the operation panics only if the clock did. An allowed batch answers every check in
  input order, found every check admissible at one time at which none of them had been charged yet,
  and charged each of its keys once and no other key. A batch that is denied, that only a shadow
  policy denies, or that fails with any error changes the quota of no key.
\<close>

theorem memory_store_batch_atomic:
  assumes "ms_ok store" and "\<forall>c \<in> set cs. fw_check_ok sha256 c"
    and "ms_limiter_check_all store (clock, timer, elapsed) cs = (store', r)"
  shows "ms_ok store' \<and> (r = Inl Panicked \<longrightarrow> clock = None) \<and>
    (\<forall>k. ms_observed store k \<le> ms_observed store' k) \<and>
    (case r of
       Inr (Batch_Allowed as) \<Rightarrow>
         length as = length cs \<and> distinct (map (counter_key fixed_window_trait) cs) \<and>
         (\<forall>c \<in> set cs. let k = counter_key fixed_window_trait c; now = ms_observed store' k in
            fw_admissible now c (ms_quota store k now) \<and>
            (\<forall>t \<ge> now. ms_quota store' k t = fw_charge now c (ms_quota store k now) t)) \<and>
         (\<forall>k t. k \<notin> counter_key fixed_window_trait ` set cs \<longrightarrow> ms_observed store' k \<le> t \<longrightarrow>
            ms_quota store' k t = ms_quota store k t)
     | _ \<Rightarrow> \<forall>k t. ms_observed store' k \<le> t \<longrightarrow> ms_quota store' k t = ms_quota store k t)"
proof -
  obtain shards q where q: "fw_check_all_inner (ms_config store) (ms_shards store) clock timer cs = (shards, q)"
    by fastforce
  have eq: "store' = store\<lparr>ms_shards := shards\<rparr>" "r = map_ok fst q"
    using ms_limiter_check_all_eq [OF q, of elapsed] assms(3) by simp_all
  have sp: "shards_ok (ms_config store) shards" "q = Inl Panicked \<longrightarrow> clock = None"
    using fw_check_all_inner_spec [OF _ assms(2) q] assms(1) by (simp_all add: ms_ok_def)
  note res = ms_limiter_check_all_spec [OF assms]
  have panic: "r = Inl Panicked \<longrightarrow> clock = None" using sp(2) eq(2) by (cases q) auto
  have "\<forall>d. r = Inr d \<longrightarrow> distinct (map (counter_key fixed_window_trait) cs)"
    using fw_check_all_inner_valid [of "ms_config store" "ms_shards store" clock timer cs shards] q eq(2)
    by (cases q) (auto simp: validate_batch_ok)
  with charged_batch [of fixed_window_trait ms_quota ms_observed fw_admissible fw_charge cs r store store'] res panic
  show ?thesis by blast
qed

theorem memory_store_batch_atomic_witness:
  "ms_ok (fst (ms_limiter_check_all (MemoryStore_build sample_config) (sample_at 9)
      [sample_window_check 1 1, sample_window_check 1 2]))"
proof -
  obtain store' r where eq: "ms_limiter_check_all (MemoryStore_build sample_config) (sample_at 9)
      [sample_window_check 1 1, sample_window_check 1 2] = (store', r)" by fastforce
  from memory_store_batch_atomic [OF sample_store_ok _ eq, of "\<lambda>b. b"] have "ms_ok store'"
    by (simp add: sample_window_check_ok)
  then show ?thesis by (simp only: eq fst_conv)
qed

text \<open>
  An observed store reports consumption truthfully. Every check and every batch that returns, with
  a decision or with an error, ends with exactly one admission observation; it says the operation
  consumed exactly when the quota of its keys was charged, and says not consumed when no key's quota
  changed.
\<close>

theorem memory_store_observes_charges:
  assumes "ms_ok store" and "ms_has_observer store" and "\<forall>c \<in> set cs. fw_check_ok sha256 c"
    and "(case req of Single c \<Rightarrow> cs = [c] \<and>
            (\<exists>r. ms_check store (Some d0) (timer 0) elapsed c = (store', obs, r))
          | Atomic bs \<Rightarrow> cs = bs \<and> (\<exists>r. ms_check_all store (Some d0) timer elapsed bs = (store', obs, r)))"
  shows "\<exists>pre a. obs = pre @ [Observation_Admission a] \<and>
    (\<forall>o' \<in> set pre. \<forall>a'. o' \<noteq> Observation_Admission a') \<and>
    (ado_consumption a = Consumed \<or> ado_consumption a = NotConsumed) \<and>
    charged fixed_window_trait ms_quota ms_observed fw_admissible fw_charge
      (if ado_consumption a = Consumed then cs else []) store store'"
proof (cases req)
  case (Single c)
  obtain shards q where q: "fw_check_inner (ms_config store) (ms_shards store) (Some d0) (timer 0) c = (shards, q)"
    by fastforce
  have cs: "cs = [c]" and ok: "fw_check_ok sha256 c" using assms(3,4) Single by auto
  from fw_check_inner_spec [OF _ ok q] assms(1) have np: "q \<noteq> Inl Panicked"
    and ch: "charged fixed_window_trait ms_quota ms_observed fw_admissible fw_charge
      (case q of Inr (d, _) \<Rightarrow> if decision_consumes d then [c] else [] | Inl _ \<Rightarrow> []) store
      (store\<lparr>ms_shards := shards\<rparr>)"
    by (auto simp: ms_ok_def charged_store)
  have st: "store' = store\<lparr>ms_shards := shards\<rparr>" using assms(4) Single q by (auto simp: ms_check_def Let_def)
  show ?thesis
  proof (cases q)
    case (Inl e)
    with np obtain e' where e: "e = Failure e'" by (cases e) auto
    have "obs = [] @ [Observation_Admission (failed_check fixed_window_trait c NotConsumed elapsed)]"
      using assms(2,4) Single q Inl e by (auto simp: ms_check_def Let_def observe_admission_def)
    with ch Inl st show ?thesis by (intro observes_once [where b = False]) (auto simp: failed_check_def)
  next
    case (Inr p)
    obtain d eff where p: "p = (d, eff)" by (cases p)
    have "obs = observe_shard_effect True eff @
        [Observation_Admission (observe_from_check fixed_window_trait c d elapsed)]"
      using assms(2,4) Single q Inr p by (auto simp: ms_check_def Let_def observe_admission_def)
    moreover have "charged fixed_window_trait ms_quota ms_observed fw_admissible fw_charge
        (if decision_consumes d then cs else []) store store'" using ch unfolding Inr p st cs by simp
    ultimately show ?thesis using no_admission(1) by (intro observes_once [OF _ observe_from_check_consumption])
  qed
next
  case (Atomic bs)
  obtain shards q where q: "fw_check_all_inner (ms_config store) (ms_shards store) (Some d0) timer bs = (shards, q)"
    by fastforce
  have cs: "cs = bs" and ok: "\<forall>c \<in> set bs. fw_check_ok sha256 c" using assms(3,4) Atomic by auto
  from fw_check_all_inner_spec [OF _ ok q] assms(1) have np: "q \<noteq> Inl Panicked"
    and ch: "charged fixed_window_trait ms_quota ms_observed fw_admissible fw_charge
      (case q of Inr (d, _) \<Rightarrow> if batch_consumes d then bs else [] | Inl _ \<Rightarrow> []) store
      (store\<lparr>ms_shards := shards\<rparr>)"
    by (auto simp: ms_ok_def charged_store)
  have st: "store' = store\<lparr>ms_shards := shards\<rparr>" using assms(4) Atomic q by (auto simp: ms_check_all_def Let_def)
  show ?thesis
  proof (cases q)
    case (Inl e)
    with np obtain e' where e: "e = Failure e'" by (cases e) auto
    have "obs = [] @ [Observation_Admission (failed_batch fixed_window_trait bs NotConsumed elapsed)]"
      using assms(2,4) Atomic q Inl e by (auto simp: ms_check_all_def Let_def observe_admission_def)
    with ch Inl st show ?thesis by (intro observes_once [where b = False]) (auto simp: failed_batch_def)
  next
    case (Inr p)
    obtain d eff where p: "p = (d, eff)" by (cases p)
    have "obs = observe_shard_effects True eff @
        [Observation_Admission (observe_from_batch fixed_window_trait bs d elapsed)]"
      using assms(2,4) Atomic q Inr p by (auto simp: ms_check_all_def Let_def observe_admission_def)
    moreover have "charged fixed_window_trait ms_quota ms_observed fw_admissible fw_charge
        (if batch_consumes d then cs else []) store store'" using ch unfolding Inr p st cs by simp
    ultimately show ?thesis using no_admission(2) by (intro observes_once [OF _ observe_from_batch_consumption])
  qed
qed

theorem memory_store_observes_charges_witness:
  "\<exists>pre a. fst (snd (ms_check (ms_with_observer (MemoryStore_build sample_config)) (Some (from_millis 5)) 0 0
      (sample_window_check 2 1))) = pre @ [Observation_Admission a]"
proof -
  let ?s = "ms_with_observer (MemoryStore_build sample_config)" and ?c = "sample_window_check 2 1"
  obtain store' obs r where eq: "ms_check ?s (Some (from_millis 5)) 0 0 ?c = (store', obs, r)"
    by (metis prod_cases3)
  have ok: "ms_ok ?s" "ms_has_observer ?s" using sample_store_ok by (simp_all add: ms_ok_def ms_with_observer_def)
  have valid: "\<forall>c \<in> set [?c]. fw_check_ok (\<lambda>b. b) c" by (simp add: sample_window_check_ok)
  from memory_store_observes_charges [OF ok valid, where req = "Single ?c" and timer = "\<lambda>_. 0"
      and ?d0.0 = "from_millis 5" and elapsed = 0 and store' = store' and obs = obs] eq
  have "\<exists>pre a. obs = pre @ [Observation_Admission a]" by auto
  then show ?thesis by (simp only: eq fst_conv snd_conv)
qed

text \<open>
  The store is hard-bounded. In every state that single checks and batches can lead to, the
  statistics of a healthy store count at most the configured maximum of keys, reached or not.
\<close>

theorem memory_store_bounded:
  assumes "ms_ok store" and "\<forall>(env, req) \<in> set reqs. fw_request_ok sha256 req"
    and "ms_run k store reqs = (store', log)" and "ms_stats store' = Inr st"
  shows "ms_ok store' \<and> st_entries st \<le> st_capacity st \<and> st_capacity st = cfg_max_keys (ms_config store')"
proof -
  have ok: "ms_ok store'" by (rule ms_run_spec(1) [OF assms(1-3)])
  let ?sh = "ms_shards store'" and ?c = "ms_config store'"
  obtain locked where locked: "lock_shards ?sh [0..<length ?sh] = Inr locked"
    and st: "st_entries st = sum_list (map (\<lambda>(_, s). shard_used s) locked)" "st_capacity st = cfg_max_keys ?c"
    using assms(4) by (auto simp: ms_stats_def BoundedShards_stats_def map_ok_eq_Inr)
  have l: "locked = map (\<lambda>i. (i, mx_shard (?sh ! i))) [0..<length ?sh]"
    and healthy: "\<forall>i < length ?sh. \<not> mx_poisoned (?sh ! i)"
    using locked by (auto simp: lock_shards_Inr)
  have len: "length ?sh = cfg_shard_count ?c" and cfg: "config_ok ?c"
    using ok by (simp_all add: ms_ok_def shards_ok_def)
  have "st_entries st = (\<Sum>i < length ?sh. shard_used (mx_shard (?sh ! i)))"
    by (simp add: st l comp_def interv_sum_list_conv_sum_set_nat atLeast0LessThan)
  also have "\<dots> \<le> (\<Sum>i < length ?sh. shard_capacity ?c i)"
  proof (rule sum_mono)
    fix i assume "i \<in> {..<length ?sh}"
    with ok healthy have "shard_ok (mx_shard (?sh ! i))" "sh_capacity (mx_shard (?sh ! i)) = shard_capacity ?c i"
      by (auto simp: ms_ok_def shards_ok_def)
    then show "shard_used (mx_shard (?sh ! i)) \<le> shard_capacity ?c i" using shard_okD(3) by fastforce
  qed
  also have "\<dots> = cfg_max_keys ?c" using shard_capacity_sum [OF cfg] len by simp
  finally show ?thesis using ok st(2) by simp
qed

theorem memory_store_bounded_witness:
  "st_entries \<lparr>st_entries = 0, st_capacity = 4, st_shard_count = 1\<rparr> \<le> 4"
  using memory_store_bounded [OF sample_store_ok, of "[]" "\<lambda>b. b" "sample_window_key 1"
      "MemoryStore_build sample_config" "[]" "\<lparr>st_entries = 0, st_capacity = 4, st_shard_count = 1\<rparr>"]
  by (simp add: ms_stats_def BoundedShards_stats_def MemoryStore_build_def BoundedShards_new_def
      sample_config_def lock_shard_def Shard_new_def shard_used_def)

end
