(* ===== verification/Gcra_Core.thy ===== *)
theory Gcra_Core
  imports Check_Batch
begin

text \<open>
  The exact GCRA transition of \<open>runlimit-core\<close> (\<open>gcra.rs\<close>). Time is whole milliseconds; the
  theoretical arrival time (TAT) is kept multiplied by the quota, so the arithmetic is exact. Every
  128-bit operation is checked in the source and in the model.
\<close>

section \<open>Model\<close>

datatype arithmetic_overflow = ArithmeticOverflow

record pending_allowance =
  pa_tat_scaled :: nat
  pa_expires_at_millis :: nat
  pa_allowance :: allowance

datatype evaluation =
    Evaluation_Allowed pending_allowance
  | Evaluation_Denied quota_denial

definition gcra_duration :: "nat \<Rightarrow> arithmetic_overflow + duration" where
  "gcra_duration millis =
     map_ok from_millis (ok_or (try_from_nat U64_MAX millis) ArithmeticOverflow)"

definition evaluate ::
  "gcra_policy check \<Rightarrow> nat \<Rightarrow> nat option \<Rightarrow> arithmetic_overflow + evaluation" where
  "evaluate check now_millis tat_scaled =
     (let policy = check_policy check;
          quota = capacity_get (gp_quota policy);
          period = period_millis (gp_period policy);
          capacity = gp_burst_capacity policy
      in try_bind (ok_or (checked_mul U128_MAX now_millis quota) ArithmeticOverflow) (\<lambda>scaled_now.
         let active_tat = max (case tat_scaled of None \<Rightarrow> scaled_now | Some t \<Rightarrow> t) scaled_now
         in try_bind (ok_or (checked_mul U128_MAX (check_cost check) period) ArithmeticOverflow) (\<lambda>increment.
            try_bind (ok_or (checked_add U128_MAX active_tat increment) ArithmeticOverflow) (\<lambda>candidate.
            try_bind (ok_or (checked_mul U128_MAX (capacity_get capacity) period) ArithmeticOverflow) (\<lambda>burst_span.
            try_bind (ok_or (checked_add U128_MAX scaled_now burst_span) ArithmeticOverflow) (\<lambda>ceiling.
              if candidate > ceiling
              then let retry = div_ceil (candidate - ceiling) quota
                   in try_bind (gcra_duration retry) (\<lambda>d.
                        Inr (Evaluation_Denied (QuotaDenial_new capacity d)))
              else try_bind (ok_or (try_from_nat U64_MAX ((ceiling - candidate) div period)) ArithmeticOverflow) (\<lambda>available.
                   let replenish = div_ceil (candidate - scaled_now) quota
                   in try_bind (ok_or (checked_add U128_MAX now_millis replenish) ArithmeticOverflow) (\<lambda>expires_at.
                      try_bind (gcra_duration replenish) (\<lambda>d.
                      try_bind (map_err (\<lambda>_. ArithmeticOverflow) (Allowance_new capacity available d)) (\<lambda>a.
                        Inr (Evaluation_Allowed
                          \<lparr>pa_tat_scaled = candidate, pa_expires_at_millis = expires_at,
                           pa_allowance = a\<rparr>)))))))))))"

section \<open>The transition without the width checks\<close>

text \<open>
  The reference computation over unbounded numbers: it is what the checked transition computes
  whenever no intermediate value leaves its width.
\<close>

definition gq :: "gcra_policy \<Rightarrow> nat" where
  "gq p = capacity_get (gp_quota p)"

definition gt :: "gcra_policy \<Rightarrow> nat" where
  "gt p = period_millis (gp_period p)"

definition gb :: "gcra_policy \<Rightarrow> nat" where
  "gb p = capacity_get (gp_burst_capacity p)"

definition active_tat :: "gcra_policy \<Rightarrow> nat \<Rightarrow> nat option \<Rightarrow> nat" where
  "active_tat p now tat = max (case tat of None \<Rightarrow> now * gq p | Some t \<Rightarrow> t) (now * gq p)"

definition candidate :: "gcra_policy check \<Rightarrow> nat \<Rightarrow> nat option \<Rightarrow> nat" where
  "candidate c now tat = active_tat (check_policy c) now tat + check_cost c * gt (check_policy c)"

definition ceiling :: "gcra_policy \<Rightarrow> nat \<Rightarrow> nat" where
  "ceiling p now = now * gq p + gb p * gt p"

definition exact_evaluate :: "gcra_policy check \<Rightarrow> nat \<Rightarrow> nat option \<Rightarrow> evaluation" where
  "exact_evaluate c now tat =
     (let p = check_policy c
      in if candidate c now tat > ceiling p now
         then Evaluation_Denied (QuotaDenial_new (gp_burst_capacity p)
           (from_millis (div_ceil (candidate c now tat - ceiling p now) (gq p))))
         else Evaluation_Allowed
           \<lparr>pa_tat_scaled = candidate c now tat,
            pa_expires_at_millis = now + div_ceil (candidate c now tat - now * gq p) (gq p),
            pa_allowance =
              \<lparr>al_capacity = gp_burst_capacity p,
               al_available = (ceiling p now - candidate c now tat) div gt p,
               al_replenishes_after =
                 Delay (from_millis (div_ceil (candidate c now tat - now * gq p) (gq p)))\<rparr>\<rparr>)"

lemmas gcra_reference = candidate_def ceiling_def active_tat_def gq_def gt_def gb_def

abbreviation gcra_check_ok :: "(bytes \<Rightarrow> bytes) \<Rightarrow> gcra_policy check \<Rightarrow> bool" where
  "gcra_check_ok sha \<equiv> check_ok gcra_trait (gcra_ok sha)"

lemma gcra_check_okD:
  assumes "gcra_check_ok sha c"
  shows "0 < gq (check_policy c)" and "0 < gt (check_policy c)" and "0 < gb (check_policy c)"
    and "0 < check_cost c" and "check_cost c \<le> gb (check_policy c)"
    and "gb (check_policy c) \<le> MAX_LIMIT" and "gq (check_policy c) \<le> MAX_LIMIT"
    and "gb (check_policy c) * gt (check_policy c) \<le> MAX_WINDOW_MILLIS * gq (check_policy c)"
    and "gb (check_policy c) * gt (check_policy c) \<le> MAX_LIMIT * MAX_WINDOW_MILLIS"
  using assms capacity_period_le [of "gb (check_policy c)" "gp_period (check_policy c)"]
  by (auto simp: check_ok_def gcra_trait_def gcra_ok_def capacity_ok_def period_ok_def
      gq_def gt_def gb_def)

lemma evaluate_Inr: "evaluate c now tat = Inr e \<Longrightarrow> e = exact_evaluate c now tat"
  unfolding evaluate_def Let_def gq_def [symmetric] gt_def [symmetric] gb_def [symmetric]
    try_bind_eq_Inr ok_or_eq_Inr checked_mul_eq_Some checked_add_eq_Some
  apply (elim exE conjE, hypsubst)
  unfolding active_tat_def [symmetric] candidate_def [symmetric] ceiling_def [symmetric]
  apply (cases "ceiling (check_policy c) now < candidate c now tat")
   apply (simp_all only: if_True if_False exact_evaluate_def Let_def try_bind_eq_Inr gcra_duration_def
      map_ok_eq_Inr ok_or_eq_Inr try_from_nat_eq_Some checked_add_eq_Some map_err_eq_Inr Allowance_new_ok)
  apply (elim exE conjE, hypsubst, simp)+
  done

text \<open>
  A state is within its burst when its TAT does not exceed the ceiling: the invariant that stored
  states have at every later instant.
\<close>

definition within_burst :: "gcra_policy \<Rightarrow> nat \<Rightarrow> nat option \<Rightarrow> bool" where
  "within_burst p now tat \<longleftrightarrow> (case tat of None \<Rightarrow> True | Some t \<Rightarrow> t \<le> ceiling p now)"

lemma within_burst_mono: "within_burst p now tat \<Longrightarrow> now \<le> now' \<Longrightarrow> within_burst p now' tat"
  by (auto simp: within_burst_def ceiling_def split: option.splits
      intro: order_trans add_mono mult_le_mono1)

lemma active_tat_le_ceiling: "within_burst p now tat \<Longrightarrow> active_tat p now tat \<le> ceiling p now"
  by (auto simp: within_burst_def active_tat_def ceiling_def split: option.splits)

lemma active_tat_ge: "now * gq p \<le> active_tat p now tat"
  by (simp add: active_tat_def)

lemma candidate_le:
  assumes "gcra_check_ok sha c" and "within_burst (check_policy c) now tat"
  shows "candidate c now tat \<le>
    now * gq (check_policy c) + 2 * (gb (check_policy c) * gt (check_policy c))"
proof -
  have "check_cost c * gt (check_policy c) \<le> gb (check_policy c) * gt (check_policy c)"
    using gcra_check_okD(5) [OF assms(1)] by (rule mult_le_mono1)
  then show ?thesis
    using active_tat_le_ceiling [OF assms(2)] unfolding candidate_def ceiling_def by linarith
qed

lemma available_le_burst:
  assumes "0 < gt (check_policy c)"
  shows "(ceiling (check_policy c) now - candidate c now tat) div gt (check_policy c)
    \<le> gb (check_policy c)"
proof -
  have "ceiling (check_policy c) now - candidate c now tat \<le> gb (check_policy c) * gt (check_policy c)"
    using active_tat_ge [of now "check_policy c" tat] by (simp add: candidate_def ceiling_def)
  then have "(ceiling (check_policy c) now - candidate c now tat) div gt (check_policy c)
    \<le> gb (check_policy c) * gt (check_policy c) div gt (check_policy c)"
    by (rule div_le_mono)
  then show ?thesis using assms by simp
qed

lemma evaluate_total:
  assumes ok: "gcra_check_ok sha c" and now: "now \<le> U64_MAX"
    and burst: "within_burst (check_policy c) now tat"
  shows "evaluate c now tat = Inr (exact_evaluate c now tat)"
proof -
  let ?p = "check_policy c"
  note p = gcra_check_okD [OF ok]
  have scaled: "now * gq ?p \<le> U64_MAX * MAX_LIMIT"
    using now p(7) by (rule mult_le_mono)
  have room: "U64_MAX * MAX_LIMIT + 2 * (MAX_LIMIT * MAX_WINDOW_MILLIS) \<le> U128_MAX"
    by (simp add: width_simps)
  have cand: "candidate c now tat \<le> now * gq ?p + 2 * (gb ?p * gt ?p)"
    by (rule candidate_le [OF ok burst])
  have "div_ceil (candidate c now tat - ceiling ?p now) (gq ?p) \<le> MAX_WINDOW_MILLIS"
    using cand p(8) by (simp add: div_ceil_le_iff [OF p(1)] ceiling_def)
  then have retry: "div_ceil (candidate c now tat - ceiling ?p now) (gq ?p) \<le> U64_MAX"
    by (simp add: width_simps)
  have w: "div_ceil (candidate c now tat - now * gq ?p) (gq ?p) \<le> MAX_WINDOW_MILLIS"
    if "candidate c now tat \<le> ceiling ?p now"
    using that p(8) by (simp add: div_ceil_le_iff [OF p(1)] ceiling_def)
  have replenish: "div_ceil (candidate c now tat - now * gq ?p) (gq ?p) \<le> U64_MAX"
      "now + div_ceil (candidate c now tat - now * gq ?p) (gq ?p) \<le> U128_MAX"
    if "candidate c now tat \<le> ceiling ?p now"
    using w [OF that] now by (simp_all add: width_simps)
  have avail: "(ceiling ?p now - candidate c now tat) div gt ?p \<le> gb ?p"
    by (rule available_le_burst [OF p(2)])
  then have avail64: "(ceiling ?p now - candidate c now tat) div gt ?p \<le> U64_MAX"
    using p(6) by (simp add: width_simps)
  have ceil: "ceiling ?p now \<le> U128_MAX"
    using scaled room p(9) by (simp add: ceiling_def)
  have cand128: "candidate c now tat \<le> U128_MAX"
    using cand scaled room p(9) by linarith
  have mono: "now * gq ?p \<le> U128_MAX" "check_cost c * gt ?p \<le> U128_MAX" "gb ?p * gt ?p \<le> U128_MAX"
    using ceil cand128 by (simp_all add: ceiling_def candidate_def)
  have ops: "checked_mul U128_MAX now (gq ?p) = Some (now * gq ?p)"
      "checked_mul U128_MAX (check_cost c) (gt ?p) = Some (check_cost c * gt ?p)"
      "checked_mul U128_MAX (gb ?p) (gt ?p) = Some (gb ?p * gt ?p)"
      "checked_add U128_MAX (max (case tat of None \<Rightarrow> now * gq ?p | Some t \<Rightarrow> t) (now * gq ?p))
         (check_cost c * gt ?p) = Some (candidate c now tat)"
      "checked_add U128_MAX (now * gq ?p) (gb ?p * gt ?p) = Some (ceiling ?p now)"
    using mono ceil cand128 by (simp_all add: candidate_def ceiling_def active_tat_def)
  show ?thesis
  proof (cases "ceiling ?p now < candidate c now tat")
    case True
    then show ?thesis
      unfolding evaluate_def exact_evaluate_def Let_def gq_def [symmetric] gt_def [symmetric]
        gb_def [symmetric]
      by (simp only: ops ok_or_simps try_bind_simps if_True try_from_nat_def retry gcra_duration_def
          map_ok_simps)
  next
    case False
    let ?r = "div_ceil (candidate c now tat - now * gq ?p) (gq ?p)"
    let ?a = "(ceiling ?p now - candidate c now tat) div gt ?p"
    from False have le: "candidate c now tat \<le> ceiling ?p now" by simp
    have "checked_add U128_MAX now ?r = Some (now + ?r)" "try_from_nat U64_MAX ?r = Some ?r"
        "try_from_nat U64_MAX ?a = Some ?a"
        "Allowance_new (gp_burst_capacity ?p) ?a (from_millis ?r) =
          Inr \<lparr>al_capacity = gp_burst_capacity ?p, al_available = ?a,
               al_replenishes_after = Delay (from_millis ?r)\<rparr>"
      using replenish [OF le] avail avail64
      by (simp_all add: Allowance_new_ok gb_def)
    with False show ?thesis
      unfolding evaluate_def exact_evaluate_def Let_def gq_def [symmetric] gt_def [symmetric]
        gb_def [symmetric]
      by (simp only: ops ok_or_simps try_bind_simps if_False gcra_duration_def map_ok_simps
          map_err_simps)
  qed
qed


section \<open>The transition as a token bucket\<close>

text \<open>
  The abstract specification is a token bucket whose level is counted in units of one
  \<open>period\<close>-th of a token: it holds at most \<open>burst * period\<close> units, gains \<open>quota\<close> units every
  millisecond, and a check of cost \<open>n\<close> takes \<open>n * period\<close> units or is refused.
\<close>

definition bucket_refill :: "gcra_policy \<Rightarrow> nat \<Rightarrow> nat \<Rightarrow> nat" where
  "bucket_refill p elapsed level = min (gb p * gt p) (level + elapsed * gq p)"

definition bucket_take :: "gcra_policy \<Rightarrow> nat \<Rightarrow> nat \<Rightarrow> nat option" where
  "bucket_take p cost level = (if cost * gt p \<le> level then Some (level - cost * gt p) else None)"

definition bucket_level :: "gcra_policy \<Rightarrow> nat \<Rightarrow> nat option \<Rightarrow> nat" where
  "bucket_level p now tat = ceiling p now - active_tat p now tat"

lemma bucket_level_None [simp]: "bucket_level p now None = gb p * gt p"
  by (simp add: bucket_level_def ceiling_def active_tat_def)

lemma active_tat_mono: "now \<le> now' \<Longrightarrow> active_tat p now tat \<le> active_tat p now' tat"
  by (cases tat) (auto simp: active_tat_def simp del: max.bounded_iff intro!: max.mono mult_le_mono1)

lemma bucket_level_refill:
  assumes "within_burst p now tat"
  shows "bucket_level p (now + d) tat = bucket_refill p d (bucket_level p now tat)"
proof (cases tat)
  case None
  then show ?thesis by (simp add: bucket_refill_def)
next
  case (Some t)
  have "bucket_level p n tat = min (gb p * gt p) (n * gq p + gb p * gt p - t)" for n
    using Some by (auto simp: bucket_level_def ceiling_def active_tat_def max_def)
  moreover have "t \<le> now * gq p + gb p * gt p"
    using assms Some by (simp add: within_burst_def ceiling_def)
  ultimately show ?thesis by (simp add: bucket_refill_def add_mult_distrib)
qed

lemma exact_allowed_iff:
  assumes "within_burst (check_policy c) now tat"
  shows "candidate c now tat \<le> ceiling (check_policy c) now \<longleftrightarrow>
    check_cost c * gt (check_policy c) \<le> bucket_level (check_policy c) now tat"
  using active_tat_le_ceiling [OF assms] by (auto simp: candidate_def bucket_level_def)

lemma active_tat_candidate:
  "active_tat (check_policy c) now (Some (candidate c now tat)) = candidate c now tat"
  using active_tat_ge [of now "check_policy c" tat] by (simp add: active_tat_def candidate_def)

lemma evaluate_Allowed:
  assumes "evaluate c now tat = Inr (Evaluation_Allowed a)"
  shows "pa_tat_scaled a = candidate c now tat" and "pa_tat_scaled a \<le> ceiling (check_policy c) now"
    and "pa_expires_at_millis a =
      now + div_ceil (pa_tat_scaled a - now * gq (check_policy c)) (gq (check_policy c))"
    and "al_available (pa_allowance a) =
      (ceiling (check_policy c) now - pa_tat_scaled a) div gt (check_policy c)"
  using evaluate_Inr [OF assms] by (auto simp: exact_evaluate_def Let_def split: if_splits)

lemma evaluate_Denied:
  assumes "evaluate c now tat = Inr (Evaluation_Denied d)"
  shows "ceiling (check_policy c) now < candidate c now tat"
    and "d = QuotaDenial_new (gp_burst_capacity (check_policy c)) (from_millis
      (div_ceil (candidate c now tat - ceiling (check_policy c) now) (gq (check_policy c))))"
  using evaluate_Inr [OF assms] by (auto simp: exact_evaluate_def Let_def split: if_splits)

lemma evaluate_cases [consumes 3, case_names allowed denied]:
  assumes "gcra_check_ok sha c" and "now \<le> U64_MAX" and "within_burst (check_policy c) now tat"
  obtains a where "evaluate c now tat = Inr (Evaluation_Allowed a)"
      "candidate c now tat \<le> ceiling (check_policy c) now"
    | d where "evaluate c now tat = Inr (Evaluation_Denied d)"
      "ceiling (check_policy c) now < candidate c now tat"
  using evaluate_total [OF assms] by (auto simp: exact_evaluate_def Let_def split: if_splits)

lemma evaluate_allowed_burst:
  "evaluate c now tat = Inr (Evaluation_Allowed a) \<Longrightarrow>
    within_burst (check_policy c) now (Some (pa_tat_scaled a))"
  using evaluate_Allowed(2) by (simp add: within_burst_def)

lemma evaluate_allowed_level:
  "evaluate c now tat = Inr (Evaluation_Allowed a) \<Longrightarrow>
    bucket_level (check_policy c) now (Some (pa_tat_scaled a)) =
    bucket_level (check_policy c) now tat - check_cost c * gt (check_policy c)"
  using evaluate_Allowed(1) [of c now tat a]
  by (simp add: bucket_level_def active_tat_candidate) (simp add: candidate_def)

lemma evaluate_available:
  "evaluate c now tat = Inr (Evaluation_Allowed a) \<Longrightarrow>
    al_available (pa_allowance a) =
    bucket_level (check_policy c) now (Some (pa_tat_scaled a)) div gt (check_policy c)"
  using evaluate_Allowed(1,4) [of c now tat a] by (simp add: bucket_level_def active_tat_candidate)


section \<open>Waiting, expiry and sequences of checks\<close>

lemma allowed_later_iff:
  assumes "ceiling (check_policy c) now < candidate c now tat"
    and "0 < gq (check_policy c)" and "check_cost c \<le> gb (check_policy c)"
  shows "candidate c (now + d) tat \<le> ceiling (check_policy c) (now + d) \<longleftrightarrow>
    div_ceil (candidate c now tat - ceiling (check_policy c) now) (gq (check_policy c)) \<le> d"
proof -
  let ?p = "check_policy c"
  have fits: "check_cost c * gt ?p \<le> gb ?p * gt ?p"
    using assms(3) by (rule mult_le_mono1)
  obtain t where t: "tat = Some t" "now * gq ?p < t"
    using assms(1) fits by (cases tat) (auto simp: gcra_reference max_def split: if_splits)
  have wait: "max t (n + d) + k \<le> n + d + b \<longleftrightarrow> max t n + k - (n + b) \<le> d"
    if "n < t" and "k \<le> b" for n d k b :: nat
    using that by (auto simp: max_def)
  have "candidate c (now + d) tat \<le> ceiling ?p (now + d) \<longleftrightarrow>
      candidate c now tat - ceiling ?p now \<le> d * gq ?p"
    using wait [OF t(2) fits] t(1)
    unfolding candidate_def ceiling_def active_tat_def add_mult_distrib by simp
  then show ?thesis by (simp add: div_ceil_le_iff [OF assms(2)])
qed

lemma expired_tat_irrelevant:
  assumes "0 < gq p"
    and "now + div_ceil (t - now * gq p) (gq p) \<le> later"
  shows "t \<le> later * gq p"
proof -
  have "t - now * gq p \<le> div_ceil (t - now * gq p) (gq p) * gq p"
    using assms(1) by (rule div_ceil_mult_ge)
  moreover have "(now + div_ceil (t - now * gq p) (gq p)) * gq p \<le> later * gq p"
    using assms(2) by (rule mult_le_mono1)
  ultimately show ?thesis by (simp add: add_mult_distrib)
qed

lemma evaluate_stale_tat:
  assumes "t \<le> now * gq (check_policy c)"
  shows "evaluate c now (Some t) = evaluate c now None"
proof -
  have "max t (now * gq (check_policy c)) = now * gq (check_policy c)"
    using assms by simp
  then show ?thesis
    unfolding evaluate_def Let_def gq_def [symmetric]
    by (cases "now * gq (check_policy c) \<le> U128_MAX")
      (simp_all only: checked_mul_def if_True if_False ok_or_simps try_bind_simps option.case max.idem)
qed

text \<open>The admitted cost of a sequence of timed checks that share one stored state.\<close>

fun gcra_admitted :: "nat option \<Rightarrow> (nat \<times> gcra_policy check) list \<Rightarrow> nat" where
  "gcra_admitted tat [] = 0"
| "gcra_admitted tat ((now, c) # rest) =
     (case evaluate c now tat of
        Inr (Evaluation_Allowed a) \<Rightarrow> check_cost c + gcra_admitted (Some (pa_tat_scaled a)) rest
      | _ \<Rightarrow> gcra_admitted tat rest)"

fun timeline :: "nat \<Rightarrow> nat \<Rightarrow> nat list \<Rightarrow> bool" where
  "timeline start stop [] = (start \<le> stop)"
| "timeline start stop (t # ts) = (start \<le> t \<and> timeline t stop ts)"

lemma timeline_le: "timeline start stop ts \<Longrightarrow> start \<le> stop"
  by (induction ts arbitrary: start) (auto dest: order_trans)

lemma gcra_admitted_bound:
  assumes "within_burst p start tat" and "timeline start stop (map fst cs)" and "stop \<le> U64_MAX"
    and "\<forall>(t, c) \<in> set cs. check_policy c = p \<and> gcra_check_ok sha c"
  shows "gcra_admitted tat cs * gt p + active_tat p start tat \<le> ceiling p stop"
  using assms
proof (induction cs arbitrary: start tat)
  case Nil
  then show ?case
    using active_tat_le_ceiling [OF within_burst_mono, of p start tat stop]
      active_tat_mono [of start stop p tat] by simp
next
  case (Cons e cs)
  obtain now c where e: "e = (now, c)" by (cases e)
  from Cons.prems e have c: "check_policy c = p" "gcra_check_ok sha c" and le: "start \<le> now"
    and tl: "timeline now stop (map fst cs)" and rest: "\<forall>(t, c) \<in> set cs. check_policy c = p \<and> gcra_check_ok sha c"
    by auto
  have now: "now \<le> U64_MAX" using timeline_le [OF tl] Cons.prems(3) by simp
  have burst: "within_burst (check_policy c) now tat"
    using within_burst_mono [OF Cons.prems(1) le] c(1) by simp
  have mono: "active_tat p start tat \<le> active_tat p now tat" by (rule active_tat_mono [OF le])
  from c(2) now burst show ?case
  proof (cases rule: evaluate_cases)
    case (allowed a)
    have "gcra_admitted (Some (pa_tat_scaled a)) cs * gt p
        + active_tat p now (Some (pa_tat_scaled a)) \<le> ceiling p stop"
      using Cons.IH [OF _ tl Cons.prems(3) rest] evaluate_allowed_burst [OF allowed(1)] c(1) by simp
    moreover have "active_tat p now (Some (pa_tat_scaled a)) =
        active_tat p now tat + check_cost c * gt p"
      using active_tat_candidate [of c now tat] evaluate_Allowed(1) [OF allowed(1)] c(1)
      by (simp add: candidate_def)
    ultimately show ?thesis using allowed(1) e mono by (simp add: add_mult_distrib)
  next
    case (denied d)
    moreover have "gcra_admitted tat cs * gt p + active_tat p now tat \<le> ceiling p stop"
      using Cons.IH [OF _ tl Cons.prems(3) rest] burst c(1) by simp
    ultimately show ?thesis using e mono by simp
  qed
qed


section \<open>Properties\<close>

text \<open>A concrete policy for the witnesses: ten tokens a second with a burst of five.\<close>

abbreviation sample_gcra :: gcra_policy where
  "sample_gcra \<equiv> sample_gcra_policy (\<lambda>b. b)"

definition sample_gcra_check :: "nat \<Rightarrow> gcra_policy check" where
  "sample_gcra_check cost =
     \<lparr>check_policy = sample_gcra, check_subject = SubjectKey [], check_cost = cost\<rparr>"

lemma sample_gcra_check_policy [simp]: "check_policy (sample_gcra_check n) = sample_gcra"
  by (simp add: sample_gcra_check_def)

lemma sample_gcra_values [simp]:
  "gq sample_gcra = 10" "gt sample_gcra = 1000" "gb sample_gcra = 5"
  "check_cost (sample_gcra_check n) = n" "gp_burst_capacity sample_gcra = Capacity 5"
  by (simp_all add: gq_def gt_def gb_def sample_gcra_policy_def sample_gcra_check_def)

lemma sample_gcra_check_ok: "0 < n \<Longrightarrow> n \<le> 5 \<Longrightarrow> gcra_check_ok (\<lambda>b. b) (sample_gcra_check n)"
  by (simp add: sample_gcra_check_def sample_gcra_policy_def check_ok_def gcra_ok_def gcra_trait_def
      capacity_ok_def period_ok_def width_simps)

lemma sample_gcra_allowed:
  "evaluate (sample_gcra_check 3) 0 None =
      Inr (Evaluation_Allowed \<lparr>pa_tat_scaled = 3000, pa_expires_at_millis = 300,
        pa_allowance = \<lparr>al_capacity = Capacity 5, al_available = 2,
          al_replenishes_after = Delay (from_millis 300)\<rparr>\<rparr>)"
  using evaluate_total [of "\<lambda>b. b" "sample_gcra_check 3" 0 None] sample_gcra_check_ok [of 3]
  by (simp add: exact_evaluate_def Let_def within_burst_def candidate_def ceiling_def active_tat_def
      div_ceil_def width_simps)

text \<open>
  C36: the checked GCRA transition of \<open>gcra.rs\<close> implements the token bucket. For a valid check, any
  64-bit time in milliseconds and a stored TAT within the burst, no intermediate value overflows;
  the check is admitted exactly when the bucket holds its cost, the stored TAT then represents the
  bucket with the cost taken and stays within the burst, and the reported available capacity is the
  number of whole tokens left. Time passing refills the represented bucket up to the burst.
\<close>

theorem gcra_refines_token_bucket:
  assumes "gcra_check_ok sha c" and "now \<le> U64_MAX" and "within_burst (check_policy c) now tat"
  shows "(case evaluate c now tat of
      Inl _ \<Rightarrow> False
    | Inr (Evaluation_Denied d) \<Rightarrow>
        bucket_take (check_policy c) (check_cost c) (bucket_level (check_policy c) now tat) = None
    | Inr (Evaluation_Allowed a) \<Rightarrow>
        bucket_take (check_policy c) (check_cost c) (bucket_level (check_policy c) now tat) =
          Some (bucket_level (check_policy c) now (Some (pa_tat_scaled a))) \<and>
        within_burst (check_policy c) now (Some (pa_tat_scaled a)) \<and>
        al_available (pa_allowance a) =
          bucket_level (check_policy c) now (Some (pa_tat_scaled a)) div gt (check_policy c)) \<and>
    bucket_level (check_policy c) (now + elapsed) tat =
      bucket_refill (check_policy c) elapsed (bucket_level (check_policy c) now tat)"
proof -
  note burst = exact_allowed_iff [OF assms(3)]
  from assms show ?thesis
  proof (cases rule: evaluate_cases)
    case (allowed a)
    then show ?thesis
      using burst evaluate_allowed_burst [OF allowed(1)] evaluate_allowed_level [OF allowed(1)]
        evaluate_available [OF allowed(1)] bucket_level_refill [OF assms(3)]
      by (simp add: bucket_take_def)
  next
    case (denied d)
    then show ?thesis
      using burst bucket_level_refill [OF assms(3)] by (simp add: bucket_take_def)
  qed
qed

theorem gcra_refines_token_bucket_witness:
  "gcra_check_ok (\<lambda>b. b) (sample_gcra_check 3) \<and>
   bucket_level sample_gcra (7 + 50) (Some 1070) =
     bucket_refill sample_gcra 50 (bucket_level sample_gcra 7 (Some 1070))"
  using gcra_refines_token_bucket [of "\<lambda>b. b" "sample_gcra_check 3" 7 "Some 1070" 50]
    sample_gcra_check_ok [of 3]
  by (simp add: within_burst_def ceiling_def width_simps)

text \<open>
  The long-run rate bound of GCRA. Checks of one policy are evaluated at times that never go
  backwards from \<open>start\<close> to \<open>stop\<close>, each admitted check storing its TAT for the next. Whatever the
  costs and the state the interval starts in, the cost admitted in it is at most the burst plus
  what the quota refills in \<open>stop - start\<close> milliseconds.
\<close>

theorem gcra_rate_bound:
  assumes "within_burst p start tat" and "timeline start stop (map fst cs)" and "stop \<le> U64_MAX"
    and "\<forall>(t, c) \<in> set cs. check_policy c = p \<and> gcra_check_ok sha c"
  shows "gcra_admitted tat cs * gt p \<le> gb p * gt p + (stop - start) * gq p"
proof -
  have "start * gq p + (stop - start) * gq p = stop * gq p"
    using timeline_le [OF assms(2)] by (simp flip: add_mult_distrib)
  then show ?thesis
    using gcra_admitted_bound [OF assms] active_tat_ge [of start p tat]
    by (simp add: ceiling_def)
qed

theorem gcra_rate_bound_witness:
  "gcra_admitted None [(0, sample_gcra_check 5), (10, sample_gcra_check 1), (100, sample_gcra_check 1)]
     * 1000 \<le> 5 * 1000 + (100 - 0) * (10 :: nat)"
  using gcra_rate_bound [of sample_gcra 0 None 100
      "[(0, sample_gcra_check 5), (10, sample_gcra_check 1), (100, sample_gcra_check 1)]" "\<lambda>b. b"]
    sample_gcra_check_ok [of 5] sample_gcra_check_ok [of 1]
  by (simp add: within_burst_def width_simps)

text \<open>
  C37: the retry delay of a GCRA denial is exact. The denial reports a delay of \<open>r\<close> whole
  milliseconds, \<open>r\<close> positive, and if the stored TAT does not change the same check is denied at every
  earlier instant and admitted at every instant from \<open>now + r\<close> on.
\<close>

theorem gcra_retry_exact:
  assumes "gcra_check_ok sha c" and "now + d \<le> U64_MAX" and "within_burst (check_policy c) now tat"
    and "evaluate c now tat = Inr (Evaluation_Denied denial)"
  shows "\<exists>r > 0. qd_retry_after denial = Delay (from_millis r) \<and>
    ((\<exists>a. evaluate c (now + d) tat = Inr (Evaluation_Allowed a)) \<longleftrightarrow> r \<le> d)"
proof -
  let ?r = "div_ceil (candidate c now tat - ceiling (check_policy c) now) (gq (check_policy c))"
  note p = gcra_check_okD [OF assms(1)]
  note den = evaluate_Denied [OF assms(4)]
  have "0 < ?r" using den(1) p(1) by (simp add: div_ceil_pos)
  moreover have "qd_retry_after denial = Delay (from_millis ?r)"
    using den(2) by (simp add: QuotaDenial_new_def)
  moreover have "within_burst (check_policy c) (now + d) tat"
    using assms(3) by (rule within_burst_mono) simp
  then have "(\<exists>a. evaluate c (now + d) tat = Inr (Evaluation_Allowed a)) \<longleftrightarrow> ?r \<le> d"
    using evaluate_total [OF assms(1,2)] allowed_later_iff [OF den(1) p(1,5), of d]
    by (auto simp: exact_evaluate_def Let_def)
  ultimately show ?thesis by blast
qed

theorem gcra_retry_exact_witness:
  "\<exists>r > 0. qd_retry_after (QuotaDenial_new (Capacity 5) (from_millis 100)) = Delay (from_millis r) \<and>
    ((\<exists>a. evaluate (sample_gcra_check 1) (0 + 100) (Some 5000) = Inr (Evaluation_Allowed a)) \<longleftrightarrow> r \<le> 100)"
proof (rule gcra_retry_exact [of "\<lambda>b. b"])
  show "evaluate (sample_gcra_check 1) 0 (Some 5000) =
      Inr (Evaluation_Denied (QuotaDenial_new (Capacity 5) (from_millis 100)))"
    using evaluate_total [of "\<lambda>b. b" "sample_gcra_check 1" 0 "Some 5000"] sample_gcra_check_ok [of 1]
    by (simp add: exact_evaluate_def Let_def within_burst_def candidate_def ceiling_def active_tat_def
        div_ceil_def width_simps)
qed (use sample_gcra_check_ok [of 1] in \<open>simp_all add: within_burst_def ceiling_def width_simps\<close>)


text \<open>
  An expired GCRA entry is the same as no entry. Once the expiration an allowed check reported
  has been reached, every check of that policy is evaluated with the stored TAT exactly as it is
  without one, so a store may drop the entry; one millisecond earlier the TAT still matters.
\<close>

theorem gcra_expired_is_absent:
  assumes "gcra_check_ok sha c" and "evaluate c now tat = Inr (Evaluation_Allowed a)"
    and "now \<le> later" and "check_policy c' = check_policy c"
  shows "(pa_expires_at_millis a \<le> later \<longrightarrow>
      evaluate c' later (Some (pa_tat_scaled a)) = evaluate c' later None) \<and>
    (later < pa_expires_at_millis a \<longrightarrow> later * gq (check_policy c) < pa_tat_scaled a)"
proof -
  let ?p = "check_policy c"
  have q: "0 < gq ?p" by (rule gcra_check_okD(1) [OF assms(1)])
  note ex = evaluate_Allowed(3) [OF assms(2)]
  have "evaluate c' later (Some (pa_tat_scaled a)) = evaluate c' later None"
    if "pa_expires_at_millis a \<le> later"
    using expired_tat_irrelevant [OF q, of now "pa_tat_scaled a" later] that ex assms(4)
    by (simp add: evaluate_stale_tat)
  moreover have "later * gq ?p < pa_tat_scaled a" if "later < pa_expires_at_millis a"
  proof -
    have "(later - now) * gq ?p < pa_tat_scaled a - now * gq ?p"
      using that ex assms(3) by (intro div_ceil_least [OF q]) simp
    then show ?thesis using assms(3) by (simp add: diff_mult_distrib)
  qed
  ultimately show ?thesis by blast
qed

theorem gcra_expired_is_absent_witness:
  "evaluate (sample_gcra_check 2) 300 (Some 3000) = evaluate (sample_gcra_check 2) 300 None"
  using gcra_expired_is_absent [OF sample_gcra_check_ok sample_gcra_allowed, of 300 "sample_gcra_check 2"]
  by simp

text \<open>
  The available capacity a GCRA allowance reports is exact: directly afterwards, a check of the
  same policy is admitted exactly when its cost is at most that number.
\<close>

theorem gcra_available_exact:
  assumes "gcra_check_ok sha c" and "gcra_check_ok sha c'" and "check_policy c' = check_policy c"
    and "now \<le> U64_MAX" and "evaluate c now tat = Inr (Evaluation_Allowed a)"
  shows "(\<exists>a'. evaluate c' now (Some (pa_tat_scaled a)) = Inr (Evaluation_Allowed a')) \<longleftrightarrow>
    check_cost c' \<le> al_available (pa_allowance a)"
proof -
  let ?t = "Some (pa_tat_scaled a)" and ?p = "check_policy c"
  have burst: "within_burst (check_policy c') now ?t"
    using evaluate_allowed_burst [OF assms(5)] assms(3) by simp
  have "(\<exists>a'. evaluate c' now ?t = Inr (Evaluation_Allowed a')) \<longleftrightarrow>
      check_cost c' * gt ?p \<le> bucket_level ?p now ?t"
    using exact_allowed_iff [OF burst] evaluate_total [OF assms(2,4) burst] assms(3)
    by (auto simp: exact_evaluate_def Let_def not_less)
  also have "\<dots> \<longleftrightarrow> check_cost c' \<le> bucket_level ?p now ?t div gt ?p"
    using gcra_check_okD(2) [OF assms(1)] by (simp add: less_eq_div_iff_mult_less_eq)
  finally show ?thesis using evaluate_available [OF assms(5)] by simp
qed

theorem gcra_available_exact_witness:
  "(\<exists>a'. evaluate (sample_gcra_check 2) 0 (Some 3000) = Inr (Evaluation_Allowed a')) \<longleftrightarrow> 2 \<le> (2::nat)"
  using gcra_available_exact [OF sample_gcra_check_ok sample_gcra_check_ok _ _ sample_gcra_allowed, of 2]
  by simp

end
