(* ===== verification/Gcra_Store.thy ===== *)
theory Gcra_Store
  imports Sharded_Limiter Gcra_Core
begin

text \<open>
  The GCRA in-memory store (\<open>runlimit-memory\<close>, \<open>gcra.rs\<close>). Its checks are evaluated by the exact
  transition of \<open>Gcra_Core\<close> before anything in the shard changes, so that an arithmetic overflow
  leaves no trace; cleanup, admission and consumption are the loops it shares with the fixed-window
  store. Clock readings and measured times are arguments, as there.
\<close>

section \<open>Quota of one key\<close>

record gcra_entry =
  ge_tat_scaled :: nat

record gcra_prepared_check = prepared_check +
  gk_check :: "gcra_policy check"
  gk_quota_mode :: quota_mode

record gcra_evaluated_check = gcra_prepared_check +
  gk_evaluation :: evaluation

definition gcra_PreparedCheck_new :: "nat \<Rightarrow> gcra_policy check \<Rightarrow> nat \<Rightarrow> gcra_prepared_check" where
  "gcra_PreparedCheck_new input_index check shard_position =
     \<lparr>pc_input_index = input_index, pc_counter_key = counter_key gcra_trait check,
      pc_shard_position = shard_position, gk_check = check,
      gk_quota_mode = trait_quota_mode gcra_trait (check_policy check)\<rparr>"

text \<open>A prepared check together with its evaluation, as the batch zips the two vectors.\<close>

definition with_evaluation :: "gcra_prepared_check \<Rightarrow> evaluation \<Rightarrow> gcra_evaluated_check" where
  "with_evaluation check evaluated =
     \<lparr>pc_input_index = pc_input_index check, pc_counter_key = pc_counter_key check,
      pc_shard_position = pc_shard_position check, gk_check = gk_check check,
      gk_quota_mode = gk_quota_mode check, gk_evaluation = evaluated\<rparr>"

definition entry_tat :: "(gcra_entry \<times> nat) option \<Rightarrow> nat option" where
  "entry_tat active = map_option (\<lambda>(entry, _). ge_tat_scaled entry) active"

definition shard_evaluate ::
  "gcra_prepared_check \<Rightarrow> nat \<Rightarrow> gcra_entry shard \<Rightarrow> arithmetic_overflow + evaluation" where
  "shard_evaluate check now_millis shard =
     evaluate (gk_check check) now_millis (entry_tat (active_entry shard (pc_counter_key check) now_millis))"

definition gcra_consume ::
  "gcra_evaluated_check \<Rightarrow> pending_allowance \<Rightarrow> gcra_entry shard \<Rightarrow> gcra_entry shard \<times> allowance" where
  "gcra_consume check allowance shard =
     (shard_replace (pc_counter_key check) \<lparr>ge_tat_scaled = pa_tat_scaled allowance\<rparr>
        (pa_expires_at_millis allowance) shard,
      pa_allowance allowance)"

text \<open>
  The two branches of a computed evaluation, in the form the shared loops take. An allowance only
  reaches consumption when the evaluation was allowed, so the other branch of \<open>consume_evaluated\<close>
  does not exist in the source.
\<close>

definition evaluated_denial ::
  "nat \<Rightarrow> gcra_evaluated_check \<Rightarrow> gcra_entry shard \<Rightarrow> 'x failure + quota_denial option" where
  "evaluated_denial now_millis check shard =
     Inr (case gk_evaluation check of Evaluation_Allowed _ \<Rightarrow> None | Evaluation_Denied denial \<Rightarrow> Some denial)"

definition consume_evaluated ::
  "nat \<Rightarrow> gcra_evaluated_check \<Rightarrow> gcra_entry shard \<Rightarrow> gcra_entry shard \<times> ('x failure + allowance)" where
  "consume_evaluated now_millis check shard =
     (case gk_evaluation check of
        Evaluation_Allowed allowance \<Rightarrow>
          (case gcra_consume check allowance shard of (shard, allowance) \<Rightarrow> (shard, Inr allowance))
      | Evaluation_Denied _ \<Rightarrow> (shard, Inl Panicked))"

section \<open>One check\<close>

datatype gcra_check_error =
    GcraCheck_PoisonedShard poisoned_shard_error
  | GcraCheck_ArithmeticOverflow

datatype gcra_batch_error =
    GcraBatch_Store memory_batch_error
  | GcraBatch_ArithmeticOverflow

fun check_error_of_poison :: "poisoned_shard_error failure \<Rightarrow> gcra_check_error failure" where
  "check_error_of_poison (Failure e) = Failure (GcraCheck_PoisonedShard e)"
| "check_error_of_poison Panicked = Panicked"

fun batch_error_of_store :: "memory_batch_error failure \<Rightarrow> gcra_batch_error failure" where
  "batch_error_of_store (Failure e) = Failure (GcraBatch_Store e)"
| "batch_error_of_store Panicked = Panicked"

definition gcra_check_locked ::
  "memory_store_config \<Rightarrow> gcra_policy check \<Rightarrow> nat \<Rightarrow> duration \<Rightarrow> duration \<Rightarrow> gcra_entry shard
    \<Rightarrow> gcra_entry locked_shards \<times> (gcra_check_error failure + (decision \<times> shard_effect))" where
  "gcra_check_locked config check index clock_now cleanup_elapsed shard =
     (let prepared = gcra_PreparedCheck_new 0 check 0;
          observed_millis = as_millis clock_now;
          now_millis = max observed_millis (sh_latest_observed_millis shard)
      in section_try [(index, shard)]
           (map_err (\<lambda>_. Failure GcraCheck_ArithmeticOverflow)
             (shard_evaluate prepared now_millis shard)) (\<lambda>evaluated.
         let shard = record_observed_millis now_millis shard;
             cleanup_requested = cfg_max_expired_removals_per_check config;
             (shard, cleanup_removed) = prune_expired now_millis cleanup_requested shard;
             (shard, decided) = decide_single (evaluated_denial now_millis) (consume_evaluated now_millis)
               (gk_quota_mode prepared = Shadow) now_millis (with_evaluation prepared evaluated) shard
         in ([(index, shard)],
             map_ok (\<lambda>decision.
               (decision,
                \<lparr>sf_shard_index = index,
                 sf_cleanup = \<lparr>ce_requested = cleanup_requested, ce_removed = cleanup_removed,
                               ce_elapsed = cleanup_elapsed\<rparr>,
                 sf_used = shard_used shard, sf_capacity = sh_capacity shard\<rparr>)) decided)))"

definition gcra_check_inner ::
  "memory_store_config \<Rightarrow> gcra_entry bounded_shards \<Rightarrow> duration option \<Rightarrow> duration \<Rightarrow> gcra_policy check
    \<Rightarrow> gcra_entry bounded_shards \<times> (gcra_check_error failure + (decision \<times> shard_effect))" where
  "gcra_check_inner config shards clock cleanup_elapsed check =
     (let key = counter_key gcra_trait check;
          index = shard_index shards key
      in case map_err check_error_of_poison (lock_shard shards index) of
           Inl e \<Rightarrow> (shards, Inl e)
         | Inr shard \<Rightarrow>
             leave shards
               (section_try [(index, shard)] (expect clock) (\<lambda>clock_now.
                  gcra_check_locked config check index clock_now cleanup_elapsed shard)))"

section \<open>Atomic batches\<close>

definition gcra_prepare :: "gcra_policy check list \<Rightarrow> batch_topology \<Rightarrow> gcra_prepared_check list" where
  "gcra_prepare checks topology =
     map (\<lambda>i. gcra_PreparedCheck_new i (checks ! i) (bt_input_positions topology ! i)) [0..<length checks]"

fun evaluate_loop ::
  "nat \<Rightarrow> gcra_entry locked_shards \<Rightarrow> gcra_prepared_check list
    \<Rightarrow> gcra_batch_error failure + gcra_evaluated_check list" where
  "evaluate_loop now_millis locked [] = Inr []"
| "evaluate_loop now_millis locked (check # rest) =
     try_bind (locked_shard locked (pc_shard_position check)) (\<lambda>shard.
     try_bind (map_err (\<lambda>_. Failure GcraBatch_ArithmeticOverflow)
         (shard_evaluate check now_millis shard)) (\<lambda>evaluated.
     map_ok (Cons (with_evaluation check evaluated)) (evaluate_loop now_millis locked rest)))"

definition gcra_check_all_locked ::
  "memory_store_config \<Rightarrow> gcra_policy check list \<Rightarrow> batch_topology \<Rightarrow> duration \<Rightarrow> (nat \<Rightarrow> duration)
    \<Rightarrow> gcra_entry locked_shards
    \<Rightarrow> gcra_entry locked_shards \<times> (gcra_batch_error failure + (batch_decision \<times> shard_effect list))" where
  "gcra_check_all_locked config checks topology clock_now timer locked =
     (let prepared = gcra_prepare checks topology;
          now_millis = batch_now (as_millis clock_now) locked
      in section_try locked (evaluate_loop now_millis locked prepared) (\<lambda>evaluated.
         let (locked, cleanup_effects) =
               cleanup_loop now_millis (cfg_max_expired_removals_per_check config) timer 0
                 (zip locked (map bs_check_count (bt_shards topology)));
             (locked, decided) = admit_batch (evaluated_denial now_millis) (consume_evaluated now_millis)
               (\<lambda>check. gk_quota_mode check = Shadow) now_millis (length checks) locked evaluated
         in (locked, map_ok (\<lambda>decision. (decision, collect_shard_effects locked cleanup_effects)) decided)))"

definition gcra_check_all_inner ::
  "memory_store_config \<Rightarrow> gcra_entry bounded_shards \<Rightarrow> duration option \<Rightarrow> (nat \<Rightarrow> duration)
    \<Rightarrow> gcra_policy check list
    \<Rightarrow> gcra_entry bounded_shards \<times> (gcra_batch_error failure + (batch_decision \<times> shard_effect list))" where
  "gcra_check_all_inner config shards clock timer checks =
     (case map_err batch_error_of_store
        (try_bind (map_err (Failure \<circ> InvalidBatch)
            (validate_batch gcra_trait checks (cfg_max_batch_size config))) (\<lambda>_.
        try_bind (BatchTopology_new
            (map (\<lambda>check. shard_index shards (counter_key gcra_trait check)) checks) config) (\<lambda>topology.
        map_ok (Pair topology) (map_err batch_error_of_poison (lock_topology shards topology)))))
      of
        Inl e \<Rightarrow> (shards, Inl e)
      | Inr (topology, locked) \<Rightarrow>
          leave shards
            (section_try locked (expect clock) (\<lambda>clock_now.
               gcra_check_all_locked config checks topology clock_now timer locked)))"

section \<open>The store\<close>

record gcra_store =
  gs_config :: memory_store_config
  gs_shards :: "gcra_entry bounded_shards"
  gs_has_observer :: bool

definition GcraStore_build :: "memory_store_config \<Rightarrow> gcra_store" where
  "GcraStore_build config =
     \<lparr>gs_config = config, gs_shards = BoundedShards_new config, gs_has_observer = False\<rparr>"

definition gs_with_observer :: "gcra_store \<Rightarrow> gcra_store" where
  "gs_with_observer store = store\<lparr>gs_has_observer := True\<rparr>"

definition gs_check ::
  "gcra_store \<Rightarrow> duration option \<Rightarrow> duration \<Rightarrow> duration \<Rightarrow> gcra_policy check
    \<Rightarrow> gcra_store \<times> observation list \<times> (gcra_check_error failure + decision)" where
  "gs_check store clock cleanup_elapsed elapsed check =
     (let (shards, result) = gcra_check_inner (gs_config store) (gs_shards store) clock cleanup_elapsed check;
          obs = (case result of
              Inr (decision, effect) \<Rightarrow>
                observe_shard_effect (gs_has_observer store) effect @
                observe_admission (gs_has_observer store)
                  (observe_from_check gcra_trait check decision elapsed)
            | Inl (Failure _) \<Rightarrow>
                observe_admission (gs_has_observer store)
                  (failed_check gcra_trait check NotConsumed elapsed)
            | Inl Panicked \<Rightarrow> [])
      in (store\<lparr>gs_shards := shards\<rparr>, obs, map_ok fst result))"

definition gs_check_all ::
  "gcra_store \<Rightarrow> duration option \<Rightarrow> (nat \<Rightarrow> duration) \<Rightarrow> duration \<Rightarrow> gcra_policy check list
    \<Rightarrow> gcra_store \<times> observation list \<times> (gcra_batch_error failure + batch_decision)" where
  "gs_check_all store clock timer elapsed checks =
     (let (shards, result) = gcra_check_all_inner (gs_config store) (gs_shards store) clock timer checks;
          obs = (case result of
              Inr (decision, effects) \<Rightarrow>
                observe_shard_effects (gs_has_observer store) effects @
                observe_admission (gs_has_observer store)
                  (observe_from_batch gcra_trait checks decision elapsed)
            | Inl (Failure _) \<Rightarrow>
                observe_admission (gs_has_observer store)
                  (failed_batch gcra_trait checks NotConsumed elapsed)
            | Inl Panicked \<Rightarrow> [])
      in (store\<lparr>gs_shards := shards\<rparr>, obs, map_ok fst result))"

definition gs_stats :: "gcra_store \<Rightarrow> poisoned_shard_error failure + memory_store_stats" where
  "gs_stats store = BoundedShards_stats (gs_shards store) (gs_config store)"

definition gs_clear :: "gcra_store \<Rightarrow> gcra_store \<times> (poisoned_shard_error failure + unit)" where
  "gs_clear store =
     (let (shards, result) = BoundedShards_clear (gs_shards store)
      in (store\<lparr>gs_shards := shards\<rparr>, result))"

definition gs_recover_poisoned :: "gcra_store \<Rightarrow> gcra_store \<times> nat" where
  "gs_recover_poisoned store =
     (let (shards, recovered) = recover_poisoned (gs_shards store) (gs_config store)
      in (store\<lparr>gs_shards := shards\<rparr>, recovered))"

definition gs_limiter_check ::
  "gcra_store \<Rightarrow> call_environment \<Rightarrow> gcra_policy check
    \<Rightarrow> gcra_store \<times> (gcra_check_error failure + decision)" where
  "gs_limiter_check store env check =
     (case env of (clock, timer, elapsed) \<Rightarrow>
        case gs_check store clock (timer 0) elapsed check of (store, _, result) \<Rightarrow> (store, result))"

definition gs_limiter_check_all ::
  "gcra_store \<Rightarrow> call_environment \<Rightarrow> gcra_policy check list
    \<Rightarrow> gcra_store \<times> (gcra_batch_error failure + batch_decision)" where
  "gs_limiter_check_all store env checks =
     (case env of (clock, timer, elapsed) \<Rightarrow>
        case gs_check_all store clock timer elapsed checks of (store, _, result) \<Rightarrow> (store, result))"

section \<open>The GCRA algorithm on one key\<close>

definition gcra_decide ::
  "nat \<Rightarrow> gcra_evaluated_check \<Rightarrow> (gcra_entry \<times> nat) option \<Rightarrow> quota_denial option" where
  "gcra_decide now pc q =
     (case gk_evaluation pc of Evaluation_Allowed _ \<Rightarrow> None | Evaluation_Denied denial \<Rightarrow> Some denial)"

text \<open>What an allowed evaluation writes; there is nothing to write for a denied one.\<close>

definition gcra_plan ::
  "nat \<Rightarrow> gcra_evaluated_check \<Rightarrow> (gcra_entry \<times> nat) option \<Rightarrow> gcra_entry \<times> nat \<times> allowance" where
  "gcra_plan now pc q =
     (case gk_evaluation pc of
        Evaluation_Allowed a \<Rightarrow> (\<lparr>ge_tat_scaled = pa_tat_scaled a\<rparr>, pa_expires_at_millis a, pa_allowance a)
      | Evaluation_Denied _ \<Rightarrow> undefined)"

definition gcra_good :: "nat \<Rightarrow> gcra_evaluated_check \<Rightarrow> bool" where
  "gcra_good now pc \<longleftrightarrow>
     (\<exists>sha256 tat. gcra_check_ok sha256 (gk_check pc) \<and> evaluate (gk_check pc) now tat = Inr (gk_evaluation pc))"

definition gcra_represents ::
  "nat \<Rightarrow> gcra_policy check \<Rightarrow> (gcra_entry \<times> nat) option \<Rightarrow> gcra_evaluated_check \<Rightarrow> bool" where
  "gcra_represents now c q pc \<longleftrightarrow>
     (\<exists>i p e. pc = with_evaluation (gcra_PreparedCheck_new i c p) e \<and> evaluate c now (entry_tat q) = Inr e)"

definition gcra_admissible ::
  "nat \<Rightarrow> gcra_policy check \<Rightarrow> (gcra_entry \<times> nat) option \<Rightarrow> bool" where
  "gcra_admissible now c q \<longleftrightarrow>
     (case evaluate c now (entry_tat q) of Inr (Evaluation_Allowed _) \<Rightarrow> True | _ \<Rightarrow> False)"

definition gcra_charge ::
  "nat \<Rightarrow> gcra_policy check \<Rightarrow> (gcra_entry \<times> nat) option \<Rightarrow> nat \<Rightarrow> (gcra_entry \<times> nat) option" where
  "gcra_charge now c q t =
     (case evaluate c now (entry_tat q) of
        Inr (Evaluation_Allowed a) \<Rightarrow>
          if t < pa_expires_at_millis a
          then Some (\<lparr>ge_tat_scaled = pa_tat_scaled a\<rparr>, pa_expires_at_millis a) else None
      | _ \<Rightarrow> None)"

lemmas gcra_evaluated_simps = with_evaluation_def gcra_PreparedCheck_new_def

lemma allowed_expiry:
  assumes "gcra_check_ok sha256 c" and "evaluate c now tat = Inr (Evaluation_Allowed a)"
  shows "now < pa_expires_at_millis a" and "pa_expires_at_millis a \<le> now + MAX_WINDOW_MILLIS"
proof -
  let ?p = "check_policy c"
  note p = gcra_check_okD [OF assms(1)] and a = evaluate_Allowed [OF assms(2)]
  have "0 < check_cost c * gt ?p" using p(2,4) by simp
  then have "now * gq ?p < pa_tat_scaled a"
    using active_tat_ge [of now ?p tat] unfolding a(1) candidate_def by linarith
  then show "now < pa_expires_at_millis a" using a(3) p(1) by (simp add: div_ceil_pos)
  have "pa_tat_scaled a - now * gq ?p \<le> MAX_WINDOW_MILLIS * gq ?p"
    using a(2) p(8) unfolding ceiling_def by linarith
  then show "pa_expires_at_millis a \<le> now + MAX_WINDOW_MILLIS"
    using a(3) p(1) by (simp add: div_ceil_le_iff)
qed

interpretation gcra_quota: shard_quota evaluated_denial consume_evaluated gcra_good gcra_decide gcra_plan
proof
  show "evaluated_denial now c s = Inr (gcra_decide now c (active_entry s (pc_counter_key c) now))" for now c s
    by (simp add: evaluated_denial_def gcra_decide_def)
next
  fix now c s v x a
  assume good: "gcra_good now c"
    and allow: "gcra_decide now c (active_entry s (pc_counter_key c) now) = None"
    and plan: "gcra_plan now c (active_entry s (pc_counter_key c) now) = (v, x, a)"
  from allow obtain b where b: "gk_evaluation c = Evaluation_Allowed b"
    by (auto simp: gcra_decide_def split: evaluation.splits)
  with good obtain sha tat where "gcra_check_ok sha (gk_check c)" "evaluate (gk_check c) now tat = Inr (Evaluation_Allowed b)"
    by (auto simp: gcra_good_def)
  from allowed_expiry [OF this] b plan
  show "\<exists>s'. consume_evaluated now c s = (s', Inr a) \<and> puts (pc_counter_key c) v x s s' \<and>
      now < x \<and> x \<le> now + MAX_WINDOW_MILLIS"
    by (auto simp: consume_evaluated_def gcra_consume_def gcra_plan_def puts_replace)
qed

interpretation gcra_sharded: sharded_limiter evaluated_denial consume_evaluated gcra_good gcra_decide gcra_plan
    gcra_trait "gcra_check_ok sha256" gcra_represents gcra_admissible gcra_charge
  for sha256
proof
  fix now c q pc v x a t
  assume r: "gcra_represents now c q pc"
  then show "pc_counter_key pc = counter_key gcra_trait c"
    by (auto simp: gcra_represents_def gcra_evaluated_simps)
  show "gcra_good now pc" if "gcra_check_ok sha256 c"
    using r that by (auto simp: gcra_represents_def gcra_evaluated_simps gcra_good_def)
  show "gcra_admissible now c q" if "gcra_decide now pc q = None"
    using r that
    by (auto simp: gcra_represents_def gcra_evaluated_simps gcra_decide_def gcra_admissible_def
        split: evaluation.splits)
  show "gcra_charge now c q t = (if t < x then Some (v, x) else None)"
    if "gcra_decide now pc q = None" "gcra_plan now pc q = (v, x, a)"
    using r that
    by (auto simp: gcra_represents_def gcra_evaluated_simps gcra_plan_def gcra_charge_def gcra_decide_def
        split: evaluation.splits)
qed

section \<open>Operations of the store\<close>

lemma gcra_check_inner_healthy:
  assumes "shards_ok config shards" and "gcra_check_ok sha256 c"
    and "\<not> mx_poisoned (shards ! shard_index shards (counter_key gcra_trait c))"
    and now_def: "now = max (as_millis d0) (store_observed shards (counter_key gcra_trait c))"
    and ev: "evaluate c now (entry_tat (store_active shards (counter_key gcra_trait c) now)) = Inr e"
    and s1_def: "s1 = swept config now (mx_shard (shards ! shard_index shards (counter_key gcra_trait c)))"
  shows "\<exists>shards' d eff. gcra_check_inner config shards (Some d0) el c = (shards', Inr (d, eff)) \<and>
    shards_ok config shards' \<and> store_observed shards' (counter_key gcra_trait c) = now \<and>
    charged gcra_trait store_active store_observed gcra_admissible gcra_charge
      (if decision_consumes d then [c] else []) shards shards' \<and>
    (case e of
       Evaluation_Denied q \<Rightarrow> d = (if check_mode gcra_trait c = Shadow then Decision_shadow_denied q
         else Decision_Denied (QuotaExceeded q))
     | Evaluation_Allowed a \<Rightarrow>
           if \<not> contains_key s1 (counter_key gcra_trait c) \<and> sh_capacity s1 \<le> shard_used s1
           then \<exists>r. storage_capacity_denial s1 now = Some (StorageCapacity r) \<and> d = Decision_Denied (StorageCapacity r)
           else d = Decision_allowed (pa_allowance a))"
proof -
  let ?k = "counter_key gcra_trait c"
  let ?i = "shard_index shards ?k"
  let ?s = "mx_shard (shards ! ?i)"
  let ?pc = "with_evaluation (gcra_PreparedCheck_new 0 c 0) e"
  have i: "?i < length shards" by (rule shard_index_less [OF assms(1)])
  obtain n where pr: "prune_expired now (cfg_max_expired_removals_per_check config)
      (record_observed_millis now ?s) = (s1, n)"
    unfolding s1_def swept_def by (metis prod.collapse)
  have s1: "prunes now (record_observed_millis now ?s) s1" "shard_ok s1"
    unfolding s1_def using swept_spec shards_okD(1) [OF assms(1) i assms(3)] by auto
  have rep: "gcra_represents now c (store_active shards ?k now) ?pc"
    using ev by (auto simp: gcra_represents_def)
  have "store_observed shards ?k \<le> now" by (simp add: now_def)
  then have "\<exists>s' d. (decide_single (evaluated_denial now) (consume_evaluated now)
        (check_mode gcra_trait c = Shadow) now ?pc s1
        :: gcra_entry shard \<times> (gcra_check_error failure + decision)) = (s', Inr d) \<and>
      shards_ok config (unlock shards [(?i, s')]) \<and>
      store_observed (unlock shards [(?i, s')]) ?k = now \<and>
      charged gcra_trait store_active store_observed gcra_admissible gcra_charge
        (if decision_consumes d then [c] else []) shards (unlock shards [(?i, s')]) \<and>
      (decision_consumes d \<longleftrightarrow> gcra_decide now ?pc (store_active shards ?k now) = None \<and>
         (contains_key s1 ?k \<or> shard_used s1 < sh_capacity s1)) \<and>
      (\<forall>v x a. decision_consumes d \<longrightarrow> gcra_plan now ?pc (store_active shards ?k now) = (v, x, a) \<longrightarrow>
         d = Decision_allowed a) \<and>
      (case gcra_decide now ?pc (store_active shards ?k now) of
         Some q \<Rightarrow> d = (if check_mode gcra_trait c = Shadow then Decision_shadow_denied q
           else Decision_Denied (QuotaExceeded q))
       | None \<Rightarrow>
           if \<not> contains_key s1 (counter_key gcra_trait c) \<and> sh_capacity s1 \<le> shard_used s1
           then \<exists>r. storage_capacity_denial s1 now = Some (StorageCapacity r) \<and> d = Decision_Denied (StorageCapacity r)
           else decision_consumes d)"
    by (rule gcra_sharded.single_charged [OF assms(1,2,3) refl _ rep s1])
  then obtain s' d where r: "(decide_single (evaluated_denial now) (consume_evaluated now)
        (check_mode gcra_trait c = Shadow) now ?pc s1
        :: gcra_entry shard \<times> (gcra_check_error failure + decision)) = (s', Inr d)"
    and rest: "shards_ok config (unlock shards [(?i, s')])"
      "store_observed (unlock shards [(?i, s')]) ?k = now"
      "charged gcra_trait store_active store_observed gcra_admissible gcra_charge
        (if decision_consumes d then [c] else []) shards (unlock shards [(?i, s')])"
    and plan: "\<forall>v x a. decision_consumes d \<longrightarrow> gcra_plan now ?pc (store_active shards ?k now) = (v, x, a) \<longrightarrow>
         d = Decision_allowed a"
    and dec: "case gcra_decide now ?pc (store_active shards ?k now) of
         Some q \<Rightarrow> d = (if check_mode gcra_trait c = Shadow then Decision_shadow_denied q
           else Decision_Denied (QuotaExceeded q))
       | None \<Rightarrow>
           if \<not> contains_key s1 (counter_key gcra_trait c) \<and> sh_capacity s1 \<le> shard_used s1
           then \<exists>r. storage_capacity_denial s1 now = Some (StorageCapacity r) \<and> d = Decision_Denied (StorageCapacity r)
           else decision_consumes d"
    by blast
  have out: "case e of
       Evaluation_Denied q \<Rightarrow> d = (if check_mode gcra_trait c = Shadow then Decision_shadow_denied q
         else Decision_Denied (QuotaExceeded q))
     | Evaluation_Allowed a \<Rightarrow>
           if \<not> contains_key s1 (counter_key gcra_trait c) \<and> sh_capacity s1 \<le> shard_used s1
           then \<exists>r. storage_capacity_denial s1 now = Some (StorageCapacity r) \<and> d = Decision_Denied (StorageCapacity r)
           else d = Decision_allowed (pa_allowance a)"
  proof (cases e)
    case (Evaluation_Allowed a)
    with plan dec show ?thesis by (auto simp: gcra_plan_def gcra_decide_def with_evaluation_def split: if_splits)
  next
    case (Evaluation_Denied q)
    with dec show ?thesis by (simp add: gcra_decide_def with_evaluation_def)
  qed
  have now: "now = max (as_millis d0) (sh_latest_observed_millis ?s)" by (simp add: now_def store_observed_def)
  have ev': "shard_evaluate (gcra_PreparedCheck_new 0 c 0) now ?s = Inr e"
    using ev by (simp add: shard_evaluate_def gcra_PreparedCheck_new_def store_active_def)
  have mode: "gk_quota_mode (gcra_PreparedCheck_new 0 c 0) = check_mode gcra_trait c"
    by (simp add: gcra_PreparedCheck_new_def check_mode_def)
  have "\<exists>eff. gcra_check_inner config shards (Some d0) el c = (unlock shards [(?i, s')], Inr (d, eff))"
    using pr r assms(3) now ev'
    by (simp add: gcra_check_inner_def Let_def lock_shard_cases [OF assms(1)] gcra_check_locked_def mode)
  with rest out show ?thesis by blast
qed

lemma gcra_check_inner_unhealthy:
  assumes "shards_ok config shards"
    and i_def: "i = shard_index shards (counter_key gcra_trait c)"
  shows "mx_poisoned (shards ! i) \<Longrightarrow>
      gcra_check_inner config shards clock el c =
        (shards, Inl (Failure (GcraCheck_PoisonedShard (PoisonedShardError i))))"
    and "\<not> mx_poisoned (shards ! i) \<Longrightarrow>
      gcra_check_inner config shards None el c = (unwind shards [i], Inl Panicked)"
    and "\<not> mx_poisoned (shards ! i) \<Longrightarrow>
      evaluate c (max (as_millis d0) (store_observed shards (counter_key gcra_trait c)))
        (entry_tat (store_active shards (counter_key gcra_trait c)
          (max (as_millis d0) (store_observed shards (counter_key gcra_trait c))))) = Inl x \<Longrightarrow>
      gcra_check_inner config shards (Some d0) el c = (shards, Inl (Failure GcraCheck_ArithmeticOverflow))"
  by (simp_all add: gcra_check_inner_def Let_def lock_shard_cases [OF assms(1)] i_def gcra_check_locked_def
      shard_evaluate_def gcra_PreparedCheck_new_def store_active_def store_observed_def)

lemma gcra_check_inner_spec:
  assumes "shards_ok config shards" and "gcra_check_ok sha256 c"
    and "gcra_check_inner config shards clock el c = (shards', r)"
  shows "shards_ok config shards' \<and>
    charged gcra_trait store_active store_observed gcra_admissible gcra_charge
      (case r of Inr (d, _) \<Rightarrow> if decision_consumes d then [c] else [] | Inl _ \<Rightarrow> []) shards shards' \<and>
    (r = Inl Panicked \<longrightarrow> clock = None)"
proof (cases "mx_poisoned (shards ! shard_index shards (counter_key gcra_trait c))")
  case True
  then show ?thesis
    using gcra_check_inner_unhealthy(1) [OF assms(1) refl] assms(1,3) by (auto simp: charged_refl)
next
  case False
  show ?thesis
  proof (cases clock)
    case None
    then show ?thesis
      using gcra_check_inner_unhealthy(2) [OF assms(1) refl False] assms(1,3)
      by (auto simp: charged_unwind shards_ok_unwind simp del: unwind.simps)
  next
    case (Some d0)
    let ?k = "counter_key gcra_trait c"
    let ?now = "max (as_millis d0) (store_observed shards ?k)"
    show ?thesis
    proof (cases "evaluate c ?now (entry_tat (store_active shards ?k ?now))")
      case (Inl x)
      then show ?thesis
        using gcra_check_inner_unhealthy(3) [OF assms(1) refl False Inl] Some assms(1,3) by (auto simp: charged_refl)
    next
      case (Inr e)
      with gcra_check_inner_healthy [OF assms(1,2) False refl Inr refl, of el] Some assms(3) show ?thesis by auto
    qed
  qed
qed

lemma gcra_prepare_nth:
  "j < length cs \<Longrightarrow> gcra_prepare cs t ! j = gcra_PreparedCheck_new j (cs ! j) (bt_input_positions t ! j)"
  "length (gcra_prepare cs t) = length cs"
  by (simp_all add: gcra_prepare_def)

lemma evaluate_loop_Inr:
  assumes "evaluate_loop now locked pcs = Inr es"
  shows "length es = length pcs \<and> (\<forall>j < length pcs. \<exists>e.
    es ! j = with_evaluation (pcs ! j) e \<and> pc_shard_position (pcs ! j) < length locked \<and>
    shard_evaluate (pcs ! j) now (snd (locked ! pc_shard_position (pcs ! j))) = Inr e)"
  using assms
proof (induction pcs arbitrary: es)
  case Nil
  then show ?case by simp
next
  case (Cons c pcs)
  then obtain e es' where "es = with_evaluation c e # es'" "evaluate_loop now locked pcs = Inr es'"
      "pc_shard_position c < length locked"
      "shard_evaluate c now (snd (locked ! pc_shard_position c)) = Inr e"
    by (auto simp: result_simps locked_shard_def split: if_splits)
  with Cons.IH show ?case by (auto simp: less_Suc_eq_0_disj)
qed

lemma evaluate_loop_Inl:
  assumes "\<forall>c \<in> set pcs. pc_shard_position c < length locked"
  shows "evaluate_loop now locked pcs \<noteq> Inl Panicked"
  using assms
proof (induction pcs)
  case Nil
  then show ?case by simp
next
  case (Cons c pcs)
  show ?case
  proof (cases "shard_evaluate c now (snd (locked ! pc_shard_position c))")
    case (Inl x)
    with Cons.prems show ?thesis by (simp add: locked_shard_def)
  next
    case (Inr e)
    with Cons show ?thesis
      by (cases "evaluate_loop now locked pcs") (auto simp: locked_shard_def)
  qed
qed

lemma locked_position:
  assumes "topology_ok config (map (\<lambda>c. shard_index shards (counter_key D c)) cs) topology"
    and "lock_topology shards topology = Inr locked" and "j < length cs"
  shows "bt_input_positions topology ! j < length locked"
    and "snd (locked ! (bt_input_positions topology ! j)) =
      mx_shard (shards ! shard_index shards (counter_key D (cs ! j)))"
proof -
  let ?p = "bt_input_positions topology ! j"
  have l: "locked = map (\<lambda>i. (i, mx_shard (shards ! i))) (map bs_index (bt_shards topology))"
    using assms(2) unfolding lock_topology_def lock_shards_Inr by blast
  have p: "?p < length (bt_shards topology)"
      "bs_index (bt_shards topology ! ?p) = shard_index shards (counter_key D (cs ! j))"
    using assms(1,3) by (auto simp: topology_ok_def positions_ok_def)
  then show "?p < length locked"
    and "snd (locked ! ?p) = mx_shard (shards ! shard_index shards (counter_key D (cs ! j)))"
    by (simp_all add: l)
qed

lemma gcra_check_all_locked_spec:
  assumes "shards_ok config shards" and "\<forall>c \<in> set cs. gcra_check_ok sha256 c"
    and "validate_batch gcra_trait cs m = Inr ()"
    and "topology_ok config (map (\<lambda>c. shard_index shards (counter_key gcra_trait c)) cs) topology"
    and "lock_topology shards topology = Inr locked"
    and "evaluate_loop (batch_now (as_millis d0) locked) locked (gcra_prepare cs topology) = Inr es"
  shows "\<exists>locked2 d eff. gcra_check_all_locked config cs topology d0 timer locked = (locked2, Inr (d, eff)) \<and>
    shards_ok config (unlock shards locked2) \<and>
    charged gcra_trait store_active store_observed gcra_admissible gcra_charge
      (if batch_consumes d then cs else []) shards (unlock shards locked2) \<and>
    (\<forall>as. d = Batch_Allowed as \<longrightarrow> length as = length cs)"
proof -
  let ?now = "batch_now (as_millis d0) locked" and ?key = "counter_key gcra_trait"
  obtain locked1 effects where cl: "cleanup_loop ?now (cfg_max_expired_removals_per_check config) timer 0
      (zip locked (map bs_check_count (bt_shards topology))) = (locked1, effects)" by fastforce
  have late: "\<forall>(i, s) \<in> set locked. sh_latest_observed_millis s \<le> ?now"
    using batch_now_latest by fastforce
  have len: "length es = length cs" using evaluate_loop_Inr [OF assms(6)] by (simp add: gcra_prepare_nth)
  have es: "pc_input_index (es ! j) = j \<and> pc_shard_position (es ! j) = bt_input_positions topology ! j \<and>
      gcra_represents ?now (cs ! j) (store_active shards (?key (cs ! j)) ?now) (es ! j)" if j: "j < length cs" for j
  proof -
    from evaluate_loop_Inr [OF assms(6)] j obtain e where
      "es ! j = with_evaluation (gcra_PreparedCheck_new j (cs ! j) (bt_input_positions topology ! j)) e"
      "shard_evaluate (gcra_PreparedCheck_new j (cs ! j) (bt_input_positions topology ! j)) ?now
        (snd (locked ! (bt_input_positions topology ! j))) = Inr e"
      by (auto simp: gcra_prepare_nth gcra_PreparedCheck_new_def)
    moreover note locked_position(2) [OF assms(4,5) j]
    ultimately show ?thesis
      by (auto simp: gcra_represents_def shard_evaluate_def store_active_def gcra_evaluated_simps)
  qed
  from gcra_sharded.batch_setting_intro [OF assms(1-5) cl late len es]
  have "gcra_sharded.batch_setting sha256 config shards ?now cs locked1 es" by blast
  then have "\<exists>locked2 d. (admit_batch (evaluated_denial ?now) (consume_evaluated ?now)
        (\<lambda>check. gk_quota_mode check = Shadow) ?now (length cs) locked1 es
        :: _ \<times> (gcra_batch_error failure + _)) = (locked2, Inr d) \<and>
      shards_ok config (unlock shards locked2) \<and>
      charged gcra_trait store_active store_observed gcra_admissible gcra_charge
        (if batch_consumes d then cs else []) shards (unlock shards locked2) \<and>
      (\<forall>as. d = Batch_Allowed as \<longrightarrow> length as = length cs)"
    by (rule gcra_sharded.batch_charged)
  then obtain locked2 d where r: "(admit_batch (evaluated_denial ?now) (consume_evaluated ?now)
        (\<lambda>check. gk_quota_mode check = Shadow) ?now (length cs) locked1 es
        :: _ \<times> (gcra_batch_error failure + _)) = (locked2, Inr d)"
    and rest: "shards_ok config (unlock shards locked2)"
      "charged gcra_trait store_active store_observed gcra_admissible gcra_charge
        (if batch_consumes d then cs else []) shards (unlock shards locked2)"
      "\<forall>as. d = Batch_Allowed as \<longrightarrow> length as = length cs"
    by blast
  have "\<exists>eff. gcra_check_all_locked config cs topology d0 timer locked = (locked2, Inr (d, eff))"
    using assms(6) by (simp add: gcra_check_all_locked_def Let_def cl r)
  with rest show ?thesis by blast
qed

lemma gcra_check_all_inner_spec:
  assumes "shards_ok config shards" and "\<forall>c \<in> set cs. gcra_check_ok sha256 c"
    and "gcra_check_all_inner config shards clock timer cs = (shards', r)"
  shows "shards_ok config shards' \<and>
    charged gcra_trait store_active store_observed gcra_admissible gcra_charge
      (case r of Inr (d, _) \<Rightarrow> if batch_consumes d then cs else [] | Inl _ \<Rightarrow> []) shards shards' \<and>
    (r = Inl Panicked \<longrightarrow> clock = None) \<and>
    (\<forall>as eff. r = Inr (Batch_Allowed as, eff) \<longrightarrow> length as = length cs) \<and>
    (r = Inl (Failure GcraBatch_ArithmeticOverflow) \<longrightarrow> shards' = shards)"
proof -
  let ?v = "validate_batch gcra_trait cs (cfg_max_batch_size config)"
  let ?is = "map (\<lambda>c. shard_index shards (counter_key gcra_trait c)) cs"
  show ?thesis
  proof (cases ?v)
    case (Inl e)
    with assms show ?thesis by (auto simp: gcra_check_all_inner_def charged_refl)
  next
    case (Inr u)
    then have v: "?v = Inr ()" by simp
    show ?thesis
    proof (cases "BatchTopology_new ?is config")
      case (Inl e)
      with BatchTopology_new_cases [of ?is config] obtain x where "e = Failure x" by (cases e) auto
      with Inl v assms show ?thesis by (auto simp: gcra_check_all_inner_def charged_refl)
    next
      case (Inr t)
      with BatchTopology_new_cases [of ?is config] have top: "topology_ok config ?is t" by simp
      show ?thesis
      proof (cases "lock_topology shards t")
        case (Inl e)
        then obtain i where "e = Failure (PoisonedShardError i)"
          using lock_shards_Inl topology_indexes_ok [OF assms(1) top] unfolding lock_topology_def by blast
        with Inl Inr v assms show ?thesis by (auto simp: gcra_check_all_inner_def charged_refl)
      next
        case locked: (Inr locked)
        show ?thesis
        proof (cases clock)
          case None
          with locked Inr v assms(1,3) show ?thesis
            by (auto simp: gcra_check_all_inner_def unlock_locked charged_unwind shards_ok_unwind)
        next
          case (Some d0)
          let ?now = "batch_now (as_millis d0) locked"
          show ?thesis
          proof (cases "evaluate_loop ?now locked (gcra_prepare cs t)")
            case (Inl e)
            have "\<forall>c \<in> set (gcra_prepare cs t). pc_shard_position c < length locked"
              using locked_position(1) [OF top locked]
              by (auto simp: gcra_prepare_def gcra_PreparedCheck_new_def)
            with evaluate_loop_Inl Inl obtain x where "e = Failure x" by (cases e) auto
            with Inl Some locked Inr v assms(1,3) show ?thesis
              by (auto simp: gcra_check_all_inner_def gcra_check_all_locked_def Let_def unlock_locked charged_refl)
          next
            case es: (Inr es)
            obtain locked2 d eff where "gcra_check_all_locked config cs t d0 timer locked = (locked2, Inr (d, eff))"
                "shards_ok config (unlock shards locked2)"
                "charged gcra_trait store_active store_observed gcra_admissible gcra_charge
                  (if batch_consumes d then cs else []) shards (unlock shards locked2)"
                "\<forall>as. d = Batch_Allowed as \<longrightarrow> length as = length cs"
              using gcra_check_all_locked_spec [OF assms(1,2) v top locked es] by blast
            with Some locked Inr v assms(3) show ?thesis by (auto simp: gcra_check_all_inner_def)
          qed
        qed
      qed
    qed
  qed
qed

section \<open>The limiter contract\<close>

definition gs_ok :: "gcra_store \<Rightarrow> bool" where
  "gs_ok store \<longleftrightarrow> shards_ok (gs_config store) (gs_shards store)"

definition gs_quota :: "gcra_store \<Rightarrow> counter_key \<Rightarrow> nat \<Rightarrow> (gcra_entry \<times> nat) option" where
  "gs_quota = (\<lambda>store. store_active (gs_shards store))"

definition gs_observed :: "gcra_store \<Rightarrow> counter_key \<Rightarrow> nat" where
  "gs_observed = (\<lambda>store. store_observed (gs_shards store))"

lemma gcra_charged_store:
  "charged D gs_quota gs_observed admissible charge cs store (store\<lparr>gs_shards := shards\<rparr>) =
   charged D store_active store_observed admissible charge cs (gs_shards store) shards"
  unfolding gs_quota_def gs_observed_def
  by (simp add: charged_comp [where f = gs_shards])

lemma gs_limiter_check_eq:
  assumes "gcra_check_inner (gs_config store) (gs_shards store) clock (timer 0) c = (shards, r)"
  shows "gs_limiter_check store (clock, timer, elapsed) c = (store\<lparr>gs_shards := shards\<rparr>, map_ok fst r)"
  using assms by (simp add: gs_limiter_check_def gs_check_def Let_def)

lemma gs_limiter_check_all_eq:
  assumes "gcra_check_all_inner (gs_config store) (gs_shards store) clock timer cs = (shards, r)"
  shows "gs_limiter_check_all store (clock, timer, elapsed) cs = (store\<lparr>gs_shards := shards\<rparr>, map_ok fst r)"
  using assms by (simp add: gs_limiter_check_all_def gs_check_all_def Let_def)

lemma gs_limiter_check_spec:
  assumes "gs_ok store" and "gcra_check_ok sha256 c" and "gs_limiter_check store env c = (store', r)"
  shows "gs_ok store' \<and> charged gcra_trait gs_quota gs_observed gcra_admissible gcra_charge
      (case r of Inr d \<Rightarrow> if decision_consumes d then [c] else [] | Inl _ \<Rightarrow> []) store store'"
proof -
  obtain clock timer elapsed where env: "env = (clock, timer, elapsed)" by (cases env)
  obtain shards q where q: "gcra_check_inner (gs_config store) (gs_shards store) clock (timer 0) c = (shards, q)"
    by fastforce
  note eq = gs_limiter_check_eq [where timer = timer, OF q, of elapsed]
  have cases: "(case map_ok fst q of Inr d \<Rightarrow> if decision_consumes d then [c] else [] | Inl _ \<Rightarrow> []) =
      (case q of Inr (d, _) \<Rightarrow> if decision_consumes d then [c] else [] | Inl _ \<Rightarrow> [])"
    by (cases q) auto
  show ?thesis
    using gcra_check_inner_spec [OF _ assms(2) q] assms(1,3) eq env
    by (auto simp: gs_ok_def gcra_charged_store cases)
qed

lemma gs_limiter_check_all_spec:
  assumes "gs_ok store" and "\<forall>c \<in> set cs. gcra_check_ok sha256 c"
    and "gs_limiter_check_all store env cs = (store', r)"
  shows "gs_ok store' \<and> charged gcra_trait gs_quota gs_observed gcra_admissible gcra_charge
      (case r of Inr d \<Rightarrow> if batch_consumes d then cs else [] | Inl _ \<Rightarrow> []) store store' \<and>
    (\<forall>as. r = Inr (Batch_Allowed as) \<longrightarrow> length as = length cs)"
proof -
  obtain clock timer elapsed where env: "env = (clock, timer, elapsed)" by (cases env)
  obtain shards q where q: "gcra_check_all_inner (gs_config store) (gs_shards store) clock timer cs = (shards, q)"
    by fastforce
  note eq = gs_limiter_check_all_eq [OF q, of elapsed]
  have cases: "(case map_ok fst q of Inr d \<Rightarrow> if batch_consumes d then cs else [] | Inl _ \<Rightarrow> []) =
      (case q of Inr (d, _) \<Rightarrow> if batch_consumes d then cs else [] | Inl _ \<Rightarrow> [])"
    by (cases q) auto
  have "shards_ok (gs_config store) shards"
      "charged gcra_trait store_active store_observed gcra_admissible gcra_charge
        (case q of Inr (d, _) \<Rightarrow> if batch_consumes d then cs else [] | Inl _ \<Rightarrow> []) (gs_shards store) shards"
      "\<forall>as eff. q = Inr (Batch_Allowed as, eff) \<longrightarrow> length as = length cs"
    using gcra_check_all_inner_spec [OF _ assms(2) q] assms(1) unfolding gs_ok_def by blast+
  then show ?thesis
    using assms(3) eq env by (auto simp: gs_ok_def gcra_charged_store cases result_simps)
qed

interpretation gs_limiter: limiter gcra_trait gs_ok "gcra_check_ok sha256" gs_limiter_check
    gs_limiter_check_all gs_quota gs_observed gcra_admissible gcra_charge
  for sha256
proof
  fix s :: gcra_store and c cs and env :: call_environment and as
  show "gs_ok (fst (gs_limiter_check s env c))" if "gs_ok s" "gcra_check_ok sha256 c"
    using gs_limiter_check_spec [OF that] by (metis prod.collapse)
  show "gs_ok (fst (gs_limiter_check_all s env cs))" if "gs_ok s" "\<forall>c \<in> set cs. gcra_check_ok sha256 c"
    using gs_limiter_check_all_spec [OF that] by (metis prod.collapse)
  show "length as = length cs" if "gs_ok s" "\<forall>c \<in> set cs. gcra_check_ok sha256 c"
      "snd (gs_limiter_check_all s env cs) = Inr (Batch_Allowed as)"
    using gs_limiter_check_all_spec [OF that(1,2)] that(3) by (metis prod.collapse)
  show "\<exists>e. snd (gs_limiter_check_all s env []) = Inl e"
    by (cases env) (simp add: gs_limiter_check_all_def gs_check_all_def gcra_check_all_inner_def
        validate_batch_def Let_def)
next
  fix s c env s' r
  assume "gs_ok s" "gcra_check_ok sha256 c" "gs_limiter_check s env c = (s', r)"
  from gs_limiter_check_spec [OF this]
  show "charged gcra_trait gs_quota gs_observed gcra_admissible gcra_charge
      (case r of Inr d \<Rightarrow> if decision_consumes d then [c] else [] | Inl _ \<Rightarrow> []) s s'" by blast
next
  fix s cs env s' b
  assume "gs_ok s" "\<forall>c \<in> set cs. gcra_check_ok sha256 c" "gs_limiter_check_all s env cs = (s', b)"
  from gs_limiter_check_all_spec [OF this]
  show "charged gcra_trait gs_quota gs_observed gcra_admissible gcra_charge
      (case b of Inr d \<Rightarrow> if batch_consumes d then cs else [] | Inl _ \<Rightarrow> []) s s'" by blast
qed

section \<open>Runs of the store\<close>

definition gs_serve ::
  "gcra_store \<Rightarrow> call_environment \<Rightarrow> gcra_policy request
    \<Rightarrow> gcra_store \<times> gcra_policy check list" where
  "gs_serve store env req =
     (case req of
        Single c \<Rightarrow> (case gs_limiter_check store env c of (store', r) \<Rightarrow>
          (store', case r of Inr d \<Rightarrow> if decision_consumes d then [c] else [] | Inl _ \<Rightarrow> []))
      | Atomic cs \<Rightarrow> (case gs_limiter_check_all store env cs of (store', r) \<Rightarrow>
          (store', case r of Inr d \<Rightarrow> if batch_consumes d then cs else [] | Inl _ \<Rightarrow> [])))"

text \<open>The final store and the charges one key received, with the times they were made at.\<close>

fun gs_run ::
  "counter_key \<Rightarrow> gcra_store \<Rightarrow> (call_environment \<times> gcra_policy request) list
    \<Rightarrow> gcra_store \<times> (nat \<times> gcra_policy check) list" where
  "gs_run k store [] = (store, [])"
| "gs_run k store ((env, req) # rest) =
     (let (store', cs) = gs_serve store env req;
          (store'', log) = gs_run k store' rest
      in (store'', case find (\<lambda>c. counter_key gcra_trait c = k) cs of
                 None \<Rightarrow> log | Some c \<Rightarrow> (gs_observed store' k, c) # log))"

definition gcra_request_ok :: "(bytes \<Rightarrow> bytes) \<Rightarrow> gcra_policy request \<Rightarrow> bool" where
  "gcra_request_ok sha256 req \<longleftrightarrow>
     (case req of Single c \<Rightarrow> gcra_check_ok sha256 c | Atomic cs \<Rightarrow> \<forall>c \<in> set cs. gcra_check_ok sha256 c)"

lemma gs_run_eq: "gs_run k store reqs = gs_limiter.run k store reqs"
proof (induction reqs arbitrary: store)
  case Nil
  then show ?case by simp
next
  case (Cons e reqs)
  obtain env req where e: "e = (env, req)" by (cases e)
  have "gs_serve store env req = gs_limiter.serve store env req"
    by (simp add: gs_serve_def gs_limiter.serve_def)
  with Cons e show ?case by (cases "gs_serve store env req") simp
qed

lemma gcra_request_ok_eq: "gcra_request_ok sha256 = gs_limiter.request_ok sha256"
  by (simp add: fun_eq_iff gcra_request_ok_def gs_limiter.request_ok_def)

lemma gs_run_spec:
  assumes "gs_ok store" and "\<forall>(env, req) \<in> set reqs. gcra_request_ok sha256 req"
    and "gs_run k store reqs = (store', log)"
  shows "gs_ok store'" and "chain gcra_admissible gcra_charge (gs_quota store k) (gs_observed store k) log"
    and "\<forall>(t, c) \<in> set log. gcra_check_ok sha256 c \<and> counter_key gcra_trait c = k"
  using gs_limiter.run_spec [of store reqs sha256 k store' log] assms
  by (auto simp: gs_run_eq gcra_request_ok_eq)


section \<open>What a key is charged over time\<close>

text \<open>
  \<open>carries T v\<close>: from \<open>start\<close> on the view \<open>v\<close> of a key has the TAT \<open>T\<close>, or has dropped it
  because the clock has passed it.
\<close>

definition carries :: "gcra_policy \<Rightarrow> nat \<Rightarrow> nat \<Rightarrow> (nat \<Rightarrow> (gcra_entry \<times> nat) option) \<Rightarrow> bool" where
  "carries p T start v \<longleftrightarrow> (\<forall>t \<ge> start. active_tat p t (entry_tat (v t)) = max T (t * gq p))"

definition same_rate :: "gcra_policy \<Rightarrow> (nat \<times> gcra_policy check) list \<Rightarrow> bool" where
  "same_rate p log \<longleftrightarrow> (\<forall>(t, c) \<in> set log.
     gq (check_policy c) = gq p \<and> gt (check_policy c) = gt p \<and> gb (check_policy c) = gb p \<and> 0 < gq p)"

lemma carries_charge:
  assumes "carries p T start v" and "start \<le> now" and "gcra_admissible now c (v now)"
    and "gq (check_policy c) = gq p" "gt (check_policy c) = gt p" "gb (check_policy c) = gb p" "0 < gq p"
  shows "carries p (max T (now * gq p) + check_cost c * gt p) now (gcra_charge now c (v now))"
    and "max T (now * gq p) + check_cost c * gt p \<le> ceiling p now"
proof -
  obtain a where a: "evaluate c now (entry_tat (v now)) = Inr (Evaluation_Allowed a)"
    using assms(3) by (auto simp: gcra_admissible_def split: sum.splits evaluation.splits)
  note al = evaluate_Allowed [OF a]
  have "active_tat (check_policy c) now tat = active_tat p now tat" for tat
    using assms(4) by (cases tat) (simp_all add: active_tat_def)
  then have tat: "pa_tat_scaled a = max T (now * gq p) + check_cost c * gt p"
    using al(1) assms(1,2,5) by (simp add: candidate_def carries_def)
  have ceil: "ceiling (check_policy c) now = ceiling p now"
    using assms(4-6) by (simp add: ceiling_def)
  then show "max T (now * gq p) + check_cost c * gt p \<le> ceiling p now" using al(2) tat by simp
  have late: "pa_tat_scaled a \<le> t * gq p" if "pa_expires_at_millis a \<le> t" for t
    using expired_tat_irrelevant [OF assms(7), of now "pa_tat_scaled a" t] al(3) assms(4) that by simp
  show "carries p (max T (now * gq p) + check_cost c * gt p) now (gcra_charge now c (v now))"
    unfolding tat [symmetric] carries_def
  proof (intro allI impI)
    fix t
    have "gcra_charge now c (v now) t = (if t < pa_expires_at_millis a
        then Some (\<lparr>ge_tat_scaled = pa_tat_scaled a\<rparr>, pa_expires_at_millis a) else None)"
      by (simp add: gcra_charge_def a)
    with late [of t] show "active_tat p t (entry_tat (gcra_charge now c (v now) t)) = max (pa_tat_scaled a) (t * gq p)"
      by (cases "t < pa_expires_at_millis a") (simp_all add: active_tat_def entry_tat_def max_absorb2)
  qed
qed

lemma gcra_chain_bound:
  assumes "chain gcra_admissible gcra_charge v start log" and "carries p T start v" and "same_rate p log"
    and "\<forall>(t, c) \<in> set log. t \<le> stop" and "log \<noteq> []"
  shows "total_cost log * gt p + max T (start * gq p) \<le> ceiling p stop"
  using assms
proof (induction log arbitrary: v start T)
  case Nil
  then show ?case by simp
next
  case (Cons e log)
  obtain now c where e: "e = (now, c)" by (cases e)
  let ?T = "max T (now * gq p) + check_cost c * gt p"
  have h: "start \<le> now" "gcra_admissible now c (v now)" "gq (check_policy c) = gq p"
      "gt (check_policy c) = gt p" "gb (check_policy c) = gb p" "0 < gq p" "now \<le> stop"
    using Cons.prems(1,3,4) e by (auto simp: same_rate_def)
  note ch = carries_charge [OF Cons.prems(2) h(1-6)]
  have le: "start * gq p \<le> now * gq p" using h(1) by (rule mult_le_mono1)
  show ?case
  proof (cases "log = []")
    case True
    have "now * gq p \<le> stop * gq p" using h(7) by (rule mult_le_mono1)
    then have "ceiling p now \<le> ceiling p stop" by (simp add: ceiling_def)
    moreover have "max T (start * gq p) \<le> max T (now * gq p)" using le by (rule max.mono [OF order.refl])
    moreover have "total_cost (e # log) = check_cost c" using True e by simp
    ultimately show ?thesis using ch(2) by simp
  next
    case False
    have "total_cost log * gt p + max ?T (now * gq p) \<le> ceiling p stop"
      by (rule Cons.IH [OF _ ch(1)]) (use Cons.prems(1,3,4) e False in \<open>auto simp: same_rate_def\<close>)
    moreover have "total_cost (e # log) * gt p = check_cost c * gt p + total_cost log * gt p"
      using e by (simp add: add_mult_distrib)
    moreover have "max T (start * gq p) \<le> max T (now * gq p)" using le by (rule max.mono [OF order.refl])
    ultimately show ?thesis by linarith
  qed
qed

lemma gcra_chain_suffix:
  assumes "chain gcra_admissible gcra_charge v start (pre @ log)" and "carries p T start v" and "same_rate p pre"
  shows "\<exists>v' T' start'. start \<le> start' \<and> carries p T' start' v' \<and> chain gcra_admissible gcra_charge v' start' log"
  using assms
proof (induction pre arbitrary: v start T)
  case Nil
  then show ?case by auto
next
  case (Cons e pre)
  obtain now c where e: "e = (now, c)" by (cases e)
  have h: "start \<le> now" "gcra_admissible now c (v now)" "gq (check_policy c) = gq p"
      "gt (check_policy c) = gt p" "gb (check_policy c) = gb p" "0 < gq p"
    using Cons.prems(1,3) e by (auto simp: same_rate_def)
  have rest: "chain gcra_admissible gcra_charge (gcra_charge now c (v now)) now (pre @ log)" "same_rate p pre"
    using Cons.prems(1,3) e by (auto simp: same_rate_def)
  from Cons.IH [OF rest(1) carries_charge(1) [OF Cons.prems(2) h] rest(2)] h(1) show ?case
    by (auto intro: order_trans)
qed

section \<open>Properties\<close>

text \<open>
  C1: the GCRA store enforces its rate end to end. Take any run of single checks and atomic batches,
  over any keys and any clock readings, from a store without an active entry for key \<open>k\<close>, where the
  checks of that key share the rate of policy \<open>p\<close>. In any stretch of the run whose charges to \<open>k\<close>
  fall between the times \<open>a\<close> and \<open>b\<close>, the cost charged to \<open>k\<close> is at most the burst plus what the
  quota refills in \<open>b - a\<close> milliseconds, whatever batching, cleanup, eviction of expired entries and
  poisoning happened in between.
\<close>

theorem gcra_store_rate:
  assumes "gs_ok store" and "\<forall>(env, req) \<in> set reqs. gcra_request_ok sha256 req"
    and "gs_run k store reqs = (store', pre @ stretch @ post)"
    and "gs_quota store k (gs_observed store k) = None"
    and "\<forall>(t, c) \<in> set (pre @ stretch). gq (check_policy c) = gq p \<and> gt (check_policy c) = gt p \<and>
      gb (check_policy c) = gb p"
    and "\<forall>(t, c) \<in> set stretch. a \<le> t \<and> t \<le> b"
  shows "total_cost stretch * gt p \<le> gb p * gt p + (b - a) * gq p"
proof (cases "stretch = []")
  case True
  then show ?thesis by simp
next
  case False
  note run = gs_run_spec [OF assms(1-3)]
  have "gq (check_policy c) = gq p \<and> gt (check_policy c) = gt p \<and> gb (check_policy c) = gb p \<and> 0 < gq p"
    if mem: "(t, c) \<in> set (pre @ stretch)" for t c
  proof -
    from mem have "(t, c) \<in> set (pre @ stretch @ post)" by auto
    with run(3) have "gcra_check_ok sha256 c" by blast
    from gcra_check_okD(1) [OF this] bspec [OF assms(5) mem] show ?thesis by simp
  qed
  then have rate: "same_rate p pre" "same_rate p stretch" unfolding same_rate_def by auto
  have ch: "chain gcra_admissible gcra_charge (gs_quota store k) (gs_observed store k) (pre @ stretch)"
    using run(2) chain_prefix [of gcra_admissible gcra_charge _ _ "pre @ stretch" post] by simp
  have none: "gs_quota store k t = None" if "gs_observed store k \<le> t" for t
    using assms(4) that
    by (auto simp: gs_quota_def gs_observed_def store_active_def active_entry_def store_observed_def
        split: option.splits if_splits)
  have "carries p 0 (gs_observed store k) (gs_quota store k)"
    by (auto simp: carries_def none entry_tat_def active_tat_def)
  from gcra_chain_suffix [OF ch this rate(1)] obtain v T s
    where s: "carries p T s v" "chain gcra_admissible gcra_charge v s stretch" by blast
  obtain t0 c0 rest where first: "stretch = (t0, c0) # rest" using False by (cases stretch) auto
  have s': "carries p T (max s a) v" using s(1) by (simp add: carries_def)
  have ch': "chain gcra_admissible gcra_charge v (max s a) stretch" using s(2) assms(6) by (simp add: first)
  have "total_cost stretch * gt p + max T (max s a * gq p) \<le> ceiling p b"
    by (rule gcra_chain_bound [OF ch' s' rate(2) _ False]) (use assms(6) in auto)
  moreover have "a * gq p \<le> max s a * gq p" by (rule mult_le_mono1) simp
  moreover have "a \<le> b" using assms(6) first by fastforce
  then have "b * gq p = a * gq p + (b - a) * gq p" by (simp flip: add_mult_distrib)
  ultimately show ?thesis unfolding ceiling_def by linarith
qed

text \<open>A concrete run for the witness: a burst of five, refilled at ten per second.\<close>

definition sample_gcra_config :: memory_store_config where
  "sample_gcra_config = \<lparr>cfg_max_keys = 4, cfg_shard_count = 1, cfg_max_expired_removals_per_check = 8,
     cfg_max_batch_size = 32\<rparr>"

abbreviation sample_gcra_key :: counter_key where
  "sample_gcra_key \<equiv> counter_key gcra_trait (sample_gcra_check 1)"

abbreviation sample_gcra_requests :: "(call_environment \<times> gcra_policy request) list" where
  "sample_gcra_requests \<equiv>
     [((Some (from_millis 0), \<lambda>_. 0, 0), Single (sample_gcra_check 3)),
      ((Some (from_millis 9), \<lambda>_. 0, 0), Single (sample_gcra_check 3)),
      ((Some (from_millis 9), \<lambda>_. 0, 0), Atomic [sample_gcra_check 2])]"

lemmas gs_run_eval = gs_serve_def gs_limiter_check_def gs_check_def gcra_check_inner_def lock_shard_def
  gcra_check_locked_def decide_single_def evaluated_denial_def consume_evaluated_def gcra_consume_def shard_index_def
  gs_limiter_check_all_def gs_check_all_def gcra_check_all_inner_def validate_batch_def check_mode_def
  BatchTopology_new_def partition_point_def lock_topology_def gcra_check_all_locked_def batch_now_def
  gcra_prepare_def admit_batch_def locked_shard_def BatchDecision_allowed_def
  GcraStore_build_def BoundedShards_new_def Shard_new_def record_observed_millis_def as_millis_def
  from_millis_def Allowance_new_def try_from_nat_def active_entry_def contains_key_def update_value_def
  shard_replace_def shard_used_def btree_insert_def saturating_add_def saturating_mul_def gcra_evaluated_simps
  gs_observed_def store_observed_def Let_def width_simps Decision_allowed_def Decision_shadow_denied_def
  shard_capacity_def NANOS_PER_MILLI_def prune_expired_numeral shard_evaluate_def entry_tat_def
  evaluate_def checked_mul_def checked_add_def gcra_duration_def div_ceil_def sample_gcra_config_def

lemma sample_gcra_fields:
  "counter_key gcra_trait (sample_gcra_check n) = CounterKey (gp_fingerprint sample_gcra) (SubjectKey [])"
  "trait_quota_mode gcra_trait sample_gcra = Enforce"
  "gp_quota sample_gcra = Capacity 10" "gp_period sample_gcra = QuotaPeriod 1000"
  by (simp_all add: sample_gcra_check_def counter_key_def sample_gcra_policy_def gcra_trait_def)

lemma sample_gcra_run:
  "snd (gs_run sample_gcra_key (GcraStore_build sample_gcra_config) sample_gcra_requests) =
     [(0, sample_gcra_check 3), (9, sample_gcra_check 2)]"
  by (simp add: gs_run_eval sample_gcra_fields)

lemma sample_gcra_store_ok: "gs_ok (GcraStore_build sample_gcra_config)"
  by (simp add: gs_ok_def GcraStore_build_def BoundedShards_new_ok config_ok_def sample_gcra_config_def)

lemma sample_gcra_store_empty: "gs_quota (GcraStore_build sample_gcra_config) k t = None"
  by (simp add: gs_quota_def store_active_def GcraStore_build_def
      BoundedShards_new_def sample_gcra_config_def active_entry_def shard_index_def Shard_new_def)

theorem gcra_store_rate_witness:
  "total_cost [(0, sample_gcra_check 3), (9, sample_gcra_check 2)] * 1000 \<le> 5 * 1000 + (9 - 0) * (10::nat)"
proof -
  obtain store' where "gs_run sample_gcra_key (GcraStore_build sample_gcra_config) sample_gcra_requests =
      (store', [] @ [(0, sample_gcra_check 3), (9, sample_gcra_check 2)] @ [])"
    using sample_gcra_run by (metis append_Nil append_Nil2 prod.collapse)
  from gcra_store_rate [OF sample_gcra_store_ok _ this, of "\<lambda>b. b" sample_gcra 0 9]
  show ?thesis by (simp add: gcra_request_ok_def sample_gcra_check_ok sample_gcra_store_empty)
qed

text \<open>
  C6: a single check of the GCRA store refines the exact GCRA transition. On a healthy shard the
  decision is the evaluation of the check at the TAT the key has at the store's time, which never
  runs backwards. An arithmetic overflow is reported and leaves the store as it was, since the
  evaluation comes before every write; a denial charges nothing and is returned, or reported for a
  shadow policy. An allowed evaluation is stored and its allowance returned exactly if the key has an
  entry or its shard has room after the bounded cleanup of expired entries; otherwise the check is
  refused for storage, with the time until the shard's next entry expires, and nothing is charged.
\<close>

theorem gcra_store_check_exact:
  assumes "gs_ok store" and "gcra_check_ok sha256 c"
    and "\<not> mx_poisoned (gs_shards store ! shard_index (gs_shards store) (counter_key gcra_trait c))"
    and "now = max (as_millis d0) (gs_observed store (counter_key gcra_trait c))"
    and "s1 = swept (gs_config store) now
      (mx_shard (gs_shards store ! shard_index (gs_shards store) (counter_key gcra_trait c)))"
  shows "case evaluate c now (entry_tat (gs_quota store (counter_key gcra_trait c) now)) of
      Inl _ \<Rightarrow> gs_limiter_check store (Some d0, timer, elapsed) c =
        (store, Inl (Failure GcraCheck_ArithmeticOverflow))
    | Inr e \<Rightarrow> \<exists>store' d. gs_limiter_check store (Some d0, timer, elapsed) c = (store', Inr d) \<and>
        gs_ok store' \<and> gs_observed store' (counter_key gcra_trait c) = now \<and>
        charged gcra_trait gs_quota gs_observed gcra_admissible gcra_charge
          (if decision_consumes d then [c] else []) store store' \<and>
        (case e of
           Evaluation_Denied q \<Rightarrow> d = (if check_mode gcra_trait c = Shadow then Decision_shadow_denied q
             else Decision_Denied (QuotaExceeded q))
         | Evaluation_Allowed a \<Rightarrow>
             d = (if contains_key s1 (counter_key gcra_trait c) \<or> shard_used s1 < sh_capacity s1
                  then Decision_allowed (pa_allowance a)
                  else Decision_Denied (StorageCapacity
                    (map_option (\<lambda>(x, _). Delay (from_millis (max (x - now) 1))) (btree_first (sh_expirations s1))))))"
proof -
  let ?k = "counter_key gcra_trait c"
  have ok: "shards_ok (gs_config store) (gs_shards store)" using assms(1) by (simp add: gs_ok_def)
  have now: "now = max (as_millis d0) (store_observed (gs_shards store) ?k)"
    using assms(4) by (simp add: gs_observed_def)
  show ?thesis
  proof (cases "evaluate c now (entry_tat (gs_quota store ?k now))")
    case (Inl x)
    then have "evaluate c now (entry_tat (store_active (gs_shards store) ?k now)) = Inl x"
      by (simp add: gs_quota_def)
    from gcra_check_inner_unhealthy(3) [OF ok refl assms(3) this [unfolded now], of "timer 0"]
    have "gs_limiter_check store (Some d0, timer, elapsed) c =
        (store\<lparr>gs_shards := gs_shards store\<rparr>, map_ok fst (Inl (Failure GcraCheck_ArithmeticOverflow)))"
      using gs_limiter_check_eq [where timer = timer] by simp
    then show ?thesis by (simp add: Inl)
  next
    case (Inr e)
    then have ev: "evaluate c now (entry_tat (store_active (gs_shards store) ?k now)) = Inr e"
      by (simp add: gs_quota_def)
    obtain shards' d eff where r: "gcra_check_inner (gs_config store) (gs_shards store) (Some d0) (timer 0) c
          = (shards', Inr (d, eff))"
        "shards_ok (gs_config store) shards'" "store_observed shards' ?k = now"
        "charged gcra_trait store_active store_observed gcra_admissible gcra_charge
          (if decision_consumes d then [c] else []) (gs_shards store) shards'"
      and d: "case e of
           Evaluation_Denied q \<Rightarrow> d = (if check_mode gcra_trait c = Shadow then Decision_shadow_denied q
             else Decision_Denied (QuotaExceeded q))
         | Evaluation_Allowed a \<Rightarrow>
           if \<not> contains_key s1 (counter_key gcra_trait c) \<and> sh_capacity s1 \<le> shard_used s1
           then \<exists>r. storage_capacity_denial s1 now = Some (StorageCapacity r) \<and> d = Decision_Denied (StorageCapacity r)
           else d = Decision_allowed (pa_allowance a)"
      using gcra_check_inner_healthy [OF ok assms(2,3) now ev assms(5), of "timer 0"] by blast
    have d': "case e of
           Evaluation_Denied q \<Rightarrow> d = (if check_mode gcra_trait c = Shadow then Decision_shadow_denied q
             else Decision_Denied (QuotaExceeded q))
         | Evaluation_Allowed a \<Rightarrow>
             d = (if contains_key s1 ?k \<or> shard_used s1 < sh_capacity s1
                  then Decision_allowed (pa_allowance a)
                  else Decision_Denied (StorageCapacity
                    (map_option (\<lambda>(x, _). Delay (from_millis (max (x - now) 1))) (btree_first (sh_expirations s1)))))"
    proof (cases e)
      case (Evaluation_Allowed a)
      show ?thesis
        using d capacity_denial_retry [of s1 now] unfolding Evaluation_Allowed evaluation.case
        by (auto simp: not_less split: if_splits)
    qed (use d in simp)
    have "gs_limiter_check store (Some d0, timer, elapsed) c = (store\<lparr>gs_shards := shards'\<rparr>, Inr d)"
      using gs_limiter_check_eq [where timer = timer, OF r(1)] by simp
    moreover have "gs_ok (store\<lparr>gs_shards := shards'\<rparr>)" "gs_observed (store\<lparr>gs_shards := shards'\<rparr>) ?k = now"
      using r(2,3) by (simp_all add: gs_ok_def gs_observed_def)
    ultimately show ?thesis using r(4) d' gcra_charged_store unfolding Inr sum.case by blast
  qed
qed

theorem gcra_store_check_exact_witness:
  "\<exists>store' d. gs_limiter_check (GcraStore_build sample_gcra_config) (Some (from_millis 0), \<lambda>_. 0, 0)
      (sample_gcra_check 3) = (store', Inr d) \<and> gs_ok store'"
proof -
  have healthy: "\<not> mx_poisoned (gs_shards (GcraStore_build sample_gcra_config) !
      shard_index (gs_shards (GcraStore_build sample_gcra_config)) (counter_key gcra_trait (sample_gcra_check 3)))"
    by (simp add: GcraStore_build_def BoundedShards_new_def sample_gcra_config_def shard_index_def)
  have zero: "max (as_millis (from_millis 0)) (gs_observed (GcraStore_build sample_gcra_config)
      (counter_key gcra_trait (sample_gcra_check 3))) = 0"
    by (simp add: GcraStore_build_def BoundedShards_new_def sample_gcra_config_def shard_index_def gs_observed_def
        store_observed_def Shard_new_def as_millis_def from_millis_def)
  have ok: "gcra_check_ok (\<lambda>b. b) (sample_gcra_check 3)" by (rule sample_gcra_check_ok) simp_all
  from gcra_store_check_exact [OF sample_gcra_store_ok ok healthy zero [symmetric] refl, of "\<lambda>_. 0" 0]
  show ?thesis by (auto simp: sample_gcra_store_empty entry_tat_def sample_gcra_allowed)
qed

lemma gcra_check_all_inner_valid:
  assumes "gcra_check_all_inner config shards clock timer cs = (shards', Inr r)"
  shows "validate_batch gcra_trait cs (cfg_max_batch_size config) = Inr ()"
  using assms
  by (cases "validate_batch gcra_trait cs (cfg_max_batch_size config)") (auto simp: gcra_check_all_inner_def)

text \<open>
  C4: a batch on the GCRA store is atomic. Whatever the clock does, the store keeps its invariant and
  the operation panics only if the clock did. An allowed batch answers every check in input order,
  found every check admissible, and charged each of its keys once and no other key. A batch that is
  denied, that only a shadow policy denies, or that fails with any error changes the quota of no key;
  one that fails with an arithmetic overflow does not change the store at all: although the guards
  keep whatever was written before an error, all evaluations come before the first write.
\<close>

theorem gcra_store_batch_atomic:
  assumes "gs_ok store" and "\<forall>c \<in> set cs. gcra_check_ok sha256 c"
    and "gs_limiter_check_all store (clock, timer, elapsed) cs = (store', r)"
  shows "gs_ok store' \<and> (r = Inl Panicked \<longrightarrow> clock = None) \<and>
    (r = Inl (Failure GcraBatch_ArithmeticOverflow) \<longrightarrow> store' = store) \<and>
    (\<forall>k. gs_observed store k \<le> gs_observed store' k) \<and>
    (case r of
       Inr (Batch_Allowed as) \<Rightarrow>
         length as = length cs \<and> distinct (map (counter_key gcra_trait) cs) \<and>
         (\<forall>c \<in> set cs. let k = counter_key gcra_trait c; now = gs_observed store' k in
            gcra_admissible now c (gs_quota store k now) \<and>
            (\<forall>t \<ge> now. gs_quota store' k t = gcra_charge now c (gs_quota store k now) t)) \<and>
         (\<forall>k t. k \<notin> counter_key gcra_trait ` set cs \<longrightarrow> gs_observed store' k \<le> t \<longrightarrow>
            gs_quota store' k t = gs_quota store k t)
     | _ \<Rightarrow> \<forall>k t. gs_observed store' k \<le> t \<longrightarrow> gs_quota store' k t = gs_quota store k t)"
proof -
  obtain shards q where q: "gcra_check_all_inner (gs_config store) (gs_shards store) clock timer cs = (shards, q)"
    by fastforce
  have eq: "store' = store\<lparr>gs_shards := shards\<rparr>" "r = map_ok fst q"
    using gs_limiter_check_all_eq [OF q, of elapsed] assms(3) by simp_all
  have sp: "q = Inl Panicked \<longrightarrow> clock = None"
      "q = Inl (Failure GcraBatch_ArithmeticOverflow) \<longrightarrow> shards = gs_shards store"
    using gcra_check_all_inner_spec [OF _ assms(2) q] assms(1) unfolding gs_ok_def by blast+
  note res = gs_limiter_check_all_spec [OF assms]
  have panic: "r = Inl Panicked \<longrightarrow> clock = None"
    and over: "r = Inl (Failure GcraBatch_ArithmeticOverflow) \<longrightarrow> store' = store"
    using sp eq by (cases q; simp)+
  have "\<forall>d. r = Inr d \<longrightarrow> distinct (map (counter_key gcra_trait) cs)"
    using gcra_check_all_inner_valid [of "gs_config store" "gs_shards store" clock timer cs shards] q eq(2)
    by (cases q) (auto simp: validate_batch_ok)
  with charged_batch [of gcra_trait gs_quota gs_observed gcra_admissible gcra_charge cs r store store'] res panic over
  show ?thesis by blast
qed

theorem gcra_store_batch_atomic_witness:
  "gs_ok (fst (gs_limiter_check_all (GcraStore_build sample_gcra_config) (Some (from_millis 9), \<lambda>_. 0, 0)
      [sample_gcra_check 2]))"
proof -
  obtain store' r where eq: "gs_limiter_check_all (GcraStore_build sample_gcra_config)
      (Some (from_millis 9), \<lambda>_. 0, 0) [sample_gcra_check 2] = (store', r)" by fastforce
  from gcra_store_batch_atomic [OF sample_gcra_store_ok _ eq, of "\<lambda>b. b"] have "gs_ok store'"
    by (simp add: sample_gcra_check_ok)
  then show ?thesis by (simp only: eq fst_conv)
qed

end
