(* ===== verification/Attempts.thy ===== *)
theory Attempts
  imports Subject_Key Decision
begin

text \<open>
  Outcome-aware attempts of \<open>runlimit-core\<close> (\<open>attempts.rs\<close>): the exponential-backoff policy, the
  subjects bound to it, admissions, denials, completions and observations. SHA-256 and HMAC are
  parameters, as for the quota policies.
\<close>

section \<open>Policy\<close>

record attempt_policy =
  ap_id :: policy_id
  ap_scope :: scope_id
  ap_initial_delay :: quota_period
  ap_maximum_delay :: quota_period
  ap_quiet_period :: quota_period
  ap_lease :: quota_period
  ap_fingerprint :: policy_fingerprint

datatype attempt_policy_error =
    AttemptPolicyError_MaximumBelowInitial
  | AttemptPolicyError_QuietBelowMaximum

definition ATTEMPT_FINGERPRINT_DOMAIN :: bytes where
  "ATTEMPT_FINGERPRINT_DOMAIN = str_bytes (lit ''runlimit/attempt-policy/v1'') @ [0]"

definition attempt_preimage ::
  "policy_id \<Rightarrow> scope_id \<Rightarrow> quota_period \<Rightarrow> quota_period \<Rightarrow> quota_period \<Rightarrow> quota_period \<Rightarrow> bytes" where
  "attempt_preimage i s initial maximum quiet lease =
     ATTEMPT_FINGERPRINT_DOMAIN @ str_bytes (policy_id_str i) @ [0] @ str_bytes (scope_id_str s) @ [0] @
     concat (map (\<lambda>value. be_bytes 8 (period_millis value)) [initial, maximum, quiet, lease])"

definition AttemptPolicy_new ::
  "(bytes \<Rightarrow> bytes) \<Rightarrow> policy_id \<Rightarrow> scope_id \<Rightarrow> quota_period \<Rightarrow> quota_period \<Rightarrow> quota_period \<Rightarrow> quota_period
    \<Rightarrow> attempt_policy_error + attempt_policy" where
  "AttemptPolicy_new sha256 i s initial_delay maximum_delay quiet_period lease =
     (if period_millis maximum_delay < period_millis initial_delay
      then Inl AttemptPolicyError_MaximumBelowInitial
      else if period_millis quiet_period < period_millis maximum_delay
      then Inl AttemptPolicyError_QuietBelowMaximum
      else Inr \<lparr>ap_id = i, ap_scope = s, ap_initial_delay = initial_delay,
                ap_maximum_delay = maximum_delay, ap_quiet_period = quiet_period, ap_lease = lease,
                ap_fingerprint = PolicyFingerprint (sha256
                  (attempt_preimage i s initial_delay maximum_delay quiet_period lease))\<rparr>)"

text \<open>\<open>checked_shl\<close> of 1 at 64 bits: shifting by 64 or more is \<open>None\<close>.\<close>

definition checked_shl_one :: "nat \<Rightarrow> nat option" where
  "checked_shl_one n = (if n < 64 then Some (2 ^ n) else None)"

definition delay_after :: "attempt_policy \<Rightarrow> nat \<Rightarrow> duration" where
  "delay_after policy failures =
     (if failures = 0 then 0
      else from_millis (min
        (saturating_mul U64_MAX (period_millis (ap_initial_delay policy))
          (case checked_shl_one (failures - 1) of Some f \<Rightarrow> f | None \<Rightarrow> U64_MAX))
        (period_millis (ap_maximum_delay policy))))"

section \<open>Subjects\<close>

record attempt_subject =
  asub_policy :: attempt_policy
  asub_subject :: subject_key

definition hash_attempt_for ::
  "(bytes \<Rightarrow> bytes \<Rightarrow> bytes) \<Rightarrow> key_hasher \<Rightarrow> attempt_policy \<Rightarrow> bytes \<Rightarrow> attempt_subject" where
  "hash_attempt_for hmac hasher policy subject =
     \<lparr>asub_policy = policy,
      asub_subject = SubjectKey (hmac (template_key hasher)
        (hash_attempt_message hasher (ap_id policy) (ap_scope policy) subject))\<rparr>"

section \<open>Admissions and completions\<close>

datatype attempt_denial =
    Attempt_Busy delay
  | Attempt_Backoff delay
  | Attempt_StorageCapacity

datatype 'r attempt_admission =
    Attempt_Admitted 'r
  | Attempt_Denied attempt_denial

datatype attempt_outcome = Attempt_Success | Attempt_Failure | Attempt_Abandoned

record attempt_completion =
  ac_outcome :: attempt_outcome
  ac_consecutive_failures :: nat
  ac_retry_after :: delay

datatype attempt_completion_error = AttemptCompletionError

definition AttemptCompletion_new ::
  "attempt_outcome \<Rightarrow> nat \<Rightarrow> delay \<Rightarrow> attempt_completion_error + attempt_completion" where
  "AttemptCompletion_new outcome consecutive_failures retry_after =
     (let valid = (case outcome of
            Attempt_Success \<Rightarrow> consecutive_failures = 0 \<and> delay_duration retry_after = 0
          | _ \<Rightarrow> 0 < consecutive_failures \<and> delay_duration retry_after \<noteq> 0)
      in if \<not> valid then Inl AttemptCompletionError
         else Inr \<lparr>ac_outcome = outcome, ac_consecutive_failures = consecutive_failures,
                   ac_retry_after = retry_after\<rparr>)"

datatype attempt_completion_result =
    Attempt_Applied attempt_completion
  | Attempt_Stale

datatype attempt_observation =
    AttemptObservation_Admitted
  | AttemptObservation_Denied attempt_denial
  | AttemptObservation_Completed attempt_completion
  | AttemptObservation_Stale
  | AttemptObservation_CommitUncertain

section \<open>What a valid policy guarantees\<close>

definition attempt_policy_ok :: "(bytes \<Rightarrow> bytes) \<Rightarrow> attempt_policy \<Rightarrow> bool" where
  "attempt_policy_ok sha256 p \<longleftrightarrow>
     period_ok (ap_initial_delay p) \<and> period_ok (ap_maximum_delay p) \<and> period_ok (ap_quiet_period p) \<and>
     period_ok (ap_lease p) \<and>
     period_millis (ap_initial_delay p) \<le> period_millis (ap_maximum_delay p) \<and>
     period_millis (ap_maximum_delay p) \<le> period_millis (ap_quiet_period p) \<and>
     ap_fingerprint p = PolicyFingerprint (sha256 (attempt_preimage (ap_id p) (ap_scope p)
       (ap_initial_delay p) (ap_maximum_delay p) (ap_quiet_period p) (ap_lease p)))"

lemma AttemptPolicy_new_ok:
  assumes "AttemptPolicy_new sha256 i s initial maximum quiet lease = Inr p"
    and "period_ok initial" and "period_ok maximum" and "period_ok quiet" and "period_ok lease"
  shows "attempt_policy_ok sha256 p"
  using assms by (auto simp: AttemptPolicy_new_def attempt_policy_ok_def split: if_splits)

text \<open>
  The saturating arithmetic of the delay is exact: whenever the product saturates or the shift is
  out of range, the unbounded product is above the cap as well.
\<close>

lemma delay_after_exact:
  assumes "attempt_policy_ok sha256 p" and "0 < n"
  shows "delay_after p n = from_millis (min (period_millis (ap_initial_delay p) * 2 ^ (n - 1))
    (period_millis (ap_maximum_delay p)))"
proof -
  let ?i = "period_millis (ap_initial_delay p)" and ?m = "period_millis (ap_maximum_delay p)"
  have i: "1 \<le> ?i" and m: "?m \<le> U64_MAX"
    using assms(1) by (auto simp: attempt_policy_ok_def period_ok_def width_simps)
  let ?f = "case checked_shl_one (n - 1) of Some f \<Rightarrow> f | None \<Rightarrow> U64_MAX"
  have "min (saturating_mul U64_MAX ?i ?f) ?m = min (?i * 2 ^ (n - 1)) ?m"
  proof (cases "n - 1 < 64")
    case True
    then have "?f = 2 ^ (n - 1)" by (simp add: checked_shl_one_def)
    with m show ?thesis by (auto simp: saturating_mul_def min_def)
  next
    case False
    then have "(2::nat) ^ 64 \<le> 2 ^ (n - 1)" by (intro power_increasing) simp_all
    moreover have "U64_MAX < 2 ^ 64" by (simp add: width_simps)
    ultimately have big: "U64_MAX \<le> 2 ^ (n - 1)" by linarith
    then have "?m \<le> ?i * 2 ^ (n - 1)"
      using mult_le_mono [OF i big] m by simp
    moreover have "1 * U64_MAX \<le> ?i * U64_MAX" using i by (rule mult_le_mono1)
    then have "?m \<le> ?i * U64_MAX" using m by linarith
    then have "?m \<le> saturating_mul U64_MAX ?i U64_MAX" using m by (simp add: saturating_mul_def)
    ultimately show ?thesis using False by (simp add: checked_shl_one_def min_absorb2)
  qed
  then show ?thesis using assms(2) by (simp add: delay_after_def)
qed

lemma delay_after_0 [simp]: "delay_after p 0 = 0"
  by (simp add: delay_after_def)

lemma delay_after_pos: "attempt_policy_ok sha256 p \<Longrightarrow> 0 < n \<Longrightarrow> 0 < delay_after p n"
  by (simp add: delay_after_exact attempt_policy_ok_def period_ok_def from_millis_def NANOS_PER_MILLI_def)

lemma delay_after_le: "delay_after p n \<le> period_duration (ap_maximum_delay p)"
  by (simp add: delay_after_def period_duration_def)

lemma delay_after_quiet:
  "attempt_policy_ok sha256 p \<Longrightarrow> delay_after p n \<le> period_duration (ap_quiet_period p)"
  by (rule order_trans [OF delay_after_le]) (simp add: attempt_policy_ok_def period_duration_def)

lemma delay_after_mono:
  assumes "attempt_policy_ok sha256 p" and "m \<le> n"
  shows "delay_after p m \<le> delay_after p n"
proof (cases "m = 0")
  case False
  then have pos: "0 < m" "0 < n" using assms(2) by simp_all
  have "(2::nat) ^ (m - 1) \<le> 2 ^ (n - 1)" using assms(2) by (intro power_increasing) simp_all
  then have "period_millis (ap_initial_delay p) * 2 ^ (m - 1) \<le> period_millis (ap_initial_delay p) * 2 ^ (n - 1)"
    by (rule mult_le_mono2)
  from min.mono [OF this order.refl] show ?thesis by (simp add: delay_after_exact [OF assms(1)] pos)
qed simp

section \<open>Properties\<close>

text \<open>
  The backoff delay is exponential, capped and free of overflow. For a policy its constructor
  accepts, the 64-bit saturating computation yields exactly the initial delay doubled for each
  further failure, up to the maximum delay, for every failure count; it is positive after a failure,
  never decreases with more failures, and never exceeds the quiet period after which failures are
  forgotten.
\<close>

theorem attempt_delay_exact:
  assumes "AttemptPolicy_new sha256 i s initial maximum quiet lease = Inr p"
    and "period_ok initial" and "period_ok maximum" and "period_ok quiet" and "period_ok lease"
  shows "delay_after p (Suc n) = from_millis (min (period_millis initial * 2 ^ n) (period_millis maximum)) \<and>
    0 < delay_after p (Suc n) \<and> delay_after p n \<le> delay_after p (Suc n) \<and>
    delay_after p n \<le> period_duration quiet"
proof -
  have ok: "attempt_policy_ok sha256 p" by (rule AttemptPolicy_new_ok [OF assms])
  have f: "ap_initial_delay p = initial" "ap_maximum_delay p = maximum" "ap_quiet_period p = quiet"
    using assms(1) by (auto simp: AttemptPolicy_new_def split: if_splits)
  show ?thesis
    using delay_after_exact [OF ok, of "Suc n"] delay_after_pos [OF ok, of "Suc n"]
      delay_after_mono [OF ok, of n "Suc n"] delay_after_quiet [OF ok, of n] f by simp
qed

definition sample_attempt_policy :: attempt_policy where
  "sample_attempt_policy =
     \<lparr>ap_id = PolicyId (lit ''login''), ap_scope = ScopeId (lit ''global''),
      ap_initial_delay = QuotaPeriod 100, ap_maximum_delay = QuotaPeriod 1000,
      ap_quiet_period = QuotaPeriod 5000, ap_lease = QuotaPeriod 300,
      ap_fingerprint = PolicyFingerprint (attempt_preimage (PolicyId (lit ''login'')) (ScopeId (lit ''global''))
        (QuotaPeriod 100) (QuotaPeriod 1000) (QuotaPeriod 5000) (QuotaPeriod 300))\<rparr>"

lemma sample_attempt_policy_new:
  "AttemptPolicy_new (\<lambda>b. b) (PolicyId (lit ''login'')) (ScopeId (lit ''global''))
     (QuotaPeriod 100) (QuotaPeriod 1000) (QuotaPeriod 5000) (QuotaPeriod 300) = Inr sample_attempt_policy"
  by (simp add: AttemptPolicy_new_def sample_attempt_policy_def)

lemma sample_attempt_policy_ok: "attempt_policy_ok (\<lambda>b. b) sample_attempt_policy"
  by (rule AttemptPolicy_new_ok [OF sample_attempt_policy_new])
     (simp_all add: period_ok_def width_simps)

theorem attempt_delay_exact_witness:
  "delay_after sample_attempt_policy 3 = from_millis 400 \<and> delay_after sample_attempt_policy 70 = from_millis 1000"
  using attempt_delay_exact [OF sample_attempt_policy_new, of 2] attempt_delay_exact [OF sample_attempt_policy_new, of 69]
  by (simp add: period_ok_def width_simps eval_nat_numeral(3) [symmetric])

end
