(* ===== verification/Attempt_Store.thy ===== *)
theory Attempt_Store
  imports Attempts
begin

text \<open>
  The bounded in-memory attempt store (\<open>runlimit-memory\<close>, \<open>attempts.rs\<close>). The mutex around the
  state is a poison flag, a clock reading is an argument (\<open>None\<close> for a clock that panics inside the
  critical section), the shared allocation a receipt points back to is the number of the store, and
  what the observer receives is a list. The B-tree of entries is a sorted association list.
\<close>

section \<open>Model\<close>

record attempt_entry =
  ae_policy :: attempt_policy
  ae_failures :: nat
  ae_last_failure :: duration
  ae_retry_at :: duration
  ae_lease :: "(nat \<times> duration) option"

record attempt_state =
  at_entries :: "(counter_key \<times> attempt_entry) list"
  at_generation :: nat
  at_now :: duration
  at_cursor :: "counter_key option"

record attempt_receipt =
  rc_store :: nat
  rc_key :: counter_key
  rc_generation :: nat

record attempt_limiter =
  mal_store :: nat
  mal_poisoned :: bool
  mal_state :: attempt_state
  mal_capacity :: nat
  mal_has_observer :: bool

datatype memory_attempt_error =
    MemoryAttempt_Poisoned
  | MemoryAttempt_SequenceExhausted

datatype memory_attempt_completion_error = MemoryAttemptCompletionError

definition AttemptState_default :: attempt_state where
  "AttemptState_default = \<lparr>at_entries = [], at_generation = 0, at_now = 0, at_cursor = None\<rparr>"

definition attempt_with_clock :: "nat \<Rightarrow> nat \<Rightarrow> attempt_limiter" where
  "attempt_with_clock store capacity =
     \<lparr>mal_store = store, mal_poisoned = False, mal_state = AttemptState_default,
      mal_capacity = capacity, mal_has_observer = False\<rparr>"

definition attempt_with_observer :: "attempt_limiter \<Rightarrow> attempt_limiter" where
  "attempt_with_observer limiter = limiter\<lparr>mal_has_observer := True\<rparr>"

definition attempt_observe :: "attempt_limiter \<Rightarrow> attempt_observation \<Rightarrow> attempt_observation list" where
  "attempt_observe limiter observation = (if mal_has_observer limiter then [observation] else [])"

definition attempt_fail :: "duration \<Rightarrow> attempt_entry \<Rightarrow> attempt_entry" where
  "attempt_fail now entry =
     (let failures = saturating_add U32_MAX (ae_failures entry) 1
      in entry\<lparr>ae_failures := failures, ae_last_failure := now,
               ae_retry_at := duration_saturating_add now (delay_after (ae_policy entry) failures)\<rparr>)"

definition reconcile :: "duration \<Rightarrow> attempt_entry \<Rightarrow> attempt_entry" where
  "reconcile now entry =
     (let entry = (case ae_lease entry of
            Some (_, until) \<Rightarrow>
              if until \<le> now then attempt_fail until (entry\<lparr>ae_lease := None\<rparr>) else entry
          | None \<Rightarrow> entry)
      in if ae_lease entry = None \<and>
            duration_saturating_add (ae_last_failure entry)
              (period_duration (ap_quiet_period (ae_policy entry))) \<le> now
         then entry\<lparr>ae_failures := 0, ae_retry_at := now\<rparr>
         else entry)"

definition attempt_deny :: "duration \<Rightarrow> attempt_entry \<Rightarrow> attempt_denial option" where
  "attempt_deny now entry =
     (case ae_lease entry of
        Some (_, until) \<Rightarrow> Some (Attempt_Busy (Delay (until - now)))
      | None \<Rightarrow>
          if now < ae_retry_at entry then Some (Attempt_Backoff (Delay (ae_retry_at entry - now)))
          else None)"

definition CLEANUP_SCAN :: nat where
  "CLEANUP_SCAN = 16"

definition cleanup_expired :: "duration \<Rightarrow> attempt_entry \<Rightarrow> bool" where
  "cleanup_expired now entry \<longleftrightarrow>
     (let origin = (case ae_lease entry of None \<Rightarrow> ae_last_failure entry | Some (_, until) \<Rightarrow> until)
      in duration_saturating_add origin (period_duration (ap_quiet_period (ae_policy entry))) \<le> now)"

definition cleanup_keys :: "attempt_state \<Rightarrow> counter_key list" where
  "cleanup_keys state =
     take CLEANUP_SCAN (filter (\<lambda>k. case at_cursor state of None \<Rightarrow> True | Some c \<Rightarrow> c < k)
       (map fst (at_entries state)))"

fun cleanup_remove :: "duration \<Rightarrow> counter_key list \<Rightarrow> (counter_key \<times> attempt_entry) list
    \<Rightarrow> (counter_key \<times> attempt_entry) list" where
  "cleanup_remove now [] entries = entries"
| "cleanup_remove now (key # keys) entries =
     cleanup_remove now keys
       (case map_of entries key of
          Some entry \<Rightarrow> if cleanup_expired now entry then AList.delete key entries else entries
        | None \<Rightarrow> entries)"

definition attempt_cleanup :: "duration \<Rightarrow> attempt_state \<Rightarrow> attempt_state" where
  "attempt_cleanup now state =
     (let keys = cleanup_keys state
      in state\<lparr>at_cursor := (if keys = [] then None else Some (last keys)),
               at_entries := cleanup_remove now keys (at_entries state)\<rparr>)"

definition attempt_key :: "attempt_subject \<Rightarrow> counter_key" where
  "attempt_key subject = CounterKey (ap_fingerprint (asub_policy subject)) (asub_subject subject)"

definition fresh_entry :: "attempt_policy \<Rightarrow> duration \<Rightarrow> attempt_entry" where
  "fresh_entry policy now =
     \<lparr>ae_policy = policy, ae_failures = 0, ae_last_failure = now, ae_retry_at = now, ae_lease = None\<rparr>"

text \<open>The decision on the state inside the lock, and the reservation of an admitted attempt.\<close>

definition attempt_decide ::
  "nat \<Rightarrow> counter_key \<Rightarrow> duration \<Rightarrow> attempt_state \<Rightarrow> attempt_state \<times> attempt_denial option" where
  "attempt_decide capacity key now state =
     (case map_of (at_entries state) key of
        Some entry \<Rightarrow>
          let entry = reconcile now entry
          in (state\<lparr>at_entries := bm_insert key entry (at_entries state)\<rparr>, attempt_deny now entry)
      | None \<Rightarrow>
          (state, if capacity \<le> length (at_entries state) then Some Attempt_StorageCapacity else None))"

definition attempt_reserve ::
  "attempt_policy \<Rightarrow> counter_key \<Rightarrow> duration \<Rightarrow> nat \<Rightarrow> attempt_state \<Rightarrow> attempt_state" where
  "attempt_reserve policy key now generation state =
     (let entry = (case map_of (at_entries state) key of Some entry \<Rightarrow> entry | None \<Rightarrow> fresh_entry policy now);
          entry = entry\<lparr>ae_lease :=
            Some (generation, duration_saturating_add now (period_duration (ap_lease (ae_policy entry))))\<rparr>
      in state\<lparr>at_generation := generation, at_entries := bm_insert key entry (at_entries state)\<rparr>)"

definition attempt_admit ::
  "attempt_limiter \<Rightarrow> duration option \<Rightarrow> attempt_subject
    \<Rightarrow> attempt_limiter \<times> attempt_observation list
      \<times> (memory_attempt_error failure + attempt_receipt attempt_admission)" where
  "attempt_admit limiter clock subject =
     (let policy = asub_policy subject; key = attempt_key subject
      in if mal_poisoned limiter then (limiter, [], Inl (Failure MemoryAttempt_Poisoned))
         else case clock of
           None \<Rightarrow> (limiter\<lparr>mal_poisoned := True\<rparr>, [], Inl Panicked)
         | Some reading \<Rightarrow>
             let now = max (at_now (mal_state limiter)) reading;
                 state = attempt_cleanup now ((mal_state limiter)\<lparr>at_now := now\<rparr>);
                 (state, denial) = attempt_decide (mal_capacity limiter) key now state
             in case denial of
                  Some denial \<Rightarrow>
                    (limiter\<lparr>mal_state := state\<rparr>,
                     attempt_observe limiter (AttemptObservation_Denied denial), Inr (Attempt_Denied denial))
                | None \<Rightarrow>
                    case checked_add U64_MAX (at_generation state) 1 of
                      None \<Rightarrow> (limiter\<lparr>mal_state := state\<rparr>, [], Inl (Failure MemoryAttempt_SequenceExhausted))
                    | Some generation \<Rightarrow>
                        (limiter\<lparr>mal_state := attempt_reserve policy key now generation state\<rparr>,
                         attempt_observe limiter AttemptObservation_Admitted,
                         Inr (Attempt_Admitted \<lparr>rc_store = mal_store limiter, rc_key = key,
                                                rc_generation = generation\<rparr>)))"

definition lease_live :: "duration \<Rightarrow> nat \<Rightarrow> attempt_entry \<Rightarrow> bool" where
  "lease_live now generation entry \<longleftrightarrow>
     (case ae_lease entry of None \<Rightarrow> False | Some (g, until) \<Rightarrow> g = generation \<and> now < until)"

definition attempt_complete ::
  "attempt_limiter \<Rightarrow> duration option \<Rightarrow> attempt_receipt \<Rightarrow> attempt_outcome
    \<Rightarrow> attempt_limiter \<times> attempt_observation list
      \<times> (memory_attempt_completion_error failure + attempt_completion_result)" where
  "attempt_complete limiter clock receipt outcome =
     (if mal_poisoned limiter then (limiter, [], Inl (Failure MemoryAttemptCompletionError))
      else case clock of
        None \<Rightarrow> (limiter\<lparr>mal_poisoned := True\<rparr>, [], Inl Panicked)
      | Some reading \<Rightarrow>
          let now = max (at_now (mal_state limiter)) reading;
              state = (mal_state limiter)\<lparr>at_now := now\<rparr>;
              valid_store = (rc_store receipt = mal_store limiter);
              stale = (limiter\<lparr>mal_state := state\<rparr>, attempt_observe limiter AttemptObservation_Stale,
                       Inr Attempt_Stale)
          in case map_of (at_entries state) (rc_key receipt) of
               None \<Rightarrow> stale
             | Some entry \<Rightarrow>
                 if valid_store \<and> lease_live now (rc_generation receipt) entry
                 then let entry = entry\<lparr>ae_lease := None\<rparr>;
                          entry = (if outcome = Attempt_Success then entry else attempt_fail now entry);
                          (failures, delay) =
                            (if outcome = Attempt_Success then (0, 0)
                             else (ae_failures entry, delay_after (ae_policy entry) (ae_failures entry)));
                          entries =
                            (if outcome = Attempt_Success then AList.delete (rc_key receipt) (at_entries state)
                             else bm_insert (rc_key receipt) entry (at_entries state));
                          state = state\<lparr>at_entries := entries\<rparr>
                      in case AttemptCompletion_new outcome failures (Delay delay) of
                           Inl _ \<Rightarrow> (limiter\<lparr>mal_poisoned := True, mal_state := state\<rparr>, [], Inl Panicked)
                         | Inr completion \<Rightarrow>
                             (limiter\<lparr>mal_state := state\<rparr>,
                              attempt_observe limiter (AttemptObservation_Completed completion),
                              Inr (Attempt_Applied completion))
                 else stale)"

section \<open>The gate of a key\<close>

text \<open>
  Before its gate a key cannot be admitted: an open reservation closes it until the lease has lapsed
  and the failure that then counts has been waited for; otherwise the recorded retry time does.
\<close>

definition entry_gate :: "attempt_entry \<Rightarrow> duration" where
  "entry_gate e =
     (case ae_lease e of
        Some (_, until) \<Rightarrow> duration_saturating_add until
          (delay_after (ae_policy e) (saturating_add U32_MAX (ae_failures e) 1))
      | None \<Rightarrow> ae_retry_at e)"

definition key_gate :: "counter_key \<Rightarrow> attempt_state \<Rightarrow> duration" where
  "key_gate k s = (case map_of (at_entries s) k of None \<Rightarrow> 0 | Some e \<Rightarrow> entry_gate e)"

definition entry_ok :: "(bytes \<Rightarrow> bytes) \<Rightarrow> duration \<Rightarrow> attempt_entry \<Rightarrow> bool" where
  "entry_ok sha256 now e \<longleftrightarrow>
     attempt_policy_ok sha256 (ae_policy e) \<and> ae_failures e \<le> U32_MAX \<and>
     (\<forall>g u. ae_lease e = Some (g, u) \<longrightarrow> u \<le> DURATION_MAX) \<and>
     (ae_retry_at e \<le> now \<or>
      ae_retry_at e = duration_saturating_add (ae_last_failure e) (delay_after (ae_policy e) (ae_failures e)))"

definition attempt_state_ok :: "(bytes \<Rightarrow> bytes) \<Rightarrow> nat \<Rightarrow> attempt_state \<Rightarrow> bool" where
  "attempt_state_ok sha256 capacity s \<longleftrightarrow>
     bm_ok (at_entries s) \<and> length (at_entries s) \<le> capacity \<and> at_generation s \<le> U64_MAX \<and>
     (\<forall>k e. map_of (at_entries s) k = Some e \<longrightarrow> entry_ok sha256 (at_now s) e \<and>
        (\<forall>g u. ae_lease e = Some (g, u) \<longrightarrow> g \<le> at_generation s))"

definition attempt_limiter_ok :: "(bytes \<Rightarrow> bytes) \<Rightarrow> attempt_limiter \<Rightarrow> bool" where
  "attempt_limiter_ok sha256 l \<longleftrightarrow> attempt_state_ok sha256 (mal_capacity l) (mal_state l)"

lemma saturating_add_mono2: "b \<le> c \<Longrightarrow> duration_saturating_add a b \<le> duration_saturating_add a c"
  by (auto simp: duration_saturating_add_def saturating_add_def min_def)

lemma entry_ok_mono: "entry_ok sha256 now e \<Longrightarrow> now \<le> now' \<Longrightarrow> entry_ok sha256 now' e"
  by (auto simp: entry_ok_def)

lemma quiet_gate:
  assumes "attempt_policy_ok sha256 p" and "duration_saturating_add a (period_duration (ap_quiet_period p)) \<le> now"
  shows "duration_saturating_add a (delay_after p n) \<le> now"
  using saturating_add_mono2 [OF delay_after_quiet [OF assms(1)]] assms(2) by (rule order_trans)

lemma saturating_Suc_pos [simp]: "0 < saturating_add U32_MAX n (Suc 0)" "saturating_add U32_MAX n (Suc 0) \<le> U32_MAX"
  by (auto simp: saturating_add_def width_simps)

lemma attempt_fail_fields [simp]:
  "ae_policy (attempt_fail now e) = ae_policy e" "ae_lease (attempt_fail now e) = ae_lease e"
  "ae_failures (attempt_fail now e) = saturating_add U32_MAX (ae_failures e) 1"
  "ae_last_failure (attempt_fail now e) = now"
  "ae_retry_at (attempt_fail now e) =
     duration_saturating_add now (delay_after (ae_policy e) (saturating_add U32_MAX (ae_failures e) 1))"
  by (simp_all add: attempt_fail_def Let_def)

lemma entry_ok_fail: "attempt_policy_ok sha256 (ae_policy e) \<Longrightarrow> ae_lease e = None \<Longrightarrow> entry_ok sha256 now (attempt_fail t e)"
  by (simp add: entry_ok_def)

text \<open>The first half of \<open>reconcile\<close>: a lapsed lease has become a failure.\<close>

definition lapse :: "duration \<Rightarrow> attempt_entry \<Rightarrow> attempt_entry" where
  "lapse now e =
     (case ae_lease e of
        Some (_, until) \<Rightarrow> if until \<le> now then attempt_fail until (e\<lparr>ae_lease := None\<rparr>) else e
      | None \<Rightarrow> e)"

lemma reconcile_lapse:
  "reconcile now e =
     (if ae_lease (lapse now e) = None \<and>
         duration_saturating_add (ae_last_failure (lapse now e))
           (period_duration (ap_quiet_period (ae_policy (lapse now e)))) \<le> now
      then (lapse now e)\<lparr>ae_failures := 0, ae_retry_at := now\<rparr> else lapse now e)"
  by (simp add: reconcile_def lapse_def Let_def)

lemma lapse_spec:
  assumes "entry_ok sha256 now e"
  shows "entry_ok sha256 now (lapse now e)" and "entry_gate (lapse now e) = entry_gate e"
    and "ae_policy (lapse now e) = ae_policy e"
    and "ae_lease (lapse now e) = None \<or> ae_lease (lapse now e) = ae_lease e"
    and "ae_lease (lapse now e) = Some (g, u) \<Longrightarrow> now < u"
  using assms entry_ok_fail [of sha256 "e\<lparr>ae_lease := None\<rparr>" now]
  by (auto simp: lapse_def entry_gate_def entry_ok_def split: option.splits if_splits)

lemma reconcile_spec:
  assumes "entry_ok sha256 now e"
  shows "entry_ok sha256 now (reconcile now e)" and "ae_policy (reconcile now e) = ae_policy e"
    and "ae_lease (reconcile now e) = None \<or> ae_lease (reconcile now e) = ae_lease e"
    and "ae_lease (reconcile now e) = Some (g, u) \<Longrightarrow> now < u"
    and "entry_gate (reconcile now e) = entry_gate e \<or>
      entry_gate e \<le> now \<and> entry_gate (reconcile now e) = now"
proof -
  let ?l = "lapse now e"
  note l = lapse_spec [OF assms]
  have p: "attempt_policy_ok sha256 (ae_policy ?l)" using l(1) by (simp add: entry_ok_def)
  show "entry_ok sha256 now (reconcile now e)" using l(1) by (auto simp: reconcile_lapse entry_ok_def)
  show "ae_policy (reconcile now e) = ae_policy e" using l(3) by (simp add: reconcile_lapse)
  show "ae_lease (reconcile now e) = None \<or> ae_lease (reconcile now e) = ae_lease e"
    using l(4) by (auto simp: reconcile_lapse)
  show "now < u" if "ae_lease (reconcile now e) = Some (g, u)"
    using that lapse_spec(5) [OF assms, of g u] by (auto simp: reconcile_lapse split: if_splits)
  have "entry_gate ?l \<le> now" if "ae_lease ?l = None"
      "duration_saturating_add (ae_last_failure ?l) (period_duration (ap_quiet_period (ae_policy ?l))) \<le> now"
    using that(1) l(1) quiet_gate [OF p that(2), of "ae_failures ?l"] by (auto simp: entry_gate_def entry_ok_def)
  then show "entry_gate (reconcile now e) = entry_gate e \<or>
      entry_gate e \<le> now \<and> entry_gate (reconcile now e) = now"
    using l(2) by (auto simp: reconcile_lapse entry_gate_def)
qed

lemma saturating_ge: "now \<le> DURATION_MAX \<Longrightarrow> now \<le> duration_saturating_add now d"
  by (auto simp: duration_saturating_add_def saturating_add_def)

lemma cleanup_expired_gate:
  assumes "entry_ok sha256 now e" and "cleanup_expired now e"
  shows "entry_gate e \<le> now"
proof (cases "ae_lease e")
  case None
  with assms quiet_gate [of sha256 "ae_policy e" "ae_last_failure e" now "ae_failures e"] show ?thesis
    by (auto simp: cleanup_expired_def entry_gate_def entry_ok_def)
next
  case (Some gu)
  obtain g u where "gu = (g, u)" by (cases gu)
  with Some assms quiet_gate [of sha256 "ae_policy e" u now "saturating_add U32_MAX (ae_failures e) 1"] show ?thesis
    by (auto simp: cleanup_expired_def entry_gate_def entry_ok_def)
qed

lemma cleanup_remove_spec:
  assumes "bm_ok m"
  shows "bm_ok (cleanup_remove now keys m) \<and> length (cleanup_remove now keys m) \<le> length m \<and>
    (\<forall>k. map_of (cleanup_remove now keys m) k =
       (if k \<in> set keys \<and> (\<exists>e. map_of m k = Some e \<and> cleanup_expired now e) then None else map_of m k))"
  using assms
proof (induction keys arbitrary: m)
  case Nil
  then show ?case by simp
next
  case (Cons key keys)
  let ?m = "case map_of m key of
      Some entry \<Rightarrow> if cleanup_expired now entry then AList.delete key m else m | None \<Rightarrow> m"
  have ok: "bm_ok ?m" using Cons.prems by (auto split: option.splits)
  have len: "length ?m \<le> length m" by (auto simp: length_delete_le split: option.splits)
  have m: "map_of ?m k = (if k = key \<and> (\<exists>e. map_of m k = Some e \<and> cleanup_expired now e) then None else map_of m k)" for k
    by (auto split: option.splits)
  have "bm_ok (cleanup_remove now keys ?m) \<and> length (cleanup_remove now keys ?m) \<le> length ?m \<and>
    (\<forall>k. map_of (cleanup_remove now keys ?m) k =
       (if k \<in> set keys \<and> (\<exists>e. map_of ?m k = Some e \<and> cleanup_expired now e) then None else map_of ?m k))"
    by (rule Cons.IH [OF ok])
  with len show ?case unfolding cleanup_remove.simps(2) m by auto
qed

section \<open>What the operations do to every key\<close>

definition lease_gen :: "counter_key \<Rightarrow> attempt_state \<Rightarrow> nat option" where
  "lease_gen k s = (case map_of (at_entries s) k of None \<Rightarrow> None | Some e \<Rightarrow> map_option fst (ae_lease e))"

text \<open>
  \<open>advances K s s'\<close>: time and generations do not run backwards; outside \<open>K\<close> a gate only moves once it
  has been passed; an open reservation of \<open>s'\<close> was open in \<open>s\<close> or has a new generation.
\<close>

definition advances :: "counter_key set \<Rightarrow> attempt_state \<Rightarrow> attempt_state \<Rightarrow> bool" where
  "advances K s s' \<longleftrightarrow>
     at_now s \<le> at_now s' \<and> at_generation s \<le> at_generation s' \<and>
     (\<forall>k. k \<notin> K \<longrightarrow> key_gate k s' = key_gate k s \<or> key_gate k s \<le> at_now s') \<and>
     (\<forall>k g. lease_gen k s' = Some g \<longrightarrow> lease_gen k s = Some g \<or> at_generation s < g)"

lemma advances_trans:
  assumes "advances K s s'" and "advances K s' s''"
  shows "advances K s s''"
  unfolding advances_def
proof (intro conjI allI impI)
  show "at_now s \<le> at_now s''" "at_generation s \<le> at_generation s''"
    using assms by (auto simp: advances_def)
  show "key_gate k s'' = key_gate k s \<or> key_gate k s \<le> at_now s''" if "k \<notin> K" for k
    using assms that unfolding advances_def by (metis order_trans)
  show "lease_gen k s = Some g \<or> at_generation s < g" if "lease_gen k s'' = Some g" for k g
    using assms that unfolding advances_def by (meson le_less_trans)
qed

lemma advances_mono: "advances K s s' \<Longrightarrow> K \<subseteq> K' \<Longrightarrow> advances K' s s'"
  unfolding advances_def by blast

lemma set_now_step:
  assumes "attempt_state_ok sha256 cap s" and "at_now s \<le> now"
  shows "attempt_state_ok sha256 cap (s\<lparr>at_now := now\<rparr>) \<and> advances {} s (s\<lparr>at_now := now\<rparr>)"
  using assms entry_ok_mono
  by (fastforce simp: attempt_state_ok_def advances_def key_gate_def lease_gen_def)

lemma cleanup_step:
  assumes "attempt_state_ok sha256 cap s"
  shows "attempt_state_ok sha256 cap (attempt_cleanup (at_now s) s) \<and>
    advances {} s (attempt_cleanup (at_now s) s) \<and> at_now (attempt_cleanup (at_now s) s) = at_now s \<and>
    at_generation (attempt_cleanup (at_now s) s) = at_generation s"
proof -
  let ?s = "attempt_cleanup (at_now s) s"
  have f: "at_now ?s = at_now s" "at_generation ?s = at_generation s"
      "at_entries ?s = cleanup_remove (at_now s) (cleanup_keys s) (at_entries s)"
    by (simp_all add: attempt_cleanup_def Let_def)
  have ok: "bm_ok (at_entries s)" using assms by (simp add: attempt_state_ok_def)
  note rem = cleanup_remove_spec [OF ok, of "at_now s" "cleanup_keys s"]
  have m: "map_of (at_entries ?s) k = map_of (at_entries s) k \<or>
      map_of (at_entries ?s) k = None \<and> (\<exists>e. map_of (at_entries s) k = Some e \<and> entry_gate e \<le> at_now s)" for k
  proof -
    have "map_of (at_entries ?s) k =
        (if k \<in> set (cleanup_keys s) \<and> (\<exists>e. map_of (at_entries s) k = Some e \<and> cleanup_expired (at_now s) e)
         then None else map_of (at_entries s) k)" unfolding f(3) using rem by blast
    moreover have "entry_gate e \<le> at_now s" if "map_of (at_entries s) k = Some e" "cleanup_expired (at_now s) e" for e
      using assms that cleanup_expired_gate [of sha256 "at_now s" e] by (auto simp: attempt_state_ok_def)
    ultimately show ?thesis by auto
  qed
  have "attempt_state_ok sha256 cap ?s"
    unfolding attempt_state_ok_def
  proof (intro conjI allI impI)
    show "bm_ok (at_entries ?s)" "length (at_entries ?s) \<le> cap" "at_generation ?s \<le> U64_MAX"
      using assms rem f by (auto simp: attempt_state_ok_def)
  next
    fix k e assume "map_of (at_entries ?s) k = Some e"
    with m [of k] have "map_of (at_entries s) k = Some e" by auto
    with assms show "entry_ok sha256 (at_now ?s) e" "\<And>g u. ae_lease e = Some (g, u) \<Longrightarrow> g \<le> at_generation ?s"
      using f by (auto simp: attempt_state_ok_def)
  qed
  moreover have "key_gate k ?s = key_gate k s \<or> key_gate k s \<le> at_now ?s" for k
    using m [of k] f by (auto simp: key_gate_def)
  moreover have "lease_gen k ?s = Some g \<Longrightarrow> lease_gen k s = Some g" for k g
    using m [of k] by (auto simp: lease_gen_def)
  ultimately show ?thesis using f by (auto simp: advances_def)
qed

text \<open>Writing one entry.\<close>

lemma write_step:
  assumes "attempt_state_ok sha256 cap s" and "entry_ok sha256 (at_now s) e"
    and "at_generation s \<le> g" and "g \<le> U64_MAX"
    and "\<forall>h u. ae_lease e = Some (h, u) \<longrightarrow> h \<le> g \<and> (lease_gen k s = Some h \<or> at_generation s < h)"
    and "map_of (at_entries s) k = None \<longrightarrow> length (at_entries s) < cap"
    and "k \<in> K \<or> entry_gate e = key_gate k s \<or> key_gate k s \<le> at_now s"
  shows "attempt_state_ok sha256 cap (s\<lparr>at_generation := g, at_entries := bm_insert k e (at_entries s)\<rparr>) \<and>
    advances K s (s\<lparr>at_generation := g, at_entries := bm_insert k e (at_entries s)\<rparr>)"
proof -
  let ?s = "s\<lparr>at_generation := g, at_entries := bm_insert k e (at_entries s)\<rparr>"
  have "attempt_state_ok sha256 cap ?s"
    using assms(1-6) length_bm_insert [of "at_entries s" k e] unfolding attempt_state_ok_def
    by (auto split: if_splits) (blast intro: order_trans)+
  moreover have "key_gate j ?s = key_gate j s \<or> key_gate j s \<le> at_now ?s" if "j \<notin> K" for j
    using assms(7) that by (auto simp: key_gate_def)
  moreover have "lease_gen j s = Some h \<or> at_generation s < h" if "lease_gen j ?s = Some h" for j h
    using assms(5) that by (cases "j = k") (auto simp: lease_gen_def)
  ultimately show ?thesis using assms(3) by (auto simp: advances_def)
qed

lemma decide_step:
  assumes "attempt_state_ok sha256 cap s" and "attempt_decide cap k (at_now s) s = (s', d)"
  shows "attempt_state_ok sha256 cap s'" and "advances {} s s'" and "at_now s' = at_now s"
    and "at_generation s' = at_generation s"
    and "d = None \<Longrightarrow> key_gate k s \<le> at_now s \<and>
      (map_of (at_entries s') k = None \<longrightarrow> length (at_entries s') < cap) \<and>
      (\<forall>e. map_of (at_entries s') k = Some e \<longrightarrow> ae_lease e = None \<and> ae_retry_at e \<le> at_now s)"
    and "d \<noteq> None \<Longrightarrow> d = Some Attempt_StorageCapacity \<and> map_of (at_entries s) k = None \<and> cap \<le> length (at_entries s) \<or>
      at_now s < key_gate k s"
proof -
  have all: "attempt_state_ok sha256 cap s' \<and> advances {} s s' \<and> at_now s' = at_now s \<and>
    at_generation s' = at_generation s \<and>
    (d = None \<longrightarrow> key_gate k s \<le> at_now s \<and>
      (map_of (at_entries s') k = None \<longrightarrow> length (at_entries s') < cap) \<and>
      (\<forall>e. map_of (at_entries s') k = Some e \<longrightarrow> ae_lease e = None \<and> ae_retry_at e \<le> at_now s)) \<and>
    (d \<noteq> None \<longrightarrow> d = Some Attempt_StorageCapacity \<and> map_of (at_entries s) k = None \<and> cap \<le> length (at_entries s) \<or>
      at_now s < key_gate k s)"
  proof (cases "map_of (at_entries s) k")
    case None
    then have "s' = s" "d = (if cap \<le> length (at_entries s) then Some Attempt_StorageCapacity else None)"
      using assms(2) by (auto simp: attempt_decide_def)
    with None assms(1) show ?thesis by (auto simp: advances_def key_gate_def)
  next
    case (Some e)
    let ?e = "reconcile (at_now s) e"
    have ok: "entry_ok sha256 (at_now s) e" using assms(1) Some by (auto simp: attempt_state_ok_def)
    note r = reconcile_spec [OF ok]
    have s': "s' = s\<lparr>at_generation := at_generation s, at_entries := bm_insert k ?e (at_entries s)\<rparr>"
      and d: "d = attempt_deny (at_now s) ?e"
      using assms(2) Some by (simp_all add: attempt_decide_def Let_def)
    have gate: "entry_gate e = key_gate k s" using Some by (simp add: key_gate_def)
    have gen: "at_generation s \<le> U64_MAX" using assms(1) by (simp add: attempt_state_ok_def)
    have lease: "\<forall>h u. ae_lease ?e = Some (h, u) \<longrightarrow> h \<le> at_generation s \<and> (lease_gen k s = Some h \<or> at_generation s < h)"
      using r(3) Some assms(1) by (auto simp: lease_gen_def attempt_state_ok_def)
    have "attempt_state_ok sha256 cap s' \<and> advances {} s s'"
      unfolding s' by (rule write_step [OF assms(1) r(1) order.refl gen lease])
        (use Some r(5) gate in auto)
    moreover have "key_gate k s \<le> at_now s" "ae_lease ?e = None" "ae_retry_at ?e \<le> at_now s" if "d = None"
      using that d r(5) gate by (auto simp: attempt_deny_def entry_gate_def split: option.splits if_splits)
    moreover have "at_now s < key_gate k s" if "d \<noteq> None"
    proof (cases "ae_lease ?e")
      case None
      then have "at_now s < entry_gate ?e" using that d by (auto simp: attempt_deny_def entry_gate_def split: if_splits)
      with r(5) gate show ?thesis by auto
    next
      case (Some gu)
      obtain g u where gu: "gu = (g, u)" by (cases gu)
      have "at_now s < u" using r(4) [of g u] Some gu by simp
      also have "u \<le> entry_gate ?e"
        using Some gu r(1) saturating_ge [of u] by (auto simp: entry_gate_def entry_ok_def)
      finally have "at_now s < entry_gate ?e" .
      with r(5) gate show ?thesis by auto
    qed
    ultimately show ?thesis using s' by auto
  qed
  from all show "attempt_state_ok sha256 cap s'" "advances {} s s'" "at_now s' = at_now s"
    "at_generation s' = at_generation s"
    "d = None \<Longrightarrow> key_gate k s \<le> at_now s \<and>
      (map_of (at_entries s') k = None \<longrightarrow> length (at_entries s') < cap) \<and>
      (\<forall>e. map_of (at_entries s') k = Some e \<longrightarrow> ae_lease e = None \<and> ae_retry_at e \<le> at_now s)"
    "d \<noteq> None \<Longrightarrow> d = Some Attempt_StorageCapacity \<and> map_of (at_entries s) k = None \<and> cap \<le> length (at_entries s) \<or>
      at_now s < key_gate k s"
    by blast+
qed

text \<open>The critical section of an admission up to the decision.\<close>

definition admit_view :: "attempt_limiter \<Rightarrow> duration \<Rightarrow> counter_key \<Rightarrow> attempt_state \<times> attempt_denial option" where
  "admit_view l reading k =
     (let now = max (at_now (mal_state l)) reading
      in attempt_decide (mal_capacity l) k now (attempt_cleanup now ((mal_state l)\<lparr>at_now := now\<rparr>)))"

lemma admit_view_step:
  assumes "attempt_limiter_ok sha256 l" and "admit_view l reading k = (s', d)"
  shows "attempt_state_ok sha256 (mal_capacity l) s'" and "advances {} (mal_state l) s'"
    and "at_now s' = max (at_now (mal_state l)) reading" and "at_generation s' = at_generation (mal_state l)"
    and "d = None \<Longrightarrow> key_gate k (mal_state l) \<le> at_now s' \<and>
      (map_of (at_entries s') k = None \<longrightarrow> length (at_entries s') < mal_capacity l) \<and>
      (\<forall>e. map_of (at_entries s') k = Some e \<longrightarrow> ae_lease e = None \<and> ae_retry_at e \<le> at_now s')"
    and "d \<noteq> None \<Longrightarrow> d = Some Attempt_StorageCapacity \<and> mal_capacity l \<le> length (at_entries (mal_state l)) \<or>
      at_now s' < key_gate k (mal_state l)"
proof -
  let ?s = "mal_state l"
  let ?now = "max (at_now ?s) reading"
  let ?s1 = "?s\<lparr>at_now := ?now\<rparr>"
  let ?s2 = "attempt_cleanup ?now ?s1"
  have ok: "attempt_state_ok sha256 (mal_capacity l) ?s" using assms(1) by (simp add: attempt_limiter_ok_def)
  have s1: "attempt_state_ok sha256 (mal_capacity l) ?s1 \<and> advances {} ?s ?s1"
    by (rule set_now_step [OF ok]) simp
  have s2: "attempt_state_ok sha256 (mal_capacity l) ?s2" "advances {} ?s1 ?s2" "at_now ?s2 = ?now"
      "at_generation ?s2 = at_generation ?s"
    using cleanup_step [OF s1 [THEN conjunct1]] by simp_all
  have dec: "attempt_decide (mal_capacity l) k (at_now ?s2) ?s2 = (s', d)"
    using assms(2) s2(3) by (simp add: admit_view_def Let_def)
  note d = decide_step [OF s2(1) dec]
  have adv: "advances {} ?s ?s2" by (rule advances_trans [OF s1 [THEN conjunct2] s2(2)])
  have len: "length (at_entries ?s2) \<le> length (at_entries ?s)"
    using cleanup_remove_spec [of "at_entries ?s" ?now "cleanup_keys ?s1"] ok
    by (simp add: attempt_cleanup_def Let_def attempt_state_ok_def)
  have gate: "key_gate k ?s2 = key_gate k ?s \<or> key_gate k ?s \<le> ?now"
    using adv s2(3) by (auto simp: advances_def)
  have gate2: "key_gate k ?s2 = key_gate k ?s \<or> key_gate k ?s2 = 0"
    using cleanup_remove_spec [of "at_entries ?s" ?now "cleanup_keys ?s1"] ok
    by (auto simp: attempt_cleanup_def Let_def attempt_state_ok_def key_gate_def)
  show "attempt_state_ok sha256 (mal_capacity l) s'" "at_now s' = ?now" "at_generation s' = at_generation ?s"
    using d(1,3,4) s2(3,4) by simp_all
  show "advances {} ?s s'" by (rule advances_trans [OF adv d(2)])
  show "key_gate k ?s \<le> at_now s' \<and>
      (map_of (at_entries s') k = None \<longrightarrow> length (at_entries s') < mal_capacity l) \<and>
      (\<forall>e. map_of (at_entries s') k = Some e \<longrightarrow> ae_lease e = None \<and> ae_retry_at e \<le> at_now s')" if "d = None"
    using d(3,5) that gate s2(3) by auto
  show "d = Some Attempt_StorageCapacity \<and> mal_capacity l \<le> length (at_entries ?s) \<or> at_now s' < key_gate k ?s"
    if "d \<noteq> None"
    using d(3,6) that gate2 len s2(3) by auto
qed

lemma attempt_admit_eq:
  assumes "\<not> mal_poisoned l" and "admit_view l reading (attempt_key subject) = (s', d)"
  shows "attempt_admit l (Some reading) subject =
    (case d of
       Some denial \<Rightarrow> (l\<lparr>mal_state := s'\<rparr>, attempt_observe l (AttemptObservation_Denied denial),
         Inr (Attempt_Denied denial))
     | None \<Rightarrow>
         if at_generation s' < U64_MAX
         then (l\<lparr>mal_state := attempt_reserve (asub_policy subject) (attempt_key subject)
                 (max (at_now (mal_state l)) reading) (Suc (at_generation s')) s'\<rparr>,
               attempt_observe l AttemptObservation_Admitted,
               Inr (Attempt_Admitted \<lparr>rc_store = mal_store l, rc_key = attempt_key subject,
                 rc_generation = Suc (at_generation s')\<rparr>))
         else (l\<lparr>mal_state := s'\<rparr>, [], Inl (Failure MemoryAttempt_SequenceExhausted)))"
  using assms by (auto simp: attempt_admit_def admit_view_def Let_def checked_add_def split: option.splits)

lemma reserve_step:
  assumes "attempt_state_ok sha256 cap s" and "attempt_policy_ok sha256 p" and "at_generation s < U64_MAX"
    and "map_of (at_entries s) k = None \<longrightarrow> length (at_entries s) < cap"
    and "\<forall>e. map_of (at_entries s) k = Some e \<longrightarrow> ae_lease e = None \<and> ae_retry_at e \<le> at_now s"
    and "s' = attempt_reserve p k (at_now s) (Suc (at_generation s)) s"
  shows "attempt_state_ok sha256 cap s'" and "advances {} s s'" and "at_now s' = at_now s"
    and "lease_gen k s' = Some (Suc (at_generation s))"
    and "\<exists>e. map_of (at_entries s') k = Some e \<and> entry_gate e =
      duration_saturating_add (duration_saturating_add (at_now s) (period_duration (ap_lease (ae_policy e))))
        (delay_after (ae_policy e) (saturating_add U32_MAX (ae_failures e) 1))"
proof -
  define e0 where "e0 = (case map_of (at_entries s) k of Some e \<Rightarrow> e | None \<Rightarrow> fresh_entry p (at_now s))"
  define e where "e = e0\<lparr>ae_lease := Some (Suc (at_generation s),
    duration_saturating_add (at_now s) (period_duration (ap_lease (ae_policy e0))))\<rparr>"
  have s': "s' = s\<lparr>at_generation := Suc (at_generation s), at_entries := bm_insert k e (at_entries s)\<rparr>"
    by (simp add: assms(6) attempt_reserve_def Let_def e_def e0_def)
  have ok0: "entry_ok sha256 (at_now s) e0"
    using assms(1,2) by (auto simp: e0_def attempt_state_ok_def fresh_entry_def entry_ok_def split: option.splits)
  have "duration_saturating_add (at_now s) d \<le> DURATION_MAX" for d
    by (simp add: duration_saturating_add_def saturating_add_def)
  then have ok: "entry_ok sha256 (at_now s) e" using ok0 by (auto simp: e_def entry_ok_def)
  have gate: "key_gate k s \<le> at_now s"
    using assms(5) by (auto simp: key_gate_def entry_gate_def split: option.splits)
  have "attempt_state_ok sha256 cap s' \<and> advances {} s s'"
    unfolding s' by (rule write_step [OF assms(1) ok])
      (use assms(3,4) gate in \<open>auto simp: e_def\<close>)
  then show "attempt_state_ok sha256 cap s'" and "advances {} s s'" by simp_all
  show "at_now s' = at_now s" "lease_gen k s' = Some (Suc (at_generation s))"
    by (simp_all add: s' lease_gen_def e_def)
  show "\<exists>e. map_of (at_entries s') k = Some e \<and> entry_gate e =
      duration_saturating_add (duration_saturating_add (at_now s) (period_duration (ap_lease (ae_policy e))))
        (delay_after (ae_policy e) (saturating_add U32_MAX (ae_failures e) 1))"
    by (intro exI [of _ e]) (simp add: s' entry_gate_def e_def)
qed

section \<open>Runs of the store\<close>

datatype attempt_call =
    Call_Admit attempt_subject
  | Call_Complete attempt_receipt attempt_outcome

datatype attempt_event =
    Event_Admitted attempt_receipt
  | Event_Applied attempt_receipt attempt_completion

definition attempt_call_step ::
  "attempt_limiter \<Rightarrow> duration option \<Rightarrow> attempt_call \<Rightarrow> attempt_limiter \<times> attempt_event option" where
  "attempt_call_step l clock call =
     (case call of
        Call_Admit subject \<Rightarrow> (case attempt_admit l clock subject of (l', _, r) \<Rightarrow>
          (l', case r of Inr (Attempt_Admitted receipt) \<Rightarrow> Some (Event_Admitted receipt) | _ \<Rightarrow> None))
      | Call_Complete receipt outcome \<Rightarrow> (case attempt_complete l clock receipt outcome of (l', _, r) \<Rightarrow>
          (l', case r of Inr (Attempt_Applied completion) \<Rightarrow> Some (Event_Applied receipt completion) | _ \<Rightarrow> None)))"

fun attempt_run ::
  "attempt_limiter \<Rightarrow> (duration option \<times> attempt_call) list \<Rightarrow> attempt_limiter \<times> (duration \<times> attempt_event) list" where
  "attempt_run l [] = (l, [])"
| "attempt_run l ((clock, call) # rest) =
     (let (l', event) = attempt_call_step l clock call;
          (l'', log) = attempt_run l' rest
      in (l'', case event of None \<Rightarrow> log | Some e \<Rightarrow> (at_now (mal_state l'), e) # log))"

definition attempt_call_ok :: "(bytes \<Rightarrow> bytes) \<Rightarrow> attempt_call \<Rightarrow> bool" where
  "attempt_call_ok sha256 call \<longleftrightarrow>
     (case call of Call_Admit subject \<Rightarrow> attempt_policy_ok sha256 (asub_policy subject) | Call_Complete _ _ \<Rightarrow> True)"

text \<open>What one call may do, by the event it produces.\<close>

definition step_ok :: "attempt_limiter \<Rightarrow> attempt_limiter \<Rightarrow> attempt_event option \<Rightarrow> bool" where
  "step_ok l l' event \<longleftrightarrow>
     advances (case event of Some (Event_Applied r _) \<Rightarrow> {rc_key r} | _ \<Rightarrow> {}) (mal_state l) (mal_state l') \<and>
     (\<forall>k g. (\<forall>r. event = Some (Event_Admitted r) \<longrightarrow> rc_key r \<noteq> k) \<longrightarrow>
        lease_gen k (mal_state l') = Some g \<longrightarrow> lease_gen k (mal_state l) = Some g) \<and>
     (case event of
        None \<Rightarrow> True
      | Some (Event_Admitted r) \<Rightarrow>
          key_gate (rc_key r) (mal_state l) \<le> at_now (mal_state l') \<and> rc_store r = mal_store l \<and>
          at_generation (mal_state l) < rc_generation r \<and> rc_generation r = at_generation (mal_state l')
      | Some (Event_Applied r c) \<Rightarrow>
          lease_gen (rc_key r) (mal_state l) = Some (rc_generation r) \<and>
          lease_gen (rc_key r) (mal_state l') = None)"

text \<open>A call that issues no generation opens no lease.\<close>

lemma old_lease:
  assumes "attempt_state_ok sha256 cap s'" and "advances K s s'" and "at_generation s' = at_generation s"
    and "lease_gen k s' = Some g"
  shows "lease_gen k s = Some g"
proof -
  have "g \<le> at_generation s'"
    using assms(1,4) by (auto simp: attempt_state_ok_def lease_gen_def split: option.splits)
  moreover have "lease_gen k s = Some g \<or> at_generation s < g"
    using assms(2,4) by (simp add: advances_def)
  ultimately show ?thesis using assms(3) by simp
qed

lemma reserve_other: "j \<noteq> k \<Longrightarrow> lease_gen j (attempt_reserve policy k now g s) = lease_gen j s"
  by (simp add: attempt_reserve_def Let_def lease_gen_def)

lemma advances_refl [simp]: "advances K s s"
  by (simp add: advances_def)

lemma admit_step:
  assumes "attempt_limiter_ok sha256 l" and "attempt_policy_ok sha256 (asub_policy subject)"
    and "attempt_admit l clock subject = (l', obs, r)"
  shows "attempt_limiter_ok sha256 l' \<and> mal_store l' = mal_store l \<and> (r = Inl Panicked \<longrightarrow> clock = None) \<and>
    step_ok l l' (case r of Inr (Attempt_Admitted receipt) \<Rightarrow> Some (Event_Admitted receipt) | _ \<Rightarrow> None)"
proof (cases "mal_poisoned l \<or> clock = None")
  case True
  then have "mal_state l' = mal_state l \<and> mal_capacity l' = mal_capacity l \<and> mal_store l' = mal_store l \<and>
      (\<exists>e. r = Inl e) \<and> (r = Inl Panicked \<longrightarrow> clock = None)"
    using assms(3) by (cases clock) (auto simp: attempt_admit_def Let_def split: if_splits)
  with assms(1) show ?thesis by (auto simp: attempt_limiter_ok_def step_ok_def)
next
  case False
  then obtain reading where c: "clock = Some reading" and np: "\<not> mal_poisoned l" by auto
  obtain s' d where v: "admit_view l reading (attempt_key subject) = (s', d)" by fastforce
  note st = admit_view_step [OF assms(1) v] and eq = attempt_admit_eq [OF np v]
  show ?thesis
  proof (cases "d = None \<and> at_generation s' < U64_MAX")
    case False
    then have "l' = l\<lparr>mal_state := s'\<rparr> \<and> (\<nexists>receipt. r = Inr (Attempt_Admitted receipt)) \<and> r \<noteq> Inl Panicked"
      using assms(3) eq c by (auto split: option.splits)
    with st(1,2) old_lease [OF st(1,2,4)] show ?thesis
      by (auto simp: attempt_limiter_ok_def step_ok_def split: sum.splits attempt_admission.splits)
  next
    case True
    let ?s = "attempt_reserve (asub_policy subject) (attempt_key subject) (at_now s') (Suc (at_generation s')) s'"
    have r: "l' = l\<lparr>mal_state := ?s\<rparr>" "r = Inr (Attempt_Admitted \<lparr>rc_store = mal_store l,
        rc_key = attempt_key subject, rc_generation = Suc (at_generation s')\<rparr>)"
      using assms(3) eq c True st(3) by auto
    have d: "key_gate (attempt_key subject) (mal_state l) \<le> at_now s'"
        "map_of (at_entries s') (attempt_key subject) = None \<longrightarrow> length (at_entries s') < mal_capacity l"
        "\<forall>e. map_of (at_entries s') (attempt_key subject) = Some e \<longrightarrow> ae_lease e = None \<and> ae_retry_at e \<le> at_now s'"
      using st(5) True by blast+
    note res = reserve_step [OF st(1) assms(2) _ d(2,3) refl]
    have "advances {} (mal_state l) ?s" using advances_trans [OF st(2) res(2)] True by blast
    moreover have "at_generation ?s = Suc (at_generation s')" by (simp add: attempt_reserve_def Let_def)
    moreover have "lease_gen k (mal_state l) = Some g"
      if "lease_gen k ?s = Some g" "k \<noteq> attempt_key subject" for k g
      using that old_lease [OF st(1,2,4)] reserve_other by simp
    ultimately show ?thesis
      using r res(1,3) True d(1) st(4) by (auto simp: attempt_limiter_ok_def step_ok_def)
  qed
qed

lemma completion_valid:
  assumes "attempt_policy_ok sha256 p" and "outcome \<noteq> Attempt_Success" and "0 < n"
  shows "AttemptCompletion_new outcome n (Delay (delay_after p n)) =
    Inr \<lparr>ac_outcome = outcome, ac_consecutive_failures = n, ac_retry_after = Delay (delay_after p n)\<rparr>"
  using assms delay_after_pos [OF assms(1,3)]
  by (cases outcome) (auto simp: AttemptCompletion_new_def)

lemma delete_step:
  assumes "attempt_state_ok sha256 cap s"
  shows "attempt_state_ok sha256 cap (s\<lparr>at_entries := AList.delete k (at_entries s)\<rparr>) \<and>
    advances {k} s (s\<lparr>at_entries := AList.delete k (at_entries s)\<rparr>)"
  using assms length_delete_le [of k "at_entries s"]
  by (auto simp: attempt_state_ok_def advances_def key_gate_def lease_gen_def intro: order_trans split: if_splits)

lemma complete_cases:
  assumes "attempt_limiter_ok sha256 l" and "attempt_complete l (Some reading) receipt outcome = (l', obs, r)"
    and "\<not> mal_poisoned l"
  obtains (stale) "r = Inr Attempt_Stale"
      "l' = l\<lparr>mal_state := (mal_state l)\<lparr>at_now := max (at_now (mal_state l)) reading\<rparr>\<rparr>"
  | (applied) c e s1 where "r = Inr (Attempt_Applied c)" "l' = l\<lparr>mal_state := s1\<rparr>"
      "map_of (at_entries (mal_state l)) (rc_key receipt) = Some e" "rc_store receipt = mal_store l"
      "lease_live (max (at_now (mal_state l)) reading) (rc_generation receipt) e"
      "attempt_state_ok sha256 (mal_capacity l) s1" "advances {rc_key receipt} (mal_state l) s1"
      "at_now s1 = max (at_now (mal_state l)) reading" "lease_gen (rc_key receipt) s1 = None"
      "ac_outcome c = outcome" "at_generation s1 = at_generation (mal_state l)"
      "outcome = Attempt_Success \<Longrightarrow> map_of (at_entries s1) (rc_key receipt) = None"
      "outcome \<noteq> Attempt_Success \<Longrightarrow> \<exists>e'. map_of (at_entries s1) (rc_key receipt) = Some e' \<and>
        ae_failures e' = ac_consecutive_failures c \<and>
        ac_consecutive_failures c = saturating_add U32_MAX (ae_failures e) 1 \<and>
        ac_retry_after c = Delay (delay_after (ae_policy e) (ac_consecutive_failures c)) \<and>
        entry_gate e' = duration_saturating_add (at_now s1) (delay_duration (ac_retry_after c))"
proof -
  let ?k = "rc_key receipt" and ?s = "mal_state l"
  let ?now = "max (at_now ?s) reading"
  let ?sn = "?s\<lparr>at_now := ?now\<rparr>"
  have "attempt_state_ok sha256 (mal_capacity l) ?sn \<and> advances {} ?s ?sn"
    by (intro set_now_step) (use assms(1) in \<open>simp_all add: attempt_limiter_ok_def\<close>)
  then have s0: "attempt_state_ok sha256 (mal_capacity l) ?sn" "advances {?k} ?s ?sn"
    by (auto intro: advances_mono)
  show thesis
  proof (cases "\<exists>e. map_of (at_entries ?s) ?k = Some e \<and> rc_store receipt = mal_store l \<and>
      lease_live ?now (rc_generation receipt) e")
    case False
    then show thesis
      using assms(2,3) by (intro stale) (auto simp: attempt_complete_def Let_def split: option.splits if_splits)
  next
    case True
    then obtain e where e: "map_of (at_entries ?s) ?k = Some e" "rc_store receipt = mal_store l"
        "lease_live ?now (rc_generation receipt) e" by blast
    have eok: "entry_ok sha256 ?now e" using s0(1) e(1) by (auto simp: attempt_state_ok_def)
    then have pol: "attempt_policy_ok sha256 (ae_policy e)" by (simp add: entry_ok_def)
    show thesis
    proof (cases "outcome = Attempt_Success")
      case True
      let ?s1 = "?sn\<lparr>at_entries := AList.delete ?k (at_entries ?sn)\<rparr>"
      let ?c = "\<lparr>ac_outcome = Attempt_Success, ac_consecutive_failures = 0, ac_retry_after = Delay 0\<rparr>"
      have s1: "attempt_state_ok sha256 (mal_capacity l) ?s1" "advances {?k} ?sn ?s1"
        using delete_step [OF s0(1), of ?k] by simp_all
      have r: "r = Inr (Attempt_Applied ?c)" "l' = l\<lparr>mal_state := ?s1\<rparr>"
        using assms(2,3) e True by (auto simp: attempt_complete_def Let_def AttemptCompletion_new_def)
      show thesis
        by (rule applied [OF r e s1(1) advances_trans [OF s0(2) s1(2)]])
           (simp_all add: True lease_gen_def)
    next
      case False
      let ?e = "attempt_fail ?now (e\<lparr>ae_lease := None\<rparr>)"
      let ?s1 = "?sn\<lparr>at_generation := at_generation ?sn, at_entries := bm_insert ?k ?e (at_entries ?sn)\<rparr>"
      let ?n = "saturating_add U32_MAX (ae_failures e) 1"
      let ?c = "\<lparr>ac_outcome = outcome, ac_consecutive_failures = ?n,
        ac_retry_after = Delay (delay_after (ae_policy e) ?n)\<rparr>"
      have "attempt_state_ok sha256 (mal_capacity l) ?s1 \<and> advances {?k} ?sn ?s1"
        by (rule write_step [OF s0(1) entry_ok_fail])
           (use pol e(1) s0(1) in \<open>auto simp: attempt_state_ok_def\<close>)
      then have s1: "attempt_state_ok sha256 (mal_capacity l) ?s1" "advances {?k} ?sn ?s1" by simp_all
      have r: "r = Inr (Attempt_Applied ?c)" "l' = l\<lparr>mal_state := ?s1\<rparr>"
        using assms(2,3) e False completion_valid [OF pol False, of ?n]
        by (auto simp: attempt_complete_def Let_def)
      show thesis
        by (rule applied [OF r e s1(1) advances_trans [OF s0(2) s1(2)]])
           (use False in \<open>simp_all add: lease_gen_def entry_gate_def\<close>)
    qed
  qed
qed

lemma complete_step:
  assumes "attempt_limiter_ok sha256 l" and "attempt_complete l clock receipt outcome = (l', obs, r)"
  shows "attempt_limiter_ok sha256 l' \<and> mal_store l' = mal_store l \<and> (r = Inl Panicked \<longrightarrow> clock = None) \<and>
    step_ok l l' (case r of Inr (Attempt_Applied c) \<Rightarrow> Some (Event_Applied receipt c) | _ \<Rightarrow> None)"
proof (cases "mal_poisoned l \<or> clock = None")
  case True
  then have "mal_state l' = mal_state l \<and> mal_capacity l' = mal_capacity l \<and> mal_store l' = mal_store l \<and>
      (\<exists>e. r = Inl e) \<and> (r = Inl Panicked \<longrightarrow> clock = None)"
    using assms(2) by (cases clock) (auto simp: attempt_complete_def Let_def split: if_splits)
  with assms(1) show ?thesis by (auto simp: attempt_limiter_ok_def step_ok_def)
next
  case False
  then obtain reading where c: "clock = Some reading" and np: "\<not> mal_poisoned l" by auto
  from assms(1) assms(2) [unfolded c] np show ?thesis
  proof (cases rule: complete_cases)
    case stale
    have "attempt_state_ok sha256 (mal_capacity l) ((mal_state l)\<lparr>at_now := max (at_now (mal_state l)) reading\<rparr>) \<and>
        advances {} (mal_state l) ((mal_state l)\<lparr>at_now := max (at_now (mal_state l)) reading\<rparr>)"
      by (intro set_now_step) (use assms(1) in \<open>simp_all add: attempt_limiter_ok_def\<close>)
    with stale show ?thesis by (simp add: attempt_limiter_ok_def step_ok_def lease_gen_def)
  next
    case (applied c e s1)
    from applied(3,5) have "lease_gen (rc_key receipt) (mal_state l) = Some (rc_generation receipt)"
      by (auto simp: lease_gen_def lease_live_def split: option.splits)
    moreover have "lease_gen k (mal_state l) = Some g" if "lease_gen k s1 = Some g" for k g
      using old_lease [OF applied(6,7,11) that] .
    ultimately show ?thesis using applied by (simp add: attempt_limiter_ok_def step_ok_def)
  qed
qed

lemma call_step:
  assumes "attempt_limiter_ok sha256 l" and "attempt_call_ok sha256 call"
    and "attempt_call_step l clock call = (l', event)"
  shows "attempt_limiter_ok sha256 l' \<and> mal_store l' = mal_store l \<and> step_ok l l' event"
proof (cases call)
  case (Call_Admit subject)
  obtain obs r where r: "attempt_admit l clock subject = (l', obs, r)"
    using assms(3) Call_Admit by (auto simp: attempt_call_step_def split: prod.splits)
  show ?thesis
    using admit_step [OF assms(1) _ r] assms(2,3) Call_Admit r
    by (auto simp: attempt_call_step_def attempt_call_ok_def)
next
  case (Call_Complete receipt outcome)
  obtain obs r where r: "attempt_complete l clock receipt outcome = (l', obs, r)"
    using assms(3) Call_Complete by (auto simp: attempt_call_step_def split: prod.splits)
  show ?thesis
    using complete_step [OF assms(1) r] assms(3) Call_Complete r
    by (auto simp: attempt_call_step_def)
qed

lemma attempt_run_gate:
  assumes "attempt_limiter_ok sha256 l" and "\<forall>(clock, call) \<in> set calls. attempt_call_ok sha256 call"
    and "attempt_run l calls = (l', log)" and "\<forall>(t, e) \<in> set log. \<forall>r c. e = Event_Applied r c \<longrightarrow> rc_key r \<noteq> k"
    and "T \<le> at_now (mal_state l) \<or> T \<le> key_gate k (mal_state l)"
  shows "\<forall>(t, e) \<in> set log. \<forall>r. e = Event_Admitted r \<longrightarrow> rc_key r = k \<longrightarrow> T \<le> t"
  using assms
proof (induction calls arbitrary: l l' log)
  case Nil
  then show ?case by simp
next
  case (Cons c calls)
  obtain clock call where c: "c = (clock, call)" by (cases c)
  obtain l1 event where st: "attempt_call_step l clock call = (l1, event)" by fastforce
  obtain l2 log2 where rn: "attempt_run l1 calls = (l2, log2)" by fastforce
  have log: "log = (case event of None \<Rightarrow> log2 | Some e \<Rightarrow> (at_now (mal_state l1), e) # log2)"
    using Cons.prems(3) c st rn by simp
  have ok: "attempt_limiter_ok sha256 l1" "step_ok l l1 event"
    using call_step [OF Cons.prems(1) _ st] Cons.prems(2) c by auto
  have "k \<notin> (case event of Some (Event_Applied r _) \<Rightarrow> {rc_key r} | _ \<Rightarrow> {})"
    using Cons.prems(4) log by (auto split: option.splits attempt_event.splits)
  then have adv: "at_now (mal_state l) \<le> at_now (mal_state l1)"
      "key_gate k (mal_state l1) = key_gate k (mal_state l) \<or> key_gate k (mal_state l) \<le> at_now (mal_state l1)"
    using ok(2) by (auto simp: step_ok_def advances_def)
  have T: "T \<le> at_now (mal_state l1) \<or> T \<le> key_gate k (mal_state l1)"
    using Cons.prems(5) adv by auto
  have rest: "\<forall>(t, e) \<in> set log2. \<forall>r. e = Event_Admitted r \<longrightarrow> rc_key r = k \<longrightarrow> T \<le> t"
    by (rule Cons.IH [OF ok(1) _ rn _ T]) (use Cons.prems(2,4) log in \<open>auto split: option.splits\<close>)
  have "T \<le> at_now (mal_state l1)" if "event = Some (Event_Admitted r)" "rc_key r = k" for r
    using ok(2) that Cons.prems(5) adv(1) by (auto simp: step_ok_def)
  with rest log show ?case by (auto split: option.splits)
qed

text \<open>
  After a completion the key has no open lease, so the next event of the key is an admission, and
  time only moves on from there.
\<close>

lemma attempt_run_closed_gate:
  assumes "attempt_limiter_ok sha256 l" and "\<forall>(clock, call) \<in> set calls. attempt_call_ok sha256 call"
    and "attempt_run l calls = (l', log)"
    and "T \<le> at_now (mal_state l) \<or> T \<le> key_gate k (mal_state l) \<and> lease_gen k (mal_state l) = None"
  shows "\<forall>(t, e) \<in> set log. \<forall>r. e = Event_Admitted r \<or> (\<exists>c. e = Event_Applied r c) \<longrightarrow> rc_key r = k \<longrightarrow> T \<le> t"
  using assms
proof (induction calls arbitrary: l l' log)
  case Nil
  then show ?case by simp
next
  case (Cons c calls)
  obtain clock call where c: "c = (clock, call)" by (cases c)
  obtain l1 event where st: "attempt_call_step l clock call = (l1, event)" by fastforce
  obtain l2 log2 where rn: "attempt_run l1 calls = (l2, log2)" by fastforce
  have log: "log = (case event of None \<Rightarrow> log2 | Some e \<Rightarrow> (at_now (mal_state l1), e) # log2)"
    using Cons.prems(3) c st rn by simp
  have ok: "attempt_limiter_ok sha256 l1" "step_ok l l1 event"
    using call_step [OF Cons.prems(1) _ st] Cons.prems(2) c by auto
  have now: "at_now (mal_state l) \<le> at_now (mal_state l1)"
    using ok(2) by (simp add: step_ok_def advances_def)
  have here: "T \<le> at_now (mal_state l1)"
    if "event = Some (Event_Admitted r) \<or> event = Some (Event_Applied r c)" "rc_key r = k" for r c
    using that ok(2) Cons.prems(4) now by (auto simp: step_ok_def)
  have T: "T \<le> at_now (mal_state l1) \<or> T \<le> key_gate k (mal_state l1) \<and> lease_gen k (mal_state l1) = None"
  proof (cases "T \<le> at_now (mal_state l1)")
    case False
    then have none: "T \<le> key_gate k (mal_state l)" "lease_gen k (mal_state l) = None"
      using Cons.prems(4) now by auto
    have other: "rc_key r \<noteq> k" if "event = Some (Event_Admitted r) \<or> event = Some (Event_Applied r c)" for r c
      using here [OF that] False by blast
    have "lease_gen k (mal_state l1) \<noteq> Some g" for g
      using ok(2) none(2) other unfolding step_ok_def by auto
    then have "lease_gen k (mal_state l1) = None" by (cases "lease_gen k (mal_state l1)") auto
    moreover have "k \<notin> (case event of Some (Event_Applied r _) \<Rightarrow> {rc_key r} | _ \<Rightarrow> {})"
      using other by (auto split: option.splits attempt_event.splits)
    then have "key_gate k (mal_state l1) = key_gate k (mal_state l) \<or> key_gate k (mal_state l) \<le> at_now (mal_state l1)"
      using ok(2) by (simp add: step_ok_def advances_def)
    ultimately show ?thesis using none(1) False by auto
  qed simp
  have "\<forall>(t, e) \<in> set log2. \<forall>r. e = Event_Admitted r \<or> (\<exists>c. e = Event_Applied r c) \<longrightarrow> rc_key r = k \<longrightarrow> T \<le> t"
    by (rule Cons.IH [OF ok(1) _ rn T]) (use Cons.prems(2) in auto)
  with here log show ?case by (auto split: option.splits)
qed

lemma attempt_run_spent:
  assumes "attempt_limiter_ok sha256 l" and "\<forall>(clock, call) \<in> set calls. attempt_call_ok sha256 call"
    and "attempt_run l calls = (l', log)"
    and "lease_gen k (mal_state l) \<noteq> Some g" and "g \<le> at_generation (mal_state l)"
  shows "\<forall>(t, e) \<in> set log. \<forall>r c. e = Event_Applied r c \<longrightarrow> rc_key r = k \<longrightarrow> rc_generation r \<noteq> g"
  using assms
proof (induction calls arbitrary: l l' log)
  case Nil
  then show ?case by simp
next
  case (Cons c calls)
  obtain clock call where c: "c = (clock, call)" by (cases c)
  obtain l1 event where st: "attempt_call_step l clock call = (l1, event)" by fastforce
  obtain l2 log2 where rn: "attempt_run l1 calls = (l2, log2)" by fastforce
  have log: "log = (case event of None \<Rightarrow> log2 | Some e \<Rightarrow> (at_now (mal_state l1), e) # log2)"
    using Cons.prems(3) c st rn by simp
  have ok: "attempt_limiter_ok sha256 l1" "step_ok l l1 event"
    using call_step [OF Cons.prems(1) _ st] Cons.prems(2) c by auto
  then have "\<forall>k g. lease_gen k (mal_state l1) = Some g \<longrightarrow> lease_gen k (mal_state l) = Some g \<or> at_generation (mal_state l) < g"
      "at_generation (mal_state l) \<le> at_generation (mal_state l1)"
    unfolding step_ok_def advances_def by simp_all
  then have "lease_gen k (mal_state l1) \<noteq> Some g" "g \<le> at_generation (mal_state l1)"
    using Cons.prems(4,5) by force+
  then have rest: "\<forall>(t, e) \<in> set log2. \<forall>r c. e = Event_Applied r c \<longrightarrow> rc_key r = k \<longrightarrow> rc_generation r \<noteq> g"
    using Cons.IH [OF ok(1) _ rn] Cons.prems(2) by simp
  have "rc_generation r \<noteq> g" if "event = Some (Event_Applied r c)" "rc_key r = k" for r c
    using ok(2) that Cons.prems(4) by (auto simp: step_ok_def)
  with rest log show ?case by (auto split: option.splits)
qed

text \<open>A concrete store, subject and run for the witnesses: a lease of 300 ms, delays from 100 ms.\<close>

definition sample_attempt_subject :: attempt_subject where
  "sample_attempt_subject = \<lparr>asub_policy = sample_attempt_policy, asub_subject = SubjectKey [1]\<rparr>"

abbreviation sample_attempt_store :: attempt_limiter where
  "sample_attempt_store \<equiv> attempt_with_clock 7 4"

abbreviation sample_attempt_receipt :: "nat \<Rightarrow> attempt_receipt" where
  "sample_attempt_receipt n \<equiv> \<lparr>rc_store = 7, rc_key = attempt_key sample_attempt_subject, rc_generation = n\<rparr>"

lemmas attempt_eval = attempt_call_step_def attempt_admit_def attempt_complete_def attempt_with_clock_def
  AttemptState_default_def attempt_cleanup_def cleanup_keys_def CLEANUP_SCAN_def attempt_decide_def
  attempt_reserve_def fresh_entry_def reconcile_def attempt_fail_def attempt_deny_def cleanup_expired_def
  lease_live_def AttemptCompletion_new_def attempt_observe_def delay_after_def checked_shl_one_def
  saturating_add_def saturating_mul_def duration_saturating_add_def checked_add_def Let_def width_simps
  period_duration_def from_millis_def NANOS_PER_MILLI_def NANOS_PER_SEC_def DURATION_MAX_def

lemma sample_attempt_fields [simp]:
  "asub_policy sample_attempt_subject = sample_attempt_policy"
  "ap_lease sample_attempt_policy = QuotaPeriod 300" "ap_initial_delay sample_attempt_policy = QuotaPeriod 100"
  "ap_maximum_delay sample_attempt_policy = QuotaPeriod 1000" "ap_quiet_period sample_attempt_policy = QuotaPeriod 5000"
  by (simp_all add: sample_attempt_subject_def sample_attempt_policy_def)

lemma sample_attempt_store_ok: "attempt_limiter_ok sha256 sample_attempt_store"
  by (simp add: attempt_with_clock_def attempt_limiter_ok_def attempt_state_ok_def AttemptState_default_def)

definition sample_entry :: "(nat \<times> duration) option \<Rightarrow> nat \<Rightarrow> duration \<Rightarrow> duration \<Rightarrow> attempt_entry" where
  "sample_entry lease failures failed retry =
     \<lparr>ae_policy = sample_attempt_policy, ae_failures = failures, ae_last_failure = failed,
      ae_retry_at = retry, ae_lease = lease\<rparr>"

definition sample_state :: "nat \<Rightarrow> duration \<Rightarrow> bool \<Rightarrow> attempt_entry \<Rightarrow> attempt_limiter" where
  "sample_state g now scanned e =
     \<lparr>mal_store = 7, mal_poisoned = False,
      mal_state = \<lparr>at_entries = [(attempt_key sample_attempt_subject, e)], at_generation = g, at_now = now,
        at_cursor = (if scanned then Some (attempt_key sample_attempt_subject) else None)\<rparr>,
      mal_capacity = 4, mal_has_observer = False\<rparr>"

abbreviation sample_admitted :: attempt_limiter where
  "sample_admitted \<equiv> sample_state 1 0 False (sample_entry (Some (1, 300000000)) 0 0 0)"

abbreviation sample_failed :: attempt_limiter where
  "sample_failed \<equiv> sample_state 1 50000000 False (sample_entry None 1 50000000 150000000)"

lemma sample_admit:
  "attempt_admit sample_attempt_store (Some 0) sample_attempt_subject =
     (sample_admitted, [], Inr (Attempt_Admitted (sample_attempt_receipt 1)))"
  by (simp add: attempt_eval sample_state_def sample_entry_def)

lemma sample_fail:
  "attempt_complete sample_admitted (Some 50000000) (sample_attempt_receipt 1) Attempt_Failure =
     (sample_failed, [], Inr (Attempt_Applied \<lparr>ac_outcome = Attempt_Failure, ac_consecutive_failures = 1,
        ac_retry_after = Delay 100000000\<rparr>))"
  by (simp add: attempt_eval sample_state_def sample_entry_def)

lemma sample_busy:
  "attempt_admit sample_admitted (Some 100000000) sample_attempt_subject =
     (sample_state 1 100000000 True (sample_entry (Some (1, 300000000)) 0 0 0), [],
      Inr (Attempt_Denied (Attempt_Busy (Delay 200000000))))"
  by (simp add: attempt_eval sample_state_def sample_entry_def)

lemma sample_lapsed:
  "attempt_admit (sample_state 1 100000000 True (sample_entry (Some (1, 300000000)) 0 0 0))
     (Some 400000000) sample_attempt_subject =
     (sample_state 2 400000000 False (sample_entry (Some (2, 700000000)) 1 300000000 400000000), [],
      Inr (Attempt_Admitted (sample_attempt_receipt 2)))"
  by (simp add: attempt_eval sample_state_def sample_entry_def)

lemma sample_retry:
  "attempt_admit sample_failed (Some 150000000) sample_attempt_subject =
     (sample_state 2 150000000 True (sample_entry (Some (2, 450000000)) 1 50000000 150000000), [],
      Inr (Attempt_Admitted (sample_attempt_receipt 2)))"
  by (simp add: attempt_eval sample_state_def sample_entry_def)

lemma sample_admitted_ok: "attempt_limiter_ok (\<lambda>b. b) sample_admitted"
  using admit_step [OF sample_attempt_store_ok _ sample_admit] sample_attempt_policy_ok by simp

lemma sample_state_now [simp]: "at_now (mal_state (sample_state g now b e)) = now"
  by (simp add: sample_state_def)

section \<open>Properties\<close>

text \<open>
  C7: one attempt at a time, and a dropped reservation costs a failure. Once a key has been admitted,
  let any admissions of any keys and any completions follow, at any clock readings, clocks that step
  back or panic included. As long as no completion has been applied to that key, it is not admitted
  again before its lease has lapsed and the backoff delay of the failure this counts as has passed.
\<close>

theorem attempt_single_flight:
  assumes "attempt_limiter_ok sha256 l" and "attempt_policy_ok sha256 (asub_policy subject)"
    and "attempt_admit l clock subject = (l1, obs, Inr (Attempt_Admitted r))"
    and "\<forall>(clock, call) \<in> set calls. attempt_call_ok sha256 call"
    and "attempt_run l1 calls = (l2, log)"
    and "\<forall>(t, e) \<in> set log. \<forall>r' c. e = Event_Applied r' c \<longrightarrow> rc_key r' \<noteq> attempt_key subject"
    and "(t, Event_Admitted r') \<in> set log" and "rc_key r' = attempt_key subject"
  shows "\<exists>e. map_of (at_entries (mal_state l1)) (attempt_key subject) = Some e \<and>
    duration_saturating_add
      (duration_saturating_add (at_now (mal_state l1)) (period_duration (ap_lease (ae_policy e))))
      (delay_after (ae_policy e) (saturating_add U32_MAX (ae_failures e) 1)) \<le> t"
proof -
  obtain reading where c: "clock = Some reading" and np: "\<not> mal_poisoned l"
    using assms(3) by (cases clock) (auto simp: attempt_admit_def Let_def split: if_splits)
  obtain s' d where v: "admit_view l reading (attempt_key subject) = (s', d)" by fastforce
  note st = admit_view_step [OF assms(1) v] and eq = attempt_admit_eq [OF np v]
  have d: "d = None" "at_generation s' < U64_MAX"
    and l1: "mal_state l1 = attempt_reserve (asub_policy subject) (attempt_key subject) (at_now s')
      (Suc (at_generation s')) s'"
    using assms(3) c eq st(3) by (auto split: option.splits if_splits)
  have room: "map_of (at_entries s') (attempt_key subject) = None \<longrightarrow> length (at_entries s') < mal_capacity l"
      "\<forall>e. map_of (at_entries s') (attempt_key subject) = Some e \<longrightarrow> ae_lease e = None \<and> ae_retry_at e \<le> at_now s'"
    using st(5) [OF d(1)] by blast+
  note res = reserve_step [OF st(1) assms(2) d(2) room l1]
  have ok: "attempt_limiter_ok sha256 l1" using admit_step [OF assms(1-3)] by simp
  obtain e where e: "map_of (at_entries (mal_state l1)) (attempt_key subject) = Some e"
    "entry_gate e = duration_saturating_add
      (duration_saturating_add (at_now s') (period_duration (ap_lease (ae_policy e))))
      (delay_after (ae_policy e) (saturating_add U32_MAX (ae_failures e) 1))"
    using res(5) by blast
  have "key_gate (attempt_key subject) (mal_state l1) = entry_gate e" using e(1) by (simp add: key_gate_def)
  with attempt_run_gate [OF ok assms(4,5,6), of "entry_gate e"] assms(7,8)
  have "entry_gate e \<le> t" by fastforce
  with e res(3) show ?thesis by auto
qed

theorem attempt_single_flight_witness:
  "\<exists>e. map_of (at_entries (mal_state sample_admitted)) (attempt_key sample_attempt_subject) = Some e \<and>
    duration_saturating_add
      (duration_saturating_add 0 (period_duration (ap_lease (ae_policy e))))
      (delay_after (ae_policy e) (saturating_add U32_MAX (ae_failures e) 1)) \<le> 400000000"
proof -
  let ?calls = "[(Some 100000000, Call_Admit sample_attempt_subject), (Some 400000000, Call_Admit sample_attempt_subject)]"
  obtain l2 where run: "attempt_run sample_admitted ?calls = (l2, [(400000000, Event_Admitted (sample_attempt_receipt 2))])"
    by (simp add: attempt_call_step_def sample_busy sample_lapsed del: One_nat_def)
  from attempt_single_flight [OF sample_attempt_store_ok _ sample_admit _ run, of "\<lambda>b. b" 400000000 "sample_attempt_receipt 2"]
  show ?thesis by (simp add: sample_attempt_policy_ok attempt_call_ok_def)
qed

text \<open>
  C8: backoff is enforced. When a completion that is not a success has been applied, it counts one
  more failure, up to the counter's range, and reports the exponential delay of the new count.
  Whatever calls follow, for any keys and at any clock readings, completions of this key included,
  the key is not admitted, and no further completion is applied to it, before that delay has passed.
  Neither cleanup nor quiet expiry shortens it.
\<close>

theorem attempt_backoff_enforced:
  assumes "attempt_limiter_ok sha256 l" and "outcome \<noteq> Attempt_Success"
    and "attempt_complete l clock r outcome = (l1, obs, Inr (Attempt_Applied c))"
    and "\<forall>(clock, call) \<in> set calls. attempt_call_ok sha256 call"
    and "attempt_run l1 calls = (l2, log)"
  shows "(\<exists>e. map_of (at_entries (mal_state l)) (rc_key r) = Some e \<and>
      ac_consecutive_failures c = saturating_add U32_MAX (ae_failures e) 1 \<and>
      ac_retry_after c = Delay (delay_after (ae_policy e) (ac_consecutive_failures c))) \<and>
    (\<forall>(t, e) \<in> set log. \<forall>r'. e = Event_Admitted r' \<or> (\<exists>c'. e = Event_Applied r' c') \<longrightarrow> rc_key r' = rc_key r \<longrightarrow>
      duration_saturating_add (at_now (mal_state l1)) (delay_duration (ac_retry_after c)) \<le> t)"
proof -
  obtain reading where clk: "clock = Some reading" and np: "\<not> mal_poisoned l"
    using assms(3) by (cases clock) (auto simp: attempt_complete_def Let_def split: if_splits)
  have ok: "attempt_limiter_ok sha256 l1" using complete_step [OF assms(1,3)] by simp
  from assms(1) assms(3) [unfolded clk] np show ?thesis
  proof (cases rule: complete_cases)
    case (applied c' e s1)
    obtain e' where e': "map_of (at_entries s1) (rc_key r) = Some e'"
        "ac_consecutive_failures c = saturating_add U32_MAX (ae_failures e) 1"
        "ac_retry_after c = Delay (delay_after (ae_policy e) (ac_consecutive_failures c))"
        "entry_gate e' = duration_saturating_add (at_now s1) (delay_duration (ac_retry_after c))"
      using applied(1,13) assms(2) by auto
    have "key_gate (rc_key r) (mal_state l1) = entry_gate e'" "lease_gen (rc_key r) (mal_state l1) = None"
      using applied(2,9) e'(1) by (simp_all add: key_gate_def)
    with attempt_run_closed_gate [OF ok assms(4,5), of "entry_gate e'" "rc_key r"]
    have "\<forall>(t, ev) \<in> set log. \<forall>r'. ev = Event_Admitted r' \<or> (\<exists>c'. ev = Event_Applied r' c') \<longrightarrow>
        rc_key r' = rc_key r \<longrightarrow> entry_gate e' \<le> t" by simp
    with e' applied(2,3) show ?thesis by simp
  qed simp
qed

theorem attempt_backoff_enforced_witness:
  "duration_saturating_add 50000000 (delay_duration (Delay 100000000)) \<le> 150000000"
proof -
  let ?calls = "[(Some 150000000, Call_Admit sample_attempt_subject)]"
  obtain l2 where run: "attempt_run sample_failed ?calls = (l2, [(150000000, Event_Admitted (sample_attempt_receipt 2))])"
    by (simp add: attempt_call_step_def sample_retry del: One_nat_def)
  from attempt_backoff_enforced [OF sample_admitted_ok _ sample_fail _ run]
  show ?thesis by (simp add: sample_attempt_policy_ok attempt_call_ok_def)
qed

text \<open>
  C9: a receipt completes at most once. After a completion has been applied, whatever calls follow,
  among them copies of the same receipt and new admissions of the same key, no completion is applied
  for that key and generation again. An applied completion belongs to an open reservation of this
  store whose lease had not run out.
\<close>

theorem attempt_receipt_once:
  assumes "attempt_limiter_ok sha256 l"
    and "attempt_complete l (Some reading) r outcome = (l1, obs, Inr (Attempt_Applied c))"
    and "\<forall>(clock, call) \<in> set calls. attempt_call_ok sha256 call"
    and "attempt_run l1 calls = (l2, log)"
  shows "(\<forall>(t, e) \<in> set log. \<forall>r' c'. e = Event_Applied r' c' \<longrightarrow> rc_key r' = rc_key r \<longrightarrow>
      rc_generation r' \<noteq> rc_generation r) \<and>
    rc_store r = mal_store l \<and>
    (\<exists>e until. map_of (at_entries (mal_state l)) (rc_key r) = Some e \<and>
      ae_lease e = Some (rc_generation r, until) \<and> max (at_now (mal_state l)) reading < until)"
proof -
  have np: "\<not> mal_poisoned l"
    using assms(2) by (auto simp: attempt_complete_def split: if_splits)
  have st: "attempt_limiter_ok sha256 l1" "step_ok l l1 (Some (Event_Applied r c))"
    using complete_step [OF assms(1,2)] by simp_all
  from assms(1) assms(2) np show ?thesis
  proof (cases rule: complete_cases)
    case (applied c' e s1)
    obtain until where u: "ae_lease e = Some (rc_generation r, until)" "max (at_now (mal_state l)) reading < until"
      using applied(5) by (auto simp: lease_live_def split: option.splits)
    have "rc_generation r \<le> at_generation (mal_state l)"
      using assms(1) applied(3) u(1) by (auto simp: attempt_limiter_ok_def attempt_state_ok_def)
    moreover have "at_generation (mal_state l) \<le> at_generation (mal_state l1)"
      using st(2) by (simp add: step_ok_def advances_def)
    ultimately have gen: "rc_generation r \<le> at_generation (mal_state l1)" by simp
    have none: "lease_gen (rc_key r) (mal_state l1) \<noteq> Some (rc_generation r)"
      using st(2) by (simp add: step_ok_def)
    from attempt_run_spent [OF st(1) assms(3,4) none gen] applied(3,4) u show ?thesis by blast
  qed simp
qed

theorem attempt_receipt_once_witness:
  "\<exists>e until. map_of (at_entries (mal_state sample_admitted)) (attempt_key sample_attempt_subject) = Some e \<and>
     ae_lease e = Some (1, until) \<and> 50000000 < until"
proof -
  let ?calls = "[(Some 150000000, Call_Admit sample_attempt_subject)]"
  obtain l2 where run: "attempt_run sample_failed ?calls = (l2, [(150000000, Event_Admitted (sample_attempt_receipt 2))])"
    by (simp add: attempt_call_step_def sample_retry del: One_nat_def)
  from attempt_receipt_once [OF sample_admitted_ok sample_fail _ run]
  show ?thesis by (simp add: sample_attempt_policy_ok attempt_call_ok_def)
qed

text \<open>
  C10: nobody is locked out for longer than the gate. On a store that is not poisoned, an admission at
  or after the key's gate succeeds, whatever happened before, unless the store is full of other keys
  or has used up all 64-bit generations; before the gate it is denied. So a subject whose attempts
  failed or were dropped is always admitted again. The number of entries never exceeds the capacity.
\<close>

theorem attempt_admits_at_gate:
  assumes "attempt_limiter_ok sha256 l" and "\<not> mal_poisoned l"
    and "attempt_policy_ok sha256 (asub_policy subject)"
    and "attempt_admit l (Some reading) subject = (l1, obs, res)"
  shows "(key_gate (attempt_key subject) (mal_state l) \<le> max (at_now (mal_state l)) reading \<longrightarrow>
      (\<exists>r. res = Inr (Attempt_Admitted r)) \<or>
      res = Inr (Attempt_Denied Attempt_StorageCapacity) \<and> length (at_entries (mal_state l)) = mal_capacity l \<or>
      res = Inl (Failure MemoryAttempt_SequenceExhausted) \<and> at_generation (mal_state l) = U64_MAX) \<and>
    (max (at_now (mal_state l)) reading < key_gate (attempt_key subject) (mal_state l) \<longrightarrow>
      (\<exists>d. res = Inr (Attempt_Denied d))) \<and>
    length (at_entries (mal_state l1)) \<le> mal_capacity l1"
proof -
  obtain s' d where v: "admit_view l reading (attempt_key subject) = (s', d)" by fastforce
  note st = admit_view_step [OF assms(1) v] and eq = attempt_admit_eq [OF assms(2) v]
  have "attempt_limiter_ok sha256 l1" using admit_step [OF assms(1,3,4)] by simp
  then have "length (at_entries (mal_state l1)) \<le> mal_capacity l1"
    by (simp add: attempt_limiter_ok_def attempt_state_ok_def)
  moreover have len: "length (at_entries (mal_state l)) \<le> mal_capacity l" "at_generation (mal_state l) \<le> U64_MAX"
    using assms(1) by (simp_all add: attempt_limiter_ok_def attempt_state_ok_def)
  moreover have "(\<exists>r. res = Inr (Attempt_Admitted r)) \<or>
      res = Inr (Attempt_Denied Attempt_StorageCapacity) \<and> length (at_entries (mal_state l)) = mal_capacity l \<or>
      res = Inl (Failure MemoryAttempt_SequenceExhausted) \<and> at_generation (mal_state l) = U64_MAX"
    if "key_gate (attempt_key subject) (mal_state l) \<le> max (at_now (mal_state l)) reading"
  proof (cases d)
    case None
    then show ?thesis using eq assms(4) st(4) len(2) by (auto split: if_splits)
  next
    case (Some x)
    with st(3,6) that len(1) have "x = Attempt_StorageCapacity" "length (at_entries (mal_state l)) = mal_capacity l" by auto
    with Some eq assms(4) show ?thesis by simp
  qed
  moreover have "\<exists>d. res = Inr (Attempt_Denied d)"
    if "max (at_now (mal_state l)) reading < key_gate (attempt_key subject) (mal_state l)"
  proof (cases d)
    case None
    then show ?thesis using st(3,5) that by auto
  qed (use eq assms(4) in auto)
  ultimately show ?thesis by blast
qed

theorem attempt_admits_at_gate_witness:
  "key_gate (attempt_key sample_attempt_subject) (mal_state sample_attempt_store) \<le> 0 \<and>
   (\<exists>r. snd (snd (attempt_admit sample_attempt_store (Some 0) sample_attempt_subject)) = Inr (Attempt_Admitted r))"
proof -
  have "key_gate (attempt_key sample_attempt_subject) (mal_state sample_attempt_store) \<le> 0"
    by (simp add: key_gate_def attempt_with_clock_def AttemptState_default_def)
  with attempt_admits_at_gate [OF sample_attempt_store_ok _ _ sample_admit, of "\<lambda>b. b"] show ?thesis
    by (simp add: attempt_with_clock_def sample_attempt_policy_ok sample_admit [unfolded attempt_with_clock_def])
qed

end
