(* ===== verification/Job_Status.thy ===== *)
theory Job_Status
  imports Rust_Text
begin

text \<open>
  The enumerations of \<open>runledger-core\<close> that are stored in PostgreSQL (\<open>jobs/status.rs\<close> and the two
  of \<open>jobs/workflow_enqueue/types.rs\<close>), with their database values. The interface between an
  enumeration and its column is the locale \<open>db_enum\<close>: writing and reading back is the identity, and
  only written values are read.
\<close>

section \<open>Jobs\<close>

datatype job_stage =
    JobStage_Queued
  | JobStage_Scheduled
  | JobStage_Running
  | JobStage_Completed

definition JobStage_from_db_value :: "rstr \<Rightarrow> job_stage option" where
  "JobStage_from_db_value raw =
     (if raw = lit ''queued'' then Some JobStage_Queued
      else if raw = lit ''scheduled'' then Some JobStage_Scheduled
      else if raw = lit ''running'' then Some JobStage_Running
      else if raw = lit ''completed'' then Some JobStage_Completed
      else None)"

fun JobStage_as_db_value :: "job_stage \<Rightarrow> rstr" where
  "JobStage_as_db_value JobStage_Queued = lit ''queued''"
| "JobStage_as_db_value JobStage_Scheduled = lit ''scheduled''"
| "JobStage_as_db_value JobStage_Running = lit ''running''"
| "JobStage_as_db_value JobStage_Completed = lit ''completed''"

definition JobStage_from_str :: "rstr \<Rightarrow> unit + job_stage" where
  "JobStage_from_str raw = ok_or (JobStage_from_db_value raw) ()"

datatype job_status =
    JobStatus_Pending
  | JobStatus_Leased
  | JobStatus_Succeeded
  | JobStatus_DeadLettered
  | JobStatus_Canceled

definition JobStatus_from_db_value :: "rstr \<Rightarrow> job_status option" where
  "JobStatus_from_db_value raw =
     (if raw = lit ''PENDING'' then Some JobStatus_Pending
      else if raw = lit ''LEASED'' then Some JobStatus_Leased
      else if raw = lit ''SUCCEEDED'' then Some JobStatus_Succeeded
      else if raw = lit ''DEAD_LETTERED'' then Some JobStatus_DeadLettered
      else if raw = lit ''CANCELED'' then Some JobStatus_Canceled
      else None)"

fun JobStatus_as_db_value :: "job_status \<Rightarrow> rstr" where
  "JobStatus_as_db_value JobStatus_Pending = lit ''PENDING''"
| "JobStatus_as_db_value JobStatus_Leased = lit ''LEASED''"
| "JobStatus_as_db_value JobStatus_Succeeded = lit ''SUCCEEDED''"
| "JobStatus_as_db_value JobStatus_DeadLettered = lit ''DEAD_LETTERED''"
| "JobStatus_as_db_value JobStatus_Canceled = lit ''CANCELED''"

definition JobStatus_from_str :: "rstr \<Rightarrow> unit + job_status" where
  "JobStatus_from_str raw = ok_or (JobStatus_from_db_value raw) ()"

datatype job_event_type =
    JobEventType_Enqueued
  | JobEventType_Leased
  | JobEventType_Heartbeat
  | JobEventType_StageChanged
  | JobEventType_Progress
  | JobEventType_RetryScheduled
  | JobEventType_Succeeded
  | JobEventType_Failed
  | JobEventType_DeadLettered
  | JobEventType_Canceled
  | JobEventType_Requeued

definition JobEventType_from_db_value :: "rstr \<Rightarrow> job_event_type option" where
  "JobEventType_from_db_value raw =
     (if raw = lit ''ENQUEUED'' then Some JobEventType_Enqueued
      else if raw = lit ''LEASED'' then Some JobEventType_Leased
      else if raw = lit ''HEARTBEAT'' then Some JobEventType_Heartbeat
      else if raw = lit ''STAGE_CHANGED'' then Some JobEventType_StageChanged
      else if raw = lit ''PROGRESS'' then Some JobEventType_Progress
      else if raw = lit ''RETRY_SCHEDULED'' then Some JobEventType_RetryScheduled
      else if raw = lit ''SUCCEEDED'' then Some JobEventType_Succeeded
      else if raw = lit ''FAILED'' then Some JobEventType_Failed
      else if raw = lit ''DEAD_LETTERED'' then Some JobEventType_DeadLettered
      else if raw = lit ''CANCELED'' then Some JobEventType_Canceled
      else if raw = lit ''REQUEUED'' then Some JobEventType_Requeued
      else None)"

fun JobEventType_as_db_value :: "job_event_type \<Rightarrow> rstr" where
  "JobEventType_as_db_value JobEventType_Enqueued = lit ''ENQUEUED''"
| "JobEventType_as_db_value JobEventType_Leased = lit ''LEASED''"
| "JobEventType_as_db_value JobEventType_Heartbeat = lit ''HEARTBEAT''"
| "JobEventType_as_db_value JobEventType_StageChanged = lit ''STAGE_CHANGED''"
| "JobEventType_as_db_value JobEventType_Progress = lit ''PROGRESS''"
| "JobEventType_as_db_value JobEventType_RetryScheduled = lit ''RETRY_SCHEDULED''"
| "JobEventType_as_db_value JobEventType_Succeeded = lit ''SUCCEEDED''"
| "JobEventType_as_db_value JobEventType_Failed = lit ''FAILED''"
| "JobEventType_as_db_value JobEventType_DeadLettered = lit ''DEAD_LETTERED''"
| "JobEventType_as_db_value JobEventType_Canceled = lit ''CANCELED''"
| "JobEventType_as_db_value JobEventType_Requeued = lit ''REQUEUED''"

definition JobEventType_from_str :: "rstr \<Rightarrow> unit + job_event_type" where
  "JobEventType_from_str raw = ok_or (JobEventType_from_db_value raw) ()"

datatype job_failure_kind =
    JobFailureKind_Retryable
  | JobFailureKind_Terminal
  | JobFailureKind_Timeout
  | JobFailureKind_LeaseExpired
  | JobFailureKind_Panicked

fun JobFailureKind_as_db_value :: "job_failure_kind \<Rightarrow> rstr" where
  "JobFailureKind_as_db_value JobFailureKind_Retryable = lit ''RETRYABLE''"
| "JobFailureKind_as_db_value JobFailureKind_Terminal = lit ''TERMINAL''"
| "JobFailureKind_as_db_value JobFailureKind_Timeout = lit ''TIMEOUT''"
| "JobFailureKind_as_db_value JobFailureKind_LeaseExpired = lit ''LEASE_EXPIRED''"
| "JobFailureKind_as_db_value JobFailureKind_Panicked = lit ''PANICKED''"

fun is_retryable :: "job_failure_kind \<Rightarrow> bool" where
  "is_retryable JobFailureKind_Retryable = True"
| "is_retryable JobFailureKind_Timeout = True"
| "is_retryable JobFailureKind_LeaseExpired = True"
| "is_retryable JobFailureKind_Terminal = False"
| "is_retryable JobFailureKind_Panicked = False"

section \<open>Workflows\<close>

datatype workflow_run_status =
    WorkflowRunStatus_Running
  | WorkflowRunStatus_WaitingForExternal
  | WorkflowRunStatus_Succeeded
  | WorkflowRunStatus_CompletedWithErrors
  | WorkflowRunStatus_Canceled

definition WorkflowRunStatus_from_db_value :: "rstr \<Rightarrow> workflow_run_status option" where
  "WorkflowRunStatus_from_db_value raw =
     (if raw = lit ''RUNNING'' then Some WorkflowRunStatus_Running
      else if raw = lit ''WAITING_FOR_EXTERNAL'' then Some WorkflowRunStatus_WaitingForExternal
      else if raw = lit ''SUCCEEDED'' then Some WorkflowRunStatus_Succeeded
      else if raw = lit ''COMPLETED_WITH_ERRORS'' then Some WorkflowRunStatus_CompletedWithErrors
      else if raw = lit ''CANCELED'' then Some WorkflowRunStatus_Canceled
      else None)"

fun WorkflowRunStatus_as_db_value :: "workflow_run_status \<Rightarrow> rstr" where
  "WorkflowRunStatus_as_db_value WorkflowRunStatus_Running = lit ''RUNNING''"
| "WorkflowRunStatus_as_db_value WorkflowRunStatus_WaitingForExternal = lit ''WAITING_FOR_EXTERNAL''"
| "WorkflowRunStatus_as_db_value WorkflowRunStatus_Succeeded = lit ''SUCCEEDED''"
| "WorkflowRunStatus_as_db_value WorkflowRunStatus_CompletedWithErrors = lit ''COMPLETED_WITH_ERRORS''"
| "WorkflowRunStatus_as_db_value WorkflowRunStatus_Canceled = lit ''CANCELED''"

definition WorkflowRunStatus_from_str :: "rstr \<Rightarrow> unit + workflow_run_status" where
  "WorkflowRunStatus_from_str raw = ok_or (WorkflowRunStatus_from_db_value raw) ()"

definition run_is_terminal :: "workflow_run_status \<Rightarrow> bool" where
  "run_is_terminal s \<longleftrightarrow>
     s = WorkflowRunStatus_Succeeded \<or> s = WorkflowRunStatus_CompletedWithErrors \<or>
     s = WorkflowRunStatus_Canceled"

datatype workflow_step_status =
    WorkflowStepStatus_Blocked
  | WorkflowStepStatus_WaitingForExternal
  | WorkflowStepStatus_Enqueued
  | WorkflowStepStatus_Running
  | WorkflowStepStatus_Succeeded
  | WorkflowStepStatus_Failed
  | WorkflowStepStatus_Canceled

definition WorkflowStepStatus_from_db_value :: "rstr \<Rightarrow> workflow_step_status option" where
  "WorkflowStepStatus_from_db_value raw =
     (if raw = lit ''BLOCKED'' then Some WorkflowStepStatus_Blocked
      else if raw = lit ''WAITING_FOR_EXTERNAL'' then Some WorkflowStepStatus_WaitingForExternal
      else if raw = lit ''ENQUEUED'' then Some WorkflowStepStatus_Enqueued
      else if raw = lit ''RUNNING'' then Some WorkflowStepStatus_Running
      else if raw = lit ''SUCCEEDED'' then Some WorkflowStepStatus_Succeeded
      else if raw = lit ''FAILED'' then Some WorkflowStepStatus_Failed
      else if raw = lit ''CANCELED'' then Some WorkflowStepStatus_Canceled
      else None)"

fun WorkflowStepStatus_as_db_value :: "workflow_step_status \<Rightarrow> rstr" where
  "WorkflowStepStatus_as_db_value WorkflowStepStatus_Blocked = lit ''BLOCKED''"
| "WorkflowStepStatus_as_db_value WorkflowStepStatus_WaitingForExternal = lit ''WAITING_FOR_EXTERNAL''"
| "WorkflowStepStatus_as_db_value WorkflowStepStatus_Enqueued = lit ''ENQUEUED''"
| "WorkflowStepStatus_as_db_value WorkflowStepStatus_Running = lit ''RUNNING''"
| "WorkflowStepStatus_as_db_value WorkflowStepStatus_Succeeded = lit ''SUCCEEDED''"
| "WorkflowStepStatus_as_db_value WorkflowStepStatus_Failed = lit ''FAILED''"
| "WorkflowStepStatus_as_db_value WorkflowStepStatus_Canceled = lit ''CANCELED''"

definition WorkflowStepStatus_from_str :: "rstr \<Rightarrow> unit + workflow_step_status" where
  "WorkflowStepStatus_from_str raw = ok_or (WorkflowStepStatus_from_db_value raw) ()"

definition step_is_terminal :: "workflow_step_status \<Rightarrow> bool" where
  "step_is_terminal s \<longleftrightarrow>
     s = WorkflowStepStatus_Succeeded \<or> s = WorkflowStepStatus_Failed \<or> s = WorkflowStepStatus_Canceled"

datatype workflow_step_execution_kind =
    WorkflowStepExecutionKind_Job
  | WorkflowStepExecutionKind_External

definition WorkflowStepExecutionKind_from_db_value :: "rstr \<Rightarrow> workflow_step_execution_kind option" where
  "WorkflowStepExecutionKind_from_db_value raw =
     (if raw = lit ''JOB'' then Some WorkflowStepExecutionKind_Job
      else if raw = lit ''EXTERNAL'' then Some WorkflowStepExecutionKind_External
      else None)"

fun WorkflowStepExecutionKind_as_db_value :: "workflow_step_execution_kind \<Rightarrow> rstr" where
  "WorkflowStepExecutionKind_as_db_value WorkflowStepExecutionKind_Job = lit ''JOB''"
| "WorkflowStepExecutionKind_as_db_value WorkflowStepExecutionKind_External = lit ''EXTERNAL''"

definition WorkflowStepExecutionKind_from_str :: "rstr \<Rightarrow> unit + workflow_step_execution_kind" where
  "WorkflowStepExecutionKind_from_str raw = ok_or (WorkflowStepExecutionKind_from_db_value raw) ()"

datatype workflow_dependency_release_mode =
    WorkflowDependencyReleaseMode_OnTerminal
  | WorkflowDependencyReleaseMode_OnSuccess

definition WorkflowDependencyReleaseMode_from_db_value :: "rstr \<Rightarrow> workflow_dependency_release_mode option" where
  "WorkflowDependencyReleaseMode_from_db_value raw =
     (if raw = lit ''ON_TERMINAL'' then Some WorkflowDependencyReleaseMode_OnTerminal
      else if raw = lit ''ON_SUCCESS'' then Some WorkflowDependencyReleaseMode_OnSuccess
      else None)"

fun WorkflowDependencyReleaseMode_as_db_value :: "workflow_dependency_release_mode \<Rightarrow> rstr" where
  "WorkflowDependencyReleaseMode_as_db_value WorkflowDependencyReleaseMode_OnTerminal = lit ''ON_TERMINAL''"
| "WorkflowDependencyReleaseMode_as_db_value WorkflowDependencyReleaseMode_OnSuccess = lit ''ON_SUCCESS''"

definition WorkflowDependencyReleaseMode_from_str :: "rstr \<Rightarrow> unit + workflow_dependency_release_mode" where
  "WorkflowDependencyReleaseMode_from_str raw = ok_or (WorkflowDependencyReleaseMode_from_db_value raw) ()"

section \<open>The database column of an enumeration\<close>

locale db_enum =
  fixes as_db :: "'a \<Rightarrow> rstr" and from_db :: "rstr \<Rightarrow> 'a option" and from_str :: "rstr \<Rightarrow> unit + 'a"
  assumes from_as: "from_db (as_db x) = Some x"
    and as_from: "from_db raw = Some x \<Longrightarrow> raw = as_db x"
    and from_str_def: "from_str raw = ok_or (from_db raw) ()"
begin

lemma as_db_inject: "as_db x = as_db y \<longleftrightarrow> x = y"
  by (metis from_as option.inject)

lemma from_db_iff: "from_db raw = Some x \<longleftrightarrow> raw = as_db x"
  using as_from from_as by metis

lemma from_str_iff: "from_str raw = Inr x \<longleftrightarrow> raw = as_db x"
  by (simp add: from_str_def ok_or_eq_Inr from_db_iff)

lemma from_str_error: "from_str raw = Inl () \<longleftrightarrow> raw \<notin> range as_db"
proof -
  have "from_str raw = Inl () \<longleftrightarrow> from_db raw = None"
    by (simp add: from_str_def ok_or_eq_Inl)
  also have "\<dots> \<longleftrightarrow> raw \<notin> range as_db"
    using from_db_iff [of raw] by (metis not_None_eq rangeE rangeI)
  finally show ?thesis .
qed

lemma column_exact:
  "(from_str raw = Inr x \<longleftrightarrow> raw = as_db x) \<and> (from_str raw = Inl () \<longleftrightarrow> raw \<notin> range as_db) \<and>
   (as_db x = as_db y \<longleftrightarrow> x = y)"
  using from_str_iff from_str_error as_db_inject by blast

end

interpretation stage_column: db_enum JobStage_as_db_value JobStage_from_db_value JobStage_from_str
proof unfold_locales
  show "JobStage_from_db_value (JobStage_as_db_value x) = Some x" for x
    by (cases x) (simp_all add: JobStage_from_db_value_def lit_def)
  show "JobStage_from_db_value raw = Some x \<Longrightarrow> raw = JobStage_as_db_value x" for raw x
    by (auto simp: JobStage_from_db_value_def split: if_splits)
  show "JobStage_from_str raw = ok_or (JobStage_from_db_value raw) ()" for raw
    by (simp add: JobStage_from_str_def)
qed

interpretation status_column: db_enum JobStatus_as_db_value JobStatus_from_db_value JobStatus_from_str
proof unfold_locales
  show "JobStatus_from_db_value (JobStatus_as_db_value x) = Some x" for x
    by (cases x) (simp_all add: JobStatus_from_db_value_def lit_def)
  show "JobStatus_from_db_value raw = Some x \<Longrightarrow> raw = JobStatus_as_db_value x" for raw x
    by (auto simp: JobStatus_from_db_value_def split: if_splits)
  show "JobStatus_from_str raw = ok_or (JobStatus_from_db_value raw) ()" for raw
    by (simp add: JobStatus_from_str_def)
qed

interpretation event_column: db_enum JobEventType_as_db_value JobEventType_from_db_value JobEventType_from_str
proof unfold_locales
  show "JobEventType_from_db_value (JobEventType_as_db_value x) = Some x" for x
    by (cases x) (simp_all add: JobEventType_from_db_value_def lit_def)
  show "JobEventType_from_db_value raw = Some x \<Longrightarrow> raw = JobEventType_as_db_value x" for raw x
    by (auto simp: JobEventType_from_db_value_def split: if_splits)
  show "JobEventType_from_str raw = ok_or (JobEventType_from_db_value raw) ()" for raw
    by (simp add: JobEventType_from_str_def)
qed

interpretation run_column: db_enum WorkflowRunStatus_as_db_value WorkflowRunStatus_from_db_value WorkflowRunStatus_from_str
proof unfold_locales
  show "WorkflowRunStatus_from_db_value (WorkflowRunStatus_as_db_value x) = Some x" for x
    by (cases x) (simp_all add: WorkflowRunStatus_from_db_value_def lit_def)
  show "WorkflowRunStatus_from_db_value raw = Some x \<Longrightarrow> raw = WorkflowRunStatus_as_db_value x" for raw x
    by (auto simp: WorkflowRunStatus_from_db_value_def split: if_splits)
  show "WorkflowRunStatus_from_str raw = ok_or (WorkflowRunStatus_from_db_value raw) ()" for raw
    by (simp add: WorkflowRunStatus_from_str_def)
qed

interpretation step_column: db_enum WorkflowStepStatus_as_db_value WorkflowStepStatus_from_db_value WorkflowStepStatus_from_str
proof unfold_locales
  show "WorkflowStepStatus_from_db_value (WorkflowStepStatus_as_db_value x) = Some x" for x
    by (cases x) (simp_all add: WorkflowStepStatus_from_db_value_def lit_def)
  show "WorkflowStepStatus_from_db_value raw = Some x \<Longrightarrow> raw = WorkflowStepStatus_as_db_value x" for raw x
    by (auto simp: WorkflowStepStatus_from_db_value_def split: if_splits)
  show "WorkflowStepStatus_from_str raw = ok_or (WorkflowStepStatus_from_db_value raw) ()" for raw
    by (simp add: WorkflowStepStatus_from_str_def)
qed

interpretation kind_column: db_enum WorkflowStepExecutionKind_as_db_value WorkflowStepExecutionKind_from_db_value WorkflowStepExecutionKind_from_str
proof unfold_locales
  show "WorkflowStepExecutionKind_from_db_value (WorkflowStepExecutionKind_as_db_value x) = Some x" for x
    by (cases x) (simp_all add: WorkflowStepExecutionKind_from_db_value_def lit_def)
  show "WorkflowStepExecutionKind_from_db_value raw = Some x \<Longrightarrow> raw = WorkflowStepExecutionKind_as_db_value x" for raw x
    by (auto simp: WorkflowStepExecutionKind_from_db_value_def split: if_splits)
  show "WorkflowStepExecutionKind_from_str raw = ok_or (WorkflowStepExecutionKind_from_db_value raw) ()" for raw
    by (simp add: WorkflowStepExecutionKind_from_str_def)
qed

interpretation mode_column: db_enum WorkflowDependencyReleaseMode_as_db_value WorkflowDependencyReleaseMode_from_db_value WorkflowDependencyReleaseMode_from_str
proof unfold_locales
  show "WorkflowDependencyReleaseMode_from_db_value (WorkflowDependencyReleaseMode_as_db_value x) = Some x" for x
    by (cases x) (simp_all add: WorkflowDependencyReleaseMode_from_db_value_def lit_def)
  show "WorkflowDependencyReleaseMode_from_db_value raw = Some x \<Longrightarrow> raw = WorkflowDependencyReleaseMode_as_db_value x" for raw x
    by (auto simp: WorkflowDependencyReleaseMode_from_db_value_def split: if_splits)
  show "WorkflowDependencyReleaseMode_from_str raw = ok_or (WorkflowDependencyReleaseMode_from_db_value raw) ()" for raw
    by (simp add: WorkflowDependencyReleaseMode_from_str_def)
qed

text \<open>
  The database values of jobs and workflows are a faithful encoding. For each of the seven
  columns a text is read as a value exactly when it is the text that value is written as, every other
  text is rejected, and different values are written differently; so a status survives the database
  and no unknown or differently spelled status is ever taken for one.
\<close>

theorem db_values_exact:
  "((JobStage_from_str raw = Inr a \<longleftrightarrow> raw = JobStage_as_db_value a) \<and>
    (JobStage_from_str raw = Inl () \<longleftrightarrow> raw \<notin> range JobStage_as_db_value) \<and>
    (JobStage_as_db_value a = JobStage_as_db_value a' \<longleftrightarrow> a = a')) \<and>
   ((JobStatus_from_str raw = Inr b \<longleftrightarrow> raw = JobStatus_as_db_value b) \<and>
    (JobStatus_from_str raw = Inl () \<longleftrightarrow> raw \<notin> range JobStatus_as_db_value) \<and>
    (JobStatus_as_db_value b = JobStatus_as_db_value b' \<longleftrightarrow> b = b')) \<and>
   ((JobEventType_from_str raw = Inr c \<longleftrightarrow> raw = JobEventType_as_db_value c) \<and>
    (JobEventType_from_str raw = Inl () \<longleftrightarrow> raw \<notin> range JobEventType_as_db_value) \<and>
    (JobEventType_as_db_value c = JobEventType_as_db_value c' \<longleftrightarrow> c = c')) \<and>
   ((WorkflowRunStatus_from_str raw = Inr d \<longleftrightarrow> raw = WorkflowRunStatus_as_db_value d) \<and>
    (WorkflowRunStatus_from_str raw = Inl () \<longleftrightarrow> raw \<notin> range WorkflowRunStatus_as_db_value) \<and>
    (WorkflowRunStatus_as_db_value d = WorkflowRunStatus_as_db_value d' \<longleftrightarrow> d = d')) \<and>
   ((WorkflowStepStatus_from_str raw = Inr e \<longleftrightarrow> raw = WorkflowStepStatus_as_db_value e) \<and>
    (WorkflowStepStatus_from_str raw = Inl () \<longleftrightarrow> raw \<notin> range WorkflowStepStatus_as_db_value) \<and>
    (WorkflowStepStatus_as_db_value e = WorkflowStepStatus_as_db_value e' \<longleftrightarrow> e = e')) \<and>
   ((WorkflowStepExecutionKind_from_str raw = Inr f \<longleftrightarrow> raw = WorkflowStepExecutionKind_as_db_value f) \<and>
    (WorkflowStepExecutionKind_from_str raw = Inl () \<longleftrightarrow> raw \<notin> range WorkflowStepExecutionKind_as_db_value) \<and>
    (WorkflowStepExecutionKind_as_db_value f = WorkflowStepExecutionKind_as_db_value f' \<longleftrightarrow> f = f')) \<and>
   ((WorkflowDependencyReleaseMode_from_str raw = Inr g \<longleftrightarrow> raw = WorkflowDependencyReleaseMode_as_db_value g) \<and>
    (WorkflowDependencyReleaseMode_from_str raw = Inl () \<longleftrightarrow> raw \<notin> range WorkflowDependencyReleaseMode_as_db_value) \<and>
    (WorkflowDependencyReleaseMode_as_db_value g = WorkflowDependencyReleaseMode_as_db_value g' \<longleftrightarrow> g = g'))"
  using stage_column.column_exact [of raw a a'] status_column.column_exact [of raw b b'] event_column.column_exact [of raw c c'] run_column.column_exact [of raw d d']
    step_column.column_exact [of raw e e'] kind_column.column_exact [of raw f f'] mode_column.column_exact [of raw g g']
  by (intro conjI) (elim conjE, assumption)+

end
