(* ===== verification/Workflow_Steps.thy ===== *)
theory Workflow_Steps
  imports Job_Status
begin

text \<open>
  Workflow steps of \<open>runledger-core\<close>: the identifiers (\<open>jobs/identifiers.rs\<close> and its macros), the
  step and run payloads (\<open>workflow_enqueue/types.rs\<close>), and the validation of the shape and of the
  dependencies of one step (\<open>step_validation.rs\<close>, \<open>build_validation.rs\<close>). JSON values are the type
  variable of the records, a UUID is its number. The \<open>i32\<close> settings are only compared, never computed
  with, and are integers.
\<close>

section \<open>Identifiers\<close>

datatype identifier_validation_error =
    Identifier_BlankJobType
  | Identifier_BlankWorkflowType
  | Identifier_BlankStepKey

definition validate_identifier ::
  "rstr \<Rightarrow> identifier_validation_error \<Rightarrow> identifier_validation_error + unit" where
  "validate_identifier value blank_error = (if is_blank value then Inl blank_error else Inr ())"

datatype job_type = JobType (job_type_str: rstr)

datatype workflow_type = WorkflowType (workflow_type_str: rstr)

datatype step_key = StepKey (step_key_str: rstr)

definition JobType_try_new :: "rstr \<Rightarrow> identifier_validation_error + job_type" where
  "JobType_try_new value =
     try_bind (validate_identifier value Identifier_BlankJobType) (\<lambda>_. Inr (JobType value))"

definition WorkflowType_try_new :: "rstr \<Rightarrow> identifier_validation_error + workflow_type" where
  "WorkflowType_try_new value =
     try_bind (validate_identifier value Identifier_BlankWorkflowType) (\<lambda>_. Inr (WorkflowType value))"

definition StepKey_try_new :: "rstr \<Rightarrow> identifier_validation_error + step_key" where
  "StepKey_try_new value =
     try_bind (validate_identifier value Identifier_BlankStepKey) (\<lambda>_. Inr (StepKey value))"

text \<open>The owned names hold only validated text.\<close>

datatype job_type_name = JobTypeName (job_type_name_str: rstr)

datatype workflow_type_name = WorkflowTypeName (workflow_type_name_str: rstr)

datatype step_key_name = StepKeyName (step_key_name_str: rstr)

definition JobTypeName_new :: "rstr \<Rightarrow> identifier_validation_error + job_type_name" where
  "JobTypeName_new value =
     try_bind (validate_identifier value Identifier_BlankJobType) (\<lambda>_. Inr (JobTypeName value))"

definition WorkflowTypeName_new :: "rstr \<Rightarrow> identifier_validation_error + workflow_type_name" where
  "WorkflowTypeName_new value =
     try_bind (validate_identifier value Identifier_BlankWorkflowType) (\<lambda>_. Inr (WorkflowTypeName value))"

definition StepKeyName_new :: "rstr \<Rightarrow> identifier_validation_error + step_key_name" where
  "StepKeyName_new value =
     try_bind (validate_identifier value Identifier_BlankStepKey) (\<lambda>_. Inr (StepKeyName value))"

section \<open>Payloads\<close>

type_synonym uuid = nat

type_synonym i32 = int

record workflow_job_step_execution =
  js_job_type :: job_type
  js_priority :: "i32 option"
  js_max_attempts :: "i32 option"
  js_timeout_seconds :: "i32 option"
  js_stage :: "job_stage option"
  js_allow_handler_continuation :: bool
  js_execution_resource_key :: "rstr option"

definition WorkflowJobStepExecution_new ::
  "job_type \<Rightarrow> i32 option \<Rightarrow> i32 option \<Rightarrow> i32 option \<Rightarrow> job_stage option \<Rightarrow> bool \<Rightarrow> rstr option
    \<Rightarrow> workflow_job_step_execution" where
  "WorkflowJobStepExecution_new job_type priority max_attempts timeout_seconds stage
     allow_handler_continuation execution_resource_key =
     \<lparr>js_job_type = job_type, js_priority = priority, js_max_attempts = max_attempts,
      js_timeout_seconds = timeout_seconds, js_stage = stage,
      js_allow_handler_continuation = allow_handler_continuation,
      js_execution_resource_key = execution_resource_key\<rparr>"

datatype workflow_step_execution =
    StepExecution_Job workflow_job_step_execution
  | StepExecution_External

fun execution_kind_of :: "workflow_step_execution \<Rightarrow> workflow_step_execution_kind" where
  "execution_kind_of (StepExecution_Job _) = WorkflowStepExecutionKind_Job"
| "execution_kind_of StepExecution_External = WorkflowStepExecutionKind_External"

record workflow_step_dependency_spec =
  dep_prerequisite_step_key :: step_key
  dep_release_mode :: "workflow_dependency_release_mode option"

definition effective_release_mode ::
  "workflow_step_dependency_spec \<Rightarrow> workflow_dependency_release_mode" where
  "effective_release_mode dependency =
     (case dep_release_mode dependency of
        Some release_mode \<Rightarrow> release_mode
      | None \<Rightarrow> WorkflowDependencyReleaseMode_OnTerminal)"

record 'j workflow_step_enqueue =
  ws_step_key :: step_key
  ws_execution :: workflow_step_execution
  ws_organization_id :: "uuid option"
  ws_payload :: 'j
  ws_dependencies :: "workflow_step_dependency_spec list"

definition ws_execution_kind :: "'j workflow_step_enqueue \<Rightarrow> workflow_step_execution_kind" where
  "ws_execution_kind step = execution_kind_of (ws_execution step)"

definition ws_job_type :: "'j workflow_step_enqueue \<Rightarrow> job_type option" where
  "ws_job_type step = (case ws_execution step of
     StepExecution_Job execution \<Rightarrow> Some (js_job_type execution) | StepExecution_External \<Rightarrow> None)"

definition ws_priority :: "'j workflow_step_enqueue \<Rightarrow> i32 option" where
  "ws_priority step = (case ws_execution step of
     StepExecution_Job execution \<Rightarrow> js_priority execution | StepExecution_External \<Rightarrow> None)"

definition ws_max_attempts :: "'j workflow_step_enqueue \<Rightarrow> i32 option" where
  "ws_max_attempts step = (case ws_execution step of
     StepExecution_Job execution \<Rightarrow> js_max_attempts execution | StepExecution_External \<Rightarrow> None)"

definition ws_timeout_seconds :: "'j workflow_step_enqueue \<Rightarrow> i32 option" where
  "ws_timeout_seconds step = (case ws_execution step of
     StepExecution_Job execution \<Rightarrow> js_timeout_seconds execution | StepExecution_External \<Rightarrow> None)"

definition ws_stage :: "'j workflow_step_enqueue \<Rightarrow> job_stage option" where
  "ws_stage step = (case ws_execution step of
     StepExecution_Job execution \<Rightarrow> js_stage execution | StepExecution_External \<Rightarrow> None)"

definition ws_allows_handler_continuation :: "'j workflow_step_enqueue \<Rightarrow> bool" where
  "ws_allows_handler_continuation step = (case ws_execution step of
     StepExecution_Job execution \<Rightarrow> js_allow_handler_continuation execution
   | StepExecution_External \<Rightarrow> False)"

definition ws_execution_resource_key :: "'j workflow_step_enqueue \<Rightarrow> rstr option" where
  "ws_execution_resource_key step = (case ws_execution step of
     StepExecution_Job execution \<Rightarrow> js_execution_resource_key execution
   | StepExecution_External \<Rightarrow> None)"

record 'j workflow_run_enqueue =
  wr_workflow_type :: workflow_type
  wr_organization_id :: "uuid option"
  wr_metadata :: 'j
  wr_idempotency_key :: "rstr option"
  wr_active_key :: "rstr option"
  wr_result_step_key :: "step_key option"
  wr_steps :: "'j workflow_step_enqueue list"

section \<open>Validation of one step\<close>

datatype workflow_step_validation_error =
    Step_BlankStepKey
  | Step_BlankStepJobType rstr
  | Step_NonPositiveStepMaxAttempts rstr i32
  | Step_NonPositiveStepTimeoutSeconds rstr i32
  | Step_InvalidStepExecutionResourceKey rstr
  | Step_ExternalStepJobTypeNotAllowed rstr
  | Step_ExternalStepQueueSettingsNotAllowed rstr
  | Step_BlankDependencyStepKey rstr
  | Step_DuplicateDependency rstr rstr
  | Step_SelfDependency rstr

record workflow_step_shape_validation_input =
  sh_step_key :: rstr
  sh_execution_kind :: workflow_step_execution_kind
  sh_job_type :: "rstr option"
  sh_priority :: "i32 option"
  sh_max_attempts :: "i32 option"
  sh_timeout_seconds :: "i32 option"
  sh_stage :: "job_stage option"
  sh_allow_handler_continuation :: bool
  sh_execution_resource_key :: "rstr option"

definition non_positive :: "i32 option \<Rightarrow> bool" where
  "non_positive v = (case v of Some n \<Rightarrow> n \<le> 0 | None \<Rightarrow> False)"

definition invalid_resource_key :: "rstr option \<Rightarrow> bool" where
  "invalid_resource_key v = (case v of Some k \<Rightarrow> is_blank k \<or> 512 < str_len k | None \<Rightarrow> False)"

definition validate_step_shape ::
  "workflow_step_shape_validation_input \<Rightarrow> workflow_step_validation_error + unit" where
  "validate_step_shape step =
     (case StepKey_try_new (sh_step_key step) of
        Inl _ \<Rightarrow> Inl Step_BlankStepKey
      | Inr _ \<Rightarrow>
          (case sh_execution_kind step of
             WorkflowStepExecutionKind_Job \<Rightarrow>
               (case sh_job_type step of
                  None \<Rightarrow> Inl (Step_BlankStepJobType (sh_step_key step))
                | Some job_type \<Rightarrow>
                    (case JobType_try_new job_type of
                       Inl _ \<Rightarrow> Inl (Step_BlankStepJobType (sh_step_key step))
                     | Inr _ \<Rightarrow>
                         if non_positive (sh_max_attempts step)
                         then Inl (Step_NonPositiveStepMaxAttempts (sh_step_key step)
                                     (the (sh_max_attempts step)))
                         else if non_positive (sh_timeout_seconds step)
                         then Inl (Step_NonPositiveStepTimeoutSeconds (sh_step_key step)
                                     (the (sh_timeout_seconds step)))
                         else if invalid_resource_key (sh_execution_resource_key step)
                         then Inl (Step_InvalidStepExecutionResourceKey (sh_step_key step))
                         else Inr ()))
           | WorkflowStepExecutionKind_External \<Rightarrow>
               if sh_job_type step \<noteq> None
               then Inl (Step_ExternalStepJobTypeNotAllowed (sh_step_key step))
               else if sh_priority step \<noteq> None \<or> sh_max_attempts step \<noteq> None \<or>
                       sh_timeout_seconds step \<noteq> None \<or> sh_stage step \<noteq> None \<or>
                       sh_allow_handler_continuation step \<or> sh_execution_resource_key step \<noteq> None
               then Inl (Step_ExternalStepQueueSettingsNotAllowed (sh_step_key step))
               else Inr ()))"

definition validate_step_dependency_shape ::
  "rstr \<Rightarrow> rstr \<Rightarrow> rstr set \<Rightarrow> workflow_step_validation_error + rstr set" where
  "validate_step_dependency_shape step_key prerequisite_step_key seen_dependencies =
     (case StepKey_try_new prerequisite_step_key of
        Inl _ \<Rightarrow> Inl (Step_BlankDependencyStepKey step_key)
      | Inr _ \<Rightarrow>
          if prerequisite_step_key = step_key then Inl (Step_SelfDependency step_key)
          else if prerequisite_step_key \<in> seen_dependencies
          then Inl (Step_DuplicateDependency step_key prerequisite_step_key)
          else Inr (insert prerequisite_step_key seen_dependencies))"

fun validate_step_dependencies_from ::
  "rstr \<Rightarrow> rstr set \<Rightarrow> workflow_step_dependency_spec list \<Rightarrow> workflow_step_validation_error + unit" where
  "validate_step_dependencies_from step_key seen [] = Inr ()"
| "validate_step_dependencies_from step_key seen (dependency # dependencies) =
     try_bind (validate_step_dependency_shape step_key
                 (step_key_str (dep_prerequisite_step_key dependency)) seen)
       (\<lambda>seen. validate_step_dependencies_from step_key seen dependencies)"

definition validate_step_dependencies ::
  "rstr \<Rightarrow> workflow_step_dependency_spec list \<Rightarrow> workflow_step_validation_error + unit" where
  "validate_step_dependencies step_key dependencies =
     validate_step_dependencies_from step_key {} dependencies"

definition validate_step_enqueue :: "'j workflow_step_enqueue \<Rightarrow> workflow_step_validation_error + unit" where
  "validate_step_enqueue step =
     try_bind (validate_step_shape
       \<lparr>sh_step_key = step_key_str (ws_step_key step), sh_execution_kind = ws_execution_kind step,
        sh_job_type = map_option job_type_str (ws_job_type step), sh_priority = ws_priority step,
        sh_max_attempts = ws_max_attempts step, sh_timeout_seconds = ws_timeout_seconds step,
        sh_stage = ws_stage step,
        sh_allow_handler_continuation = ws_allows_handler_continuation step,
        sh_execution_resource_key = ws_execution_resource_key step\<rparr>)
       (\<lambda>_. validate_step_dependencies (step_key_str (ws_step_key step)) (ws_dependencies step))"

section \<open>What validation accepts\<close>

lemma try_new_simps [simp]:
  "StepKey_try_new s = (if is_blank s then Inl Identifier_BlankStepKey else Inr (StepKey s))"
  "JobType_try_new s = (if is_blank s then Inl Identifier_BlankJobType else Inr (JobType s))"
  "WorkflowType_try_new s = (if is_blank s then Inl Identifier_BlankWorkflowType else Inr (WorkflowType s))"
  by (simp_all add: StepKey_try_new_def JobType_try_new_def WorkflowType_try_new_def
      validate_identifier_def)

definition job_settings_ok :: "rstr \<Rightarrow> i32 option \<Rightarrow> i32 option \<Rightarrow> rstr option \<Rightarrow> bool" where
  "job_settings_ok job_type max_attempts timeout_seconds resource_key \<longleftrightarrow>
     \<not> is_blank job_type \<and> (\<forall>n. max_attempts = Some n \<longrightarrow> 0 < n) \<and>
     (\<forall>n. timeout_seconds = Some n \<longrightarrow> 0 < n) \<and>
     (\<forall>k. resource_key = Some k \<longrightarrow> \<not> is_blank k \<and> str_len k \<le> 512)"

definition step_shape_ok :: "workflow_step_shape_validation_input \<Rightarrow> bool" where
  "step_shape_ok step \<longleftrightarrow>
     \<not> is_blank (sh_step_key step) \<and>
     (case sh_execution_kind step of
        WorkflowStepExecutionKind_Job \<Rightarrow>
          (\<exists>job_type. sh_job_type step = Some job_type \<and>
             job_settings_ok job_type (sh_max_attempts step) (sh_timeout_seconds step)
               (sh_execution_resource_key step))
      | WorkflowStepExecutionKind_External \<Rightarrow>
          sh_job_type step = None \<and> sh_priority step = None \<and> sh_max_attempts step = None \<and>
          sh_timeout_seconds step = None \<and> sh_stage step = None \<and>
          \<not> sh_allow_handler_continuation step \<and> sh_execution_resource_key step = None)"

lemma non_positive_iff: "non_positive v \<longleftrightarrow> \<not> (\<forall>n. v = Some n \<longrightarrow> 0 < n)"
  by (cases v) (auto simp: non_positive_def)

lemma invalid_resource_key_iff:
  "invalid_resource_key v \<longleftrightarrow> \<not> (\<forall>k. v = Some k \<longrightarrow> \<not> is_blank k \<and> str_len k \<le> 512)"
  by (cases v) (auto simp: invalid_resource_key_def)

lemma validate_step_shape_iff: "validate_step_shape step = Inr () \<longleftrightarrow> step_shape_ok step"
proof (cases "sh_execution_kind step")
  case WorkflowStepExecutionKind_Job
  then show ?thesis
    unfolding validate_step_shape_def step_shape_ok_def job_settings_ok_def non_positive_iff
      invalid_resource_key_iff
    by (cases "sh_job_type step") simp_all
next
  case WorkflowStepExecutionKind_External
  then show ?thesis
    by (simp add: validate_step_shape_def step_shape_ok_def)
qed

definition dependencies_ok :: "rstr \<Rightarrow> rstr list \<Rightarrow> bool" where
  "dependencies_ok step_key prerequisites \<longleftrightarrow>
     (\<forall>k\<in>set prerequisites. \<not> is_blank k \<and> k \<noteq> step_key) \<and> distinct prerequisites"

abbreviation prerequisite_keys :: "workflow_step_dependency_spec list \<Rightarrow> rstr list" where
  "prerequisite_keys \<equiv> map (\<lambda>d. step_key_str (dep_prerequisite_step_key d))"

lemma validate_step_dependency_shape_iff:
  "validate_step_dependency_shape key k seen = Inr seen' \<longleftrightarrow>
     \<not> is_blank k \<and> k \<noteq> key \<and> k \<notin> seen \<and> seen' = insert k seen"
  by (auto simp: validate_step_dependency_shape_def)

lemma validate_step_dependencies_from_iff:
  "validate_step_dependencies_from key seen ds = Inr () \<longleftrightarrow>
     dependencies_ok key (prerequisite_keys ds) \<and> seen \<inter> set (prerequisite_keys ds) = {}"
proof (induction ds arbitrary: seen)
  case Nil
  then show ?case by (simp add: dependencies_ok_def)
next
  case (Cons d ds)
  show ?case
    by (auto simp: try_bind_eq_Inr validate_step_dependency_shape_iff Cons.IH dependencies_ok_def)
qed

lemma validate_step_dependencies_iff:
  "validate_step_dependencies key ds = Inr () \<longleftrightarrow> dependencies_ok key (prerequisite_keys ds)"
  by (simp add: validate_step_dependencies_def validate_step_dependencies_from_iff)

definition step_enqueue_ok :: "'j workflow_step_enqueue \<Rightarrow> bool" where
  "step_enqueue_ok step \<longleftrightarrow>
     \<not> is_blank (step_key_str (ws_step_key step)) \<and>
     (case ws_execution step of
        StepExecution_Job job \<Rightarrow>
          job_settings_ok (job_type_str (js_job_type job)) (js_max_attempts job)
            (js_timeout_seconds job) (js_execution_resource_key job)
      | StepExecution_External \<Rightarrow> True) \<and>
     dependencies_ok (step_key_str (ws_step_key step)) (prerequisite_keys (ws_dependencies step))"

lemmas step_accessors = ws_execution_kind_def ws_job_type_def ws_priority_def ws_max_attempts_def
  ws_timeout_seconds_def ws_stage_def ws_allows_handler_continuation_def ws_execution_resource_key_def

lemma validate_step_enqueue_iff: "validate_step_enqueue step = Inr () \<longleftrightarrow> step_enqueue_ok step"
  unfolding validate_step_enqueue_def step_enqueue_ok_def try_bind_eq_Inr validate_step_dependencies_iff
  by (cases "ws_execution step") (simp_all add: validate_step_shape_iff step_shape_ok_def step_accessors)

end
