(* ===== verification/Workflow_Graph.thy ===== *)
theory Workflow_Graph
  imports Batter_Prelude
begin

text \<open>
  The cycle check of workflow graphs (\<open>is_acyclic\<close> of \<open>workflow_enqueue/dag_validation.rs\<close>), Kahn's
  algorithm over in-degrees and adjacency lists by index. An index out of range or a decrement below
  zero panics, which is \<open>None\<close>; every theorem on graphs with matching in-degrees shows that neither
  happens. The loop is a total function: each round takes one index off the queue, and whatever it
  pushes has used up an in-degree.
\<close>

section \<open>Model\<close>

fun relax :: "nat list \<Rightarrow> nat list \<Rightarrow> nat list \<Rightarrow> (nat list \<times> nat list) option" where
  "relax [] indegree ready = Some (indegree, ready)"
| "relax (nxt # nexts) indegree ready =
     (if nxt < length indegree \<and> 0 < indegree ! nxt
      then let indegree = indegree[nxt := indegree ! nxt - 1]
           in relax nexts indegree (if indegree ! nxt = 0 then ready @ [nxt] else ready)
      else None)"

lemma sum_list_dec:
  "i < length xs \<Longrightarrow> 0 < xs ! i \<Longrightarrow> Suc (sum_list (xs[i := xs ! i - 1 :: nat])) = sum_list xs"
  by (induction xs arbitrary: i) (auto simp: less_Suc_eq_0_disj)

lemma relax_decreases:
  "relax nexts indegree ready = Some (indegree', ready') \<Longrightarrow>
     sum_list indegree' + length ready' \<le> sum_list indegree + length ready"
proof (induction nexts arbitrary: indegree ready)
  case Nil
  then show ?case by simp
next
  case (Cons nxt nexts)
  let ?d = "indegree[nxt := indegree ! nxt - 1]"
  let ?r = "if ?d ! nxt = 0 then ready @ [nxt] else ready"
  have nxt: "nxt < length indegree \<and> 0 < indegree ! nxt"
    using Cons.prems by (simp split: if_split_asm)
  then have "relax nexts ?d ?r = Some (indegree', ready')"
    using Cons.prems by (simp only: relax.simps if_True Let_def simp_thms)
  then have "sum_list indegree' + length ready' \<le> sum_list ?d + length ?r"
    by (rule Cons.IH)
  moreover have "length ?r \<le> Suc (length ready)"
    by simp
  ultimately show ?case
    using sum_list_dec [of nxt indegree] nxt by linarith
qed

function visit_ready :: "nat list list \<Rightarrow> nat list \<Rightarrow> nat list \<Rightarrow> nat \<Rightarrow> nat option" where
  "visit_ready adjacency indegree [] visited = Some visited"
| "visit_ready adjacency indegree (index # ready) visited =
     (if index < length adjacency
      then case relax (adjacency ! index) indegree ready of
             None \<Rightarrow> None
           | Some (indegree, ready) \<Rightarrow> visit_ready adjacency indegree ready (visited + 1)
      else None)"
  by pat_completeness auto

termination
proof (relation "measure (\<lambda>(_, indegree, ready, _). sum_list indegree + length ready)")
  fix adjacency :: "nat list list" and indegree ready index visited x indegree' ready'
  assume "relax (adjacency ! index) indegree ready = Some x" and "(indegree', ready') = x"
  then show "((adjacency, indegree', ready', visited + 1), adjacency, indegree, index # ready, visited)
      \<in> measure (\<lambda>(_, indegree, ready, _). sum_list indegree + length ready)"
    using relax_decreases [of "adjacency ! index" indegree ready indegree' ready'] by simp
qed simp

definition ready_indices :: "nat list \<Rightarrow> nat list" where
  "ready_indices indegree = filter (\<lambda>i. indegree ! i = 0) [0..<length indegree]"

definition is_acyclic :: "nat list \<Rightarrow> nat list list \<Rightarrow> bool option" where
  "is_acyclic indegree adjacency =
     map_option (\<lambda>visited. visited = length indegree)
       (visit_ready adjacency indegree (ready_indices indegree) 0)"

section \<open>Graphs with matching in-degrees\<close>

definition graph_edges :: "nat list list \<Rightarrow> (nat \<times> nat) set" where
  "graph_edges adjacency = {(i, j). i < length adjacency \<and> j \<in> set (adjacency ! i)}"

text \<open>The in-degree of \<open>j\<close> that the nodes outside \<open>D\<close> contribute.\<close>

definition open_degree :: "nat list list \<Rightarrow> nat set \<Rightarrow> nat \<Rightarrow> nat" where
  "open_degree adjacency D j = (\<Sum>i\<in>{..<length adjacency} - D. count_list (adjacency ! i) j)"

definition graph_ok :: "nat list \<Rightarrow> nat list list \<Rightarrow> bool" where
  "graph_ok indegree adjacency \<longleftrightarrow>
     length indegree = length adjacency \<and>
     (\<forall>i<length adjacency. \<forall>j\<in>set (adjacency ! i). j < length adjacency) \<and>
     (\<forall>j<length adjacency. indegree ! j = open_degree adjacency {} j)"

lemma open_degree_visit:
  assumes "i < length adjacency" and "i \<notin> D"
  shows "open_degree adjacency D j = count_list (adjacency ! i) j + open_degree adjacency (insert i D) j"
proof -
  have "{..<length adjacency} - insert i D = {..<length adjacency} - D - {i}"
    by blast
  then show ?thesis
    unfolding open_degree_def by (simp only:) (rule sum.remove, use assms in simp_all)
qed

lemma open_degree_eq_0:
  "open_degree adjacency D j = 0 \<longleftrightarrow> (\<forall>i. (i, j) \<in> graph_edges adjacency \<longrightarrow> i \<in> D)"
  by (auto simp: open_degree_def graph_edges_def count_list_0_iff)

text \<open>
  Relaxing the successors of a node takes its share off every in-degree, and queues exactly the
  nodes whose in-degree has become zero.
\<close>

lemma relax_spec:
  assumes "\<forall>j<length indegree. count_list nexts j \<le> indegree ! j"
    and "\<forall>j\<in>set nexts. j < length indegree"
    and "distinct ready" and "\<forall>j\<in>set ready. j < length indegree \<longrightarrow> indegree ! j = 0"
  shows "\<exists>indegree' new. relax nexts indegree ready = Some (indegree', ready @ new) \<and>
           length indegree' = length indegree \<and>
           (\<forall>j<length indegree. indegree' ! j = indegree ! j - count_list nexts j) \<and>
           distinct (ready @ new) \<and>
           set new = {j. j < length indegree \<and> 0 < indegree ! j \<and> indegree ! j = count_list nexts j}"
  using assms
proof (induction nexts arbitrary: indegree ready)
  case Nil
  then show ?case by auto
next
  case (Cons nxt nexts)
  let ?d = "indegree[nxt := indegree ! nxt - 1]"
  let ?r = "if ?d ! nxt = 0 then ready @ [nxt] else ready"
  note le = Cons.prems(1) [rule_format]
  have nxt: "nxt < length indegree"
    using Cons.prems(2) by simp
  then have pos: "0 < indegree ! nxt"
    using le [of nxt] by simp
  have count: "count_list nexts j \<le> ?d ! j" if "j < length ?d" for j
    using le [of j] that nxt by (cases "j = nxt") simp_all
  have fresh: "nxt \<notin> set ready"
    using Cons.prems(4) nxt pos by auto
  have "\<exists>indegree' new. relax nexts ?d ?r = Some (indegree', ?r @ new) \<and>
          length indegree' = length ?d \<and>
          (\<forall>j<length ?d. indegree' ! j = ?d ! j - count_list nexts j) \<and> distinct (?r @ new) \<and>
          set new = {j. j < length ?d \<and> 0 < ?d ! j \<and> ?d ! j = count_list nexts j}"
  proof (rule Cons.IH)
    show "distinct ?r" using Cons.prems(3) fresh by simp
    show "\<forall>j\<in>set ?r. j < length ?d \<longrightarrow> ?d ! j = 0"
      using Cons.prems(4) nxt by (auto simp: nth_list_update)
    show "\<forall>j<length ?d. count_list nexts j \<le> ?d ! j"
      using count by (intro allI impI)
    show "\<forall>j\<in>set nexts. j < length ?d"
      using Cons.prems(2) by simp
  qed
  then obtain indegree' new where res: "relax nexts ?d ?r = Some (indegree', ?r @ new)"
    and len: "length indegree' = length indegree"
    and val: "\<forall>j<length indegree. indegree' ! j = ?d ! j - count_list nexts j"
    and dist: "distinct (?r @ new)"
    and new: "set new = {j. j < length indegree \<and> 0 < ?d ! j \<and> ?d ! j = count_list nexts j}"
    unfolding length_list_update by blast
  let ?new = "if ?d ! nxt = 0 then nxt # new else new"
  have r: "relax (nxt # nexts) indegree ready = Some (indegree', ready @ ?new)"
    using res nxt pos by (simp add: Let_def)
  have v: "indegree' ! j = indegree ! j - count_list (nxt # nexts) j" if "j < length indegree" for j
    using val nxt that by (cases "j = nxt") simp_all
  have d: "distinct (ready @ ?new)"
    using dist by (cases "?d ! nxt = 0") simp_all
  have n: "set ?new = {j. j < length indegree \<and> 0 < indegree ! j \<and>
      indegree ! j = count_list (nxt # nexts) j}"
  proof (rule set_eqI)
    fix j
    show "j \<in> set ?new \<longleftrightarrow> j \<in> {j. j < length indegree \<and> 0 < indegree ! j \<and>
        indegree ! j = count_list (nxt # nexts) j}"
    proof (cases "j = nxt")
      case True
      have "count_list nexts nxt \<le> indegree ! nxt - 1"
        using count [of nxt] nxt by simp
      moreover have "nxt \<in> set new \<longleftrightarrow>
          0 < indegree ! nxt - 1 \<and> indegree ! nxt - 1 = count_list nexts nxt"
        using nxt by (simp add: new)
      ultimately have "nxt \<in> set ?new \<longleftrightarrow> indegree ! nxt = Suc (count_list nexts nxt)"
        using nxt pos by (cases "indegree ! nxt - 1 = 0") (simp_all, linarith+)
      then show ?thesis
        using True nxt pos by simp
    next
      case False
      then have "?d ! j = indegree ! j" and "count_list (nxt # nexts) j = count_list nexts j"
        by simp_all
      moreover have "j \<in> set ?new \<longleftrightarrow> j \<in> set new"
        using False by simp
      ultimately show ?thesis
        by (simp only: new mem_Collect_eq)
    qed
  qed
  show ?case
    using r len v d n by (intro exI conjI allI impI)
qed

text \<open>
  The invariant of the loop: \<open>D\<close> is the set of visited nodes and \<open>f\<close> the rounds in which they were
  visited. Every predecessor of a visited node was visited in an earlier round.
\<close>

definition ranked :: "nat list list \<Rightarrow> nat set \<Rightarrow> (nat \<Rightarrow> nat) \<Rightarrow> bool" where
  "ranked adjacency D f \<longleftrightarrow>
     D \<subseteq> {..<length adjacency} \<and> (\<forall>a\<in>D. f a < card D) \<and>
     (\<forall>a b. (a, b) \<in> graph_edges adjacency \<longrightarrow> b \<in> D \<longrightarrow> a \<in> D \<and> f a < f b)"

definition visit_inv :: "nat list list \<Rightarrow> nat list \<Rightarrow> nat list \<Rightarrow> nat set \<Rightarrow> bool" where
  "visit_inv adjacency indegree ready D \<longleftrightarrow>
     length indegree = length adjacency \<and>
     (\<forall>i<length adjacency. \<forall>j\<in>set (adjacency ! i). j < length adjacency) \<and>
     (\<forall>j<length adjacency. indegree ! j = open_degree adjacency D j) \<and>
     distinct ready \<and> set ready \<subseteq> {..<length adjacency} \<and> set ready \<inter> D = {} \<and>
     (\<forall>j<length adjacency. indegree ! j = 0 \<longleftrightarrow> j \<in> D \<or> j \<in> set ready)"

lemma ranked_insert:
  assumes "ranked adjacency D f" and "i < length adjacency" and "i \<notin> D"
    and "\<forall>a. (a, i) \<in> graph_edges adjacency \<longrightarrow> a \<in> D"
  shows "ranked adjacency (insert i D) (f(i := card D))"
proof -
  have "finite D"
    using assms(1) by (auto simp: ranked_def intro: finite_subset)
  then have card: "card (insert i D) = Suc (card D)"
    using assms(3) by simp
  have rank: "\<forall>a\<in>D. f a < card D"
    using assms(1) by (simp add: ranked_def)
  have edge: "a \<in> D \<and> f a < f b" if "(a, b) \<in> graph_edges adjacency" "b \<in> D" for a b
    using assms(1) that by (auto simp: ranked_def)
  show ?thesis
    unfolding ranked_def card
  proof (intro conjI allI impI ballI)
    show "insert i D \<subseteq> {..<length adjacency}"
      using assms(1,2) by (simp add: ranked_def)
    show "(f(i := card D)) a < Suc (card D)" if "a \<in> insert i D" for a
      using rank that by (auto simp: less_Suc_eq)
    fix a b
    assume ab: "(a, b) \<in> graph_edges adjacency" and b: "b \<in> insert i D"
    have a: "a \<in> D"
      using ab b assms(4) edge by blast
    then show "a \<in> insert i D" by simp
    show "(f(i := card D)) a < (f(i := card D)) b"
      using a ab b assms(3) rank edge [OF ab] by (cases "b = i") auto
  qed
qed

lemma visit_inv_step:
  assumes inv: "visit_inv adjacency indegree (index # ready) D"
  obtains indegree' ready' where "index < length adjacency" and "index \<notin> D"
    and "\<forall>a. (a, index) \<in> graph_edges adjacency \<longrightarrow> a \<in> D"
    and "relax (adjacency ! index) indegree ready = Some (indegree', ready')"
    and "visit_inv adjacency indegree' ready' (insert index D)"
proof -
  let ?n = "length adjacency"
  have len: "length indegree = ?n" and bound: "\<forall>i<?n. \<forall>j\<in>set (adjacency ! i). j < ?n"
    and deg: "\<And>j. j < ?n \<Longrightarrow> indegree ! j = open_degree adjacency D j"
    and dist: "index \<notin> set ready" "distinct ready"
    and sub: "index < ?n" "set ready \<subseteq> {..<?n}"
    and disj: "index \<notin> D" "set ready \<inter> D = {}"
    using inv by (simp_all add: visit_inv_def)
  have "\<forall>j<?n. indegree ! j = 0 \<longleftrightarrow> j \<in> D \<or> j \<in> set (index # ready)"
    using inv unfolding visit_inv_def by blast
  then have zero: "indegree ! j = 0 \<longleftrightarrow> j \<in> D \<or> j = index \<or> j \<in> set ready" if "j < ?n" for j
    using that by simp
  have deg': "indegree ! j = count_list (adjacency ! index) j + open_degree adjacency (insert index D) j"
    if "j < ?n" for j
    using deg [OF that] open_degree_visit [OF sub(1) disj(1)] by simp
  have "\<exists>indegree' new. relax (adjacency ! index) indegree ready = Some (indegree', ready @ new) \<and>
      length indegree' = length indegree \<and>
      (\<forall>j<length indegree. indegree' ! j = indegree ! j - count_list (adjacency ! index) j) \<and>
      distinct (ready @ new) \<and>
      set new = {j. j < length indegree \<and> 0 < indegree ! j \<and>
                    indegree ! j = count_list (adjacency ! index) j}"
  proof (rule relax_spec)
    show "\<forall>j<length indegree. count_list (adjacency ! index) j \<le> indegree ! j"
      using deg' len by simp
    show "\<forall>j\<in>set (adjacency ! index). j < length indegree"
      using bound sub(1) len by simp
    show "\<forall>j\<in>set ready. j < length indegree \<longrightarrow> indegree ! j = 0"
      using zero len by simp
  qed (rule dist(2))
  then obtain indegree' new
    where res: "relax (adjacency ! index) indegree ready = Some (indegree', ready @ new)"
      and len': "length indegree' = ?n"
      and val: "\<And>j. j < ?n \<Longrightarrow> indegree' ! j = indegree ! j - count_list (adjacency ! index) j"
      and dist': "distinct (ready @ new)"
      and new: "set new = {j. j < ?n \<and> 0 < indegree ! j \<and>
                              indegree ! j = count_list (adjacency ! index) j}"
    unfolding len by blast
  have zero': "indegree' ! j = 0 \<longleftrightarrow> j \<in> insert index D \<or> j \<in> set (ready @ new)" if "j < ?n" for j
    using val [OF that] deg' [OF that] zero [OF that] that by (auto simp: new)
  have "visit_inv adjacency indegree' (ready @ new) (insert index D)"
    unfolding visit_inv_def
  proof (intro conjI)
    show "\<forall>j<?n. indegree' ! j = open_degree adjacency (insert index D) j"
      using val deg' by simp
    show "set (ready @ new) \<subseteq> {..<?n}"
      using sub(2) new by auto
    show "set (ready @ new) \<inter> insert index D = {}"
    proof -
      have "j \<notin> insert index D" if "j \<in> set new" for j
        using that zero [of j] by (auto simp: new)
      then show ?thesis
        using dist(1) disj(2) by auto
    qed
    show "\<forall>j<?n. indegree' ! j = 0 \<longleftrightarrow> j \<in> insert index D \<or> j \<in> set (ready @ new)"
      using zero' by blast
  qed (use len' bound dist' in blast)+
  moreover have "\<forall>a. (a, index) \<in> graph_edges adjacency \<longrightarrow> a \<in> D"
    using deg [OF sub(1)] zero [OF sub(1)] by (simp add: open_degree_eq_0 [symmetric])
  ultimately show thesis
    using that sub(1) disj(1) res by blast
qed

lemma visit_ready_spec:
  assumes "visit_inv adjacency indegree ready D" and "ranked adjacency D f" and "visited = card D"
  shows "\<exists>D f. visit_ready adjacency indegree ready visited = Some (card D) \<and> ranked adjacency D f \<and>
           (\<forall>j<length adjacency. j \<notin> D \<longrightarrow> (\<exists>i. (i, j) \<in> graph_edges adjacency \<and> i \<notin> D))"
  using assms
proof (induction adjacency indegree ready visited arbitrary: D f rule: visit_ready.induct)
  case (1 adjacency indegree visited)
  have "\<forall>j<length adjacency. j \<notin> D \<longrightarrow> (\<exists>i. (i, j) \<in> graph_edges adjacency \<and> i \<notin> D)"
  proof (intro allI impI)
    fix j
    assume "j < length adjacency" and "j \<notin> D"
    then have "indegree ! j \<noteq> 0" and "indegree ! j = open_degree adjacency D j"
      using 1(1) unfolding visit_inv_def by auto
    then have "open_degree adjacency D j \<noteq> 0" by simp
    then show "\<exists>i. (i, j) \<in> graph_edges adjacency \<and> i \<notin> D"
      by (simp add: open_degree_eq_0)
  qed
  then show ?case
    using 1(2,3) by auto
next
  case (2 adjacency indegree index ready visited)
  obtain indegree' ready' where step: "index < length adjacency" "index \<notin> D"
    "\<forall>a. (a, index) \<in> graph_edges adjacency \<longrightarrow> a \<in> D"
    and res: "relax (adjacency ! index) indegree ready = Some (indegree', ready')"
    and inv: "visit_inv adjacency indegree' ready' (insert index D)"
    by (rule visit_inv_step [OF 2(2)])
  have "finite D"
    using 2(3) by (auto simp: ranked_def intro: finite_subset)
  then have "visited + 1 = card (insert index D)"
    using step(2) 2(4) by simp
  from 2(1) [OF step(1) res refl inv ranked_insert [OF 2(3) step] this]
  show ?case
    using step(1) res by simp
qed

lemma ranked_all_acyclic:
  assumes "ranked adjacency {..<length adjacency} f"
    and "\<forall>i<length adjacency. \<forall>j\<in>set (adjacency ! i). j < length adjacency"
  shows "acyclic (graph_edges adjacency)"
proof -
  have "graph_edges adjacency \<subseteq> measure f"
    using assms by (auto simp: ranked_def graph_edges_def)
  then show ?thesis
    by (metis wf_acyclic wf_measure wf_subset)
qed

lemma acyclic_has_source:
  assumes "acyclic (graph_edges adjacency)" and "R \<noteq> {}" and "R \<subseteq> {..<length adjacency}"
    and "\<forall>i<length adjacency. \<forall>j\<in>set (adjacency ! i). j < length adjacency"
  obtains j where "j \<in> R" and "\<forall>i. (i, j) \<in> graph_edges adjacency \<longrightarrow> i \<notin> R"
proof -
  have "graph_edges adjacency \<subseteq> {..<length adjacency} \<times> {..<length adjacency}"
    using assms(4) by (auto simp: graph_edges_def)
  then have "finite (graph_edges adjacency)"
    by (rule finite_subset) simp
  then have "wf (graph_edges adjacency)"
    using assms(1) by (rule finite_acyclic_wf)
  then show thesis
    using assms(2) that by (metis wf_eq_minimal ex_in_conv)
qed

lemma visit_inv_initial:
  "graph_ok indegree adjacency \<Longrightarrow> visit_inv adjacency indegree (ready_indices indegree) {}"
  by (auto simp: visit_inv_def graph_ok_def ready_indices_def)

lemma is_acyclic_exact:
  assumes "graph_ok indegree adjacency"
  shows "is_acyclic indegree adjacency = Some (acyclic (graph_edges adjacency))"
proof -
  let ?n = "length adjacency"
  have len: "length indegree = ?n" and bound: "\<forall>i<?n. \<forall>j\<in>set (adjacency ! i). j < ?n"
    using assms by (simp_all add: graph_ok_def)
  have "visit_inv adjacency indegree (ready_indices indegree) {}"
    using assms by (rule visit_inv_initial)
  moreover have "ranked adjacency {} (\<lambda>_. 0)"
    by (simp add: ranked_def)
  ultimately obtain D f
    where res: "visit_ready adjacency indegree (ready_indices indegree) 0 = Some (card D)"
      and ranked: "ranked adjacency D f"
      and rest: "\<forall>j<?n. j \<notin> D \<longrightarrow> (\<exists>i. (i, j) \<in> graph_edges adjacency \<and> i \<notin> D)"
    using visit_ready_spec [of adjacency indegree "ready_indices indegree" "{}" "\<lambda>_. 0" 0] by auto
  have sub: "D \<subseteq> {..<?n}"
    using ranked by (simp add: ranked_def)
  have "card D = ?n \<longleftrightarrow> acyclic (graph_edges adjacency)"
  proof
    assume "card D = ?n"
    then have "D = {..<?n}"
      using sub by (intro card_subset_eq) simp_all
    then show "acyclic (graph_edges adjacency)"
      using ranked_all_acyclic bound ranked by blast
  next
    assume acyclic: "acyclic (graph_edges adjacency)"
    have "{..<?n} - D = {}"
    proof (rule ccontr)
      assume "{..<?n} - D \<noteq> {}"
      then obtain j where j: "j \<in> {..<?n} - D"
        and min: "\<forall>i. (i, j) \<in> graph_edges adjacency \<longrightarrow> i \<notin> {..<?n} - D"
        by (rule acyclic_has_source [OF acyclic _ _ bound]) auto
      then show False
        using rest by (auto simp: graph_edges_def)
    qed
    then have "D = {..<?n}"
      using sub by blast
    then show "card D = ?n" by simp
  qed
  then show ?thesis
    using res len by (simp add: is_acyclic_def)
qed

text \<open>
  C14: the cycle check terminates, never panics and is right. On every graph whose in-degrees count its
  edges, the loop ends after visiting at most every node once, without an index out of range and
  without a decrement below zero, and it has visited all nodes exactly when the graph has no cycle.
\<close>

theorem cycle_check_total:
  assumes "graph_ok indegree adjacency"
  shows "\<exists>visited. visit_ready adjacency indegree (ready_indices indegree) 0 = Some visited \<and>
           visited \<le> length adjacency \<and>
           (visited = length adjacency \<longleftrightarrow> acyclic (graph_edges adjacency)) \<and>
           is_acyclic indegree adjacency = Some (acyclic (graph_edges adjacency))"
proof -
  obtain D f where res: "visit_ready adjacency indegree (ready_indices indegree) 0 = Some (card D)"
    and "ranked adjacency D f"
    using visit_ready_spec [OF visit_inv_initial [OF assms], of "\<lambda>_. 0" 0] by (auto simp: ranked_def)
  then have "card D \<le> length adjacency"
    using card_mono [of "{..<length adjacency}" D] by (simp add: ranked_def)
  moreover have "card D = length adjacency \<longleftrightarrow> acyclic (graph_edges adjacency)"
    using is_acyclic_exact [OF assms] res assms by (simp add: is_acyclic_def graph_ok_def)
  ultimately show ?thesis
    using res is_acyclic_exact [OF assms] by blast
qed

lemma sample_cycle: "graph_ok [0, 2, 1] [[1], [2], [1]]"
  by (simp add: graph_ok_def open_degree_def less_Suc_eq lessThan_Suc numeral_3_eq_3)

theorem cycle_check_total_witness:
  "is_acyclic [0, 2, 1] [[1], [2], [1]] = Some False \<and> \<not> acyclic (graph_edges [[1], [2], [1]])"
proof -
  have "visit_ready [[1], [2], [1]] [0, 2, 1] (ready_indices [0, 2, 1]) 0 = Some 1"
    by (simp add: ready_indices_def)
  then show ?thesis
    using cycle_check_total [OF sample_cycle] by auto
qed

end
