(* ===== verification/Workflow_Dag.thy ===== *)
theory Workflow_Dag
  imports Workflow_Steps Workflow_Graph "HOL-Library.Multiset"
begin

text \<open>
  Validation of whole workflows (\<open>workflow_enqueue/dag_validation.rs\<close>): the graph of a run, the run
  payload and the steps appended to a run that exists. The maps from step keys to indices are partial
  functions, the set of seen dependencies and the set of existing keys are sets: the code only inserts
  and looks up. A panic of an index operation is \<open>Panicked\<close>.
\<close>

section \<open>Inputs and errors\<close>

record workflow_dag_dependency_validation_input =
  dd_prerequisite_step_key :: step_key

record workflow_dag_step_validation_input =
  dg_step_key :: step_key
  dg_execution_kind :: workflow_step_execution_kind
  dg_job_type :: "job_type option"
  dg_priority :: "i32 option"
  dg_max_attempts :: "i32 option"
  dg_timeout_seconds :: "i32 option"
  dg_stage :: "job_stage option"
  dg_allow_handler_continuation :: bool
  dg_execution_resource_key :: "rstr option"
  dg_dependencies :: "workflow_dag_dependency_validation_input list"

definition WorkflowDagStepValidationInput_new ::
  "step_key \<Rightarrow> workflow_step_execution_kind \<Rightarrow> job_type option
    \<Rightarrow> workflow_dag_dependency_validation_input list \<Rightarrow> workflow_dag_step_validation_input" where
  "WorkflowDagStepValidationInput_new step_key execution_kind job_type dependencies =
     \<lparr>dg_step_key = step_key, dg_execution_kind = execution_kind, dg_job_type = job_type,
      dg_priority = None, dg_max_attempts = None, dg_timeout_seconds = None, dg_stage = None,
      dg_allow_handler_continuation = False, dg_execution_resource_key = None,
      dg_dependencies = dependencies\<rparr>"

definition dg_with_priority ::
  "i32 option \<Rightarrow> workflow_dag_step_validation_input \<Rightarrow> workflow_dag_step_validation_input" where
  "dg_with_priority v step = step\<lparr>dg_priority := v\<rparr>"

definition dg_with_max_attempts ::
  "i32 option \<Rightarrow> workflow_dag_step_validation_input \<Rightarrow> workflow_dag_step_validation_input" where
  "dg_with_max_attempts v step = step\<lparr>dg_max_attempts := v\<rparr>"

definition dg_with_timeout_seconds ::
  "i32 option \<Rightarrow> workflow_dag_step_validation_input \<Rightarrow> workflow_dag_step_validation_input" where
  "dg_with_timeout_seconds v step = step\<lparr>dg_timeout_seconds := v\<rparr>"

definition dg_with_stage ::
  "job_stage option \<Rightarrow> workflow_dag_step_validation_input \<Rightarrow> workflow_dag_step_validation_input" where
  "dg_with_stage v step = step\<lparr>dg_stage := v\<rparr>"

definition dg_with_allow_handler_continuation ::
  "bool \<Rightarrow> workflow_dag_step_validation_input \<Rightarrow> workflow_dag_step_validation_input" where
  "dg_with_allow_handler_continuation v step = step\<lparr>dg_allow_handler_continuation := v\<rparr>"

definition dg_with_execution_resource_key ::
  "rstr option \<Rightarrow> workflow_dag_step_validation_input \<Rightarrow> workflow_dag_step_validation_input" where
  "dg_with_execution_resource_key v step = step\<lparr>dg_execution_resource_key := v\<rparr>"

datatype workflow_dag_validation_error =
    Dag_EmptySteps
  | Dag_BlankWorkflowType
  | Dag_BlankStepKey nat
  | Dag_BlankStepJobType rstr
  | Dag_BlankIdempotencyKey
  | Dag_BlankActiveKey
  | Dag_ActiveKeyTooLong
  | Dag_BlankResultStepKey
  | Dag_UnknownResultStepKey rstr
  | Dag_NonPositiveStepMaxAttempts rstr i32
  | Dag_NonPositiveStepTimeoutSeconds rstr i32
  | Dag_InvalidStepExecutionResourceKey rstr
  | Dag_ExternalStepJobTypeNotAllowed rstr
  | Dag_ExternalStepQueueSettingsNotAllowed rstr
  | Dag_BlankDependencyStepKey rstr
  | Dag_DuplicateStepKey rstr
  | Dag_MissingDependency rstr rstr
  | Dag_SelfDependency rstr
  | Dag_DuplicateDependency rstr rstr
  | Dag_CycleDetected

fun from_step_validation_error :: "nat \<Rightarrow> workflow_step_validation_error \<Rightarrow> workflow_dag_validation_error" where
  "from_step_validation_error i Step_BlankStepKey = Dag_BlankStepKey i"
| "from_step_validation_error i (Step_BlankStepJobType k) = Dag_BlankStepJobType k"
| "from_step_validation_error i (Step_NonPositiveStepMaxAttempts k n) = Dag_NonPositiveStepMaxAttempts k n"
| "from_step_validation_error i (Step_NonPositiveStepTimeoutSeconds k n) =
     Dag_NonPositiveStepTimeoutSeconds k n"
| "from_step_validation_error i (Step_InvalidStepExecutionResourceKey k) =
     Dag_InvalidStepExecutionResourceKey k"
| "from_step_validation_error i (Step_ExternalStepJobTypeNotAllowed k) = Dag_ExternalStepJobTypeNotAllowed k"
| "from_step_validation_error i (Step_ExternalStepQueueSettingsNotAllowed k) =
     Dag_ExternalStepQueueSettingsNotAllowed k"
| "from_step_validation_error i (Step_BlankDependencyStepKey k) = Dag_BlankDependencyStepKey k"
| "from_step_validation_error i (Step_DuplicateDependency k p) = Dag_DuplicateDependency k p"
| "from_step_validation_error i (Step_SelfDependency k) = Dag_SelfDependency k"

section \<open>Validation of a graph\<close>

definition dag_step_shape :: "workflow_dag_step_validation_input \<Rightarrow> workflow_step_shape_validation_input" where
  "dag_step_shape step =
     \<lparr>sh_step_key = step_key_str (dg_step_key step), sh_execution_kind = dg_execution_kind step,
      sh_job_type = map_option job_type_str (dg_job_type step), sh_priority = dg_priority step,
      sh_max_attempts = dg_max_attempts step, sh_timeout_seconds = dg_timeout_seconds step,
      sh_stage = dg_stage step,
      sh_allow_handler_continuation = dg_allow_handler_continuation step,
      sh_execution_resource_key = dg_execution_resource_key step\<rparr>"

fun index_steps ::
  "nat \<Rightarrow> (rstr \<rightharpoonup> nat) \<Rightarrow> workflow_dag_step_validation_input list
    \<Rightarrow> workflow_dag_validation_error + (rstr \<rightharpoonup> nat)" where
  "index_steps i step_key_to_index [] = Inr step_key_to_index"
| "index_steps i step_key_to_index (step # steps) =
     try_bind (map_err (from_step_validation_error i) (validate_step_shape (dag_step_shape step)))
       (\<lambda>_. let key = step_key_str (dg_step_key step)
            in if step_key_to_index key \<noteq> None then Inl (Dag_DuplicateStepKey key)
               else index_steps (i + 1) (step_key_to_index(key \<mapsto> i)) steps)"

type_synonym step_graph = "nat list \<times> nat list list"

definition empty_graph :: "nat \<Rightarrow> step_graph" where
  "empty_graph n = (replicate n 0, replicate n [])"

definition add_edge :: "nat \<Rightarrow> nat \<Rightarrow> step_graph \<Rightarrow> step_graph option" where
  "add_edge prerequisite dependent graph =
     (let (indegree, adjacency) = graph
      in if dependent < length indegree \<and> prerequisite < length adjacency
         then Some (indegree[dependent := indegree ! dependent + 1],
                    adjacency[prerequisite := adjacency ! prerequisite @ [dependent]])
         else None)"

fun link_dependencies ::
  "(rstr \<rightharpoonup> nat) \<Rightarrow> nat \<Rightarrow> rstr \<Rightarrow> rstr set \<Rightarrow> workflow_dag_dependency_validation_input list \<Rightarrow> step_graph
    \<Rightarrow> workflow_dag_validation_error failure + step_graph" where
  "link_dependencies step_key_to_index dependent_index step_key seen [] graph = Inr graph"
| "link_dependencies step_key_to_index dependent_index step_key seen (dependency # dependencies) graph =
     (let prerequisite = step_key_str (dd_prerequisite_step_key dependency)
      in try_bind
           (map_err (\<lambda>error. Failure (from_step_validation_error dependent_index error))
             (validate_step_dependency_shape step_key prerequisite seen))
           (\<lambda>seen. case step_key_to_index prerequisite of
              None \<Rightarrow> Inl (Failure (Dag_MissingDependency step_key prerequisite))
            | Some prerequisite_index \<Rightarrow>
                try_bind (expect (add_edge prerequisite_index dependent_index graph))
                  (link_dependencies step_key_to_index dependent_index step_key seen dependencies)))"

fun link_steps ::
  "(rstr \<rightharpoonup> nat) \<Rightarrow> nat \<Rightarrow> workflow_dag_step_validation_input list \<Rightarrow> step_graph
    \<Rightarrow> workflow_dag_validation_error failure + step_graph" where
  "link_steps step_key_to_index i [] graph = Inr graph"
| "link_steps step_key_to_index i (step # steps) graph =
     try_bind (link_dependencies step_key_to_index i (step_key_str (dg_step_key step)) {}
                 (dg_dependencies step) graph)
       (link_steps step_key_to_index (i + 1) steps)"

definition reject_cycles :: "step_graph \<Rightarrow> workflow_dag_validation_error failure + unit" where
  "reject_cycles graph =
     try_bind (expect (is_acyclic (fst graph) (snd graph)))
       (\<lambda>acyclic. if \<not> acyclic then Inl (Failure Dag_CycleDetected) else Inr ())"

definition validate_workflow_dag ::
  "workflow_type \<Rightarrow> workflow_dag_step_validation_input list
    \<Rightarrow> workflow_dag_validation_error failure + unit" where
  "validate_workflow_dag workflow_type steps =
     (if is_blank (workflow_type_str workflow_type) then Inl (Failure Dag_BlankWorkflowType)
      else if steps = [] then Inl (Failure Dag_EmptySteps)
      else try_bind (map_err Failure (index_steps 0 Map.empty steps))
             (\<lambda>step_key_to_index.
                try_bind (link_steps step_key_to_index 0 steps (empty_graph (length steps)))
                  reject_cycles))"

section \<open>Validation of a run and of appended steps\<close>

definition dag_input :: "'j workflow_step_enqueue \<Rightarrow> workflow_dag_step_validation_input" where
  "dag_input step =
     dg_with_execution_resource_key (ws_execution_resource_key step)
      (dg_with_allow_handler_continuation (ws_allows_handler_continuation step)
       (dg_with_stage (ws_stage step)
        (dg_with_timeout_seconds (ws_timeout_seconds step)
         (dg_with_max_attempts (ws_max_attempts step)
          (dg_with_priority (ws_priority step)
           (WorkflowDagStepValidationInput_new (ws_step_key step) (ws_execution_kind step)
             (ws_job_type step)
             (map (\<lambda>d. \<lparr>dd_prerequisite_step_key = dep_prerequisite_step_key d\<rparr>)
               (ws_dependencies step))))))))"

definition is_some_and :: "'a option \<Rightarrow> ('a \<Rightarrow> bool) \<Rightarrow> bool" where
  "is_some_and v P = (case v of Some x \<Rightarrow> P x | None \<Rightarrow> False)"

definition validate_workflow_run_enqueue ::
  "'j workflow_run_enqueue \<Rightarrow> workflow_dag_validation_error failure + unit" where
  "validate_workflow_run_enqueue payload =
     (if is_some_and (wr_idempotency_key payload) is_blank then Inl (Failure Dag_BlankIdempotencyKey)
      else if is_some_and (wr_active_key payload) is_blank then Inl (Failure Dag_BlankActiveKey)
      else if is_some_and (wr_active_key payload) (\<lambda>k. 512 < str_len k)
      then Inl (Failure Dag_ActiveKeyTooLong)
      else if is_some_and (wr_result_step_key payload) (\<lambda>k. is_blank (step_key_str k))
      then Inl (Failure Dag_BlankResultStepKey)
      else try_bind (validate_workflow_dag (wr_workflow_type payload) (map dag_input (wr_steps payload)))
             (\<lambda>_. case wr_result_step_key payload of
                Some result_step_key \<Rightarrow>
                  if \<not> list_ex (\<lambda>step. ws_step_key step = result_step_key) (wr_steps payload)
                  then Inl (Failure (Dag_UnknownResultStepKey (step_key_str result_step_key)))
                  else Inr ()
              | None \<Rightarrow> Inr ()))"

fun index_new_steps ::
  "rstr set \<Rightarrow> nat \<Rightarrow> (rstr \<rightharpoonup> nat) \<Rightarrow> 'j workflow_step_enqueue list
    \<Rightarrow> workflow_dag_validation_error + (rstr \<rightharpoonup> nat)" where
  "index_new_steps existing i new_step_key_to_index [] = Inr new_step_key_to_index"
| "index_new_steps existing i new_step_key_to_index (step # steps) =
     try_bind (map_err (from_step_validation_error i) (validate_step_enqueue step))
       (\<lambda>_. let key = step_key_str (ws_step_key step)
            in if key \<in> existing then Inl (Dag_DuplicateStepKey key)
               else if new_step_key_to_index key \<noteq> None then Inl (Dag_DuplicateStepKey key)
               else index_new_steps existing (i + 1) (new_step_key_to_index(key \<mapsto> i)) steps)"

fun link_new_dependencies ::
  "rstr set \<Rightarrow> (rstr \<rightharpoonup> nat) \<Rightarrow> nat \<Rightarrow> rstr \<Rightarrow> workflow_step_dependency_spec list \<Rightarrow> step_graph
    \<Rightarrow> workflow_dag_validation_error failure + step_graph" where
  "link_new_dependencies existing new_step_key_to_index dependent_index step_key [] graph = Inr graph"
| "link_new_dependencies existing new_step_key_to_index dependent_index step_key
     (dependency # dependencies) graph =
     (let prerequisite = step_key_str (dep_prerequisite_step_key dependency)
      in case new_step_key_to_index prerequisite of
           Some prerequisite_index \<Rightarrow>
             try_bind (expect (add_edge prerequisite_index dependent_index graph))
               (link_new_dependencies existing new_step_key_to_index dependent_index step_key dependencies)
         | None \<Rightarrow>
             if prerequisite \<in> existing
             then link_new_dependencies existing new_step_key_to_index dependent_index step_key
                    dependencies graph
             else Inl (Failure (Dag_MissingDependency step_key prerequisite)))"

fun link_new_steps ::
  "rstr set \<Rightarrow> (rstr \<rightharpoonup> nat) \<Rightarrow> nat \<Rightarrow> 'j workflow_step_enqueue list \<Rightarrow> step_graph
    \<Rightarrow> workflow_dag_validation_error failure + step_graph" where
  "link_new_steps existing new_step_key_to_index i [] graph = Inr graph"
| "link_new_steps existing new_step_key_to_index i (step # steps) graph =
     try_bind (link_new_dependencies existing new_step_key_to_index i (step_key_str (ws_step_key step))
                 (ws_dependencies step) graph)
       (link_new_steps existing new_step_key_to_index (i + 1) steps)"

definition validate_workflow_step_append ::
  "step_key_name set \<Rightarrow> 'j workflow_step_enqueue list
    \<Rightarrow> workflow_dag_validation_error failure + unit" where
  "validate_workflow_step_append existing_step_keys new_steps =
     (if new_steps = [] then Inl (Failure Dag_EmptySteps)
      else let existing = step_key_name_str ` existing_step_keys
      in try_bind (map_err Failure (index_new_steps existing 0 Map.empty new_steps))
           (\<lambda>new_step_key_to_index.
              try_bind (link_new_steps existing new_step_key_to_index 0 new_steps
                          (empty_graph (length new_steps)))
                reject_cycles))"

section \<open>Graphs from keys\<close>

text \<open>
  Both validations build an index graph out of step keys. \<open>step_edges\<close> lists its edges in the order
  in which the loops add them, \<open>key_edges\<close> is the dependency relation between the keys.
\<close>

fun add_edges :: "(nat \<times> nat) list \<Rightarrow> step_graph \<Rightarrow> step_graph option" where
  "add_edges [] graph = Some graph"
| "add_edges ((p, d) # edges) graph = Option.bind (add_edge p d graph) (add_edges edges)"

fun step_edges :: "(rstr \<rightharpoonup> nat) \<Rightarrow> nat \<Rightarrow> rstr list list \<Rightarrow> (nat \<times> nat) list" where
  "step_edges m i [] = []"
| "step_edges m i (ps # pss) =
     map (\<lambda>p. (the (m p), i)) (filter (\<lambda>p. m p \<noteq> None) ps) @ step_edges m (i + 1) pss"

definition key_edges :: "(rstr \<times> rstr list) list \<Rightarrow> (rstr \<times> rstr) set" where
  "key_edges nodes = {(p, k). \<exists>ps. (k, ps) \<in> set nodes \<and> p \<in> set ps}"

definition index_map :: "nat \<Rightarrow> rstr list \<Rightarrow> (rstr \<rightharpoonup> nat)" where
  "index_map i keys = map_of (zip keys [i..<i + length keys])"

lemma index_map_Cons: "index_map i (k # ks) = (index_map (i + 1) ks)(k \<mapsto> i)"
  by (simp add: index_map_def upt_conv_Cons del: upt_Suc)

lemma dom_index_map: "dom (index_map i keys) = set keys"
  by (simp add: index_map_def)

lemma index_map_eq_Some:
  assumes "distinct keys"
  shows "index_map 0 keys k = Some i \<longleftrightarrow> i < length keys \<and> keys ! i = k"
proof -
  have "index_map 0 keys k = Some i \<longleftrightarrow> (k, i) \<in> set (zip keys [0..<length keys])"
    using assms by (simp add: index_map_def)
  then show ?thesis
    by (auto simp: in_set_zip)
qed

lemma add_edges_append: "add_edges (xs @ ys) graph = Option.bind (add_edges xs graph) (add_edges ys)"
  by (induction xs graph rule: add_edges.induct) (auto split: Option.bind_split)

lemma add_edge_ok:
  assumes ok: "graph_ok indegree adjacency" and n: "length adjacency = n" and "p < n" and "d < n"
  obtains indegree' adjacency' where "add_edge p d (indegree, adjacency) = Some (indegree', adjacency')"
    and "graph_ok indegree' adjacency'" and "length adjacency' = n"
    and "graph_edges adjacency' = insert (p, d) (graph_edges adjacency)"
proof -
  let ?i = "indegree[d := indegree ! d + 1]"
  let ?a = "adjacency[p := adjacency ! p @ [d]]"
  have len: "length indegree = n"
    using ok n by (simp add: graph_ok_def)
  have count: "count_list (?a ! k) j = count_list (adjacency ! k) j + (if k = p \<and> j = d then 1 else 0)" for k j
    using assms(3) n by (cases "k = p") auto
  have degree: "open_degree ?a {} j = open_degree adjacency {} j + (if j = d then 1 else 0)" for j
  proof -
    have "(\<Sum>k<n. if k = p \<and> j = d then 1 else 0 :: nat) = (if j = d then 1 else 0)"
      using assms(3) by (cases "j = d") (simp_all add: sum.delta)
    then show ?thesis
      by (simp add: open_degree_def count sum.distrib n)
  qed
  have "graph_ok ?i ?a"
    unfolding graph_ok_def
  proof (intro conjI allI impI)
    show "\<forall>j\<in>set (?a ! i). j < length ?a" if "i < length ?a" for i
      using ok that assms(3,4) n by (cases "i = p") (auto simp: graph_ok_def)
    show "?i ! j = open_degree ?a {} j" if "j < length ?a" for j
      using ok that len n by (cases "j = d") (simp_all add: degree graph_ok_def)
  qed (simp add: len n)
  moreover have "graph_edges ?a = insert (p, d) (graph_edges adjacency)"
  proof (rule set_eqI)
    fix e :: "nat \<times> nat"
    obtain i j where "e = (i, j)" by force
    then show "e \<in> graph_edges ?a \<longleftrightarrow> e \<in> insert (p, d) (graph_edges adjacency)"
      using assms(3) n by (cases "i = p") (auto simp: graph_edges_def)
  qed
  ultimately show thesis
    using that [of ?i ?a] assms(3,4) n len by (simp add: add_edge_def)
qed

lemma add_edges_ok:
  assumes "graph_ok indegree adjacency" and "length adjacency = n" and "set edges \<subseteq> {..<n} \<times> {..<n}"
  shows "\<exists>indegree' adjacency'. add_edges edges (indegree, adjacency) = Some (indegree', adjacency') \<and>
           graph_ok indegree' adjacency' \<and> length adjacency' = n \<and>
           graph_edges adjacency' = set edges \<union> graph_edges adjacency"
  using assms
proof (induction edges arbitrary: indegree adjacency)
  case Nil
  then show ?case by simp
next
  case (Cons e edges)
  obtain p d where e: "e = (p, d)" by force
  then have "p < n" and "d < n"
    using Cons.prems(3) by simp_all
  then obtain indegree' adjacency'
    where step: "add_edge p d (indegree, adjacency) = Some (indegree', adjacency')"
      and ok: "graph_ok indegree' adjacency'" "length adjacency' = n"
      and edges: "graph_edges adjacency' = insert (p, d) (graph_edges adjacency)"
    using add_edge_ok [OF Cons.prems(1,2)] by blast
  have "set edges \<subseteq> {..<n} \<times> {..<n}"
    using Cons.prems(3) by simp
  from Cons.IH [OF ok this] show ?case
    using step edges by (auto simp: e)
qed

lemma empty_graph_ok:
  "graph_ok (fst (empty_graph n)) (snd (empty_graph n))" "length (snd (empty_graph n)) = n"
  "graph_edges (snd (empty_graph n)) = {}"
  by (auto simp: empty_graph_def graph_ok_def open_degree_def graph_edges_def)

lemma step_edges_iff:
  "(a, j) \<in> set (step_edges m i pss) \<longleftrightarrow>
     (\<exists>k<length pss. j = i + k \<and> (\<exists>p\<in>set (pss ! k). m p = Some a))"
proof (induction pss arbitrary: i)
  case Nil
  then show ?case by simp
next
  case (Cons ps pss)
  have "(a, j) \<in> set (map (\<lambda>p. (the (m p), i)) (filter (\<lambda>p. m p \<noteq> None) ps)) \<longleftrightarrow>
      j = i \<and> (\<exists>p\<in>set ps. m p = Some a)"
    by force
  then show ?case
    by (simp add: Cons.IH Ex_less_Suc2 del: set_map)
qed

lemma acyclic_transfer:
  assumes "acyclic s" and "finite r" and "finite s" and "\<And>a b. (a, b) \<in> r \<Longrightarrow> (h a, h b) \<in> s"
  shows "acyclic r"
proof -
  have "wf (inv_image s h)"
    using assms(1,3) by (intro wf_inv_image) (simp add: wf_iff_acyclic_if_finite)
  moreover have "r \<subseteq> inv_image s h"
    using assms(4) by (auto simp: inv_image_def)
  ultimately have "wf r"
    by (rule wf_subset)
  then show ?thesis
    by (rule wf_acyclic)
qed

lemma finite_key_edges: "finite (key_edges nodes)"
proof (rule finite_subset)
  show "key_edges nodes \<subseteq> set (concat (map snd nodes)) \<times> set (map fst nodes)"
    by (force simp: key_edges_def)
qed simp

lemma step_edges_keys:
  assumes "distinct keys" and "length pss = length keys"
  shows "(a, j) \<in> set (step_edges (index_map 0 keys) 0 pss) \<longleftrightarrow>
           a < length keys \<and> j < length keys \<and> keys ! a \<in> set (pss ! j)"
  using assms by (auto simp: step_edges_iff index_map_eq_Some)

lemma key_edges_zip:
  "length pss = length keys \<Longrightarrow>
     (p, k) \<in> key_edges (zip keys pss) \<longleftrightarrow> (\<exists>j<length keys. k = keys ! j \<and> p \<in> set (pss ! j))"
  by (auto simp: key_edges_def in_set_zip)

lemma index_graph_acyclic:
  assumes dist: "distinct keys" and len: "length pss = length keys"
  shows "acyclic (set (step_edges (index_map 0 keys) 0 pss)) \<longleftrightarrow>
           acyclic (key_edges (zip keys pss) \<inter> set keys \<times> UNIV)"
    (is "acyclic ?I \<longleftrightarrow> acyclic ?K")
proof
  have fin: "finite ?K"
    using finite_key_edges by blast
  show "acyclic ?I" if "acyclic ?K"
  proof (rule acyclic_transfer [OF that _ fin])
    show "(keys ! a, keys ! b) \<in> ?K" if "(a, b) \<in> ?I" for a b
      using that by (auto simp: step_edges_keys [OF dist len] key_edges_zip [OF len])
  qed simp
  show "acyclic ?K" if "acyclic ?I"
  proof (rule acyclic_transfer [OF that fin])
    fix p k
    assume "(p, k) \<in> ?K"
    then obtain i j where "i < length keys" "p = keys ! i" "j < length keys" "k = keys ! j"
      "keys ! i \<in> set (pss ! j)"
      by (auto simp: key_edges_zip [OF len] in_set_conv_nth)
    moreover from this have "index_map 0 keys p = Some i" and "index_map 0 keys k = Some j"
      by (simp_all add: index_map_eq_Some dist)
    ultimately show "(the (index_map 0 keys p), the (index_map 0 keys k)) \<in> ?I"
      by (simp add: step_edges_keys [OF dist len])
  qed simp
qed

text \<open>What both validations end with: the graph is built without a panic and its cycles are found.\<close>

lemma linked_graph_check:
  assumes "distinct keys" and "length pss = length keys"
  obtains graph
  where "add_edges (step_edges (index_map 0 keys) 0 pss) (empty_graph (length keys)) = Some graph"
    and "reject_cycles graph =
      (if acyclic (key_edges (zip keys pss) \<inter> set keys \<times> UNIV) then Inr ()
       else Inl (Failure Dag_CycleDetected))"
proof -
  let ?es = "step_edges (index_map 0 keys) 0 pss"
  have "set ?es \<subseteq> {..<length keys} \<times> {..<length keys}"
    using step_edges_keys [OF assms] by auto
  then obtain indegree adjacency
    where res: "add_edges ?es (empty_graph (length keys)) = Some (indegree, adjacency)"
      and ok: "graph_ok indegree adjacency" and edges: "graph_edges adjacency = set ?es"
    using add_edges_ok [of "fst (empty_graph (length keys))" "snd (empty_graph (length keys))"
        "length keys" ?es]
    by (auto simp: empty_graph_ok)
  have "is_acyclic indegree adjacency =
      Some (acyclic (key_edges (zip keys pss) \<inter> set keys \<times> UNIV))"
    using is_acyclic_exact [OF ok] edges index_graph_acyclic [OF assms] by simp
  then show thesis
    using that [OF res] by (simp add: reject_cycles_def)
qed

section \<open>What validation accepts\<close>

definition dag_key :: "workflow_dag_step_validation_input \<Rightarrow> rstr" where
  "dag_key step = step_key_str (dg_step_key step)"

definition dag_prerequisites :: "workflow_dag_step_validation_input \<Rightarrow> rstr list" where
  "dag_prerequisites step = map (\<lambda>d. step_key_str (dd_prerequisite_step_key d)) (dg_dependencies step)"

lemma index_map_shift:
  assumes "k \<notin> set ks"
  shows "m(k \<mapsto> i) ++ index_map (Suc i) ks = m ++ index_map i (k # ks)"
proof -
  have "index_map (Suc i) ks k = None"
    using assms dom_index_map [of "Suc i" ks] by auto
  then show ?thesis
    by (auto simp: index_map_Cons map_add_def fun_eq_iff split: option.splits)
qed

lemma fresh_keys:
  "(\<forall>x\<in>A. (m(k \<mapsto> i)) (h x) = None) \<longleftrightarrow> k \<notin> h ` A \<and> (\<forall>x\<in>A. m (h x) = None)"
  by auto

lemma index_steps_eq_Inr:
  "index_steps i m steps = Inr m' \<longleftrightarrow>
     (\<forall>s\<in>set steps. step_shape_ok (dag_step_shape s)) \<and> distinct (map dag_key steps) \<and>
     (\<forall>s\<in>set steps. m (dag_key s) = None) \<and> m' = m ++ index_map i (map dag_key steps)"
proof (induction steps arbitrary: i m)
  case Nil
  then show ?case by (auto simp: index_map_def)
next
  case (Cons s steps)
  have shape: "validate_step_shape (dag_step_shape s) = Inr u \<longleftrightarrow> step_shape_ok (dag_step_shape s)" for u
    using validate_step_shape_iff [of "dag_step_shape s"] by (cases u) simp
  show ?case
    by (auto simp: try_bind_eq_Inr map_err_eq_Inr shape Let_def Cons.IH index_map_shift fresh_keys
        simp flip: dag_key_def simp del: fun_upd_apply)
qed

lemma link_dependencies_eq_Inr:
  "link_dependencies m i key seen ds graph = Inr graph' \<longleftrightarrow>
     (let ps = map (\<lambda>d. step_key_str (dd_prerequisite_step_key d)) ds
      in dependencies_ok key ps \<and> seen \<inter> set ps = {} \<and> set ps \<subseteq> dom m \<and>
         add_edges (map (\<lambda>p. (the (m p), i)) (filter (\<lambda>p. m p \<noteq> None) ps)) graph = Some graph')"
proof (induction ds arbitrary: seen graph)
  case Nil
  then show ?case by (auto simp: dependencies_ok_def)
next
  case (Cons d ds)
  show ?case
    by (cases "m (step_key_str (dd_prerequisite_step_key d))")
      (auto simp: try_bind_eq_Inr map_err_eq_Inr validate_step_dependency_shape_iff expect_eq_Inr
        Cons.IH Let_def dependencies_ok_def Option.bind_eq_Some_conv domIff)
qed

lemma link_steps_eq_Inr:
  "link_steps m i steps graph = Inr graph' \<longleftrightarrow>
     (\<forall>s\<in>set steps. dependencies_ok (dag_key s) (dag_prerequisites s) \<and> set (dag_prerequisites s) \<subseteq> dom m) \<and>
     add_edges (step_edges m i (map dag_prerequisites steps)) graph = Some graph'"
proof (induction steps arbitrary: i graph)
  case Nil
  then show ?case by auto
next
  case (Cons s steps)
  show ?case
    by (auto simp: try_bind_eq_Inr link_dependencies_eq_Inr Let_def Cons.IH add_edges_append
        Option.bind_eq_Some_conv simp flip: dag_key_def dag_prerequisites_def)
qed

text \<open>Errors before the cycle check are genuine: neither a panic nor a reported cycle.\<close>

definition sized :: "nat \<Rightarrow> step_graph \<Rightarrow> bool" where
  "sized n graph \<longleftrightarrow> length (fst graph) = n \<and> length (snd graph) = n"

lemma add_edge_sized:
  assumes "sized n graph" and "p < n" and "d < n"
  obtains graph' where "add_edge p d graph = Some graph'" and "sized n graph'"
  using assms by (auto simp: add_edge_def sized_def split_beta)

lemma sized_empty [simp]: "sized n (empty_graph n)"
  by (simp add: sized_def empty_graph_def)

lemma from_step_validation_error_no_cycle [simp]:
  "from_step_validation_error i e \<noteq> Dag_CycleDetected" "Dag_CycleDetected \<noteq> from_step_validation_error i e"
  by (cases e; simp)+

lemma link_dependencies_error:
  assumes "sized n graph" and "i < n" and "\<And>k p. m k = Some p \<Longrightarrow> p < n"
  shows "case link_dependencies m i key seen ds graph of
           Inl f \<Rightarrow> f \<noteq> Panicked \<and> f \<noteq> Failure Dag_CycleDetected | Inr graph' \<Rightarrow> sized n graph'"
  using assms(1)
proof (induction ds arbitrary: seen graph)
  case Nil
  then show ?case by simp
next
  case (Cons d ds)
  let ?p = "step_key_str (dd_prerequisite_step_key d)"
  show ?case
  proof (cases "validate_step_dependency_shape key ?p seen")
    case (Inl e)
    then show ?thesis by simp
  next
    case (Inr seen')
    show ?thesis
    proof (cases "m ?p")
      case None
      then show ?thesis using Inr by simp
    next
      case (Some p)
      obtain graph' where "add_edge p i graph = Some graph'" and "sized n graph'"
        using add_edge_sized [OF Cons.prems] assms(2,3) Some by blast
      then show ?thesis
        using Cons.IH [of graph' seen'] Inr Some by simp
    qed
  qed
qed

lemma link_steps_error:
  assumes "sized n graph" and "i + length steps \<le> n" and "\<And>k p. m k = Some p \<Longrightarrow> p < n"
    and "link_steps m i steps graph = Inl f"
  shows "f \<noteq> Panicked \<and> f \<noteq> Failure Dag_CycleDetected"
  using assms(1,2,4)
proof (induction steps arbitrary: i graph)
  case Nil
  then show ?case by simp
next
  case (Cons s steps)
  have err: "case link_dependencies m i (step_key_str (dg_step_key s)) {} (dg_dependencies s) graph of
      Inl f \<Rightarrow> f \<noteq> Panicked \<and> f \<noteq> Failure Dag_CycleDetected | Inr graph' \<Rightarrow> sized n graph'"
    using Cons.prems(2) by (intro link_dependencies_error [OF Cons.prems(1) _ assms(3)]) simp_all
  then show ?case
  proof (cases "link_dependencies m i (step_key_str (dg_step_key s)) {} (dg_dependencies s) graph")
    case (Inl f')
    then show ?thesis using err Cons.prems(3) by auto
  next
    case (Inr graph')
    then show ?thesis
      using err Cons.prems by (intro Cons.IH [of graph' "i + 1"]) simp_all
  qed
qed

lemma index_steps_error:
  "index_steps i m steps = Inl e \<Longrightarrow> e \<noteq> Dag_CycleDetected"
proof (induction steps arbitrary: i m)
  case Nil
  then show ?case by simp
next
  case (Cons s steps)
  then show ?case
    by (auto simp: try_bind_eq_Inl map_err_eq_Inl map_err_eq_Inr Let_def simp del: fun_upd_apply
        split: if_splits)
qed

definition dag_nodes :: "workflow_dag_step_validation_input list \<Rightarrow> (rstr \<times> rstr list) list" where
  "dag_nodes steps = map (\<lambda>s. (dag_key s, dag_prerequisites s)) steps"

text \<open>Everything validation demands of a graph but the absence of cycles.\<close>

definition dag_well_formed :: "workflow_type \<Rightarrow> workflow_dag_step_validation_input list \<Rightarrow> bool" where
  "dag_well_formed workflow_type steps \<longleftrightarrow>
     \<not> is_blank (workflow_type_str workflow_type) \<and> steps \<noteq> [] \<and>
     (\<forall>s\<in>set steps. step_shape_ok (dag_step_shape s)) \<and> distinct (map dag_key steps) \<and>
     (\<forall>s\<in>set steps. dependencies_ok (dag_key s) (dag_prerequisites s) \<and>
        set (dag_prerequisites s) \<subseteq> dag_key ` set steps)"

lemma dag_nodes_zip: "dag_nodes steps = zip (map dag_key steps) (map dag_prerequisites steps)"
  by (induction steps) (simp_all add: dag_nodes_def)

lemma key_edges_closed:
  assumes "\<forall>s\<in>set steps. set (dag_prerequisites s) \<subseteq> dag_key ` set steps"
  shows "key_edges (dag_nodes steps) \<inter> set (map dag_key steps) \<times> UNIV = key_edges (dag_nodes steps)"
  using assms by (auto simp: key_edges_def dag_nodes_def)

section \<open>The contract of the two loading loops\<close>

text \<open>
  Both validations load steps in two loops, one that indexes the keys and one that links the
  dependencies, and then look for cycles. A loader promises when its loops succeed, that the second
  adds the edges of the dependency relation, and that their errors are neither panics nor cycles.
\<close>

locale step_loader =
  fixes index :: "'s list \<Rightarrow> workflow_dag_validation_error + (rstr \<rightharpoonup> nat)"
    and link :: "(rstr \<rightharpoonup> nat) \<Rightarrow> 's list \<Rightarrow> step_graph \<Rightarrow> workflow_dag_validation_error failure + step_graph"
    and key :: "'s \<Rightarrow> rstr" and prerequisites :: "'s \<Rightarrow> rstr list"
    and indexable :: "'s list \<Rightarrow> bool" and linkable :: "'s list \<Rightarrow> bool"
  assumes index_ok: "index steps = Inr m \<longleftrightarrow>
      indexable steps \<and> distinct (map key steps) \<and> m = index_map 0 (map key steps)"
    and index_error: "index steps = Inl e \<Longrightarrow> e \<noteq> Dag_CycleDetected"
    and link_ok: "link (index_map 0 (map key steps)) steps graph = Inr graph' \<longleftrightarrow>
      linkable steps \<and>
      add_edges (step_edges (index_map 0 (map key steps)) 0 (map prerequisites steps)) graph = Some graph'"
    and link_error: "distinct (map key steps) \<Longrightarrow>
      link (index_map 0 (map key steps)) steps (empty_graph (length steps)) = Inl f \<Longrightarrow>
      f \<noteq> Panicked \<and> f \<noteq> Failure Dag_CycleDetected"
begin

definition load :: "'s list \<Rightarrow> workflow_dag_validation_error failure + unit" where
  "load steps = try_bind (map_err Failure (index steps))
     (\<lambda>m. try_bind (link m steps (empty_graph (length steps))) reject_cycles)"

lemma load_well_formed:
  assumes "indexable steps" and dist: "distinct (map key steps)" and "linkable steps"
  shows "load steps =
    (if acyclic (key_edges (zip (map key steps) (map prerequisites steps)) \<inter> set (map key steps) \<times> UNIV)
     then Inr () else Inl (Failure Dag_CycleDetected))"
proof -
  have len: "length (map prerequisites steps) = length (map key steps)" by simp
  obtain graph where built: "add_edges (step_edges (index_map 0 (map key steps)) 0 (map prerequisites steps))
      (empty_graph (length (map key steps))) = Some graph"
    and check: "reject_cycles graph =
      (if acyclic (key_edges (zip (map key steps) (map prerequisites steps)) \<inter> set (map key steps) \<times> UNIV)
       then Inr () else Inl (Failure Dag_CycleDetected))"
    by (rule linked_graph_check [OF dist len])
  have "index steps = Inr (index_map 0 (map key steps))"
    using assms by (simp add: index_ok)
  moreover have "link (index_map 0 (map key steps)) steps (empty_graph (length steps)) = Inr graph"
    using assms built by (simp add: link_ok)
  ultimately show ?thesis
    using check by (simp add: load_def)
qed

lemma load_malformed:
  assumes "\<not> (indexable steps \<and> distinct (map key steps) \<and> linkable steps)"
  obtains e where "load steps = Inl (Failure e)" and "e \<noteq> Dag_CycleDetected"
proof (cases "index steps")
  case (Inl e)
  then show thesis
    using that index_error by (simp add: load_def)
next
  case (Inr m)
  then have ix: "indexable steps" "distinct (map key steps)" and m: "m = index_map 0 (map key steps)"
    by (simp_all add: index_ok)
  then have "link m steps (empty_graph (length steps)) \<noteq> Inr graph" for graph
    using assms by (simp add: link_ok)
  then obtain f where f: "link m steps (empty_graph (length steps)) = Inl f"
    by (cases "link m steps (empty_graph (length steps))") blast+
  then have "f \<noteq> Panicked \<and> f \<noteq> Failure Dag_CycleDetected"
    using link_error ix(2) m by simp
  then show thesis
    using that Inr f by (cases f) (simp_all add: load_def)
qed

end

interpretation dag_loader: step_loader "index_steps 0 Map.empty" "\<lambda>m. link_steps m 0" dag_key
  dag_prerequisites "\<lambda>steps. \<forall>s\<in>set steps. step_shape_ok (dag_step_shape s)"
  "\<lambda>steps. \<forall>s\<in>set steps. dependencies_ok (dag_key s) (dag_prerequisites s) \<and>
     set (dag_prerequisites s) \<subseteq> dag_key ` set steps"
proof unfold_locales
  show "f \<noteq> Panicked \<and> f \<noteq> Failure Dag_CycleDetected"
    if "distinct (map dag_key steps)"
      and "link_steps (index_map 0 (map dag_key steps)) 0 steps (empty_graph (length steps)) = Inl f" for steps f
    using that(2) by (rule link_steps_error [OF sized_empty, rotated 2])
      (use that(1) in \<open>simp_all add: index_map_eq_Some\<close>)
qed (auto simp: index_steps_eq_Inr link_steps_eq_Inr dom_index_map dest: index_steps_error)

lemma validate_workflow_dag_load:
  "validate_workflow_dag workflow_type steps =
     (if is_blank (workflow_type_str workflow_type) then Inl (Failure Dag_BlankWorkflowType)
      else if steps = [] then Inl (Failure Dag_EmptySteps) else dag_loader.load steps)"
  by (simp add: validate_workflow_dag_def dag_loader.load_def)

lemma validate_workflow_dag_well_formed:
  assumes "dag_well_formed workflow_type steps"
  shows "validate_workflow_dag workflow_type steps =
    (if acyclic (key_edges (dag_nodes steps)) then Inr () else Inl (Failure Dag_CycleDetected))"
  using assms dag_loader.load_well_formed [of steps] key_edges_closed [of steps]
  by (simp add: dag_well_formed_def validate_workflow_dag_load dag_nodes_zip)

lemma validate_workflow_dag_malformed:
  assumes "\<not> dag_well_formed workflow_type steps"
  obtains e where "validate_workflow_dag workflow_type steps = Inl (Failure e)" and "e \<noteq> Dag_CycleDetected"
proof (cases "is_blank (workflow_type_str workflow_type) \<or> steps = []")
  case True
  then show thesis
    using that by (cases "is_blank (workflow_type_str workflow_type)") (simp_all add: validate_workflow_dag_def)
next
  case False
  then show thesis
    using that assms dag_loader.load_malformed [of steps]
    by (auto simp: validate_workflow_dag_load dag_well_formed_def)
qed

lemma validate_workflow_dag_iff:
  "validate_workflow_dag workflow_type steps = Inr () \<longleftrightarrow>
     dag_well_formed workflow_type steps \<and> acyclic (key_edges (dag_nodes steps))"
  using validate_workflow_dag_well_formed validate_workflow_dag_malformed
  by (cases "dag_well_formed workflow_type steps") (auto, metis Inl_Inr_False)

section \<open>Appended steps\<close>

definition ws_key :: "'j workflow_step_enqueue \<Rightarrow> rstr" where
  "ws_key step = step_key_str (ws_step_key step)"

definition ws_prerequisites :: "'j workflow_step_enqueue \<Rightarrow> rstr list" where
  "ws_prerequisites step = prerequisite_keys (ws_dependencies step)"

lemma index_new_steps_eq_Inr:
  "index_new_steps existing i m steps = Inr m' \<longleftrightarrow>
     (\<forall>s\<in>set steps. step_enqueue_ok s \<and> ws_key s \<notin> existing) \<and> distinct (map ws_key steps) \<and>
     (\<forall>s\<in>set steps. m (ws_key s) = None) \<and> m' = m ++ index_map i (map ws_key steps)"
proof (induction steps arbitrary: i m)
  case Nil
  then show ?case by (auto simp: index_map_def)
next
  case (Cons s steps)
  have step: "validate_step_enqueue s = Inr u \<longleftrightarrow> step_enqueue_ok s" for u
    using validate_step_enqueue_iff [of s] by (cases u) simp
  show ?case
    by (auto simp: try_bind_eq_Inr map_err_eq_Inr step Let_def Cons.IH index_map_shift fresh_keys
        simp flip: ws_key_def simp del: fun_upd_apply)
qed

lemma index_new_steps_error: "index_new_steps existing i m steps = Inl e \<Longrightarrow> e \<noteq> Dag_CycleDetected"
proof (induction steps arbitrary: i m)
  case Nil
  then show ?case by simp
next
  case (Cons s steps)
  then show ?case
    by (auto simp: try_bind_eq_Inl map_err_eq_Inl map_err_eq_Inr Let_def simp del: fun_upd_apply
        split: if_splits)
qed

lemma link_new_dependencies_eq_Inr:
  "link_new_dependencies existing m i key ds graph = Inr graph' \<longleftrightarrow>
     set (prerequisite_keys ds) \<subseteq> existing \<union> dom m \<and>
     add_edges (map (\<lambda>p. (the (m p), i)) (filter (\<lambda>p. m p \<noteq> None) (prerequisite_keys ds))) graph = Some graph'"
proof (induction ds arbitrary: graph)
  case Nil
  then show ?case by auto
next
  case (Cons d ds)
  show ?case
    by (cases "m (step_key_str (dep_prerequisite_step_key d))")
      (auto simp: try_bind_eq_Inr expect_eq_Inr Cons.IH Let_def Option.bind_eq_Some_conv domIff)
qed

lemma link_new_steps_eq_Inr:
  "link_new_steps existing m i steps graph = Inr graph' \<longleftrightarrow>
     (\<forall>s\<in>set steps. set (ws_prerequisites s) \<subseteq> existing \<union> dom m) \<and>
     add_edges (step_edges m i (map ws_prerequisites steps)) graph = Some graph'"
proof (induction steps arbitrary: i graph)
  case Nil
  then show ?case by auto
next
  case (Cons s steps)
  show ?case
    by (auto simp: try_bind_eq_Inr link_new_dependencies_eq_Inr Cons.IH add_edges_append
        Option.bind_eq_Some_conv simp flip: ws_prerequisites_def)
qed

lemma link_new_dependencies_error:
  assumes "sized n graph" and "i < n" and "\<And>k p. m k = Some p \<Longrightarrow> p < n"
  shows "case link_new_dependencies existing m i key ds graph of
           Inl f \<Rightarrow> f \<noteq> Panicked \<and> f \<noteq> Failure Dag_CycleDetected | Inr graph' \<Rightarrow> sized n graph'"
  using assms(1)
proof (induction ds arbitrary: graph)
  case Nil
  then show ?case by simp
next
  case (Cons d ds)
  let ?p = "step_key_str (dep_prerequisite_step_key d)"
  show ?case
  proof (cases "m ?p")
    case None
    then show ?thesis using Cons.IH [OF Cons.prems] by (simp add: Let_def)
  next
    case (Some p)
    obtain graph' where "add_edge p i graph = Some graph'" and "sized n graph'"
      using add_edge_sized [OF Cons.prems] assms(2,3) Some by blast
    then show ?thesis
      using Cons.IH [of graph'] Some by simp
  qed
qed

lemma link_new_steps_error:
  assumes "sized n graph" and "i + length steps \<le> n" and "\<And>k p. m k = Some p \<Longrightarrow> p < n"
    and "link_new_steps existing m i steps graph = Inl f"
  shows "f \<noteq> Panicked \<and> f \<noteq> Failure Dag_CycleDetected"
  using assms(1,2,4)
proof (induction steps arbitrary: i graph)
  case Nil
  then show ?case by simp
next
  case (Cons s steps)
  let ?r = "link_new_dependencies existing m i (step_key_str (ws_step_key s)) (ws_dependencies s) graph"
  have err: "case ?r of Inl f \<Rightarrow> f \<noteq> Panicked \<and> f \<noteq> Failure Dag_CycleDetected
      | Inr graph' \<Rightarrow> sized n graph'"
    using Cons.prems(2) by (intro link_new_dependencies_error [OF Cons.prems(1) _ assms(3)]) simp_all
  then show ?case
  proof (cases ?r)
    case (Inl f')
    then show ?thesis using err Cons.prems(3) by auto
  next
    case (Inr graph')
    then show ?thesis
      using err Cons.prems by (intro Cons.IH [of graph' "i + 1"]) simp_all
  qed
qed

interpretation append_loader: step_loader "index_new_steps existing 0 Map.empty"
  "\<lambda>m. link_new_steps existing m 0" ws_key ws_prerequisites
  "\<lambda>steps. \<forall>s\<in>set steps. step_enqueue_ok s \<and> ws_key s \<notin> existing"
  "\<lambda>steps. \<forall>s\<in>set steps. set (ws_prerequisites s) \<subseteq> existing \<union> ws_key ` set steps"
  for existing :: "rstr set"
proof unfold_locales
  show "f \<noteq> Panicked \<and> f \<noteq> Failure Dag_CycleDetected"
    if "distinct (map ws_key steps)"
      and "link_new_steps existing (index_map 0 (map ws_key steps)) 0 steps (empty_graph (length steps)) = Inl f"
    for steps :: "'j workflow_step_enqueue list" and f
    using that(2) by (rule link_new_steps_error [OF sized_empty, rotated 2])
      (use that(1) in \<open>simp_all add: index_map_eq_Some\<close>)
qed (auto simp: index_new_steps_eq_Inr link_new_steps_eq_Inr dom_index_map dest: index_new_steps_error)

definition step_nodes :: "'j workflow_step_enqueue list \<Rightarrow> (rstr \<times> rstr list) list" where
  "step_nodes steps = map (\<lambda>s. (ws_key s, ws_prerequisites s)) steps"

definition append_well_formed :: "rstr set \<Rightarrow> 'j workflow_step_enqueue list \<Rightarrow> bool" where
  "append_well_formed existing steps \<longleftrightarrow>
     steps \<noteq> [] \<and> (\<forall>s\<in>set steps. step_enqueue_ok s \<and> ws_key s \<notin> existing) \<and> distinct (map ws_key steps) \<and>
     (\<forall>s\<in>set steps. set (ws_prerequisites s) \<subseteq> existing \<union> ws_key ` set steps)"

lemma step_nodes_zip: "step_nodes steps = zip (map ws_key steps) (map ws_prerequisites steps)"
  by (induction steps) (simp_all add: step_nodes_def)

lemma validate_workflow_step_append_load:
  "validate_workflow_step_append existing steps =
     (if steps = [] then Inl (Failure Dag_EmptySteps)
      else append_loader.load (step_key_name_str ` existing) steps)"
  by (simp add: validate_workflow_step_append_def append_loader.load_def Let_def)

lemma validate_workflow_step_append_well_formed:
  assumes "append_well_formed (step_key_name_str ` existing) steps"
  shows "validate_workflow_step_append existing steps =
    (if acyclic (key_edges (step_nodes steps) \<inter> set (map ws_key steps) \<times> UNIV) then Inr ()
     else Inl (Failure Dag_CycleDetected))"
  using assms append_loader.load_well_formed [of steps "step_key_name_str ` existing"]
  by (simp add: append_well_formed_def validate_workflow_step_append_load step_nodes_zip)

lemma validate_workflow_step_append_malformed:
  assumes "\<not> append_well_formed (step_key_name_str ` existing) steps"
  obtains e where "validate_workflow_step_append existing steps = Inl (Failure e)"
proof (cases "steps = []")
  case True
  then show thesis
    using that by (simp add: validate_workflow_step_append_load)
next
  case False
  then have "\<not> ((\<forall>s\<in>set steps. step_enqueue_ok s \<and> ws_key s \<notin> step_key_name_str ` existing) \<and>
      distinct (map ws_key steps) \<and>
      (\<forall>s\<in>set steps. set (ws_prerequisites s) \<subseteq> step_key_name_str ` existing \<union> ws_key ` set steps))"
    using assms by (simp add: append_well_formed_def)
  then obtain e where "append_loader.load (step_key_name_str ` existing) steps = Inl (Failure e)"
    by (rule append_loader.load_malformed)
  then show thesis
    using that False by (simp add: validate_workflow_step_append_load)
qed

lemma validate_workflow_step_append_iff:
  "validate_workflow_step_append existing steps = Inr () \<longleftrightarrow>
     append_well_formed (step_key_name_str ` existing) steps \<and>
     acyclic (key_edges (step_nodes steps) \<inter> set (map ws_key steps) \<times> UNIV)"
proof (cases "append_well_formed (step_key_name_str ` existing) steps")
  case True
  then show ?thesis
    by (simp add: validate_workflow_step_append_well_formed)
next
  case False
  then show ?thesis
    by (metis validate_workflow_step_append_malformed Inl_Inr_False)
qed

lemma validate_workflow_step_append_no_panic: "validate_workflow_step_append existing steps \<noteq> Inl Panicked"
proof (cases "append_well_formed (step_key_name_str ` existing) steps")
  case True
  then show ?thesis
    by (simp add: validate_workflow_step_append_well_formed)
next
  case False
  then obtain e where "validate_workflow_step_append existing steps = Inl (Failure e)"
    by (rule validate_workflow_step_append_malformed)
  then show ?thesis by simp
qed

section \<open>Graphs of run payloads\<close>

lemmas dag_input_defs = dag_input_def WorkflowDagStepValidationInput_new_def dg_with_priority_def
  dg_with_max_attempts_def dg_with_timeout_seconds_def dg_with_stage_def
  dg_with_allow_handler_continuation_def dg_with_execution_resource_key_def

lemma dag_input_simps [simp]:
  "dag_key (dag_input step) = ws_key step"
  "dag_prerequisites (dag_input step) = ws_prerequisites step"
  by (simp_all add: dag_input_defs dag_key_def ws_key_def dag_prerequisites_def ws_prerequisites_def)

lemma dag_input_ok:
  "step_enqueue_ok step \<longleftrightarrow>
     step_shape_ok (dag_step_shape (dag_input step)) \<and> dependencies_ok (ws_key step) (ws_prerequisites step)"
proof -
  have "step_enqueue_ok step \<longleftrightarrow> validate_step_enqueue step = Inr ()"
    by (simp add: validate_step_enqueue_iff)
  also have "\<dots> \<longleftrightarrow> validate_step_shape (dag_step_shape (dag_input step)) = Inr () \<and>
      validate_step_dependencies (ws_key step) (ws_dependencies step) = Inr ()"
    by (simp add: validate_step_enqueue_def try_bind_eq_Inr dag_step_shape_def dag_input_defs ws_key_def)
  finally show ?thesis
    by (simp add: validate_step_shape_iff validate_step_dependencies_iff ws_prerequisites_def)
qed

lemma dag_nodes_input [simp]: "dag_nodes (map dag_input steps) = step_nodes steps"
  by (simp add: dag_nodes_def step_nodes_def)

lemma dag_well_formed_input:
  "dag_well_formed workflow_type (map dag_input steps) \<longleftrightarrow>
     \<not> is_blank (workflow_type_str workflow_type) \<and> steps \<noteq> [] \<and> (\<forall>s\<in>set steps. step_enqueue_ok s) \<and>
     distinct (map ws_key steps) \<and> (\<forall>s\<in>set steps. set (ws_prerequisites s) \<subseteq> ws_key ` set steps)"
  by (auto simp: dag_well_formed_def dag_input_ok o_def image_image)

lemma key_edges_append: "key_edges (xs @ ys) = key_edges xs \<union> key_edges ys"
  by (auto simp: key_edges_def)

lemma acyclic_append_iff:
  assumes old: "\<forall>s\<in>set old. set (ws_prerequisites s) \<subseteq> ws_key ` set old"
    and disj: "\<forall>s\<in>set new. ws_key s \<notin> ws_key ` set old" and "acyclic (key_edges (step_nodes old))"
  shows "acyclic (key_edges (step_nodes (old @ new))) \<longleftrightarrow>
           acyclic (key_edges (step_nodes new) \<inter> set (map ws_key new) \<times> UNIV)"
    (is "acyclic ?W \<longleftrightarrow> acyclic ?N")
proof
  have split: "?W = key_edges (step_nodes old) \<union> key_edges (step_nodes new)"
    by (simp add: step_nodes_def key_edges_append)
  show "acyclic ?N" if "acyclic ?W"
    using that by (rule acyclic_subset) (auto simp: split)
  show "acyclic ?W" if "acyclic ?N"
  proof -
    let ?O = "key_edges (step_nodes old)" and ?M = "key_edges (step_nodes new) - set (map ws_key new) \<times> UNIV"
    have O: "p \<in> ws_key ` set old" if "(p, k) \<in> ?O" for p k
      using that old by (auto simp: key_edges_def step_nodes_def)
    have E: "k \<in> ws_key ` set new" if "(p, k) \<in> key_edges (step_nodes new)" for p k
      using that by (auto simp: key_edges_def step_nodes_def)
    have "?M \<subseteq> measure (\<lambda>k. of_bool (k \<in> ws_key ` set new))"
    proof
      fix e
      assume e: "e \<in> ?M"
      obtain p k where pk: "e = (p, k)" by force
      then have "p \<notin> ws_key ` set new" and "k \<in> ws_key ` set new"
        using e E by auto
      then show "e \<in> measure (\<lambda>k. of_bool (k \<in> ws_key ` set new))"
        by (simp add: pk)
    qed
    then have M: "wf ?M"
      by (rule wf_subset [OF wf_measure])
    have fin: "finite ?O" "finite ?N"
      using finite_key_edges by blast+
    then have ON: "wf ?O" "wf ?N"
      using assms(3) that by (simp_all add: wf_iff_acyclic_if_finite)
    have "k \<in> set (map ws_key new)" if "k \<in> Range ?N" for k
      using that E unfolding set_map by blast
    moreover have "p \<notin> set (map ws_key new)" if "p \<in> Domain ?M" for p
      using that by blast
    ultimately have "Domain ?M \<inter> Range ?N = {}"
      by blast
    then have "wf (?M \<union> ?N)"
      by (rule wf_Un [OF M ON(2)])
    moreover have "Domain ?O \<inter> Range (?M \<union> ?N) = {}"
    proof -
      have "k \<in> ws_key ` set new" if "k \<in> Range (?M \<union> ?N)" for k
        using that E by blast
      moreover have "p \<in> ws_key ` set old" if "p \<in> Domain ?O" for p
        using that O by blast
      ultimately show ?thesis
        using disj by blast
    qed
    ultimately have "wf (?O \<union> (?M \<union> ?N))"
      by (rule wf_Un [OF ON(1)])
    moreover have "?W = ?O \<union> (?M \<union> ?N)"
      unfolding split by blast
    ultimately show ?thesis
      by (simp only: wf_acyclic)
  qed
qed

definition run_enqueue_ok :: "'j workflow_run_enqueue \<Rightarrow> bool" where
  "run_enqueue_ok run \<longleftrightarrow>
     (\<forall>k. wr_idempotency_key run = Some k \<longrightarrow> \<not> is_blank k) \<and>
     (\<forall>k. wr_active_key run = Some k \<longrightarrow> \<not> is_blank k \<and> str_len k \<le> 512) \<and>
     (\<forall>k. wr_result_step_key run = Some k \<longrightarrow> k \<in> ws_step_key ` set (wr_steps run)) \<and>
     dag_well_formed (wr_workflow_type run) (map dag_input (wr_steps run)) \<and>
     acyclic (key_edges (step_nodes (wr_steps run)))"

lemma dag_well_formed_keys:
  "dag_well_formed workflow_type (map dag_input steps) \<Longrightarrow> s \<in> set steps \<Longrightarrow> \<not> is_blank (ws_key s)"
  by (simp add: dag_well_formed_input step_enqueue_ok_def ws_key_def)

lemma validate_workflow_run_enqueue_iff:
  "validate_workflow_run_enqueue run = Inr () \<longleftrightarrow> run_enqueue_ok run"
proof -
  have dag: "validate_workflow_dag (wr_workflow_type run) (map dag_input (wr_steps run)) = Inr u \<longleftrightarrow>
      dag_well_formed (wr_workflow_type run) (map dag_input (wr_steps run)) \<and>
      acyclic (key_edges (step_nodes (wr_steps run)))" for u
    using validate_workflow_dag_iff [of "wr_workflow_type run" "map dag_input (wr_steps run)"] by simp
  have blank: "\<not> is_blank (step_key_str k)"
    if "dag_well_formed (wr_workflow_type run) (map dag_input (wr_steps run))"
      and "k \<in> ws_step_key ` set (wr_steps run)" for k
    using that dag_well_formed_keys by (auto simp: ws_key_def)
  show ?thesis
    using blank
    by (cases "wr_idempotency_key run"; cases "wr_active_key run"; cases "wr_result_step_key run")
      (auto simp: validate_workflow_run_enqueue_def run_enqueue_ok_def is_some_and_def try_bind_eq_Inr dag
        list_ex_iff)
qed

subsection \<open>An order to run the steps in\<close>

definition rank :: "('a \<times> 'a) set \<Rightarrow> 'a \<Rightarrow> nat" where
  "rank r x = card {y. (y, x) \<in> r\<^sup>+}"

lemma rank_less:
  assumes "finite r" and "acyclic r" and "(a, b) \<in> r"
  shows "rank r a < rank r b"
  unfolding rank_def
proof (rule psubset_card_mono)
  have "{y. (y, b) \<in> r\<^sup>+} \<subseteq> Domain (r\<^sup>+)"
    by blast
  then show "finite {y. (y, b) \<in> r\<^sup>+}"
    using assms(1) by (auto intro: finite_subset simp: finite_Domain)
  have "a \<in> {y. (y, b) \<in> r\<^sup>+}" and "a \<notin> {y. (y, a) \<in> r\<^sup>+}"
    using assms(2,3) by (auto simp: acyclic_def)
  moreover have "{y. (y, a) \<in> r\<^sup>+} \<subseteq> {y. (y, b) \<in> r\<^sup>+}"
    using assms(3) by (auto intro: trancl_into_trancl)
  ultimately show "{y. (y, a) \<in> r\<^sup>+} \<subset> {y. (y, b) \<in> r\<^sup>+}"
    by blast
qed

lemma run_order_exists:
  assumes closed: "\<forall>s\<in>set steps. set (ws_prerequisites s) \<subseteq> ws_key ` set steps"
    and acyclic: "acyclic (key_edges (step_nodes steps))"
  shows "\<exists>order. mset order = mset steps \<and>
           (\<forall>k<length order. set (ws_prerequisites (order ! k)) \<subseteq> ws_key ` set (take k order))"
proof (intro exI conjI allI impI subsetI)
  let ?f = "\<lambda>s. rank (key_edges (step_nodes steps)) (ws_key s)"
  let ?order = "sort_key ?f steps"
  show "mset ?order = mset steps" by simp
  fix k p
  assume k: "k < length ?order" and p: "p \<in> set (ws_prerequisites (?order ! k))"
  have "?order ! k \<in> set steps"
    using k nth_mem [OF k] by (simp only: set_sort)
  then obtain s where s: "s \<in> set steps" "ws_key s = p"
    using closed p by blast
  have "(p, ws_key (?order ! k)) \<in> key_edges (step_nodes steps)"
    using p \<open>?order ! k \<in> set steps\<close> by (auto simp: key_edges_def step_nodes_def)
  then have less: "?f s < ?f (?order ! k)"
    using rank_less [OF finite_key_edges acyclic] s(2) by blast
  obtain m where m: "m < length ?order" "?order ! m = s"
    using s(1) by (metis in_set_conv_nth set_sort)
  have "m < k"
  proof (rule ccontr)
    assume "\<not> m < k"
    then have "map ?f ?order ! k \<le> map ?f ?order ! m"
      using m(1) by (intro sorted_nth_mono) simp_all
    then show False
      using less m k by simp
  qed
  then have "?order ! m \<in> set (take k ?order)"
    using k m(1) by (metis in_set_conv_nth length_take min.absorb4 nth_take)
  then show "p \<in> ws_key ` set (take k ?order)"
    using m(2) s(2) by blast
qed

lemma fresh_images: "(\<forall>s\<in>A. P s \<and> h s \<notin> K) \<longleftrightarrow> (\<forall>s\<in>A. P s) \<and> K \<inter> h ` A = {}"
  by blast

section \<open>Properties\<close>

text \<open>
  C11: the validation of a workflow graph is exact. It never panics. It accepts exactly the non-empty
  graphs with a named type whose steps have the required shape and distinct keys, whose dependencies
  are non-blank, without repetition, not on the step itself and on steps of the graph, and whose
  dependency relation has no cycle; and it reports a cycle exactly when that is the only thing wrong.
\<close>

theorem workflow_dag_exact:
  "validate_workflow_dag workflow_type steps \<noteq> Inl Panicked \<and>
   (validate_workflow_dag workflow_type steps = Inr () \<longleftrightarrow>
      dag_well_formed workflow_type steps \<and> acyclic (key_edges (dag_nodes steps))) \<and>
   (validate_workflow_dag workflow_type steps = Inl (Failure Dag_CycleDetected) \<longleftrightarrow>
      dag_well_formed workflow_type steps \<and> \<not> acyclic (key_edges (dag_nodes steps)))"
proof (cases "dag_well_formed workflow_type steps")
  case True
  then show ?thesis
    by (simp add: validate_workflow_dag_well_formed)
next
  case False
  then obtain e where "validate_workflow_dag workflow_type steps = Inl (Failure e)" "e \<noteq> Dag_CycleDetected"
    by (rule validate_workflow_dag_malformed)
  with False show ?thesis by simp
qed

text \<open>
  C12: appending to a run is as good as validating the run again. For a run whose steps passed
  validation and a non-empty list of new steps, the incremental check over the new steps and the keys
  of the existing ones accepts exactly when the validation of all the steps together would; it never
  panics.
\<close>

theorem workflow_append_exact:
  assumes "validate_workflow_dag workflow_type (map dag_input old) = Inr ()" and "new \<noteq> []"
  shows "validate_workflow_step_append ((\<lambda>s. StepKeyName (ws_key s)) ` set old) new \<noteq> Inl Panicked \<and>
    (validate_workflow_step_append ((\<lambda>s. StepKeyName (ws_key s)) ` set old) new = Inr () \<longleftrightarrow>
     validate_workflow_dag workflow_type (map dag_input (old @ new)) = Inr ())"
proof -
  have old: "dag_well_formed workflow_type (map dag_input old)" "acyclic (key_edges (step_nodes old))"
    using assms(1) by (simp_all add: validate_workflow_dag_iff)
  let ?existing = "(\<lambda>s. StepKeyName (ws_key s)) ` set old"
  have keys: "step_key_name_str ` ?existing = ws_key ` set old"
    by (simp add: image_image)
  have closed: "\<forall>s\<in>set old. set (ws_prerequisites s) \<subseteq> ws_key ` set old \<union> ws_key ` set new"
    using old(1) by (simp add: dag_well_formed_input le_supI1)
  have wf: "append_well_formed (ws_key ` set old) new \<longleftrightarrow>
      dag_well_formed workflow_type (map dag_input (old @ new))"
    unfolding dag_well_formed_input append_well_formed_def
    using old(1) assms(2) closed unfolding fresh_images by (simp add: dag_well_formed_input image_Un ball_Un conj_ac)
  have cycles: "acyclic (key_edges (step_nodes (old @ new))) \<longleftrightarrow>
      acyclic (key_edges (step_nodes new) \<inter> set (map ws_key new) \<times> UNIV)"
    if "append_well_formed (ws_key ` set old) new"
    using that old by (intro acyclic_append_iff) (simp_all add: dag_well_formed_input append_well_formed_def)
  have "validate_workflow_step_append ?existing new = Inr () \<longleftrightarrow>
      append_well_formed (ws_key ` set old) new \<and>
      acyclic (key_edges (step_nodes new) \<inter> set (map ws_key new) \<times> UNIV)"
    unfolding validate_workflow_step_append_iff keys ..
  also have "\<dots> \<longleftrightarrow> validate_workflow_dag workflow_type (map dag_input (old @ new)) = Inr ()"
    unfolding validate_workflow_dag_iff dag_nodes_input using wf cycles by blast
  finally show ?thesis
    using validate_workflow_step_append_no_panic by blast
qed

text \<open>
  C13: an accepted run can be carried out. There is an order of all its steps in which every step
  comes after all of its prerequisites, so no step waits for ever; and the step whose result the run
  reports is one of them.
\<close>

theorem workflow_run_progress:
  assumes "validate_workflow_run_enqueue run = Inr ()"
  shows "(\<exists>order. mset order = mset (wr_steps run) \<and>
            (\<forall>k<length order. set (ws_prerequisites (order ! k)) \<subseteq> ws_key ` set (take k order))) \<and>
         (\<forall>k. wr_result_step_key run = Some k \<longrightarrow> k \<in> ws_step_key ` set (wr_steps run))"
proof -
  have ok: "run_enqueue_ok run"
    using assms by (simp add: validate_workflow_run_enqueue_iff)
  then have "\<forall>s\<in>set (wr_steps run). set (ws_prerequisites s) \<subseteq> ws_key ` set (wr_steps run)"
    and "acyclic (key_edges (step_nodes (wr_steps run)))"
    by (simp_all add: run_enqueue_ok_def dag_well_formed_input)
  then show ?thesis
    using run_order_exists ok by (simp add: run_enqueue_ok_def)
qed

section \<open>A sample workflow\<close>

definition sample_step :: "string \<Rightarrow> string list \<Rightarrow> unit workflow_step_enqueue" where
  "sample_step key prerequisites =
     \<lparr>ws_step_key = StepKey (lit key), ws_execution = StepExecution_External, ws_organization_id = None,
      ws_payload = (),
      ws_dependencies = map (\<lambda>p. \<lparr>dep_prerequisite_step_key = StepKey (lit p), dep_release_mode = None\<rparr>)
        prerequisites\<rparr>"

definition sample_run :: "unit workflow_step_enqueue list \<Rightarrow> unit workflow_run_enqueue" where
  "sample_run steps =
     \<lparr>wr_workflow_type = WorkflowType (lit ''w''), wr_organization_id = None, wr_metadata = (),
      wr_idempotency_key = None, wr_active_key = Some (lit ''key''),
      wr_result_step_key = Some (StepKey (lit ''c'')), wr_steps = steps\<rparr>"

lemmas sample_eval = validate_workflow_dag_def dag_input_defs sample_step_def sample_run_def lit_def is_blank_def
  trim_def is_whitespace_def dag_step_shape_def validate_step_shape_def validate_step_dependency_shape_def
  step_accessors empty_graph_def add_edge_def reject_cycles_def is_acyclic_def ready_indices_def
  validate_workflow_run_enqueue_def is_some_and_def str_len_def utf8_char_def

lemma sample_dag:
  "validate_workflow_dag (WorkflowType (lit ''w'')) (map dag_input [sample_step ''a'' [], sample_step ''b'' [''a'']])
     = Inr ()"
  by (simp add: sample_eval)

theorem workflow_append_exact_witness:
  "validate_workflow_step_append
     ((\<lambda>s. StepKeyName (ws_key s)) ` set [sample_step ''a'' [], sample_step ''b'' [''a'']])
     [sample_step ''c'' [''b'', ''a'']] = Inr ()"
proof -
  have "validate_workflow_dag (WorkflowType (lit ''w''))
      (map dag_input ([sample_step ''a'' [], sample_step ''b'' [''a'']] @ [sample_step ''c'' [''b'', ''a'']]))
      = Inr ()"
    by (simp add: sample_eval)
  then show ?thesis
    using workflow_append_exact [OF sample_dag, of "[sample_step ''c'' [''b'', ''a'']]"] by simp
qed

theorem workflow_run_progress_witness:
  "\<exists>order. mset order = mset [sample_step ''c'' [''b'', ''a''], sample_step ''b'' [''a''], sample_step ''a'' []] \<and>
     (\<forall>k<length order. set (ws_prerequisites (order ! k)) \<subseteq> ws_key ` set (take k order))"
proof -
  let ?steps = "[sample_step ''c'' [''b'', ''a''], sample_step ''b'' [''a''], sample_step ''a'' []]"
  have "validate_workflow_run_enqueue (sample_run ?steps) = Inr ()"
    by (simp add: sample_eval)
  from workflow_run_progress [OF this] show ?thesis
    by (simp add: sample_run_def)
qed

end
