(* ===== verification/Workflow_Builders.thy ===== *)
theory Workflow_Builders
  imports Workflow_Dag
begin

text \<open>
  The builders of workflow payloads (\<open>workflow_enqueue\<close>: \<open>errors.rs\<close>, \<open>build_validation.rs\<close>,
  \<open>step_builder.rs\<close>, \<open>run_builder.rs\<close> and \<open>dag_builder.rs\<close>). A builder is a record, each of its
  methods a function from builder to builder, or to a result where the method can fail.
\<close>

section \<open>Errors\<close>

datatype workflow_build_error =
    Build_BlankWorkflowType
  | Build_EmptySteps
  | Build_BlankStepKey "nat option"
  | Build_BlankStepJobType rstr
  | Build_BlankIdempotencyKey
  | Build_BlankActiveKey
  | Build_ActiveKeyTooLong
  | Build_BlankResultStepKey
  | Build_UnknownResultStepKey rstr
  | Build_NonPositiveStepMaxAttempts rstr i32
  | Build_NonPositiveStepTimeoutSeconds rstr i32
  | Build_InvalidStepExecutionResourceKey rstr
  | Build_ExternalStepJobTypeNotAllowed rstr
  | Build_ExternalStepQueueSettingsNotAllowed rstr
  | Build_BlankDependencyStepKey rstr
  | Build_DuplicateStepKey rstr
  | Build_UnknownStepKey rstr
  | Build_MissingDependency rstr rstr
  | Build_DuplicateDependency rstr rstr
  | Build_SelfDependency rstr
  | Build_CycleDetected

fun build_error_of_dag :: "workflow_dag_validation_error \<Rightarrow> workflow_build_error" where
  "build_error_of_dag Dag_EmptySteps = Build_EmptySteps"
| "build_error_of_dag Dag_BlankWorkflowType = Build_BlankWorkflowType"
| "build_error_of_dag (Dag_BlankStepKey i) = Build_BlankStepKey (Some i)"
| "build_error_of_dag (Dag_BlankStepJobType k) = Build_BlankStepJobType k"
| "build_error_of_dag Dag_BlankIdempotencyKey = Build_BlankIdempotencyKey"
| "build_error_of_dag Dag_BlankActiveKey = Build_BlankActiveKey"
| "build_error_of_dag Dag_ActiveKeyTooLong = Build_ActiveKeyTooLong"
| "build_error_of_dag Dag_BlankResultStepKey = Build_BlankResultStepKey"
| "build_error_of_dag (Dag_UnknownResultStepKey k) = Build_UnknownResultStepKey k"
| "build_error_of_dag (Dag_NonPositiveStepMaxAttempts k n) = Build_NonPositiveStepMaxAttempts k n"
| "build_error_of_dag (Dag_NonPositiveStepTimeoutSeconds k n) = Build_NonPositiveStepTimeoutSeconds k n"
| "build_error_of_dag (Dag_InvalidStepExecutionResourceKey k) = Build_InvalidStepExecutionResourceKey k"
| "build_error_of_dag (Dag_ExternalStepJobTypeNotAllowed k) = Build_ExternalStepJobTypeNotAllowed k"
| "build_error_of_dag (Dag_ExternalStepQueueSettingsNotAllowed k) = Build_ExternalStepQueueSettingsNotAllowed k"
| "build_error_of_dag (Dag_BlankDependencyStepKey k) = Build_BlankDependencyStepKey k"
| "build_error_of_dag (Dag_DuplicateStepKey k) = Build_DuplicateStepKey k"
| "build_error_of_dag (Dag_MissingDependency k p) = Build_MissingDependency k p"
| "build_error_of_dag (Dag_SelfDependency k) = Build_SelfDependency k"
| "build_error_of_dag (Dag_DuplicateDependency k p) = Build_DuplicateDependency k p"
| "build_error_of_dag Dag_CycleDetected = Build_CycleDetected"

fun build_error_of_step :: "workflow_step_validation_error \<Rightarrow> workflow_build_error" where
  "build_error_of_step Step_BlankStepKey = Build_BlankStepKey None"
| "build_error_of_step (Step_BlankStepJobType k) = Build_BlankStepJobType k"
| "build_error_of_step (Step_NonPositiveStepMaxAttempts k n) = Build_NonPositiveStepMaxAttempts k n"
| "build_error_of_step (Step_NonPositiveStepTimeoutSeconds k n) = Build_NonPositiveStepTimeoutSeconds k n"
| "build_error_of_step (Step_InvalidStepExecutionResourceKey k) = Build_InvalidStepExecutionResourceKey k"
| "build_error_of_step (Step_ExternalStepJobTypeNotAllowed k) = Build_ExternalStepJobTypeNotAllowed k"
| "build_error_of_step (Step_ExternalStepQueueSettingsNotAllowed k) =
     Build_ExternalStepQueueSettingsNotAllowed k"
| "build_error_of_step (Step_BlankDependencyStepKey k) = Build_BlankDependencyStepKey k"
| "build_error_of_step (Step_DuplicateDependency k p) = Build_DuplicateDependency k p"
| "build_error_of_step (Step_SelfDependency k) = Build_SelfDependency k"

section \<open>Steps\<close>

record 'j workflow_step_enqueue_input =
  in_step_key :: step_key
  in_execution_kind :: workflow_step_execution_kind
  in_job_type :: "job_type option"
  in_organization_id :: "uuid option"
  in_payload :: 'j
  in_priority :: "i32 option"
  in_max_attempts :: "i32 option"
  in_timeout_seconds :: "i32 option"
  in_stage :: "job_stage option"
  in_allow_handler_continuation :: bool
  in_execution_resource_key :: "rstr option"
  in_dependencies :: "workflow_step_dependency_spec list"

definition validate_step_enqueue_input ::
  "'j workflow_step_enqueue_input \<Rightarrow> workflow_step_validation_error + unit" where
  "validate_step_enqueue_input step =
     try_bind (validate_step_shape
       \<lparr>sh_step_key = step_key_str (in_step_key step), sh_execution_kind = in_execution_kind step,
        sh_job_type = map_option job_type_str (in_job_type step), sh_priority = in_priority step,
        sh_max_attempts = in_max_attempts step, sh_timeout_seconds = in_timeout_seconds step,
        sh_stage = in_stage step, sh_allow_handler_continuation = in_allow_handler_continuation step,
        sh_execution_resource_key = in_execution_resource_key step\<rparr>)
       (\<lambda>_. validate_step_dependencies (step_key_str (in_step_key step)) (in_dependencies step))"

record 'j step_builder =
  sb_step_key :: step_key
  sb_execution_kind :: workflow_step_execution_kind
  sb_job_type :: "job_type option"
  sb_organization_id :: "uuid option"
  sb_payload :: 'j
  sb_priority :: "i32 option"
  sb_max_attempts :: "i32 option"
  sb_timeout_seconds :: "i32 option"
  sb_stage :: "job_stage option"
  sb_allow_handler_continuation :: bool
  sb_execution_resource_key :: "rstr option"
  sb_dependencies :: "workflow_step_dependency_spec list"

definition StepBuilder_new :: "step_key \<Rightarrow> job_type \<Rightarrow> 'j \<Rightarrow> 'j step_builder" where
  "StepBuilder_new step_key job_type payload =
     \<lparr>sb_step_key = step_key, sb_execution_kind = WorkflowStepExecutionKind_Job,
      sb_job_type = Some job_type, sb_organization_id = None, sb_payload = payload,
      sb_priority = None, sb_max_attempts = None, sb_timeout_seconds = None,
      sb_stage = Some JobStage_Queued, sb_allow_handler_continuation = False,
      sb_execution_resource_key = None, sb_dependencies = []\<rparr>"

definition StepBuilder_try_new :: "rstr \<Rightarrow> rstr \<Rightarrow> 'j \<Rightarrow> workflow_build_error + 'j step_builder" where
  "StepBuilder_try_new step_key job_type payload =
     try_bind (map_err (\<lambda>_. Build_BlankStepKey None) (StepKey_try_new step_key)) (\<lambda>step_key.
     try_bind (map_err (\<lambda>_. Build_BlankStepJobType (step_key_str step_key)) (JobType_try_new job_type))
       (\<lambda>job_type. Inr (StepBuilder_new step_key job_type payload)))"

definition StepBuilder_new_external :: "step_key \<Rightarrow> 'j \<Rightarrow> 'j step_builder" where
  "StepBuilder_new_external step_key payload =
     \<lparr>sb_step_key = step_key, sb_execution_kind = WorkflowStepExecutionKind_External,
      sb_job_type = None, sb_organization_id = None, sb_payload = payload,
      sb_priority = None, sb_max_attempts = None, sb_timeout_seconds = None,
      sb_stage = None, sb_allow_handler_continuation = False,
      sb_execution_resource_key = None, sb_dependencies = []\<rparr>"

definition StepBuilder_try_new_external :: "rstr \<Rightarrow> 'j \<Rightarrow> workflow_build_error + 'j step_builder" where
  "StepBuilder_try_new_external step_key payload =
     try_bind (map_err (\<lambda>_. Build_BlankStepKey None) (StepKey_try_new step_key))
       (\<lambda>step_key. Inr (StepBuilder_new_external step_key payload))"

definition step_organization_id :: "uuid \<Rightarrow> 'j step_builder \<Rightarrow> 'j step_builder" where
  "step_organization_id v builder = builder\<lparr>sb_organization_id := Some v\<rparr>"

definition step_clear_organization_id :: "'j step_builder \<Rightarrow> 'j step_builder" where
  "step_clear_organization_id builder = builder\<lparr>sb_organization_id := None\<rparr>"

definition step_execution_resource :: "rstr \<Rightarrow> 'j step_builder \<Rightarrow> 'j step_builder" where
  "step_execution_resource v builder = builder\<lparr>sb_execution_resource_key := Some v\<rparr>"

definition step_clear_execution_resource :: "'j step_builder \<Rightarrow> 'j step_builder" where
  "step_clear_execution_resource builder = builder\<lparr>sb_execution_resource_key := None\<rparr>"

definition step_priority :: "i32 \<Rightarrow> 'j step_builder \<Rightarrow> 'j step_builder" where
  "step_priority v builder = builder\<lparr>sb_priority := Some v\<rparr>"

definition step_clear_priority :: "'j step_builder \<Rightarrow> 'j step_builder" where
  "step_clear_priority builder = builder\<lparr>sb_priority := None\<rparr>"

definition step_max_attempts :: "i32 \<Rightarrow> 'j step_builder \<Rightarrow> 'j step_builder" where
  "step_max_attempts v builder = builder\<lparr>sb_max_attempts := Some v\<rparr>"

definition step_clear_max_attempts :: "'j step_builder \<Rightarrow> 'j step_builder" where
  "step_clear_max_attempts builder = builder\<lparr>sb_max_attempts := None\<rparr>"

definition step_timeout_seconds :: "i32 \<Rightarrow> 'j step_builder \<Rightarrow> 'j step_builder" where
  "step_timeout_seconds v builder = builder\<lparr>sb_timeout_seconds := Some v\<rparr>"

definition step_clear_timeout_seconds :: "'j step_builder \<Rightarrow> 'j step_builder" where
  "step_clear_timeout_seconds builder = builder\<lparr>sb_timeout_seconds := None\<rparr>"

definition step_stage :: "job_stage \<Rightarrow> 'j step_builder \<Rightarrow> 'j step_builder" where
  "step_stage v builder = builder\<lparr>sb_stage := Some v\<rparr>"

definition step_clear_stage :: "'j step_builder \<Rightarrow> 'j step_builder" where
  "step_clear_stage builder = builder\<lparr>sb_stage := None\<rparr>"

definition step_allow_handler_continuation :: "'j step_builder \<Rightarrow> 'j step_builder" where
  "step_allow_handler_continuation builder = builder\<lparr>sb_allow_handler_continuation := True\<rparr>"

definition step_disallow_handler_continuation :: "'j step_builder \<Rightarrow> 'j step_builder" where
  "step_disallow_handler_continuation builder = builder\<lparr>sb_allow_handler_continuation := False\<rparr>"

definition step_set_dependencies ::
  "workflow_step_dependency_spec list \<Rightarrow> 'j step_builder \<Rightarrow> 'j step_builder" where
  "step_set_dependencies dependencies builder = builder\<lparr>sb_dependencies := dependencies\<rparr>"

definition step_dependency :: "workflow_step_dependency_spec \<Rightarrow> 'j step_builder \<Rightarrow> 'j step_builder" where
  "step_dependency dependency builder = builder\<lparr>sb_dependencies := sb_dependencies builder @ [dependency]\<rparr>"

definition dependency_specs ::
  "workflow_dependency_release_mode \<Rightarrow> step_key list \<Rightarrow> workflow_step_dependency_spec list" where
  "dependency_specs release_mode keys =
     map (\<lambda>k. \<lparr>dep_prerequisite_step_key = k, dep_release_mode = Some release_mode\<rparr>) keys"

definition step_depends_on ::
  "step_key list \<Rightarrow> workflow_dependency_release_mode \<Rightarrow> 'j step_builder \<Rightarrow> 'j step_builder" where
  "step_depends_on keys release_mode builder =
     builder\<lparr>sb_dependencies := sb_dependencies builder @ dependency_specs release_mode keys\<rparr>"

definition step_depends_on_terminal :: "step_key list \<Rightarrow> 'j step_builder \<Rightarrow> 'j step_builder" where
  "step_depends_on_terminal keys builder =
     step_depends_on keys WorkflowDependencyReleaseMode_OnTerminal builder"

definition step_depends_on_success :: "step_key list \<Rightarrow> 'j step_builder \<Rightarrow> 'j step_builder" where
  "step_depends_on_success keys builder =
     step_depends_on keys WorkflowDependencyReleaseMode_OnSuccess builder"

definition step_try_build :: "'j step_builder \<Rightarrow> workflow_build_error + 'j workflow_step_enqueue" where
  "step_try_build builder =
     (let input = \<lparr>in_step_key = sb_step_key builder, in_execution_kind = sb_execution_kind builder,
            in_job_type = sb_job_type builder, in_organization_id = sb_organization_id builder,
            in_payload = sb_payload builder, in_priority = sb_priority builder,
            in_max_attempts = sb_max_attempts builder, in_timeout_seconds = sb_timeout_seconds builder,
            in_stage = sb_stage builder,
            in_allow_handler_continuation = sb_allow_handler_continuation builder,
            in_execution_resource_key = sb_execution_resource_key builder,
            in_dependencies = sb_dependencies builder\<rparr>
      in try_bind (map_err build_error_of_step (validate_step_enqueue_input input)) (\<lambda>_.
         try_bind
           (case in_execution_kind input of
              WorkflowStepExecutionKind_Job \<Rightarrow>
                (case in_job_type input of
                   None \<Rightarrow> Inl (Build_BlankStepJobType (step_key_str (in_step_key input)))
                 | Some job_type \<Rightarrow>
                     Inr (StepExecution_Job (WorkflowJobStepExecution_new job_type (in_priority input)
                       (in_max_attempts input) (in_timeout_seconds input) (in_stage input)
                       (in_allow_handler_continuation input) (in_execution_resource_key input))))
            | WorkflowStepExecutionKind_External \<Rightarrow> Inr StepExecution_External)
           (\<lambda>execution. Inr \<lparr>ws_step_key = in_step_key input, ws_execution = execution,
              ws_organization_id = in_organization_id input, ws_payload = in_payload input,
              ws_dependencies = in_dependencies input\<rparr>)))"

section \<open>Runs\<close>

definition validate_workflow_enqueue :: "'j workflow_run_enqueue \<Rightarrow> workflow_build_error failure + unit" where
  "validate_workflow_enqueue payload =
     map_err (\<lambda>e. case e of Failure e \<Rightarrow> Failure (build_error_of_dag e) | Panicked \<Rightarrow> Panicked)
       (validate_workflow_run_enqueue payload)"

record 'j run_builder =
  rb_workflow_type :: workflow_type
  rb_organization_id :: "uuid option"
  rb_metadata :: 'j
  rb_idempotency_key :: "rstr option"
  rb_active_key :: "rstr option"
  rb_result_step_key :: "step_key option"
  rb_steps :: "'j workflow_step_enqueue list"

definition RunBuilder_new :: "workflow_type \<Rightarrow> 'j \<Rightarrow> 'j run_builder" where
  "RunBuilder_new workflow_type metadata =
     \<lparr>rb_workflow_type = workflow_type, rb_organization_id = None, rb_metadata = metadata,
      rb_idempotency_key = None, rb_active_key = None, rb_result_step_key = None, rb_steps = []\<rparr>"

definition RunBuilder_try_new :: "rstr \<Rightarrow> 'j \<Rightarrow> workflow_build_error + 'j run_builder" where
  "RunBuilder_try_new workflow_type metadata =
     try_bind (map_err (\<lambda>_. Build_BlankWorkflowType) (WorkflowType_try_new workflow_type))
       (\<lambda>workflow_type. Inr (RunBuilder_new workflow_type metadata))"

definition run_organization_id :: "uuid \<Rightarrow> 'j run_builder \<Rightarrow> 'j run_builder" where
  "run_organization_id v builder = builder\<lparr>rb_organization_id := Some v\<rparr>"

definition run_clear_organization_id :: "'j run_builder \<Rightarrow> 'j run_builder" where
  "run_clear_organization_id builder = builder\<lparr>rb_organization_id := None\<rparr>"

definition run_idempotency_key :: "rstr \<Rightarrow> 'j run_builder \<Rightarrow> 'j run_builder" where
  "run_idempotency_key v builder = builder\<lparr>rb_idempotency_key := Some v\<rparr>"

definition run_clear_idempotency_key :: "'j run_builder \<Rightarrow> 'j run_builder" where
  "run_clear_idempotency_key builder = builder\<lparr>rb_idempotency_key := None\<rparr>"

definition run_active_key :: "rstr \<Rightarrow> 'j run_builder \<Rightarrow> 'j run_builder" where
  "run_active_key v builder = builder\<lparr>rb_active_key := Some v\<rparr>"

definition run_clear_active_key :: "'j run_builder \<Rightarrow> 'j run_builder" where
  "run_clear_active_key builder = builder\<lparr>rb_active_key := None\<rparr>"

definition run_result_step_key :: "step_key \<Rightarrow> 'j run_builder \<Rightarrow> 'j run_builder" where
  "run_result_step_key v builder = builder\<lparr>rb_result_step_key := Some v\<rparr>"

definition run_clear_result_step_key :: "'j run_builder \<Rightarrow> 'j run_builder" where
  "run_clear_result_step_key builder = builder\<lparr>rb_result_step_key := None\<rparr>"

definition run_try_result_step_key :: "rstr \<Rightarrow> 'j run_builder \<Rightarrow> workflow_build_error + 'j run_builder" where
  "run_try_result_step_key key builder =
     try_bind (map_err (\<lambda>_. Build_BlankResultStepKey) (StepKey_try_new key))
       (\<lambda>key. Inr (builder\<lparr>rb_result_step_key := Some key\<rparr>))"

definition run_step :: "'j workflow_step_enqueue \<Rightarrow> 'j run_builder \<Rightarrow> 'j run_builder" where
  "run_step step builder = builder\<lparr>rb_steps := rb_steps builder @ [step]\<rparr>"

definition run_set_steps :: "'j workflow_step_enqueue list \<Rightarrow> 'j run_builder \<Rightarrow> 'j run_builder" where
  "run_set_steps steps builder = builder\<lparr>rb_steps := steps\<rparr>"

definition run_extend_steps :: "'j workflow_step_enqueue list \<Rightarrow> 'j run_builder \<Rightarrow> 'j run_builder" where
  "run_extend_steps steps builder = builder\<lparr>rb_steps := rb_steps builder @ steps\<rparr>"

definition run_try_build :: "'j run_builder \<Rightarrow> workflow_build_error failure + 'j workflow_run_enqueue" where
  "run_try_build builder =
     (let workflow = \<lparr>wr_workflow_type = rb_workflow_type builder,
            wr_organization_id = rb_organization_id builder, wr_metadata = rb_metadata builder,
            wr_idempotency_key = rb_idempotency_key builder, wr_active_key = rb_active_key builder,
            wr_result_step_key = rb_result_step_key builder, wr_steps = rb_steps builder\<rparr>
      in try_bind (validate_workflow_enqueue workflow) (\<lambda>_. Inr workflow))"

section \<open>Graphs\<close>

record 'j dag_builder =
  db_inner :: "'j run_builder"

definition DagBuilder_new :: "rstr \<Rightarrow> 'j \<Rightarrow> 'j dag_builder" where
  "DagBuilder_new workflow_type metadata =
     \<lparr>db_inner = RunBuilder_new (WorkflowType workflow_type) metadata\<rparr>"

definition DagBuilder_try_new :: "rstr \<Rightarrow> 'j \<Rightarrow> workflow_build_error + 'j dag_builder" where
  "DagBuilder_try_new workflow_type metadata =
     try_bind (RunBuilder_try_new workflow_type metadata) (\<lambda>inner. Inr \<lparr>db_inner = inner\<rparr>)"

definition dag_organization_id :: "uuid \<Rightarrow> 'j dag_builder \<Rightarrow> 'j dag_builder" where
  "dag_organization_id v builder = builder\<lparr>db_inner := run_organization_id v (db_inner builder)\<rparr>"

definition dag_clear_organization_id :: "'j dag_builder \<Rightarrow> 'j dag_builder" where
  "dag_clear_organization_id builder = builder\<lparr>db_inner := run_clear_organization_id (db_inner builder)\<rparr>"

definition dag_idempotency_key :: "rstr \<Rightarrow> 'j dag_builder \<Rightarrow> 'j dag_builder" where
  "dag_idempotency_key v builder = builder\<lparr>db_inner := run_idempotency_key v (db_inner builder)\<rparr>"

definition dag_clear_idempotency_key :: "'j dag_builder \<Rightarrow> 'j dag_builder" where
  "dag_clear_idempotency_key builder = builder\<lparr>db_inner := run_clear_idempotency_key (db_inner builder)\<rparr>"

definition dag_active_key :: "rstr \<Rightarrow> 'j dag_builder \<Rightarrow> 'j dag_builder" where
  "dag_active_key v builder = builder\<lparr>db_inner := run_active_key v (db_inner builder)\<rparr>"

definition dag_clear_active_key :: "'j dag_builder \<Rightarrow> 'j dag_builder" where
  "dag_clear_active_key builder = builder\<lparr>db_inner := run_clear_active_key (db_inner builder)\<rparr>"

definition dag_result_step :: "rstr \<Rightarrow> 'j dag_builder \<Rightarrow> workflow_build_error + 'j dag_builder" where
  "dag_result_step key builder =
     try_bind (run_try_result_step_key key (db_inner builder))
       (\<lambda>inner. Inr (builder\<lparr>db_inner := inner\<rparr>))"

definition dag_clear_result_step :: "'j dag_builder \<Rightarrow> 'j dag_builder" where
  "dag_clear_result_step builder = builder\<lparr>db_inner := run_clear_result_step_key (db_inner builder)\<rparr>"

definition check_new_step_key :: "rstr \<Rightarrow> 'j dag_builder \<Rightarrow> workflow_build_error + unit" where
  "check_new_step_key key builder =
     try_bind (map_err (\<lambda>_. Build_BlankStepKey None) (StepKey_try_new key)) (\<lambda>key.
       if list_ex (\<lambda>step. ws_step_key step = key) (rb_steps (db_inner builder))
       then Inl (Build_DuplicateStepKey (step_key_str key))
       else Inr ())"

definition dag_job :: "rstr \<Rightarrow> rstr \<Rightarrow> 'j \<Rightarrow> 'j dag_builder \<Rightarrow> workflow_build_error + 'j dag_builder" where
  "dag_job key job_type payload builder =
     try_bind (check_new_step_key key builder) (\<lambda>_.
     try_bind (StepBuilder_try_new key job_type payload) (\<lambda>step_builder.
     try_bind (step_try_build step_builder) (\<lambda>step.
       Inr (builder\<lparr>db_inner := run_step step (db_inner builder)\<rparr>))))"

definition dag_step :: "'j workflow_step_enqueue \<Rightarrow> 'j dag_builder \<Rightarrow> workflow_build_error + 'j dag_builder" where
  "dag_step step builder =
     try_bind (check_new_step_key (step_key_str (ws_step_key step)) builder) (\<lambda>_.
       Inr (builder\<lparr>db_inner := run_step step (db_inner builder)\<rparr>))"

definition dag_external :: "rstr \<Rightarrow> 'j \<Rightarrow> 'j dag_builder \<Rightarrow> workflow_build_error + 'j dag_builder" where
  "dag_external key payload builder =
     try_bind (StepBuilder_try_new_external key payload) (\<lambda>step_builder.
     try_bind (step_try_build step_builder) (\<lambda>step. dag_step step builder))"

fun collect_prerequisites :: "rstr \<Rightarrow> rstr list \<Rightarrow> workflow_build_error + step_key list" where
  "collect_prerequisites target [] = Inr []"
| "collect_prerequisites target (k # ks) =
     try_bind (map_err (\<lambda>_. Build_BlankDependencyStepKey target) (StepKey_try_new k)) (\<lambda>k.
       map_ok (\<lambda>ks. k # ks) (collect_prerequisites target ks))"

fun extend_first ::
  "step_key \<Rightarrow> workflow_step_dependency_spec list \<Rightarrow> 'j workflow_step_enqueue list
    \<Rightarrow> 'j workflow_step_enqueue list option" where
  "extend_first key specs [] = None"
| "extend_first key specs (step # steps) =
     (if ws_step_key step = key
      then Some (step\<lparr>ws_dependencies := ws_dependencies step @ specs\<rparr> # steps)
      else map_option (\<lambda>steps. step # steps) (extend_first key specs steps))"

definition dag_after ::
  "rstr \<Rightarrow> rstr list \<Rightarrow> workflow_dependency_release_mode \<Rightarrow> 'j dag_builder
    \<Rightarrow> workflow_build_error + 'j dag_builder" where
  "dag_after key prerequisites release_mode builder =
     try_bind (map_err (\<lambda>_. Build_BlankStepKey None) (StepKey_try_new key)) (\<lambda>target.
     try_bind (collect_prerequisites (step_key_str target) prerequisites) (\<lambda>keys.
     try_bind (ok_or (extend_first target (dependency_specs release_mode keys) (rb_steps (db_inner builder)))
                 (Build_UnknownStepKey (step_key_str target)))
       (\<lambda>steps. Inr (builder\<lparr>db_inner := (db_inner builder)\<lparr>rb_steps := steps\<rparr>\<rparr>))))"

definition dag_after_success ::
  "rstr \<Rightarrow> rstr list \<Rightarrow> 'j dag_builder \<Rightarrow> workflow_build_error + 'j dag_builder" where
  "dag_after_success key prerequisites builder =
     dag_after key prerequisites WorkflowDependencyReleaseMode_OnSuccess builder"

definition dag_after_terminal ::
  "rstr \<Rightarrow> rstr list \<Rightarrow> 'j dag_builder \<Rightarrow> workflow_build_error + 'j dag_builder" where
  "dag_after_terminal key prerequisites builder =
     dag_after key prerequisites WorkflowDependencyReleaseMode_OnTerminal builder"

fun validate_each_step :: "'j workflow_step_enqueue list \<Rightarrow> workflow_build_error + unit" where
  "validate_each_step [] = Inr ()"
| "validate_each_step (step # steps) =
     try_bind (map_err build_error_of_step (validate_step_enqueue step)) (\<lambda>_. validate_each_step steps)"

definition dag_try_build :: "'j dag_builder \<Rightarrow> workflow_build_error failure + 'j workflow_run_enqueue" where
  "dag_try_build builder =
     try_bind (map_err Failure (validate_each_step (rb_steps (db_inner builder))))
       (\<lambda>_. run_try_build (db_inner builder))"

definition dag_build :: "'j dag_builder \<Rightarrow> workflow_build_error failure + 'j workflow_run_enqueue" where
  "dag_build builder = dag_try_build builder"

section \<open>What the builders produce\<close>

definition builder_shape :: "'j step_builder \<Rightarrow> workflow_step_shape_validation_input" where
  "builder_shape b =
     \<lparr>sh_step_key = step_key_str (sb_step_key b), sh_execution_kind = sb_execution_kind b,
      sh_job_type = map_option job_type_str (sb_job_type b), sh_priority = sb_priority b,
      sh_max_attempts = sb_max_attempts b, sh_timeout_seconds = sb_timeout_seconds b,
      sh_stage = sb_stage b, sh_allow_handler_continuation = sb_allow_handler_continuation b,
      sh_execution_resource_key = sb_execution_resource_key b\<rparr>"

lemma validate_step_shape_eq_Inr: "validate_step_shape i = Inr u \<longleftrightarrow> step_shape_ok i"
  using validate_step_shape_iff [of i] by (cases u) simp

lemma validate_step_dependencies_eq_Inr:
  "validate_step_dependencies key ds = Inr u \<longleftrightarrow> dependencies_ok key (prerequisite_keys ds)"
  using validate_step_dependencies_iff [of key ds] by (cases u) simp

lemma step_try_build_cases:
  "step_try_build b = Inr step \<longleftrightarrow>
     step_shape_ok (builder_shape b) \<and>
     dependencies_ok (step_key_str (sb_step_key b)) (prerequisite_keys (sb_dependencies b)) \<and>
     (case sb_execution_kind b of
        WorkflowStepExecutionKind_Job \<Rightarrow>
          (\<exists>job_type. sb_job_type b = Some job_type \<and>
             ws_execution step = StepExecution_Job (WorkflowJobStepExecution_new job_type (sb_priority b)
               (sb_max_attempts b) (sb_timeout_seconds b) (sb_stage b) (sb_allow_handler_continuation b)
               (sb_execution_resource_key b)))
      | WorkflowStepExecutionKind_External \<Rightarrow> ws_execution step = StepExecution_External) \<and>
     ws_step_key step = sb_step_key b \<and> ws_organization_id step = sb_organization_id b \<and>
     ws_payload step = sb_payload b \<and> ws_dependencies step = sb_dependencies b"
  by (cases "sb_execution_kind b"; cases "sb_job_type b"; cases step)
    (auto simp: step_try_build_def Let_def validate_step_enqueue_input_def try_bind_eq_Inr map_err_eq_Inr
      validate_step_shape_eq_Inr validate_step_dependencies_eq_Inr builder_shape_def step_shape_ok_def)

text \<open>
  C16: a step that was built is a valid step and says what its builder was told. The step builder
  succeeds exactly when its settings have the shape of their execution kind and its dependencies are
  in order. What it returns passes the validation of the append boundary, and every accessor returns
  the setting of the builder, for external steps too, whose representation has no queue settings.
\<close>

theorem step_builder_exact:
  "((\<exists>step. step_try_build b = Inr step) \<longleftrightarrow>
      step_shape_ok (builder_shape b) \<and>
      dependencies_ok (step_key_str (sb_step_key b)) (prerequisite_keys (sb_dependencies b))) \<and>
   (step_try_build b = Inr step \<longrightarrow>
      validate_step_enqueue step = Inr () \<and> ws_step_key step = sb_step_key b \<and>
      ws_execution_kind step = sb_execution_kind b \<and> ws_job_type step = sb_job_type b \<and>
      ws_priority step = sb_priority b \<and> ws_max_attempts step = sb_max_attempts b \<and>
      ws_timeout_seconds step = sb_timeout_seconds b \<and> ws_stage step = sb_stage b \<and>
      ws_allows_handler_continuation step = sb_allow_handler_continuation b \<and>
      ws_execution_resource_key step = sb_execution_resource_key b \<and>
      ws_organization_id step = sb_organization_id b \<and> ws_payload step = sb_payload b \<and>
      ws_dependencies step = sb_dependencies b)"
proof (intro conjI impI)
  show "(\<exists>step. step_try_build b = Inr step) \<longleftrightarrow>
      step_shape_ok (builder_shape b) \<and>
      dependencies_ok (step_key_str (sb_step_key b)) (prerequisite_keys (sb_dependencies b))"
  proof
    assume "step_shape_ok (builder_shape b) \<and>
      dependencies_ok (step_key_str (sb_step_key b)) (prerequisite_keys (sb_dependencies b))"
    then show "\<exists>step. step_try_build b = Inr step"
      by (cases "sb_execution_kind b"; cases "sb_job_type b")
        (simp_all add: step_try_build_def Let_def validate_step_enqueue_input_def builder_shape_def
          try_bind_eq_Inr map_err_eq_Inr validate_step_shape_eq_Inr validate_step_dependencies_eq_Inr
          step_shape_ok_def)
  qed (auto simp: step_try_build_cases)
qed (cases "sb_execution_kind b"; auto simp: step_try_build_cases step_accessors validate_step_enqueue_iff
      step_enqueue_ok_def step_shape_ok_def builder_shape_def WorkflowJobStepExecution_new_def)+

definition sample_builder :: "unit step_builder" where
  "sample_builder = step_max_attempts 3 (StepBuilder_new (StepKey (lit ''a'')) (JobType (lit ''mail'')) ())"

theorem step_builder_exact_witness:
  "\<exists>step. step_try_build sample_builder = Inr step \<and> validate_step_enqueue step = Inr () \<and>
     ws_max_attempts step = Some 3 \<and> ws_stage step = Some JobStage_Queued"
proof -
  have "step_shape_ok (builder_shape sample_builder) \<and>
      dependencies_ok (step_key_str (sb_step_key sample_builder))
        (prerequisite_keys (sb_dependencies sample_builder))"
    by (simp add: step_shape_ok_def builder_shape_def sample_builder_def step_max_attempts_def
        StepBuilder_new_def job_settings_ok_def dependencies_ok_def lit_def is_blank_def trim_def
        is_whitespace_def)
  then obtain step where "step_try_build sample_builder = Inr step"
    using step_builder_exact [of sample_builder] by blast
  then show ?thesis
    using step_builder_exact [of sample_builder step]
    by (auto simp: sample_builder_def step_max_attempts_def StepBuilder_new_def)
qed

section \<open>Sequences of builder calls\<close>

datatype 'j dag_call =
    Call_OrganizationId uuid
  | Call_ClearOrganizationId
  | Call_IdempotencyKey rstr
  | Call_ClearIdempotencyKey
  | Call_ActiveKey rstr
  | Call_ClearActiveKey
  | Call_ResultStep rstr
  | Call_ClearResultStep
  | Call_Job rstr rstr 'j
  | Call_Step "'j workflow_step_enqueue"
  | Call_External rstr 'j
  | Call_AfterSuccess rstr "rstr list"
  | Call_AfterTerminal rstr "rstr list"

fun dag_perform :: "'j dag_call \<Rightarrow> 'j dag_builder \<Rightarrow> workflow_build_error + 'j dag_builder" where
  "dag_perform (Call_OrganizationId u) b = Inr (dag_organization_id u b)"
| "dag_perform Call_ClearOrganizationId b = Inr (dag_clear_organization_id b)"
| "dag_perform (Call_IdempotencyKey k) b = Inr (dag_idempotency_key k b)"
| "dag_perform Call_ClearIdempotencyKey b = Inr (dag_clear_idempotency_key b)"
| "dag_perform (Call_ActiveKey k) b = Inr (dag_active_key k b)"
| "dag_perform Call_ClearActiveKey b = Inr (dag_clear_active_key b)"
| "dag_perform (Call_ResultStep k) b = dag_result_step k b"
| "dag_perform Call_ClearResultStep b = Inr (dag_clear_result_step b)"
| "dag_perform (Call_Job k t p) b = dag_job k t p b"
| "dag_perform (Call_Step s) b = dag_step s b"
| "dag_perform (Call_External k p) b = dag_external k p b"
| "dag_perform (Call_AfterSuccess k ps) b = dag_after_success k ps b"
| "dag_perform (Call_AfterTerminal k ps) b = dag_after_terminal k ps b"

fun dag_calls :: "'j dag_call list \<Rightarrow> 'j dag_builder \<Rightarrow> workflow_build_error + 'j dag_builder" where
  "dag_calls [] b = Inr b"
| "dag_calls (c # cs) b = try_bind (dag_perform c b) (dag_calls cs)"

text \<open>A step value that a caller passes in was built by a step builder, so it is valid.\<close>

fun dag_call_ok :: "'j dag_call \<Rightarrow> bool" where
  "dag_call_ok (Call_Step s) \<longleftrightarrow> step_enqueue_ok s"
| "dag_call_ok _ \<longleftrightarrow> True"

abbreviation db_steps :: "'j dag_builder \<Rightarrow> 'j workflow_step_enqueue list" where
  "db_steps b \<equiv> rb_steps (db_inner b)"

text \<open>What every sequence of calls guarantees of a step, whatever its dependencies.\<close>

definition step_settings_ok :: "'j workflow_step_enqueue \<Rightarrow> bool" where
  "step_settings_ok step \<longleftrightarrow>
     step_enqueue_ok (step\<lparr>ws_dependencies := []\<rparr>) \<and> (\<forall>k\<in>set (ws_prerequisites step). \<not> is_blank k)"

definition dag_builder_ok :: "'j dag_builder \<Rightarrow> bool" where
  "dag_builder_ok b \<longleftrightarrow> distinct (map ws_key (db_steps b)) \<and> (\<forall>s\<in>set (db_steps b). step_settings_ok s)"

lemma step_settings_okI: "step_enqueue_ok s \<Longrightarrow> step_settings_ok s"
  by (simp add: step_settings_ok_def step_enqueue_ok_def dependencies_ok_def ws_prerequisites_def)

lemma step_enqueue_ok_settings:
  assumes "step_settings_ok s"
  shows "step_enqueue_ok s \<longleftrightarrow> ws_key s \<notin> set (ws_prerequisites s) \<and> distinct (ws_prerequisites s)"
  using assms
  by (auto simp: step_settings_ok_def step_enqueue_ok_def dependencies_ok_def ws_key_def ws_prerequisites_def
      image_iff)

lemma ws_key_inject: "ws_key s = ws_key t \<longleftrightarrow> ws_step_key s = ws_step_key t"
  by (cases "ws_step_key s"; cases "ws_step_key t") (simp add: ws_key_def)

lemma check_new_step_key_ok:
  "check_new_step_key k b = Inr u \<longleftrightarrow> \<not> is_blank k \<and> k \<notin> ws_key ` set (db_steps b)"
proof -
  have "ws_step_key s = StepKey k \<longleftrightarrow> k = ws_key s" for s :: "'a workflow_step_enqueue"
    by (cases "ws_step_key s") (auto simp: ws_key_def)
  then show ?thesis
    by (simp add: check_new_step_key_def list_ex_iff image_iff)
qed

lemma push_step_ok:
  assumes "dag_builder_ok b" and "step_enqueue_ok s" and "ws_key s \<notin> ws_key ` set (db_steps b)"
  shows "dag_builder_ok (b\<lparr>db_inner := run_step s (db_inner b)\<rparr>)"
  using assms by (simp add: dag_builder_ok_def run_step_def step_settings_okI)

lemma dag_step_ok:
  "dag_builder_ok b \<Longrightarrow> step_enqueue_ok s \<Longrightarrow> dag_step s b = Inr b' \<Longrightarrow> dag_builder_ok b'"
  by (auto simp: dag_step_def try_bind_eq_Inr check_new_step_key_ok ws_key_def [symmetric] intro!: push_step_ok)

lemma step_try_build_ok: "step_try_build b = Inr s \<Longrightarrow> step_enqueue_ok s \<and> ws_step_key s = sb_step_key b"
  by (cases "sb_execution_kind b")
    (auto simp: step_try_build_cases step_enqueue_ok_def step_shape_ok_def builder_shape_def
      WorkflowJobStepExecution_new_def)

lemma dag_job_ok:
  assumes "dag_builder_ok b" and "dag_job k t p b = Inr b'"
  shows "dag_builder_ok b'"
proof -
  obtain sb s where "check_new_step_key k b = Inr ()" and sb: "StepBuilder_try_new k t p = Inr sb"
    and s: "step_try_build sb = Inr s" and b': "b' = b\<lparr>db_inner := run_step s (db_inner b)\<rparr>"
    using assms(2) by (auto simp: dag_job_def try_bind_eq_Inr)
  moreover have "ws_key s = k"
    using step_try_build_ok [OF s] sb
    by (auto simp: StepBuilder_try_new_def StepBuilder_new_def try_bind_eq_Inr map_err_eq_Inr ws_key_def
        split: if_splits)
  ultimately show ?thesis
    using push_step_ok [OF assms(1)] step_try_build_ok [OF s] by (simp add: check_new_step_key_ok)
qed

lemma dag_external_ok: "dag_builder_ok b \<Longrightarrow> dag_external k p b = Inr b' \<Longrightarrow> dag_builder_ok b'"
  by (auto simp: dag_external_def try_bind_eq_Inr intro: dag_step_ok dest: step_try_build_ok)

lemma collect_prerequisites_ok:
  "collect_prerequisites t ks = Inr keys \<Longrightarrow> \<forall>k\<in>set keys. \<not> is_blank (step_key_str k)"
  by (induction ks arbitrary: keys)
    (auto simp: try_bind_eq_Inr map_err_eq_Inr map_ok_eq_Inr split: if_splits)

lemma extend_first_ok:
  assumes "extend_first key specs steps = Some steps'"
    and "\<forall>d\<in>set specs. \<not> is_blank (step_key_str (dep_prerequisite_step_key d))"
    and "\<forall>s\<in>set steps. step_settings_ok s"
  shows "map ws_key steps' = map ws_key steps \<and> (\<forall>s\<in>set steps'. step_settings_ok s)"
  using assms
proof (induction steps arbitrary: steps')
  case Nil
  then show ?case by simp
next
  case (Cons s steps)
  then show ?case
    by (auto simp: ws_key_def step_settings_ok_def ws_prerequisites_def split: if_splits)
qed

lemma dag_after_ok:
  assumes "dag_builder_ok b" and "dag_after k ps mode b = Inr b'"
  shows "dag_builder_ok b'"
proof -
  obtain target keys steps where keys: "collect_prerequisites (step_key_str target) ps = Inr keys"
    and steps: "extend_first target (dependency_specs mode keys) (db_steps b) = Some steps"
    and b': "b' = b\<lparr>db_inner := (db_inner b)\<lparr>rb_steps := steps\<rparr>\<rparr>"
    using assms(2) by (auto simp: dag_after_def try_bind_eq_Inr ok_or_eq_Inr)
  have "map ws_key steps = map ws_key (db_steps b) \<and> (\<forall>s\<in>set steps. step_settings_ok s)"
    using assms(1) collect_prerequisites_ok [OF keys]
    by (intro extend_first_ok [OF steps]) (auto simp: dependency_specs_def dag_builder_ok_def)
  then show ?thesis
    using assms(1) by (simp add: dag_builder_ok_def b')
qed

lemma dag_call_preserves:
  assumes "dag_builder_ok b" and "dag_call_ok c" and "dag_perform c b = Inr b'"
  shows "dag_builder_ok b'"
proof (cases c)
  case (Call_Job k t p)
  then show ?thesis using assms dag_job_ok by simp
next
  case (Call_Step s)
  then show ?thesis using assms dag_step_ok by simp
next
  case (Call_External k p)
  then show ?thesis using assms dag_external_ok by simp
next
  case (Call_AfterSuccess k ps)
  then show ?thesis using assms dag_after_ok by (simp add: dag_after_success_def)
next
  case (Call_AfterTerminal k ps)
  then show ?thesis using assms dag_after_ok by (simp add: dag_after_terminal_def)
qed (use assms in \<open>auto simp: dag_builder_ok_def dag_organization_id_def dag_clear_organization_id_def
      dag_idempotency_key_def dag_clear_idempotency_key_def dag_active_key_def dag_clear_active_key_def
      dag_result_step_def dag_clear_result_step_def run_organization_id_def run_clear_organization_id_def
      run_idempotency_key_def run_clear_idempotency_key_def run_active_key_def run_clear_active_key_def
      run_try_result_step_key_def run_clear_result_step_key_def try_bind_eq_Inr\<close>)

lemma dag_calls_ok:
  "dag_builder_ok b \<Longrightarrow> list_all dag_call_ok cs \<Longrightarrow> dag_calls cs b = Inr b' \<Longrightarrow> dag_builder_ok b'"
  by (induction cs arbitrary: b) (auto simp: try_bind_eq_Inr intro: dag_call_preserves)

lemma validate_workflow_run_enqueue_no_panic: "validate_workflow_run_enqueue run \<noteq> Inl Panicked"
proof -
  have "validate_workflow_dag t steps \<noteq> Inl Panicked" for t steps
  proof (cases "dag_well_formed t steps")
    case True
    then show ?thesis by (simp add: validate_workflow_dag_well_formed)
  next
    case False
    then obtain e where "validate_workflow_dag t steps = Inl (Failure e)"
      by (rule validate_workflow_dag_malformed)
    then show ?thesis by simp
  qed
  then show ?thesis
    by (auto simp: validate_workflow_run_enqueue_def try_bind_eq_Inl split: option.splits if_splits)
qed

lemma validate_workflow_enqueue_cases:
  "validate_workflow_enqueue run = Inr u \<longleftrightarrow> run_enqueue_ok run"
  "validate_workflow_enqueue run \<noteq> Inl Panicked"
  using validate_workflow_run_enqueue_iff [of run] validate_workflow_run_enqueue_no_panic [of run]
  by (auto simp: validate_workflow_enqueue_def map_err_eq_Inr map_err_eq_Inl split: failure.splits)

definition built_run :: "'j run_builder \<Rightarrow> 'j workflow_run_enqueue" where
  "built_run b =
     \<lparr>wr_workflow_type = rb_workflow_type b, wr_organization_id = rb_organization_id b,
      wr_metadata = rb_metadata b, wr_idempotency_key = rb_idempotency_key b,
      wr_active_key = rb_active_key b, wr_result_step_key = rb_result_step_key b, wr_steps = rb_steps b\<rparr>"

lemma run_try_build_cases:
  "run_try_build b = Inr run \<longleftrightarrow> run = built_run b \<and> run_enqueue_ok run"
  "run_try_build b \<noteq> Inl Panicked"
  using validate_workflow_enqueue_cases(2) [of "built_run b"]
  by (auto simp: run_try_build_def Let_def try_bind_eq_Inr try_bind_eq_Inl validate_workflow_enqueue_cases
      simp flip: built_run_def)

lemma validate_each_step_iff: "validate_each_step steps = Inr u \<longleftrightarrow> (\<forall>s\<in>set steps. step_enqueue_ok s)"
proof (induction steps)
  case Nil
  then show ?case by simp
next
  case (Cons s steps)
  have "validate_step_enqueue s = Inr v \<longleftrightarrow> step_enqueue_ok s" for v
    using validate_step_enqueue_iff [of s] by (cases v) simp
  then show ?case
    using Cons.IH by (simp add: try_bind_eq_Inr map_err_eq_Inr)
qed

text \<open>
  C15: the graph builder leaves only the graph to check. After any sequence of builder calls that
  succeeded, the final build never panics; validating the steps first changes no verdict, only which
  error is reported; and it succeeds exactly when the type is named, the run-level keys are in order,
  the result step is one of the steps, and the dependencies that were declared are on other steps of
  the run, not repeated and free of cycles. Nothing else about a step can fail any more. What it
  returns holds the steps that were added and passes the validation of enqueued runs.
\<close>

theorem dag_builder_exact:
  assumes "list_all dag_call_ok calls" and "dag_calls calls (DagBuilder_new workflow_type metadata) = Inr b"
  shows "dag_try_build b \<noteq> Inl Panicked \<and>
    (\<forall>run. dag_try_build b = Inr run \<longleftrightarrow> run_try_build (db_inner b) = Inr run) \<and>
    (\<forall>run. dag_try_build b = Inr run \<longrightarrow>
       wr_steps run = db_steps b \<and> validate_workflow_run_enqueue run = Inr ()) \<and>
    ((\<exists>run. dag_try_build b = Inr run) \<longleftrightarrow>
       \<not> is_blank (workflow_type_str (rb_workflow_type (db_inner b))) \<and>
       (\<forall>k. rb_idempotency_key (db_inner b) = Some k \<longrightarrow> \<not> is_blank k) \<and>
       (\<forall>k. rb_active_key (db_inner b) = Some k \<longrightarrow> \<not> is_blank k \<and> str_len k \<le> 512) \<and>
       (\<forall>k. rb_result_step_key (db_inner b) = Some k \<longrightarrow> k \<in> ws_step_key ` set (db_steps b)) \<and>
       db_steps b \<noteq> [] \<and>
       (\<forall>s\<in>set (db_steps b). ws_key s \<notin> set (ws_prerequisites s) \<and> distinct (ws_prerequisites s) \<and>
          set (ws_prerequisites s) \<subseteq> ws_key ` set (db_steps b)) \<and>
       acyclic (key_edges (step_nodes (db_steps b))))"
proof -
  have "dag_builder_ok (DagBuilder_new workflow_type metadata)"
    by (simp add: dag_builder_ok_def DagBuilder_new_def RunBuilder_new_def)
  then have ok: "dag_builder_ok b"
    using assms by (rule dag_calls_ok)
  have build: "dag_try_build b = Inr run \<longleftrightarrow> run = built_run (db_inner b) \<and> run_enqueue_ok run" for run
    by (auto simp: dag_try_build_def try_bind_eq_Inr map_err_eq_Inr validate_each_step_iff run_try_build_cases
        run_enqueue_ok_def dag_well_formed_input built_run_def)
  have steps: "(\<forall>s\<in>set (db_steps b). step_enqueue_ok s) \<longleftrightarrow>
      (\<forall>s\<in>set (db_steps b). ws_key s \<notin> set (ws_prerequisites s) \<and> distinct (ws_prerequisites s))"
    using ok step_enqueue_ok_settings by (auto simp: dag_builder_ok_def)
  have dist: "distinct (map ws_key (db_steps b))"
    using ok by (simp add: dag_builder_ok_def)
  have "dag_try_build b \<noteq> Inl Panicked"
    using run_try_build_cases(2) [of "db_inner b"]
    by (auto simp: dag_try_build_def try_bind_eq_Inl map_err_eq_Inl)
  moreover have "dag_try_build b = Inr run \<longleftrightarrow> run_try_build (db_inner b) = Inr run" for run
    by (simp add: build run_try_build_cases)
  moreover have "wr_steps run = db_steps b \<and> validate_workflow_run_enqueue run = Inr ()"
    if "dag_try_build b = Inr run" for run
  proof -
    have "run = built_run (db_inner b)" and "run_enqueue_ok run"
      using that unfolding build by blast+
    then show ?thesis
      by (simp add: validate_workflow_run_enqueue_iff built_run_def)
  qed
  moreover have "(\<exists>run. dag_try_build b = Inr run) \<longleftrightarrow> run_enqueue_ok (built_run (db_inner b))"
    by (simp add: build)
  ultimately show ?thesis
    using dist by (simp add: run_enqueue_ok_def dag_well_formed_input built_run_def steps ball_conj_distrib conj_ac)
qed

definition sample_calls :: "unit dag_call list" where
  "sample_calls =
     [Call_External (lit ''a'') (), Call_Job (lit ''b'') (lit ''mail'') (),
      Call_AfterSuccess (lit ''b'') [lit ''a''], Call_ResultStep (lit ''b'')]"

definition sample_dag_builder :: "unit dag_builder" where
  "sample_dag_builder =
     \<lparr>db_inner = \<lparr>rb_workflow_type = WorkflowType (lit ''w''), rb_organization_id = None, rb_metadata = (),
        rb_idempotency_key = None, rb_active_key = None, rb_result_step_key = Some (StepKey (lit ''b'')),
        rb_steps = [sample_step ''a'' [],
          \<lparr>ws_step_key = StepKey (lit ''b''),
           ws_execution = StepExecution_Job (WorkflowJobStepExecution_new (JobType (lit ''mail'')) None None
             None (Some JobStage_Queued) False None),
           ws_organization_id = None, ws_payload = (),
           ws_dependencies = dependency_specs WorkflowDependencyReleaseMode_OnSuccess
             [StepKey (lit ''a'')]\<rparr>]\<rparr>\<rparr>"

lemmas sample_build_eval = dag_external_def dag_job_def dag_step_def dag_after_success_def dag_after_def
  dag_result_step_def run_try_result_step_key_def run_step_def check_new_step_key_def DagBuilder_new_def
  RunBuilder_new_def StepBuilder_try_new_external_def StepBuilder_new_external_def StepBuilder_try_new_def
  StepBuilder_new_def step_try_build_def validate_step_enqueue_input_def validate_step_dependencies_def
  non_positive_def invalid_resource_key_def WorkflowJobStepExecution_new_def dependency_specs_def

lemma sample_calls_build:
  "dag_calls sample_calls (DagBuilder_new (lit ''w'') ()) = Inr sample_dag_builder"
  by (simp add: sample_calls_def sample_dag_builder_def sample_build_eval sample_eval)

lemma sample_dag_builder_run: "\<exists>run. run_try_build (db_inner sample_dag_builder) = Inr run"
  by (simp add: sample_dag_builder_def run_try_build_def validate_workflow_enqueue_def sample_build_eval
      sample_eval)

theorem dag_builder_exact_witness:
  "dag_calls sample_calls (DagBuilder_new (lit ''w'') ()) = Inr sample_dag_builder \<and>
   (\<exists>run. dag_try_build sample_dag_builder = Inr run) \<and>
   acyclic (key_edges (step_nodes (db_steps sample_dag_builder)))"
proof -
  have ok: "list_all dag_call_ok sample_calls"
    by (simp add: sample_calls_def)
  show ?thesis
    using dag_builder_exact [OF ok sample_calls_build] sample_calls_build sample_dag_builder_run by blast
qed

end
