(* ===== verification/At_Rest_Format.thy ===== *)
theory At_Rest_Format
  imports Rust_Text
begin

text \<open>
  The wire format of \<open>batter-at-rest\<close>: limits (\<open>lib.rs\<close>), errors (\<open>error.rs\<close>), key identifiers
  (\<open>key.rs\<close>) and the codecs of descriptors, wrapped keys, envelopes and sealed payloads
  (\<open>format.rs\<close>). A decoder is the list of remaining bytes. Fixed-size arrays are byte lists, whose
  lengths are part of the well-formedness predicates. An encoder that would panic returns \<open>None\<close>; the
  debug assertion on the envelope length counts as a panic. Owned and borrowed sealed payloads carry
  the same data and are one record.
\<close>

section \<open>Limits and errors\<close>

definition FORMAT_VERSION :: byte where "FORMAT_VERSION = 1"
definition SECRET_KEY_BYTES :: nat where "SECRET_KEY_BYTES = 32"
definition NONCE_BYTES :: nat where "NONCE_BYTES = 12"
definition TAG_BYTES :: nat where "TAG_BYTES = 16"
definition MAX_KEY_ID_BYTES :: nat where "MAX_KEY_ID_BYTES = 128"
definition MAX_ENVELOPE_BYTES :: nat where "MAX_ENVELOPE_BYTES = 256"
definition MAX_PLAINTEXT_BYTES :: nat where "MAX_PLAINTEXT_BYTES = 64 * 1024 * 1024"
definition MAX_BODY_BYTES :: nat where "MAX_BODY_BYTES = MAX_PLAINTEXT_BYTES + TAG_BYTES"
definition WRAPPED_DATA_KEY_BYTES :: nat where "WRAPPED_DATA_KEY_BYTES = SECRET_KEY_BYTES + TAG_BYTES"
definition ENVELOPE_MAGIC :: bytes where "ENVELOPE_MAGIC = str_bytes (lit ''ATRE'')"
definition SEALED_MAGIC :: bytes where "SEALED_MAGIC = str_bytes (lit ''ATRS'')"

lemmas at_rest_limits = FORMAT_VERSION_def SECRET_KEY_BYTES_def NONCE_BYTES_def TAG_BYTES_def
  MAX_KEY_ID_BYTES_def MAX_ENVELOPE_BYTES_def WRAPPED_DATA_KEY_BYTES_def

datatype at_rest_error =
    InvalidSecretKey
  | InvalidMacKey
  | InvalidKeyId
  | DuplicateKeyId
  | CurrentKeyUnavailable
  | KeyUnavailable
  | InvalidContext
  | PlaintextTooLarge
  | MalformedEncoding
  | UnsupportedVersion
  | TrailingData
  | AuthenticationFailed
  | RandomnessUnavailable
  | CryptographicFailure

section \<open>Key identifiers\<close>

datatype key_id = KeyId (key_id_str: rstr)

definition key_id_byte :: "byte \<Rightarrow> bool" where
  "key_id_byte b \<longleftrightarrow> is_ascii_alphanumeric (unat b) \<or> unat b \<in> set (lit ''._:-'')"

definition KeyId_new :: "rstr \<Rightarrow> at_rest_error + key_id" where
  "KeyId_new value =
     (if value = [] \<or> MAX_KEY_ID_BYTES < str_len value \<or> \<not> list_all key_id_byte (str_bytes value)
      then Inl InvalidKeyId else Inr (KeyId value))"

section \<open>The decoder\<close>

definition dec_take :: "nat \<Rightarrow> bytes \<Rightarrow> at_rest_error + bytes \<times> bytes" where
  "dec_take n remaining =
     (if length remaining < n then Inl MalformedEncoding else Inr (take n remaining, drop n remaining))"

definition dec_byte :: "bytes \<Rightarrow> at_rest_error + byte \<times> bytes" where
  "dec_byte remaining = map_ok (\<lambda>(value, remaining). (value ! 0, remaining)) (dec_take 1 remaining)"

definition dec_array :: "nat \<Rightarrow> bytes \<Rightarrow> at_rest_error + bytes \<times> bytes" where
  "dec_array n remaining = dec_take n remaining"

definition dec_u16 :: "bytes \<Rightarrow> at_rest_error + nat \<times> bytes" where
  "dec_u16 remaining = map_ok (\<lambda>(value, remaining). (from_be_bytes value, remaining)) (dec_array 2 remaining)"

definition dec_u32 :: "bytes \<Rightarrow> at_rest_error + nat \<times> bytes" where
  "dec_u32 remaining = map_ok (\<lambda>(value, remaining). (from_be_bytes value, remaining)) (dec_array 4 remaining)"

definition dec_magic :: "bytes \<Rightarrow> bytes \<Rightarrow> at_rest_error + bytes" where
  "dec_magic expected remaining =
     try_bind (dec_take (length expected) remaining) (\<lambda>(value, remaining).
       if value \<noteq> expected then Inl MalformedEncoding else Inr remaining)"

definition dec_length_prefixed_u16 :: "bytes \<Rightarrow> at_rest_error + bytes \<times> bytes" where
  "dec_length_prefixed_u16 remaining =
     try_bind (dec_u16 remaining) (\<lambda>(n, remaining). dec_take n remaining)"

definition dec_finish :: "bytes \<Rightarrow> at_rest_error + unit" where
  "dec_finish remaining = (if remaining \<noteq> [] then Inl TrailingData else Inr ())"

definition push_u16_length :: "bytes \<Rightarrow> bytes option" where
  "push_u16_length value =
     (if length value < 2 ^ 16 then Some (be_bytes 2 (length value) @ value) else None)"

section \<open>Codecs\<close>

record content_descriptor =
  cd_format_version :: byte
  cd_payload_nonce :: bytes

definition ContentDescriptor_new :: "bytes \<Rightarrow> content_descriptor" where
  "ContentDescriptor_new payload_nonce =
     \<lparr>cd_format_version = FORMAT_VERSION, cd_payload_nonce = payload_nonce\<rparr>"

definition ContentDescriptor_decode :: "bytes \<Rightarrow> at_rest_error + content_descriptor" where
  "ContentDescriptor_decode bytes =
     try_bind (dec_byte bytes) (\<lambda>(format_version, d).
       if format_version \<noteq> FORMAT_VERSION then Inl UnsupportedVersion
       else try_bind (dec_byte d) (\<lambda>(n, d).
         if unat n \<noteq> NONCE_BYTES then Inl MalformedEncoding
         else try_bind (dec_array NONCE_BYTES d) (\<lambda>(payload_nonce, d).
           try_bind (dec_finish d) (\<lambda>_.
             Inr \<lparr>cd_format_version = format_version, cd_payload_nonce = payload_nonce\<rparr>))))"

definition ContentDescriptor_encode :: "content_descriptor \<Rightarrow> bytes" where
  "ContentDescriptor_encode descriptor =
     cd_format_version descriptor # of_nat NONCE_BYTES # cd_payload_nonce descriptor"

record wrapped_key =
  wk_key_id :: key_id
  wk_nonce :: bytes
  wk_encrypted_data_key :: bytes

definition WrappedKey_decode_for :: "content_descriptor \<Rightarrow> bytes \<Rightarrow> at_rest_error + wrapped_key" where
  "WrappedKey_decode_for descriptor bytes =
     (if cd_format_version descriptor \<noteq> FORMAT_VERSION then Inl UnsupportedVersion
      else try_bind (dec_byte bytes) (\<lambda>(key_id_length, d).
        try_bind (dec_take (unat key_id_length) d) (\<lambda>(key_id_bytes, d).
        try_bind (try_bind (ok_or (from_utf8 key_id_bytes) InvalidKeyId) KeyId_new) (\<lambda>key_id.
        try_bind (dec_byte d) (\<lambda>(n, d).
          if unat n \<noteq> NONCE_BYTES then Inl MalformedEncoding
          else try_bind (dec_array NONCE_BYTES d) (\<lambda>(nonce, d).
            try_bind (dec_u16 d) (\<lambda>(n, d).
              if n \<noteq> WRAPPED_DATA_KEY_BYTES then Inl MalformedEncoding
              else try_bind (dec_array WRAPPED_DATA_KEY_BYTES d) (\<lambda>(encrypted_data_key, d).
                try_bind (dec_finish d) (\<lambda>_.
                  Inr \<lparr>wk_key_id = key_id, wk_nonce = nonce,
                       wk_encrypted_data_key = encrypted_data_key\<rparr>)))))))))"

definition WrappedKey_encode :: "wrapped_key \<Rightarrow> bytes option" where
  "WrappedKey_encode wrapped =
     (let key_id = str_bytes (key_id_str (wk_key_id wrapped))
      in if length key_id < 2 ^ 8
         then Some (of_nat (length key_id) # key_id @ of_nat NONCE_BYTES # wk_nonce wrapped @
                    be_bytes 2 WRAPPED_DATA_KEY_BYTES @ wk_encrypted_data_key wrapped)
         else None)"

record envelope =
  env_descriptor :: content_descriptor
  env_wrapped_key :: wrapped_key

definition Envelope_from_parts :: "content_descriptor \<Rightarrow> wrapped_key \<Rightarrow> envelope" where
  "Envelope_from_parts descriptor wrapped_key =
     \<lparr>env_descriptor = descriptor, env_wrapped_key = wrapped_key\<rparr>"

definition Envelope_decode :: "bytes \<Rightarrow> at_rest_error + envelope" where
  "Envelope_decode bytes =
     (if MAX_ENVELOPE_BYTES < length bytes then Inl MalformedEncoding
      else try_bind (dec_magic ENVELOPE_MAGIC bytes) (\<lambda>d.
        try_bind (dec_length_prefixed_u16 d) (\<lambda>(descriptor_bytes, d).
        try_bind (ContentDescriptor_decode descriptor_bytes) (\<lambda>descriptor.
        try_bind (dec_length_prefixed_u16 d) (\<lambda>(wrapped_bytes, d).
        try_bind (WrappedKey_decode_for descriptor wrapped_bytes) (\<lambda>wrapped_key.
        try_bind (dec_finish d) (\<lambda>_.
          Inr \<lparr>env_descriptor = descriptor, env_wrapped_key = wrapped_key\<rparr>)))))))"

definition Envelope_encode :: "envelope \<Rightarrow> bytes option" where
  "Envelope_encode envelope =
     Option.bind (WrappedKey_encode (env_wrapped_key envelope)) (\<lambda>wrapped_key.
     Option.bind (push_u16_length (ContentDescriptor_encode (env_descriptor envelope))) (\<lambda>descriptor.
     Option.bind (push_u16_length wrapped_key) (\<lambda>wrapped_key.
       let encoded = ENVELOPE_MAGIC @ descriptor @ wrapped_key
       in if length encoded \<le> MAX_ENVELOPE_BYTES then Some encoded else None)))"

definition with_wrapped_key :: "wrapped_key \<Rightarrow> envelope \<Rightarrow> envelope" where
  "with_wrapped_key wrapped_key envelope =
     \<lparr>env_descriptor = env_descriptor envelope, env_wrapped_key = wrapped_key\<rparr>"

record sealed_payload =
  sp_envelope :: envelope
  sp_ciphertext :: bytes

definition validate_body_length :: "nat \<Rightarrow> at_rest_error + unit" where
  "validate_body_length n =
     (if \<not> (TAG_BYTES \<le> n \<and> n \<le> MAX_BODY_BYTES) then Inl MalformedEncoding else Inr ())"

definition validate_body :: "bytes \<Rightarrow> at_rest_error + unit" where
  "validate_body ciphertext = validate_body_length (length ciphertext)"

definition SealedPayload_from_parts :: "envelope \<Rightarrow> bytes \<Rightarrow> at_rest_error + sealed_payload" where
  "SealedPayload_from_parts envelope ciphertext =
     try_bind (validate_body ciphertext) (\<lambda>_.
       Inr \<lparr>sp_envelope = envelope, sp_ciphertext = ciphertext\<rparr>)"

definition SealedPayload_decode :: "bytes \<Rightarrow> at_rest_error + sealed_payload" where
  "SealedPayload_decode bytes =
     try_bind (dec_magic SEALED_MAGIC bytes) (\<lambda>d.
     try_bind (dec_length_prefixed_u16 d) (\<lambda>(envelope_bytes, d).
     try_bind (Envelope_decode envelope_bytes) (\<lambda>envelope.
     try_bind (dec_u32 d) (\<lambda>(body_length, d).
     try_bind (validate_body_length body_length) (\<lambda>_.
     try_bind (dec_take body_length d) (\<lambda>(ciphertext, d).
     try_bind (dec_finish d) (\<lambda>_.
       Inr \<lparr>sp_envelope = envelope, sp_ciphertext = ciphertext\<rparr>)))))))"

definition SealedPayload_encode :: "sealed_payload \<Rightarrow> bytes option" where
  "SealedPayload_encode sealed =
     Option.bind (Envelope_encode (sp_envelope sealed)) (\<lambda>envelope.
     if length (sp_ciphertext sealed) < 2 ^ 32
     then Option.bind (push_u16_length envelope) (\<lambda>envelope.
       Some (SEALED_MAGIC @ envelope @ be_bytes 4 (length (sp_ciphertext sealed)) @ sp_ciphertext sealed))
     else None)"

section \<open>Decoding as the inverse of encoding\<close>

named_theorems decoder_simps \<open>what the primitive reads of the decoder consume\<close>

lemma dec_take_eq [decoder_simps]: "dec_take n bs = Inr (v, r) \<longleftrightarrow> bs = v @ r \<and> length v = n"
proof
  assume "dec_take n bs = Inr (v, r)"
  then show "bs = v @ r \<and> length v = n"
    by (auto simp: dec_take_def split: if_splits)
qed (auto simp: dec_take_def)

lemma dec_array_eq [decoder_simps]: "dec_array n bs = Inr (v, r) \<longleftrightarrow> bs = v @ r \<and> length v = n"
  by (simp add: dec_array_def dec_take_eq)

lemma dec_byte_eq [decoder_simps]: "dec_byte bs = Inr (b, r) \<longleftrightarrow> bs = b # r"
proof
  assume "dec_byte bs = Inr (b, r)"
  then obtain v where "dec_take 1 bs = Inr (v, r)" and "b = v ! 0"
    by (auto simp: dec_byte_def map_ok_eq_Inr)
  then show "bs = b # r"
    by (cases v) (auto simp: dec_take_eq)
qed (simp add: dec_byte_def dec_take_def)

lemma be_bytes_eq_iff:
  assumes "length v = k"
  shows "n = from_be_bytes v \<longleftrightarrow> n < 256 ^ k \<and> v = be_bytes k n"
  using assms be_from_be [of v k] from_be_be [of n k] from_be_bound [of v] by auto

lemma dec_u16_eq [decoder_simps]: "dec_u16 bs = Inr (n, r) \<longleftrightarrow> n < 2 ^ 16 \<and> bs = be_bytes 2 n @ r"
proof -
  have "dec_u16 bs = Inr (n, r) \<longleftrightarrow> (\<exists>v. bs = v @ r \<and> length v = 2 \<and> n = from_be_bytes v)"
    by (auto simp: dec_u16_def map_ok_eq_Inr dec_array_eq split_paired_Ex)
  also have "\<dots> \<longleftrightarrow> n < 2 ^ 16 \<and> bs = be_bytes 2 n @ r"
    using be_bytes_eq_iff [of _ 2 n] by (auto simp del: be_bytes.simps)
  finally show ?thesis .
qed

lemma dec_u32_eq [decoder_simps]: "dec_u32 bs = Inr (n, r) \<longleftrightarrow> n < 2 ^ 32 \<and> bs = be_bytes 4 n @ r"
proof -
  have "dec_u32 bs = Inr (n, r) \<longleftrightarrow> (\<exists>v. bs = v @ r \<and> length v = 4 \<and> n = from_be_bytes v)"
    by (auto simp: dec_u32_def map_ok_eq_Inr dec_array_eq split_paired_Ex)
  also have "\<dots> \<longleftrightarrow> n < 2 ^ 32 \<and> bs = be_bytes 4 n @ r"
    using be_bytes_eq_iff [of _ 4 n] by (auto simp del: be_bytes.simps)
  finally show ?thesis .
qed

lemma dec_magic_eq [decoder_simps]: "dec_magic m bs = Inr r \<longleftrightarrow> bs = m @ r"
  by (auto simp: dec_magic_def try_bind_eq_Inr split_paired_Ex dec_take_eq split: if_splits)

lemma dec_length_prefixed_u16_eq [decoder_simps]:
  "dec_length_prefixed_u16 bs = Inr (v, r) \<longleftrightarrow>
     (\<exists>p. push_u16_length v = Some p \<and> bs = p @ r)"
  by (auto simp: dec_length_prefixed_u16_def push_u16_length_def try_bind_eq_Inr split_paired_Ex
      dec_take_eq dec_u16_eq)

lemma dec_finish_eq [decoder_simps]: "dec_finish bs = Inr u \<longleftrightarrow> bs = []"
  by (simp add: dec_finish_def)

lemmas decode_step = try_bind_eq_Inr split_paired_Ex split_conv decoder_simps

definition descriptor_ok :: "content_descriptor \<Rightarrow> bool" where
  "descriptor_ok d \<longleftrightarrow> cd_format_version d = FORMAT_VERSION \<and> length (cd_payload_nonce d) = NONCE_BYTES"

definition key_id_ok :: "key_id \<Rightarrow> bool" where
  "key_id_ok k \<longleftrightarrow> KeyId_new (key_id_str k) = Inr k"

definition wrapped_key_ok :: "wrapped_key \<Rightarrow> bool" where
  "wrapped_key_ok w \<longleftrightarrow>
     key_id_ok (wk_key_id w) \<and> length (wk_nonce w) = NONCE_BYTES \<and>
     length (wk_encrypted_data_key w) = WRAPPED_DATA_KEY_BYTES"

definition envelope_ok :: "envelope \<Rightarrow> bool" where
  "envelope_ok e \<longleftrightarrow> descriptor_ok (env_descriptor e) \<and> wrapped_key_ok (env_wrapped_key e)"

definition sealed_ok :: "sealed_payload \<Rightarrow> bool" where
  "sealed_ok s \<longleftrightarrow>
     envelope_ok (sp_envelope s) \<and> TAG_BYTES \<le> length (sp_ciphertext s) \<and>
     length (sp_ciphertext s) \<le> MAX_BODY_BYTES"

lemma KeyId_new_eq: "KeyId_new s = Inr k \<longleftrightarrow> k = KeyId s \<and> key_id_ok k"
  by (auto simp: key_id_ok_def KeyId_new_def split: if_splits)

lemma key_id_ok_ascii:
  assumes "key_id_ok k"
  shows "all_ascii (key_id_str k)" and "length (str_bytes (key_id_str k)) \<le> MAX_KEY_ID_BYTES"
proof -
  have "list_all key_id_byte (str_bytes (key_id_str k))"
    using assms by (auto simp: key_id_ok_def KeyId_new_def split: if_splits)
  moreover have "unat b < 128" if "key_id_byte b" for b
    using that by (auto simp: key_id_byte_def is_ascii_alphanumeric_def is_ascii_digit_def
        is_ascii_uppercase_def is_ascii_lowercase_def lit_def)
  ultimately show "all_ascii (key_id_str k)"
    by (auto simp: list_all_iff intro: ascii_bytes_all_ascii)
  show "length (str_bytes (key_id_str k)) \<le> MAX_KEY_ID_BYTES"
    using assms by (auto simp: key_id_ok_def KeyId_new_def str_len_def split: if_splits)
qed

lemma decode_key_id:
  "try_bind (ok_or (from_utf8 bs) InvalidKeyId) KeyId_new = Inr k \<longleftrightarrow>
     key_id_ok k \<and> bs = str_bytes (key_id_str k)"
proof
  assume "try_bind (ok_or (from_utf8 bs) InvalidKeyId) KeyId_new = Inr k"
  then obtain s where "from_utf8 bs = Some s" and "KeyId_new s = Inr k"
    by (auto simp: try_bind_eq_Inr ok_or_eq_Inr)
  then show "key_id_ok k \<and> bs = str_bytes (key_id_str k)"
    using from_utf8_bytes by (auto simp: KeyId_new_eq)
next
  assume k: "key_id_ok k \<and> bs = str_bytes (key_id_str k)"
  then have "from_utf8 bs = Some (key_id_str k)"
    using from_utf8_ascii key_id_ok_ascii(1) by simp
  then show "try_bind (ok_or (from_utf8 bs) InvalidKeyId) KeyId_new = Inr k"
    using k by (simp add: key_id_ok_def)
qed

lemma unat_eq_byte: "n < 256 \<Longrightarrow> unat (b :: byte) = n \<longleftrightarrow> b = of_nat n"
  using unat_of_nat_byte [of n] by (auto simp: word_unat_eq_iff)

lemma ContentDescriptor_decode_iff:
  "ContentDescriptor_decode bs = Inr d \<longleftrightarrow> descriptor_ok d \<and> bs = ContentDescriptor_encode d"
  by (cases d) (auto simp: ContentDescriptor_decode_def ContentDescriptor_encode_def descriptor_ok_def
      decode_step unat_eq_byte NONCE_BYTES_def)

lemma WrappedKey_encode_eq:
  "wrapped_key_ok w \<Longrightarrow> WrappedKey_encode w =
     Some (of_nat (length (str_bytes (key_id_str (wk_key_id w)))) # str_bytes (key_id_str (wk_key_id w)) @
       of_nat NONCE_BYTES # wk_nonce w @ be_bytes 2 WRAPPED_DATA_KEY_BYTES @ wk_encrypted_data_key w)"
  using key_id_ok_ascii(2) [of "wk_key_id w"]
  by (simp add: WrappedKey_encode_def wrapped_key_ok_def Let_def MAX_KEY_ID_BYTES_def)

lemma decode_key_idD:
  "ok_or (from_utf8 bs) InvalidKeyId = Inr s \<Longrightarrow> KeyId_new s = Inr k \<Longrightarrow>
     key_id_ok k \<and> bs = str_bytes (key_id_str k)"
  using decode_key_id [of bs k] by simp

lemma dec_length_prefixed_u16_push:
  "push_u16_length v = Some p \<Longrightarrow> dec_length_prefixed_u16 (p @ r) = Inr (v, r)"
  "push_u16_length v = Some p \<Longrightarrow> dec_length_prefixed_u16 p = Inr (v, [])"
  by (auto simp: dec_length_prefixed_u16_eq)

lemma dec_magic_append: "dec_magic m (m @ r) = Inr r"
  by (simp add: dec_magic_eq)

lemma dec_finish_Nil: "dec_finish [] = Inr ()"
  by (simp add: dec_finish_eq)

lemma WrappedKey_decode_iff:
  assumes "cd_format_version d = FORMAT_VERSION"
  shows "WrappedKey_decode_for d bs = Inr w \<longleftrightarrow> wrapped_key_ok w \<and> WrappedKey_encode w = Some bs"
proof
  assume "WrappedKey_decode_for d bs = Inr w"
  then obtain n k nonce edk where bs: "bs = n # str_bytes (key_id_str k) @ of_nat NONCE_BYTES # nonce @
      be_bytes 2 WRAPPED_DATA_KEY_BYTES @ edk" "length (str_bytes (key_id_str k)) = unat n"
    and k: "key_id_ok k"
    and len: "length nonce = NONCE_BYTES" "length edk = WRAPPED_DATA_KEY_BYTES"
    and w: "w = \<lparr>wk_key_id = k, wk_nonce = nonce, wk_encrypted_data_key = edk\<rparr>"
    using assms by (auto simp: WrappedKey_decode_for_def decode_step unat_eq_byte NONCE_BYTES_def
        simp del: be_bytes.simps dest!: decode_key_idD split: if_splits)
  have "n = of_nat (length (str_bytes (key_id_str k)))"
    using bs(2) unat_eq_byte [of "unat n" n] by simp
  moreover have "wrapped_key_ok w"
    using k len by (simp add: w wrapped_key_ok_def)
  ultimately show "wrapped_key_ok w \<and> WrappedKey_encode w = Some bs"
    using bs(1) by (simp add: WrappedKey_encode_eq) (simp add: w)
next
  assume w: "wrapped_key_ok w \<and> WrappedKey_encode w = Some bs"
  let ?kb = "str_bytes (key_id_str (wk_key_id w))"
  have len: "length ?kb < 256"
    using w key_id_ok_ascii(2) [of "wk_key_id w"] by (simp add: wrapped_key_ok_def MAX_KEY_ID_BYTES_def)
  then have n: "unat (of_nat (length ?kb) :: byte) = length ?kb"
    by (simp add: unat_of_nat_byte)
  have bs: "bs = of_nat (length ?kb) # ?kb @ of_nat NONCE_BYTES # wk_nonce w @
      be_bytes 2 WRAPPED_DATA_KEY_BYTES @ wk_encrypted_data_key w"
    using w WrappedKey_encode_eq [of w] by simp
  have take: "dec_take (unat (of_nat (length ?kb) :: byte)) (?kb @ r) = Inr (?kb, r)" for r
    unfolding n by (simp add: dec_take_eq)
  have key: "try_bind (ok_or (from_utf8 ?kb) InvalidKeyId) KeyId_new = Inr (wk_key_id w)"
    using w by (simp add: decode_key_id wrapped_key_ok_def)
  have rest: "dec_byte (b # r) = Inr (b, r)" "dec_array NONCE_BYTES (wk_nonce w @ r) = Inr (wk_nonce w, r)"
    "dec_u16 (be_bytes 2 WRAPPED_DATA_KEY_BYTES @ r) = Inr (WRAPPED_DATA_KEY_BYTES, r)"
    "dec_array WRAPPED_DATA_KEY_BYTES (wk_encrypted_data_key w) = Inr (wk_encrypted_data_key w, [])"
    "dec_finish [] = Inr ()" for b r
    using w by (auto simp: decoder_simps wrapped_key_ok_def at_rest_limits simp del: be_bytes.simps)
  have "unat (of_nat NONCE_BYTES :: byte) = NONCE_BYTES"
    by (simp add: NONCE_BYTES_def)
  then show "WrappedKey_decode_for d bs = Inr w"
    unfolding bs WrappedKey_decode_for_def using assms
    by (simp add: rest take key del: be_bytes.simps of_nat_numeral)
qed

lemma push_u16_length_eq: "push_u16_length v = Some p \<longleftrightarrow> length v < 2 ^ 16 \<and> p = be_bytes 2 (length v) @ v"
  by (auto simp: push_u16_length_def)

lemma Envelope_encode_eq:
  "Envelope_encode e = Some bs \<longleftrightarrow>
     (\<exists>w d p. WrappedKey_encode (env_wrapped_key e) = Some w \<and>
        push_u16_length (ContentDescriptor_encode (env_descriptor e)) = Some d \<and> push_u16_length w = Some p \<and>
        bs = ENVELOPE_MAGIC @ d @ p \<and> length bs \<le> MAX_ENVELOPE_BYTES)"
  by (auto simp: Envelope_encode_def Option.bind_eq_Some_conv Let_def)

lemma Envelope_decode_iff:
  "Envelope_decode bs = Inr e \<longleftrightarrow> envelope_ok e \<and> Envelope_encode e = Some bs"
proof
  assume "Envelope_decode bs = Inr e"
  then show "envelope_ok e \<and> Envelope_encode e = Some bs"
    by (auto simp: Envelope_decode_def decode_step ContentDescriptor_decode_iff WrappedKey_decode_iff
        descriptor_ok_def envelope_ok_def Envelope_encode_eq split: if_splits)
next
  assume e: "envelope_ok e \<and> Envelope_encode e = Some bs"
  then obtain w d p where enc: "WrappedKey_encode (env_wrapped_key e) = Some w"
    "push_u16_length (ContentDescriptor_encode (env_descriptor e)) = Some d" "push_u16_length w = Some p"
    and bs: "bs = ENVELOPE_MAGIC @ d @ p" "length bs \<le> MAX_ENVELOPE_BYTES"
    by (auto simp: Envelope_encode_eq)
  have "ContentDescriptor_decode (ContentDescriptor_encode (env_descriptor e)) = Inr (env_descriptor e)"
    and "WrappedKey_decode_for (env_descriptor e) w = Inr (env_wrapped_key e)"
    using e enc(1) by (simp_all add: ContentDescriptor_decode_iff WrappedKey_decode_iff envelope_ok_def
        descriptor_ok_def)
  then show "Envelope_decode bs = Inr e"
    using bs enc by (simp add: Envelope_decode_def dec_magic_append dec_length_prefixed_u16_push dec_finish_Nil)
qed

lemma length_encodings:
  "descriptor_ok d \<Longrightarrow> length (ContentDescriptor_encode d) = 14"
  "wrapped_key_ok w \<Longrightarrow> WrappedKey_encode w = Some bs \<Longrightarrow> length bs \<le> 192"
  using key_id_ok_ascii(2) [of "wk_key_id w"]
  by (auto simp: ContentDescriptor_encode_def descriptor_ok_def WrappedKey_encode_eq wrapped_key_ok_def
      at_rest_limits)

lemma Envelope_encode_total:
  assumes "envelope_ok e"
  obtains bs where "Envelope_encode e = Some bs" and "length bs \<le> 214"
proof -
  obtain w where w: "WrappedKey_encode (env_wrapped_key e) = Some w"
    using assms by (auto simp: envelope_ok_def WrappedKey_encode_eq)
  have "length w \<le> 192" "length (ContentDescriptor_encode (env_descriptor e)) = 14"
    using assms length_encodings w by (auto simp: envelope_ok_def)
  then show thesis
    using that w by (simp add: Envelope_encode_def push_u16_length_def ENVELOPE_MAGIC_def lit_def
        utf8_char_def MAX_ENVELOPE_BYTES_def)
qed

lemma SealedPayload_encode_eq:
  "SealedPayload_encode s = Some bs \<longleftrightarrow>
     (\<exists>e p. Envelope_encode (sp_envelope s) = Some e \<and> push_u16_length e = Some p \<and>
        length (sp_ciphertext s) < 2 ^ 32 \<and>
        bs = SEALED_MAGIC @ p @ be_bytes 4 (length (sp_ciphertext s)) @ sp_ciphertext s)"
  by (auto simp: SealedPayload_encode_def Option.bind_eq_Some_conv simp del: be_bytes.simps)

lemma SealedPayload_decode_iff:
  "SealedPayload_decode bs = Inr s \<longleftrightarrow> sealed_ok s \<and> SealedPayload_encode s = Some bs"
proof
  assume "SealedPayload_decode bs = Inr s"
  then show "sealed_ok s \<and> SealedPayload_encode s = Some bs"
    by (auto simp: SealedPayload_decode_def decode_step Envelope_decode_iff validate_body_length_def
        sealed_ok_def SealedPayload_encode_eq simp del: be_bytes.simps split: if_splits)
next
  assume s: "sealed_ok s \<and> SealedPayload_encode s = Some bs"
  let ?c = "sp_ciphertext s"
  obtain e p where enc: "Envelope_encode (sp_envelope s) = Some e" "push_u16_length e = Some p"
    and len: "length ?c < 2 ^ 32" and bs: "bs = SEALED_MAGIC @ p @ be_bytes 4 (length ?c) @ ?c"
    using s unfolding SealedPayload_encode_eq by blast
  have "Envelope_decode e = Inr (sp_envelope s)" "validate_body_length (length ?c) = Inr ()"
    using s enc(1) by (simp_all add: Envelope_decode_iff sealed_ok_def validate_body_length_def)
  moreover have "dec_u32 (be_bytes 4 (length ?c) @ ?c) = Inr (length ?c, ?c)"
    and "dec_take (length ?c) ?c = Inr (?c, [])"
    using len by (simp_all only: dec_u32_eq dec_take_eq append_Nil2 simp_thms)
  ultimately show "SealedPayload_decode bs = Inr s"
    using enc(2) by (simp add: bs SealedPayload_decode_def dec_magic_append dec_length_prefixed_u16_push
        dec_finish_Nil del: be_bytes.simps)
qed

lemma SealedPayload_encode_total:
  assumes "sealed_ok s"
  obtains bs where "SealedPayload_encode s = Some bs"
proof -
  obtain e where e: "Envelope_encode (sp_envelope s) = Some e" "length e \<le> 214"
    using assms Envelope_encode_total by (auto simp: sealed_ok_def)
  have "length (sp_ciphertext s) < 2 ^ 32"
    using assms by (simp add: sealed_ok_def MAX_BODY_BYTES_def MAX_PLAINTEXT_BYTES_def TAG_BYTES_def)
  then show thesis
    using that e by (simp add: SealedPayload_encode_def push_u16_length_def)
qed

section \<open>The contract of a canonical codec\<close>

text \<open>
  A codec is canonical when it decodes exactly what it encodes: every valid value has one encoding and
  no other byte string is accepted for it.
\<close>

locale canonical_codec =
  fixes encode :: "'a \<Rightarrow> bytes option" and decode :: "bytes \<Rightarrow> at_rest_error + 'a" and valid :: "'a \<Rightarrow> bool"
  assumes decode_iff: "decode bs = Inr x \<longleftrightarrow> valid x \<and> encode x = Some bs"
    and encode_total: "valid x \<Longrightarrow> \<exists>bs. encode x = Some bs"
begin

lemma decode_encode: "valid x \<Longrightarrow> \<exists>bs. encode x = Some bs \<and> decode bs = Inr x"
  using encode_total decode_iff by blast

lemma encode_inject: "valid x \<Longrightarrow> valid y \<Longrightarrow> encode x = encode y \<longleftrightarrow> x = y"
  using encode_total decode_iff by (metis sum.inject(2))

lemma decode_unique: "decode bs = Inr x \<Longrightarrow> decode cs = Inr x \<Longrightarrow> bs = cs"
  by (simp add: decode_iff)

lemma canonical:
  "(valid x \<longrightarrow> (\<exists>bs. encode x = Some bs \<and> decode bs = Inr x)) \<and>
   (decode bs = Inr x \<longrightarrow> valid x \<and> encode x = Some bs)"
  using decode_encode decode_iff by blast

end

interpretation descriptor_codec:
  canonical_codec "\<lambda>d. Some (ContentDescriptor_encode d)" ContentDescriptor_decode descriptor_ok
  by unfold_locales (auto simp: ContentDescriptor_decode_iff)

interpretation wrapped_codec:
  canonical_codec WrappedKey_encode "WrappedKey_decode_for (ContentDescriptor_new nonce)" wrapped_key_ok
  for nonce
  by unfold_locales (auto simp: WrappedKey_decode_iff ContentDescriptor_new_def WrappedKey_encode_eq)

interpretation envelope_codec: canonical_codec Envelope_encode Envelope_decode envelope_ok
  by unfold_locales (auto simp: Envelope_decode_iff elim: Envelope_encode_total)

interpretation sealed_codec: canonical_codec SealedPayload_encode SealedPayload_decode sealed_ok
  by unfold_locales (auto simp: SealedPayload_decode_iff elim: SealedPayload_encode_total)

text \<open>
  C20: the at-rest encodings are canonical. Every valid descriptor, wrapped key, envelope and sealed
  payload is encoded without a panic and decodes to itself; and whatever decodes is valid and is the
  encoding of the value it decodes to, so a stored record has exactly one accepted form: no trailing
  bytes, no alternative lengths, no alternative spelling of a key identifier.
\<close>

theorem at_rest_codecs_canonical:
  "((sealed_ok s \<longrightarrow> (\<exists>bs. SealedPayload_encode s = Some bs \<and> SealedPayload_decode bs = Inr s)) \<and>
    (SealedPayload_decode bs = Inr s \<longrightarrow> sealed_ok s \<and> SealedPayload_encode s = Some bs)) \<and>
   ((envelope_ok e \<longrightarrow> (\<exists>bs. Envelope_encode e = Some bs \<and> Envelope_decode bs = Inr e)) \<and>
    (Envelope_decode bs = Inr e \<longrightarrow> envelope_ok e \<and> Envelope_encode e = Some bs)) \<and>
   ((wrapped_key_ok w \<longrightarrow> (\<exists>bs. WrappedKey_encode w = Some bs \<and>
       WrappedKey_decode_for (ContentDescriptor_new nonce) bs = Inr w)) \<and>
    (WrappedKey_decode_for (ContentDescriptor_new nonce) bs = Inr w \<longrightarrow>
       wrapped_key_ok w \<and> WrappedKey_encode w = Some bs)) \<and>
   (ContentDescriptor_decode bs = Inr d \<longleftrightarrow> descriptor_ok d \<and> bs = ContentDescriptor_encode d)"
  using sealed_codec.canonical [of s bs] envelope_codec.canonical [of e bs]
    wrapped_codec.canonical [of w nonce bs] ContentDescriptor_decode_iff [of bs d]
  by blast

definition sample_sealed :: sealed_payload where
  "sample_sealed =
     \<lparr>sp_envelope = \<lparr>env_descriptor = ContentDescriptor_new (replicate 12 0),
        env_wrapped_key = \<lparr>wk_key_id = KeyId (lit ''k:1''), wk_nonce = replicate 12 0,
          wk_encrypted_data_key = replicate 48 0\<rparr>\<rparr>,
      sp_ciphertext = replicate 20 7\<rparr>"

lemma sample_sealed_ok: "sealed_ok sample_sealed"
  by (simp add: sample_sealed_def sealed_ok_def envelope_ok_def descriptor_ok_def wrapped_key_ok_def key_id_ok_def
      KeyId_new_def key_id_byte_def str_len_def utf8_char_def lit_def is_ascii_alphanumeric_def
      is_ascii_digit_def is_ascii_uppercase_def is_ascii_lowercase_def ContentDescriptor_new_def at_rest_limits
      MAX_BODY_BYTES_def MAX_PLAINTEXT_BYTES_def)

theorem at_rest_codecs_canonical_witness:
  "\<exists>bs. SealedPayload_encode sample_sealed = Some bs \<and> SealedPayload_decode bs = Inr sample_sealed"
  using at_rest_codecs_canonical [of sample_sealed] sample_sealed_ok by blast

end
