(* ===== verification/At_Rest_Crypto.thy ===== *)
theory At_Rest_Crypto
  imports At_Rest_Format
begin

text \<open>
  Envelope encryption of \<open>batter-at-rest\<close>: contexts (\<open>context.rs\<close>), key rings (\<open>key.rs\<close>), sealing,
  opening and rewrapping (\<open>crypto.rs\<close>) and MAC keys (\<open>mac.rs\<close>). AES-256-GCM, HKDF-SHA256, HMAC-SHA256
  and the system's random source are third-party code; they are the fields of a record that every
  operation takes, and \<open>crypto_ok\<close> collects what their documentation promises. Randomness is a state
  that every draw moves on. Zeroizing of memory is not modelled.
\<close>

section \<open>Contexts\<close>

definition MAX_CONTEXT_LABEL_BYTES :: nat where "MAX_CONTEXT_LABEL_BYTES = 64"
definition MAX_BINDING_COMPONENT_BYTES :: nat where "MAX_BINDING_COMPONENT_BYTES = 128"
definition MAX_CONTEXT_BYTES :: nat where "MAX_CONTEXT_BYTES = 512"
definition CONTEXT_CODEC_VERSION :: byte where "CONTEXT_CODEC_VERSION = 1"
definition ROW_BINDING :: byte where "ROW_BINDING = 1"
definition TENANT_TOKEN_BINDING :: byte where "TENANT_TOKEN_BINDING = 2"

record at_rest_context =
  cx_encoded :: bytes
  cx_namespace :: "nat \<times> nat"
  cx_purpose :: "nat \<times> nat"

definition byte_range :: "nat \<times> nat \<Rightarrow> bytes \<Rightarrow> bytes" where
  "byte_range r bs = take (snd r - fst r) (drop (fst r) bs)"

definition Context_namespace :: "at_rest_context \<Rightarrow> bytes" where
  "Context_namespace c = byte_range (cx_namespace c) (cx_encoded c)"

definition Context_purpose :: "at_rest_context \<Rightarrow> bytes" where
  "Context_purpose c = byte_range (cx_purpose c) (cx_encoded c)"

definition label_byte :: "byte \<Rightarrow> bool" where
  "label_byte b \<longleftrightarrow>
     is_ascii_lowercase (unat b) \<or> is_ascii_digit (unat b) \<or> unat b \<in> set (lit ''._:-'')"

definition validate_label :: "rstr \<Rightarrow> at_rest_error failure + unit" where
  "validate_label value =
     (if value = [] \<or> MAX_CONTEXT_LABEL_BYTES < str_len value \<or> \<not> list_all label_byte (str_bytes value)
      then Inl (Failure InvalidContext) else Inr ())"

definition validate_binding :: "bytes \<Rightarrow> at_rest_error failure + unit" where
  "validate_binding value =
     (if value = [] \<or> MAX_BINDING_COMPONENT_BYTES < length value
      then Inl (Failure InvalidContext) else Inr ())"

definition push_component :: "bytes \<Rightarrow> bytes \<Rightarrow> at_rest_error failure + bytes \<times> (nat \<times> nat)" where
  "push_component target value =
     (if length value < 2 ^ 16
      then let target = target @ be_bytes 2 (length value); start = length target;
               target = target @ value
           in Inr (target, (start, length target))
      else Inl Panicked)"

definition validate_total :: "bytes \<Rightarrow> at_rest_error failure + unit" where
  "validate_total encoded =
     (if MAX_CONTEXT_BYTES < length encoded then Inl (Failure InvalidContext) else Inr ())"

definition Context_for_row ::
  "rstr \<Rightarrow> rstr \<Rightarrow> bytes \<Rightarrow> bytes \<Rightarrow> rstr \<Rightarrow> at_rest_error failure + at_rest_context" where
  "Context_for_row namespace purpose owner resource payload_schema =
     try_bind (validate_label namespace) (\<lambda>_.
     try_bind (validate_label purpose) (\<lambda>_.
     try_bind (validate_binding owner) (\<lambda>_.
     try_bind (validate_binding resource) (\<lambda>_.
     try_bind (validate_label payload_schema) (\<lambda>_.
     try_bind (push_component [CONTEXT_CODEC_VERSION, ROW_BINDING] (str_bytes namespace)) (\<lambda>(encoded, namespace).
     try_bind (push_component encoded (str_bytes purpose)) (\<lambda>(encoded, purpose).
     try_bind (push_component encoded owner) (\<lambda>(encoded, _).
     try_bind (push_component encoded resource) (\<lambda>(encoded, _).
     try_bind (push_component encoded (str_bytes payload_schema)) (\<lambda>(encoded, _).
     try_bind (validate_total encoded) (\<lambda>_.
       Inr \<lparr>cx_encoded = encoded, cx_namespace = namespace, cx_purpose = purpose\<rparr>)))))))))))"

definition Context_for_tenant_token ::
  "rstr \<Rightarrow> rstr \<Rightarrow> bytes \<Rightarrow> rstr \<Rightarrow> at_rest_error failure + at_rest_context" where
  "Context_for_tenant_token namespace purpose tenant payload_schema =
     try_bind (validate_label namespace) (\<lambda>_.
     try_bind (validate_label purpose) (\<lambda>_.
     try_bind (validate_binding tenant) (\<lambda>_.
     try_bind (validate_label payload_schema) (\<lambda>_.
     try_bind (push_component [CONTEXT_CODEC_VERSION, TENANT_TOKEN_BINDING] (str_bytes namespace)) (\<lambda>(encoded, namespace).
     try_bind (push_component encoded (str_bytes purpose)) (\<lambda>(encoded, purpose).
     try_bind (push_component encoded tenant) (\<lambda>(encoded, _).
     try_bind (push_component encoded (str_bytes payload_schema)) (\<lambda>(encoded, _).
     try_bind (validate_total encoded) (\<lambda>_.
       Inr \<lparr>cx_encoded = encoded, cx_namespace = namespace, cx_purpose = purpose\<rparr>)))))))))"

section \<open>Key rings\<close>

datatype secret_key = SecretKey (secret_bytes: bytes)

definition SecretKey_try_from_slice :: "bytes \<Rightarrow> at_rest_error + secret_key" where
  "SecretKey_try_from_slice bs =
     (if length bs = SECRET_KEY_BYTES then Inr (SecretKey bs) else Inl InvalidSecretKey)"

record keyring =
  kr_current_id :: key_id
  kr_keys :: "key_id \<rightharpoonup> secret_key"

fun insert_keys :: "(key_id \<times> secret_key) list \<Rightarrow> (key_id \<rightharpoonup> secret_key) \<Rightarrow> at_rest_error + (key_id \<rightharpoonup> secret_key)" where
  "insert_keys [] keys = Inr keys"
| "insert_keys ((key_id, secret_key) # entries) keys =
     (if keys key_id \<noteq> None then Inl DuplicateKeyId
      else insert_keys entries (keys(key_id \<mapsto> secret_key)))"

definition Keyring_new :: "key_id \<Rightarrow> (key_id \<times> secret_key) list \<Rightarrow> at_rest_error + keyring" where
  "Keyring_new current_id entries =
     try_bind (insert_keys entries Map.empty) (\<lambda>keys.
       if keys current_id = None then Inl CurrentKeyUnavailable
       else Inr \<lparr>kr_current_id = current_id, kr_keys = keys\<rparr>)"

definition Keyring_key :: "keyring \<Rightarrow> key_id \<Rightarrow> at_rest_error + secret_key" where
  "Keyring_key ring key_id = ok_or (kr_keys ring key_id) KeyUnavailable"

definition Keyring_current_key :: "keyring \<Rightarrow> at_rest_error + secret_key" where
  "Keyring_current_key ring = Keyring_key ring (kr_current_id ring)"

section \<open>The cryptographic providers\<close>

record 'r crypto =
  cr_encrypt :: "bytes \<Rightarrow> bytes \<Rightarrow> bytes \<Rightarrow> bytes \<Rightarrow> (bytes \<times> bytes) option"
  cr_decrypt :: "bytes \<Rightarrow> bytes \<Rightarrow> bytes \<Rightarrow> bytes \<Rightarrow> bytes \<Rightarrow> bytes option"
  cr_hkdf :: "bytes option \<Rightarrow> bytes \<Rightarrow> bytes \<Rightarrow> nat \<Rightarrow> bytes option"
  cr_hmac :: "bytes \<Rightarrow> bytes \<Rightarrow> bytes"
  cr_fill :: "'r \<Rightarrow> nat \<Rightarrow> bytes option \<times> 'r"

section \<open>Sealing, opening and rewrapping\<close>

definition HKDF_SALT :: bytes where
  "HKDF_SALT = str_bytes (lit ''at-rest:envelope:v1:wrapping-key:salt'')"
definition AAD_MAGIC :: bytes where "AAD_MAGIC = str_bytes (lit ''ATRA'')"
definition HKDF_MAGIC :: bytes where "HKDF_MAGIC = str_bytes (lit ''ATRK'')"
definition PAYLOAD_ROLE :: byte where "PAYLOAD_ROLE = 1"
definition WRAPPING_ROLE :: byte where "WRAPPING_ROLE = 2"
definition HKDF_WRAPPING_ROLE :: byte where "HKDF_WRAPPING_ROLE = 3"

definition push_frame :: "bytes \<Rightarrow> bytes \<Rightarrow> at_rest_error failure + bytes" where
  "push_frame target bs =
     (if length bs < 2 ^ 16 then Inr (target @ be_bytes 2 (length bs) @ bs) else Inl Panicked)"

definition random_draw :: "'r crypto \<Rightarrow> 'r \<Rightarrow> nat \<Rightarrow> (at_rest_error failure + bytes) \<times> 'r" where
  "random_draw cr random n =
     (case cr_fill cr random n of
        (Some bs, random) \<Rightarrow> (Inr bs, random)
      | (None, random) \<Rightarrow> (Inl (Failure RandomnessUnavailable), random))"

definition derive_wrapping_key ::
  "'r crypto \<Rightarrow> secret_key \<Rightarrow> at_rest_context \<Rightarrow> at_rest_error failure + bytes" where
  "derive_wrapping_key cr master_key ctx =
     try_bind (push_frame (HKDF_MAGIC @ [FORMAT_VERSION, HKDF_WRAPPING_ROLE]) (Context_namespace ctx)) (\<lambda>info.
     try_bind (push_frame info (Context_purpose ctx)) (\<lambda>info.
       ok_or (cr_hkdf cr (Some HKDF_SALT) (secret_bytes master_key) info SECRET_KEY_BYTES)
         (Failure CryptographicFailure)))"

definition payload_aad :: "at_rest_context \<Rightarrow> content_descriptor \<Rightarrow> at_rest_error failure + bytes" where
  "payload_aad ctx descriptor =
     push_frame (AAD_MAGIC @ [PAYLOAD_ROLE, cd_format_version descriptor]) (cx_encoded ctx)"

definition wrapping_aad :: "at_rest_context \<Rightarrow> content_descriptor \<Rightarrow> key_id \<Rightarrow> at_rest_error failure + bytes" where
  "wrapping_aad ctx descriptor key_id =
     try_bind (push_frame (AAD_MAGIC @ [WRAPPING_ROLE, cd_format_version descriptor])
                 (str_bytes (key_id_str key_id))) (\<lambda>aad.
     try_bind (push_frame aad (cd_payload_nonce descriptor)) (\<lambda>aad.
       push_frame aad (cx_encoded ctx)))"

definition cipher :: "bytes \<Rightarrow> at_rest_error failure + bytes" where
  "cipher key = (if length key = SECRET_KEY_BYTES then Inr key else Inl (Failure CryptographicFailure))"

definition encrypt_bytes ::
  "'r crypto \<Rightarrow> bytes \<Rightarrow> bytes \<Rightarrow> bytes \<Rightarrow> bytes \<Rightarrow> at_rest_error failure + bytes" where
  "encrypt_bytes cr key nonce aad plaintext =
     try_bind (cipher key) (\<lambda>key.
     try_bind (ok_or (checked_add U64_MAX (length plaintext) TAG_BYTES) (Failure CryptographicFailure)) (\<lambda>_.
     try_bind (ok_or (cr_encrypt cr key nonce aad plaintext) (Failure CryptographicFailure)) (\<lambda>(body, tag).
       Inr (body @ tag))))"

definition decrypt_bytes ::
  "'r crypto \<Rightarrow> bytes \<Rightarrow> bytes \<Rightarrow> bytes \<Rightarrow> bytes \<Rightarrow> at_rest_error failure + bytes" where
  "decrypt_bytes cr key nonce aad ciphertext_and_tag =
     (if length ciphertext_and_tag < TAG_BYTES then Inl (Failure AuthenticationFailed)
      else let split = length ciphertext_and_tag - TAG_BYTES
           in try_bind (cipher key) (\<lambda>key.
                ok_or (cr_decrypt cr key nonce aad (take split ciphertext_and_tag)
                         (drop split ciphertext_and_tag))
                  (Failure AuthenticationFailed)))"

definition encrypt_data_key ::
  "'r crypto \<Rightarrow> bytes \<Rightarrow> bytes \<Rightarrow> bytes \<Rightarrow> bytes \<Rightarrow> at_rest_error failure + bytes" where
  "encrypt_data_key cr key nonce aad data_key =
     try_bind (cipher key) (\<lambda>key.
     try_bind (ok_or (cr_encrypt cr key nonce aad data_key) (Failure CryptographicFailure)) (\<lambda>(body, tag).
       Inr (body @ tag)))"

definition decrypt_data_key ::
  "'r crypto \<Rightarrow> bytes \<Rightarrow> bytes \<Rightarrow> bytes \<Rightarrow> bytes \<Rightarrow> at_rest_error failure + bytes" where
  "decrypt_data_key cr key nonce aad wrapped =
     try_bind (cipher key) (\<lambda>key.
       ok_or (cr_decrypt cr key nonce aad (take SECRET_KEY_BYTES wrapped) (drop SECRET_KEY_BYTES wrapped))
         (Failure AuthenticationFailed))"

definition wrap_data_key ::
  "'r crypto \<Rightarrow> at_rest_context \<Rightarrow> content_descriptor \<Rightarrow> key_id \<Rightarrow> secret_key \<Rightarrow> bytes \<Rightarrow> bytes
    \<Rightarrow> at_rest_error failure + wrapped_key" where
  "wrap_data_key cr ctx descriptor key_id master_key wrapping_nonce data_key =
     try_bind (derive_wrapping_key cr master_key ctx) (\<lambda>wrapping_key.
     try_bind (wrapping_aad ctx descriptor key_id) (\<lambda>aad.
     try_bind (encrypt_data_key cr wrapping_key wrapping_nonce aad data_key) (\<lambda>encrypted_data_key.
       Inr \<lparr>wk_key_id = key_id, wk_nonce = wrapping_nonce, wk_encrypted_data_key = encrypted_data_key\<rparr>)))"

definition unwrap_data_key ::
  "'r crypto \<Rightarrow> keyring \<Rightarrow> at_rest_context \<Rightarrow> envelope \<Rightarrow> at_rest_error failure + bytes" where
  "unwrap_data_key cr ring ctx envelope =
     (let wrapped_key = env_wrapped_key envelope
      in try_bind (map_err Failure (Keyring_key ring (wk_key_id wrapped_key))) (\<lambda>master_key.
         try_bind (derive_wrapping_key cr master_key ctx) (\<lambda>wrapping_key.
         try_bind (wrapping_aad ctx (env_descriptor envelope) (wk_key_id wrapped_key)) (\<lambda>aad.
           decrypt_data_key cr wrapping_key (wk_nonce wrapped_key) aad
             (wk_encrypted_data_key wrapped_key)))))"

definition at_rest_open ::
  "'r crypto \<Rightarrow> keyring \<Rightarrow> at_rest_context \<Rightarrow> sealed_payload \<Rightarrow> at_rest_error failure + bytes" where
  "at_rest_open cr ring ctx sealed =
     (let envelope = sp_envelope sealed
      in try_bind (unwrap_data_key cr ring ctx envelope) (\<lambda>data_key.
         try_bind (payload_aad ctx (env_descriptor envelope)) (\<lambda>aad.
           decrypt_bytes cr data_key (cd_payload_nonce (env_descriptor envelope)) aad
             (sp_ciphertext sealed))))"

text \<open>The random state moves on with every draw, also when a later step fails.\<close>

definition rand_bind ::
  "('e + 'a) \<times> 'r \<Rightarrow> ('a \<Rightarrow> 'r \<Rightarrow> ('e + 'b) \<times> 'r) \<Rightarrow> ('e + 'b) \<times> 'r" where
  "rand_bind m f = (case m of (Inl e, random) \<Rightarrow> (Inl e, random) | (Inr x, random) \<Rightarrow> f x random)"

definition seal_drawn ::
  "'r crypto \<Rightarrow> keyring \<Rightarrow> at_rest_context \<Rightarrow> bytes \<Rightarrow> bytes \<Rightarrow> bytes \<Rightarrow> bytes
    \<Rightarrow> at_rest_error failure + sealed_payload" where
  "seal_drawn cr ring ctx plaintext data_key payload_nonce wrapping_nonce =
     (let descriptor = ContentDescriptor_new payload_nonce
      in try_bind (payload_aad ctx descriptor) (\<lambda>aad.
         try_bind (encrypt_bytes cr data_key (cd_payload_nonce descriptor) aad plaintext) (\<lambda>body.
         try_bind (map_err Failure (Keyring_current_key ring)) (\<lambda>current_key.
         try_bind (wrap_data_key cr ctx descriptor (kr_current_id ring) current_key wrapping_nonce data_key)
           (\<lambda>wrapped_key.
              map_err Failure
                (SealedPayload_from_parts (Envelope_from_parts descriptor wrapped_key) body))))))"

definition at_rest_seal ::
  "'r crypto \<Rightarrow> keyring \<Rightarrow> at_rest_context \<Rightarrow> bytes \<Rightarrow> 'r
    \<Rightarrow> (at_rest_error failure + sealed_payload) \<times> 'r" where
  "at_rest_seal cr ring ctx plaintext random =
     (if MAX_PLAINTEXT_BYTES < length plaintext then (Inl (Failure PlaintextTooLarge), random)
      else rand_bind (random_draw cr random SECRET_KEY_BYTES) (\<lambda>data_key random.
           rand_bind (random_draw cr random NONCE_BYTES) (\<lambda>payload_nonce random.
           rand_bind (random_draw cr random NONCE_BYTES) (\<lambda>wrapping_nonce random.
             (seal_drawn cr ring ctx plaintext data_key payload_nonce wrapping_nonce, random)))))"

definition at_rest_rewrap ::
  "'r crypto \<Rightarrow> keyring \<Rightarrow> at_rest_context \<Rightarrow> envelope \<Rightarrow> 'r
    \<Rightarrow> (at_rest_error failure + wrapped_key) \<times> 'r" where
  "at_rest_rewrap cr ring ctx envelope random =
     (case unwrap_data_key cr ring ctx envelope of
        Inl e \<Rightarrow> (Inl e, random)
      | Inr data_key \<Rightarrow>
          if wk_key_id (env_wrapped_key envelope) = kr_current_id ring
          then (Inr (env_wrapped_key envelope), random)
          else rand_bind (random_draw cr random NONCE_BYTES) (\<lambda>wrapping_nonce random.
            (try_bind (map_err Failure (Keyring_current_key ring)) (\<lambda>current_key.
               wrap_data_key cr ctx (env_descriptor envelope) (kr_current_id ring) current_key
                 wrapping_nonce data_key),
             random)))"

definition at_rest_rewrap_envelope ::
  "'r crypto \<Rightarrow> keyring \<Rightarrow> at_rest_context \<Rightarrow> envelope \<Rightarrow> 'r
    \<Rightarrow> (at_rest_error failure + envelope) \<times> 'r" where
  "at_rest_rewrap_envelope cr ring ctx envelope random =
     (case at_rest_rewrap cr ring ctx envelope random of
        (r, random) \<Rightarrow> (map_ok (\<lambda>wrapped_key. with_wrapped_key wrapped_key envelope) r, random))"

section \<open>MAC keys\<close>

definition MAC_BYTES :: nat where "MAC_BYTES = 32"

datatype mac_key = MacKey (mac_key_bytes: bytes)

definition MacKey_try_from_slice :: "bytes \<Rightarrow> at_rest_error + mac_key" where
  "MacKey_try_from_slice bs = (if length bs \<noteq> MAC_BYTES then Inl InvalidMacKey else Inr (MacKey bs))"

definition MacKey_derive_hkdf :: "'r crypto \<Rightarrow> bytes \<Rightarrow> bytes option \<Rightarrow> bytes \<Rightarrow> at_rest_error failure + mac_key" where
  "MacKey_derive_hkdf cr input_key_material salt info =
     map_ok MacKey (expect (cr_hkdf cr salt input_key_material info MAC_BYTES))"

definition sign_segments :: "'r crypto \<Rightarrow> mac_key \<Rightarrow> bytes list \<Rightarrow> bytes" where
  "sign_segments cr key segments = cr_hmac cr (mac_key_bytes key) (concat segments)"

definition mac_sign :: "'r crypto \<Rightarrow> mac_key \<Rightarrow> bytes \<Rightarrow> bytes" where
  "mac_sign cr key message = sign_segments cr key [message]"

definition verify_segments :: "'r crypto \<Rightarrow> mac_key \<Rightarrow> bytes list \<Rightarrow> bytes \<Rightarrow> at_rest_error + unit" where
  "verify_segments cr key segments expected =
     (if cr_hmac cr (mac_key_bytes key) (concat segments) = expected then Inr () else Inl AuthenticationFailed)"

definition mac_verify :: "'r crypto \<Rightarrow> mac_key \<Rightarrow> bytes \<Rightarrow> bytes \<Rightarrow> at_rest_error + unit" where
  "mac_verify cr key message expected = verify_segments cr key [message] expected"

section \<open>What the providers promise\<close>

text \<open>
  Documented behaviour of the third-party code: authenticated encryption with a 32-byte key and a
  12-byte nonce succeeds for every plaintext and associated data of the sizes used here (the cipher
  limits both, at lengths above the bounds below), keeps the length, produces a 16-byte tag and is inverted by decryption; decryption only accepts what encryption produces; HKDF yields
  the requested 32 bytes; a successful random fill has the requested length.
\<close>

definition crypto_ok :: "'r crypto \<Rightarrow> bool" where
  "crypto_ok cr \<longleftrightarrow>
     (\<forall>key nonce aad p. length key = SECRET_KEY_BYTES \<longrightarrow> length nonce = NONCE_BYTES \<longrightarrow>
        length aad < 2 ^ 32 \<longrightarrow> length p \<le> MAX_PLAINTEXT_BYTES \<longrightarrow>
        (\<exists>c t. cr_encrypt cr key nonce aad p = Some (c, t))) \<and>
     (\<forall>key nonce aad p c t. cr_encrypt cr key nonce aad p = Some (c, t) \<longrightarrow>
        length c = length p \<and> length t = TAG_BYTES) \<and>
     (\<forall>key nonce aad p c t. cr_encrypt cr key nonce aad p = Some (c, t) \<longleftrightarrow>
        cr_decrypt cr key nonce aad c t = Some p) \<and>
     (\<forall>salt ikm info. \<exists>k. cr_hkdf cr salt ikm info SECRET_KEY_BYTES = Some k \<and> length k = SECRET_KEY_BYTES) \<and>
     (\<forall>random n bs random'. cr_fill cr random n = (Some bs, random') \<longrightarrow> length bs = n)"

lemma crypto_okD:
  assumes "crypto_ok cr"
  shows "length key = SECRET_KEY_BYTES \<Longrightarrow> length nonce = NONCE_BYTES \<Longrightarrow> length aad < 2 ^ 32 \<Longrightarrow>
      length p \<le> MAX_PLAINTEXT_BYTES \<Longrightarrow>
      \<exists>c t. cr_encrypt cr key nonce aad p = Some (c, t) \<and> length c = length p \<and> length t = TAG_BYTES"
    and "cr_encrypt cr key nonce aad p = Some (c, t) \<longleftrightarrow> cr_decrypt cr key nonce aad c t = Some p"
    and "\<exists>k. cr_hkdf cr salt ikm info SECRET_KEY_BYTES = Some k \<and> length k = SECRET_KEY_BYTES"
    and "cr_fill cr random n = (Some bs, random') \<Longrightarrow> length bs = n"
    and "cr_encrypt cr key nonce aad p = Some (c, t) \<Longrightarrow> length c = length p \<and> length t = TAG_BYTES"
proof -
  note ok = assms [unfolded crypto_ok_def]
  note total = conjunct1 [OF ok] and len = conjunct2 [OF ok, THEN conjunct1]
    and rest = conjunct2 [OF ok, THEN conjunct2]
  note inverse = conjunct1 [OF rest] and hkdf = conjunct2 [OF rest, THEN conjunct1]
    and fill = conjunct2 [OF rest, THEN conjunct2]
  show sizes: "cr_encrypt cr key nonce aad p = Some (c, t) \<Longrightarrow> length c = length p \<and> length t = TAG_BYTES"
    for key nonce aad p c t
    using len [rule_format] .
  show "\<exists>c t. cr_encrypt cr key nonce aad p = Some (c, t) \<and> length c = length p \<and> length t = TAG_BYTES"
    if "length key = SECRET_KEY_BYTES" "length nonce = NONCE_BYTES" "length aad < 2 ^ 32"
      "length p \<le> MAX_PLAINTEXT_BYTES"
    using total [rule_format, OF that] sizes by blast
  show "cr_encrypt cr key nonce aad p = Some (c, t) \<longleftrightarrow> cr_decrypt cr key nonce aad c t = Some p"
    using inverse [rule_format] .
  show "\<exists>k. cr_hkdf cr salt ikm info SECRET_KEY_BYTES = Some k \<and> length k = SECRET_KEY_BYTES"
    using hkdf [rule_format] .
  show "length bs = n" if "cr_fill cr random n = (Some bs, random')"
    using fill [rule_format, OF that] .
qed

section \<open>Contexts as framed components\<close>

text \<open>
  Specification side: the two binding factories as one function of a binding, and the framed
  component list that the encoding of a context is.
\<close>

datatype at_rest_binding =
    RowBinding rstr rstr bytes bytes rstr
  | TenantTokenBinding rstr rstr bytes rstr

fun Context_make :: "at_rest_binding \<Rightarrow> at_rest_error failure + at_rest_context" where
  "Context_make (RowBinding namespace purpose owner resource schema) =
     Context_for_row namespace purpose owner resource schema"
| "Context_make (TenantTokenBinding namespace purpose tenant schema) =
     Context_for_tenant_token namespace purpose tenant schema"

definition frame :: "bytes \<Rightarrow> bytes" where
  "frame bs = be_bytes 2 (length bs) @ bs"

definition label_ok :: "rstr \<Rightarrow> bool" where
  "label_ok s \<longleftrightarrow> validate_label s = Inr ()"

definition component_ok :: "bytes \<Rightarrow> bool" where
  "component_ok bs \<longleftrightarrow> validate_binding bs = Inr ()"

fun binding_ok :: "at_rest_binding \<Rightarrow> bool" where
  "binding_ok (RowBinding namespace purpose owner resource schema) \<longleftrightarrow>
     label_ok namespace \<and> label_ok purpose \<and> component_ok owner \<and> component_ok resource \<and> label_ok schema"
| "binding_ok (TenantTokenBinding namespace purpose tenant schema) \<longleftrightarrow>
     label_ok namespace \<and> label_ok purpose \<and> component_ok tenant \<and> label_ok schema"

fun binding_kind :: "at_rest_binding \<Rightarrow> byte" where
  "binding_kind (RowBinding _ _ _ _ _) = ROW_BINDING"
| "binding_kind (TenantTokenBinding _ _ _ _) = TENANT_TOKEN_BINDING"

fun binding_components :: "at_rest_binding \<Rightarrow> bytes list" where
  "binding_components (RowBinding namespace purpose owner resource schema) =
     [str_bytes namespace, str_bytes purpose, owner, resource, str_bytes schema]"
| "binding_components (TenantTokenBinding namespace purpose tenant schema) =
     [str_bytes namespace, str_bytes purpose, tenant, str_bytes schema]"

definition binding_encoded :: "at_rest_binding \<Rightarrow> bytes" where
  "binding_encoded b =
     CONTEXT_CODEC_VERSION # binding_kind b # concat (map frame (binding_components b))"

lemma length_frame [simp]: "length (frame bs) = length bs + 2"
  by (simp add: frame_def)

lemma frame_append_inject:
  assumes "length a < 2 ^ 16" and "length b < 2 ^ 16" and "frame a @ x = frame b @ y"
  shows "a = b \<and> x = y"
proof -
  have "be_bytes 2 (length a) = be_bytes 2 (length b)"
    using assms(3) by (simp add: frame_def append_eq_append_conv)
  then have "length a = length b"
    using be_bytes_inject [of "length a" 2 "length b"] assms(1,2) by simp
  then show ?thesis
    using assms(3) by (simp add: frame_def)
qed

lemma frames_inject:
  "\<lbrakk>length xs = length ys; \<forall>x\<in>set xs. length x < 2 ^ 16; \<forall>y\<in>set ys. length y < 2 ^ 16;
    concat (map frame xs) = concat (map frame ys)\<rbrakk> \<Longrightarrow> xs = ys"
proof (induction xs ys rule: list_induct2)
  case Nil
  show ?case by simp
next
  case (Cons x xs y ys)
  then show ?case
    using frame_append_inject [of x y "concat (map frame xs)" "concat (map frame ys)"] by simp
qed

lemma push_frame_eq: "length bs < 2 ^ 16 \<Longrightarrow> push_frame target bs = Inr (target @ frame bs)"
  by (simp add: push_frame_def frame_def)

lemma push_component_eq:
  "length bs < 2 ^ 16 \<Longrightarrow>
     push_component target bs = Inr (target @ frame bs, (length target + 2, length target + 2 + length bs))"
  by (simp add: push_component_def frame_def Let_def)

lemma label_ok_facts:
  assumes "label_ok s"
  shows "all_ascii s" and "length (str_bytes s) \<le> 64"
proof -
  have v: "list_all label_byte (str_bytes s)" "str_len s \<le> 64"
    using assms by (auto simp: label_ok_def validate_label_def MAX_CONTEXT_LABEL_BYTES_def split: if_splits)
  have "unat b < 128" if "label_byte b" for b
    using that by (auto simp: label_byte_def is_ascii_digit_def is_ascii_lowercase_def lit_def)
  with v(1) show "all_ascii s"
    by (auto simp: list_all_iff intro: ascii_bytes_all_ascii)
  show "length (str_bytes s) \<le> 64"
    using v(2) by (simp add: str_len_def)
qed

lemma component_ok_length: "component_ok bs \<Longrightarrow> length bs \<le> 128"
  by (auto simp: component_ok_def validate_binding_def MAX_BINDING_COMPONENT_BYTES_def split: if_splits)

lemma binding_components_small:
  "binding_ok b \<Longrightarrow> x \<in> set (binding_components b) \<Longrightarrow> length x \<le> 128"
  by (cases b) (auto dest!: label_ok_facts(2) component_ok_length)

lemma binding_encoded_length: "binding_ok b \<Longrightarrow> length (binding_encoded b) \<le> MAX_CONTEXT_BYTES"
  by (cases b) (auto simp: binding_encoded_def MAX_CONTEXT_BYTES_def
      dest!: label_ok_facts(2) component_ok_length)

lemma binding_encoded_inject:
  assumes "binding_ok a" and "binding_ok b" and "binding_encoded a = binding_encoded b"
  shows "a = b"
proof -
  have kind: "binding_kind a = binding_kind b"
    and eq: "concat (map frame (binding_components a)) = concat (map frame (binding_components b))"
    using assms(3) by (simp_all add: binding_encoded_def)
  have len: "length (binding_components a) = length (binding_components b)"
    using kind by (cases a; cases b) (simp_all add: ROW_BINDING_def TENANT_TOKEN_BINDING_def)
  have "binding_components a = binding_components b"
    using binding_components_small [OF assms(1)] binding_components_small [OF assms(2)]
    by (intro frames_inject [OF len _ _ eq]) fastforce+
  then show ?thesis
    using kind assms(1,2)
    by (cases a; cases b)
      (auto simp: ROW_BINDING_def TENANT_TOKEN_BINDING_def dest!: label_ok_facts(1)
        intro: str_bytes_ascii_inject)
qed

text \<open>The factories accept exactly the valid bindings; the total-length check can never fail.\<close>

lemma validate_label_cases: "validate_label s = (if label_ok s then Inr () else Inl (Failure InvalidContext))"
  by (simp add: label_ok_def validate_label_def)

lemma validate_binding_cases:
  "validate_binding bs = (if component_ok bs then Inr () else Inl (Failure InvalidContext))"
  by (simp add: component_ok_def validate_binding_def)

lemma push_label: "label_ok s \<Longrightarrow> push_component target (str_bytes s) =
    Inr (target @ frame (str_bytes s), (length target + 2, length target + 2 + length (str_bytes s)))"
  using label_ok_facts(2) [of s] by (intro push_component_eq) simp

lemma push_binding: "component_ok bs \<Longrightarrow> push_component target bs =
    Inr (target @ frame bs, (length target + 2, length target + 2 + length bs))"
  using component_ok_length [of bs] by (intro push_component_eq) simp

definition binding_context :: "at_rest_binding \<Rightarrow> at_rest_context" where
  "binding_context b =
     (let namespace = binding_components b ! 0; purpose = binding_components b ! 1; p = 6 + length namespace
      in \<lparr>cx_encoded = binding_encoded b, cx_namespace = (4, 4 + length namespace),
          cx_purpose = (p, p + length purpose)\<rparr>)"

lemma Context_make_eq:
  "Context_make b = (if binding_ok b then Inr (binding_context b) else Inl (Failure InvalidContext))"
proof (cases "binding_ok b")
  case True
  then have total: "\<not> MAX_CONTEXT_BYTES < length (binding_encoded b)"
    using binding_encoded_length by (simp add: not_less)
  from True total show ?thesis
    by (cases b) (simp_all add: Context_for_row_def Context_for_tenant_token_def validate_label_cases
        validate_binding_cases push_label push_binding validate_total_def binding_context_def
        binding_encoded_def Let_def)
next
  case False
  then show ?thesis
    by (cases b) (auto simp: Context_for_row_def Context_for_tenant_token_def validate_label_cases
        validate_binding_cases)
qed

lemma byte_range_middle: "n = length p \<Longrightarrow> byte_range (n, n + length v) (p @ v @ s) = v"
  by (simp add: byte_range_def)

lemma binding_encoded_split:
  obtains p s where
    "binding_encoded b = (CONTEXT_CODEC_VERSION # binding_kind b # be_bytes 2 (length (binding_components b ! 0))) @
       binding_components b ! 0 @ s"
    and "binding_encoded b = (CONTEXT_CODEC_VERSION # binding_kind b # frame (binding_components b ! 0) @
       be_bytes 2 (length (binding_components b ! 1))) @ binding_components b ! 1 @ p"
  by (cases b) (simp_all add: binding_encoded_def frame_def)

lemma context_fields:
  shows "cx_encoded (binding_context b) = binding_encoded b"
    and "Context_namespace (binding_context b) = binding_components b ! 0"
    and "Context_purpose (binding_context b) = binding_components b ! 1"
proof -
  let ?n = "binding_components b ! 0" and ?p = "binding_components b ! 1"
  show "cx_encoded (binding_context b) = binding_encoded b"
    by (simp add: binding_context_def Let_def)
  obtain p s where
    n: "binding_encoded b = (CONTEXT_CODEC_VERSION # binding_kind b # be_bytes 2 (length ?n)) @ ?n @ s"
    and p: "binding_encoded b = (CONTEXT_CODEC_VERSION # binding_kind b # frame ?n @ be_bytes 2 (length ?p)) @ ?p @ p"
    using binding_encoded_split [of b] .
  show "Context_namespace (binding_context b) = ?n"
    unfolding Context_namespace_def binding_context_def Let_def at_rest_context.select_convs
    by (subst n, rule byte_range_middle) (simp only: length_Cons length_be_bytes)
  show "Context_purpose (binding_context b) = ?p"
    unfolding Context_purpose_def binding_context_def Let_def at_rest_context.select_convs
    by (subst p, rule byte_range_middle) simp
qed

lemma context_sizes:
  assumes "binding_ok b"
  shows "length (binding_encoded b) < 65536"
    and "length (binding_components b ! 0) < 65536"
    and "length (binding_components b ! 1) < 65536"
  using binding_encoded_length [OF assms] binding_components_small [OF assms]
  by (cases b; fastforce simp: MAX_CONTEXT_BYTES_def)+

section \<open>Wrapping and unwrapping\<close>

definition wrapping_aad_bytes :: "at_rest_binding \<Rightarrow> content_descriptor \<Rightarrow> key_id \<Rightarrow> bytes" where
  "wrapping_aad_bytes b descriptor key_id =
     AAD_MAGIC @ [WRAPPING_ROLE, cd_format_version descriptor] @ frame (str_bytes (key_id_str key_id)) @
     frame (cd_payload_nonce descriptor) @ frame (binding_encoded b)"

definition payload_aad_bytes :: "at_rest_binding \<Rightarrow> content_descriptor \<Rightarrow> bytes" where
  "payload_aad_bytes b descriptor =
     AAD_MAGIC @ [PAYLOAD_ROLE, cd_format_version descriptor] @ frame (binding_encoded b)"

lemma wrapping_aad_eq:
  assumes "binding_ok b" and "key_id_ok k" and "descriptor_ok d"
  shows "wrapping_aad (binding_context b) d k = Inr (wrapping_aad_bytes b d k)"
  using key_id_ok_ascii(2) [OF assms(2)] assms
  by (simp add: wrapping_aad_def wrapping_aad_bytes_def push_frame_eq context_fields context_sizes
      descriptor_ok_def NONCE_BYTES_def MAX_KEY_ID_BYTES_def)

lemma payload_aad_eq:
  "binding_ok b \<Longrightarrow> payload_aad (binding_context b) d = Inr (payload_aad_bytes b d)"
  by (simp add: payload_aad_def payload_aad_bytes_def push_frame_eq context_fields context_sizes)

lemma aad_sizes:
  assumes "binding_ok b" and "descriptor_ok d"
  shows "key_id_ok k \<Longrightarrow> length (wrapping_aad_bytes b d k) < 2 ^ 32" and "length (payload_aad_bytes b d) < 2 ^ 32"
  using key_id_ok_ascii(2) [of k] context_sizes(1) [OF assms(1)] assms(2)
  by (simp_all add: wrapping_aad_bytes_def payload_aad_bytes_def descriptor_ok_def AAD_MAGIC_def at_rest_limits
      str_bytes_def lit_def utf8_char_def)

lemma key_id_inject:
  "key_id_ok k \<Longrightarrow> key_id_ok l \<Longrightarrow> str_bytes (key_id_str k) = str_bytes (key_id_str l) \<Longrightarrow> k = l"
  using str_bytes_ascii_inject [OF key_id_ok_ascii(1) key_id_ok_ascii(1)] by (metis key_id.expand)

text \<open>The authenticated data of a wrapper determines the binding, the descriptor and the key.\<close>

lemma wrapping_aad_inject:
  assumes "binding_ok a" "key_id_ok k" "descriptor_ok d" and "binding_ok b" "key_id_ok l" "descriptor_ok e"
    and eq: "wrapping_aad_bytes a d k = wrapping_aad_bytes b e l"
  shows "a = b \<and> d = e \<and> k = l"
proof -
  have frames: "concat (map frame [str_bytes (key_id_str k), cd_payload_nonce d, binding_encoded a]) =
      concat (map frame [str_bytes (key_id_str l), cd_payload_nonce e, binding_encoded b])"
    using eq by (simp add: wrapping_aad_bytes_def)
  have "[str_bytes (key_id_str k), cd_payload_nonce d, binding_encoded a] =
      [str_bytes (key_id_str l), cd_payload_nonce e, binding_encoded b]"
    using key_id_ok_ascii(2) [OF assms(2)] key_id_ok_ascii(2) [OF assms(5)] assms(3,6)
      context_sizes(1) [OF assms(1)] context_sizes(1) [OF assms(4)]
    by (intro frames_inject [OF _ _ _ frames])
      (auto simp: descriptor_ok_def NONCE_BYTES_def MAX_KEY_ID_BYTES_def)
  then show ?thesis
    using assms binding_encoded_inject key_id_inject
    by (cases d; cases e) (auto simp: descriptor_ok_def)
qed

lemma derive_wrapping_key_total:
  assumes "crypto_ok cr" and "binding_ok b"
  obtains k where "derive_wrapping_key cr master (binding_context b) = Inr k" and "length k = SECRET_KEY_BYTES"
proof -
  let ?info = "HKDF_MAGIC @ [FORMAT_VERSION, HKDF_WRAPPING_ROLE] @ frame (binding_components b ! 0) @
    frame (binding_components b ! 1)"
  obtain k where "cr_hkdf cr (Some HKDF_SALT) (secret_bytes master) ?info SECRET_KEY_BYTES = Some k"
    and "length k = SECRET_KEY_BYTES"
    using crypto_okD(3) [OF assms(1)] by blast
  then show ?thesis
    using assms(2)
    by (intro that [of k]) (simp_all add: derive_wrapping_key_def push_frame_eq context_fields context_sizes
        context_sizes(3) [unfolded One_nat_def])
qed

lemma insert_keys_eq:
  "insert_keys entries keys =
     (if distinct (map fst entries) \<and> dom keys \<inter> fst ` set entries = {}
      then Inr (keys ++ map_of entries) else Inl DuplicateKeyId)"
proof (induction entries arbitrary: keys)
  case Nil
  show ?case by simp
next
  case (Cons e entries)
  obtain k v where e: "e = (k, v)" by (cases e)
  show ?case
  proof (cases "k \<in> dom keys")
    case True
    then show ?thesis by (auto simp: e)
  next
    case False
    have add: "keys(k \<mapsto> v) ++ map_of entries = keys ++ map_of (e # entries)"
      if "distinct (map fst (e # entries))"
      using that by (simp add: e map_add_upd_left dom_map_of_conv_image_fst)
    have fresh: "distinct (map fst entries) \<and> dom (keys(k \<mapsto> v)) \<inter> fst ` set entries = {} \<longleftrightarrow>
        distinct (map fst (e # entries)) \<and> dom keys \<inter> fst ` set (e # entries) = {}"
      using False by (auto simp: e)
    have "insert_keys (e # entries) keys = insert_keys entries (keys(k \<mapsto> v))"
      using False by (auto simp: e)
    also have "\<dots> = (if distinct (map fst (e # entries)) \<and> dom keys \<inter> fst ` set (e # entries) = {}
        then Inr (keys(k \<mapsto> v) ++ map_of entries) else Inl DuplicateKeyId)"
      unfolding Cons.IH fresh ..
    also have "\<dots> = (if distinct (map fst (e # entries)) \<and> dom keys \<inter> fst ` set (e # entries) = {}
        then Inr (keys ++ map_of (e # entries)) else Inl DuplicateKeyId)"
      using add by argo
    finally show ?thesis .
  qed
qed

lemma Keyring_new_eq:
  "Keyring_new current_id entries =
     (if \<not> distinct (map fst entries) then Inl DuplicateKeyId
      else if current_id \<notin> fst ` set entries then Inl CurrentKeyUnavailable
      else Inr \<lparr>kr_current_id = current_id, kr_keys = map_of entries\<rparr>)"
  by (simp add: Keyring_new_def insert_keys_eq map_of_eq_None_iff)

definition keyring_ok :: "keyring \<Rightarrow> bool" where
  "keyring_ok ring \<longleftrightarrow> key_id_ok (kr_current_id ring) \<and> kr_keys ring (kr_current_id ring) \<noteq> None"

lemma Keyring_new_ok:
  "Keyring_new current_id entries = Inr ring \<Longrightarrow> key_id_ok current_id \<Longrightarrow> keyring_ok ring"
  by (auto simp: Keyring_new_eq keyring_ok_def map_of_eq_None_iff split: if_splits)

lemma encrypt_data_key_total:
  assumes "crypto_ok cr" and "length key = SECRET_KEY_BYTES" and "length nonce = NONCE_BYTES"
    and "length aad < 2 ^ 32" and "length data_key = SECRET_KEY_BYTES"
  obtains wrapped where "encrypt_data_key cr key nonce aad data_key = Inr wrapped"
    and "length wrapped = WRAPPED_DATA_KEY_BYTES"
    and "decrypt_data_key cr key nonce aad wrapped = Inr data_key"
proof -
  have "length data_key \<le> MAX_PLAINTEXT_BYTES"
    using assms(5) by (simp add: SECRET_KEY_BYTES_def MAX_PLAINTEXT_BYTES_def)
  from crypto_okD(1) [OF assms(1-4) this]
  obtain c t where e: "cr_encrypt cr key nonce aad data_key = Some (c, t)"
    and len: "length c = length data_key" "length t = TAG_BYTES" by blast
  then have "cr_decrypt cr key nonce aad c t = Some data_key"
    using crypto_okD(2) [OF assms(1)] by blast
  then show ?thesis
    using e len assms(2,5)
    by (intro that [of "c @ t"])
      (simp_all add: encrypt_data_key_def decrypt_data_key_def cipher_def WRAPPED_DATA_KEY_BYTES_def)
qed

lemma wrap_data_key_total:
  assumes cr: "crypto_ok cr" and b: "binding_ok b" and d: "descriptor_ok d" and k: "key_id_ok k"
    and len: "length nonce = NONCE_BYTES" "length data_key = SECRET_KEY_BYTES"
  obtains w where "wrap_data_key cr (binding_context b) d k master nonce data_key = Inr w"
    and "wrapped_key_ok w" and "wk_key_id w = k"
    and "\<And>ring e. kr_keys ring k = Some master \<Longrightarrow> env_wrapped_key e = w \<Longrightarrow> env_descriptor e = d \<Longrightarrow>
      unwrap_data_key cr ring (binding_context b) e = Inr data_key"
proof -
  obtain wk where wk: "derive_wrapping_key cr master (binding_context b) = Inr wk" "length wk = SECRET_KEY_BYTES"
    using derive_wrapping_key_total [OF cr b] .
  obtain c where c: "encrypt_data_key cr wk nonce (wrapping_aad_bytes b d k) data_key = Inr c"
    "length c = WRAPPED_DATA_KEY_BYTES"
    "decrypt_data_key cr wk nonce (wrapping_aad_bytes b d k) c = Inr data_key"
    using encrypt_data_key_total [OF cr wk(2) len(1) aad_sizes(1) [OF b d k] len(2)] .
  show ?thesis
    using wk c b d k len
    by (intro that [of "\<lparr>wk_key_id = k, wk_nonce = nonce, wk_encrypted_data_key = c\<rparr>"])
      (auto simp: wrap_data_key_def unwrap_data_key_def wrapping_aad_eq wrapped_key_ok_def Keyring_key_def Let_def)
qed

lemma encrypt_bytes_total:
  assumes cr: "crypto_ok cr" and "length key = SECRET_KEY_BYTES" and "length nonce = NONCE_BYTES"
    and "length aad < 2 ^ 32" and p: "length p \<le> MAX_PLAINTEXT_BYTES"
  obtains body where "encrypt_bytes cr key nonce aad p = Inr body" and "length body = length p + TAG_BYTES"
    and "decrypt_bytes cr key nonce aad body = Inr p"
proof -
  obtain c t where e: "cr_encrypt cr key nonce aad p = Some (c, t)"
    and len: "length c = length p" "length t = TAG_BYTES"
    using crypto_okD(1) [OF assms] by blast
  then have "cr_decrypt cr key nonce aad c t = Some p"
    using crypto_okD(2) [OF cr] by blast
  then show ?thesis
    using e len assms(2) p
    by (intro that [of "c @ t"])
      (simp_all add: encrypt_bytes_def decrypt_bytes_def cipher_def checked_add_def Let_def
        U64_MAX_def TAG_BYTES_def MAX_PLAINTEXT_BYTES_def)
qed

lemma seal_drawn_total:
  assumes cr: "crypto_ok cr" and b: "binding_ok b" and ring: "keyring_ok ring"
    and p: "length p \<le> MAX_PLAINTEXT_BYTES"
    and len: "length data_key = SECRET_KEY_BYTES" "length nonce = NONCE_BYTES" "length wnonce = NONCE_BYTES"
  obtains s where "seal_drawn cr ring (binding_context b) p data_key nonce wnonce = Inr s"
    and "sealed_ok s" and "wk_key_id (env_wrapped_key (sp_envelope s)) = kr_current_id ring"
    and "length (sp_ciphertext s) = length p + TAG_BYTES"
    and "\<And>ring'. kr_keys ring' (kr_current_id ring) = kr_keys ring (kr_current_id ring) \<Longrightarrow>
      at_rest_open cr ring' (binding_context b) s = Inr p"
proof -
  let ?d = "ContentDescriptor_new nonce" and ?k = "kr_current_id ring"
  have d: "descriptor_ok ?d" "cd_payload_nonce ?d = nonce"
    using len by (simp_all add: descriptor_ok_def ContentDescriptor_new_def)
  obtain master where m: "kr_keys ring ?k = Some master" and k: "key_id_ok ?k"
    using ring by (auto simp: keyring_ok_def)
  obtain body where body: "encrypt_bytes cr data_key nonce (payload_aad_bytes b ?d) p = Inr body"
    "length body = length p + TAG_BYTES" "decrypt_bytes cr data_key nonce (payload_aad_bytes b ?d) body = Inr p"
    using encrypt_bytes_total [OF cr len(1,2) aad_sizes(2) [OF b d(1)] p] .
  obtain w where w: "wrap_data_key cr (binding_context b) ?d ?k master wnonce data_key = Inr w"
    "wrapped_key_ok w" "wk_key_id w = ?k"
    "\<And>ring e. kr_keys ring ?k = Some master \<Longrightarrow> env_wrapped_key e = w \<Longrightarrow> env_descriptor e = ?d \<Longrightarrow>
      unwrap_data_key cr ring (binding_context b) e = Inr data_key"
    using wrap_data_key_total [OF cr b d(1) k len(3,1), of master] by blast
  have size: "\<not> length body < TAG_BYTES" "\<not> MAX_BODY_BYTES < length body"
    using body(2) p by (simp_all add: MAX_BODY_BYTES_def)
  let ?s = "\<lparr>sp_envelope = \<lparr>env_descriptor = ?d, env_wrapped_key = w\<rparr>, sp_ciphertext = body\<rparr>"
  show ?thesis
  proof (rule that [of ?s])
    show "seal_drawn cr ring (binding_context b) p data_key nonce wnonce = Inr ?s"
      using body(1) w(1) m b d(2) size
      by (simp add: seal_drawn_def payload_aad_eq Let_def Keyring_current_key_def Keyring_key_def
          SealedPayload_from_parts_def validate_body_def validate_body_length_def Envelope_from_parts_def)
    show "sealed_ok ?s"
      using d(1) w(2) size by (simp add: sealed_ok_def envelope_ok_def)
    show "at_rest_open cr ring' (binding_context b) ?s = Inr p"
      if "kr_keys ring' ?k = kr_keys ring ?k" for ring'
      using that m b d(2) body(3) by (simp add: at_rest_open_def payload_aad_eq w(4) Let_def)
  qed (use w(3) body(2) in simp_all)
qed

section \<open>What the at-rest operations guarantee\<close>

lemma random_draw_eq:
  "random_draw cr random n = (r, random') \<longleftrightarrow>
     (\<exists>bs. cr_fill cr random n = (Some bs, random') \<and> r = Inr bs) \<or>
     (cr_fill cr random n = (None, random') \<and> r = Inl (Failure RandomnessUnavailable))"
  by (auto simp: random_draw_def split: prod.splits option.splits)

lemma rand_bind_eq:
  "rand_bind m f = (r, random') \<longleftrightarrow>
     (\<exists>e. m = (Inl e, random') \<and> r = Inl e) \<or> (\<exists>x random. m = (Inr x, random) \<and> f x random = (r, random'))"
  by (auto simp: rand_bind_def split: prod.splits sum.splits)

lemma at_rest_seal_cases:
  assumes "at_rest_seal cr ring ctx p random = (r, random')"
  shows "r = Inl (Failure PlaintextTooLarge) \<and> MAX_PLAINTEXT_BYTES < length p \<or>
     r = Inl (Failure RandomnessUnavailable) \<and> (\<exists>q n. fst (cr_fill cr q n) = None) \<or>
     length p \<le> MAX_PLAINTEXT_BYTES \<and>
     (\<exists>dk pn wn q q'. r = seal_drawn cr ring ctx p dk pn wn \<and>
        cr_fill cr random SECRET_KEY_BYTES = (Some dk, q) \<and> cr_fill cr q NONCE_BYTES = (Some pn, q') \<and>
        cr_fill cr q' NONCE_BYTES = (Some wn, random'))"
proof (cases "MAX_PLAINTEXT_BYTES < length p")
  case True
  then show ?thesis using assms by (simp add: at_rest_seal_def)
next
  case False
  have none: "\<exists>q n. fst (cr_fill cr q n) = None" if "cr_fill cr q n = (None, q')" for q n q'
    using that by (metis fst_conv)
  show ?thesis
    using assms False none by (auto simp: at_rest_seal_def rand_bind_eq random_draw_eq)
qed

lemma at_rest_seal_result:
  assumes cr: "crypto_ok cr" and b: "binding_ok b" and kr: "keyring_ok ring"
    and seal: "at_rest_seal cr ring (binding_context b) p random = (r, random')"
  obtains (failed) e where "r = Inl e"
      "e = Failure PlaintextTooLarge \<and> MAX_PLAINTEXT_BYTES < length p \<or>
        e = Failure RandomnessUnavailable \<and> (\<exists>q n. fst (cr_fill cr q n) = None)"
    | (sealed) sealed where "r = Inr sealed" "length p \<le> MAX_PLAINTEXT_BYTES" "sealed_ok sealed"
      "wk_key_id (env_wrapped_key (sp_envelope sealed)) = kr_current_id ring"
      "length (sp_ciphertext sealed) = length p + TAG_BYTES"
      "\<And>ring'. kr_keys ring' (kr_current_id ring) = kr_keys ring (kr_current_id ring) \<Longrightarrow>
        at_rest_open cr ring' (binding_context b) sealed = Inr p"
proof -
  consider (fail) e where "r = Inl e"
      "e = Failure PlaintextTooLarge \<and> MAX_PLAINTEXT_BYTES < length p \<or>
        e = Failure RandomnessUnavailable \<and> (\<exists>q n. fst (cr_fill cr q n) = None)"
    | (drawn) dk pn wn where "r = seal_drawn cr ring (binding_context b) p dk pn wn"
      "length p \<le> MAX_PLAINTEXT_BYTES"
      "length dk = SECRET_KEY_BYTES" "length pn = NONCE_BYTES" "length wn = NONCE_BYTES"
    using at_rest_seal_cases [OF seal] crypto_okD(4) [OF cr] by (elim disjE conjE exE) (simp_all, blast)
  then show thesis
  proof cases
    case fail
    then show thesis by (rule failed)
  next
    case drawn
    obtain s where "r = Inr s" "sealed_ok s" "wk_key_id (env_wrapped_key (sp_envelope s)) = kr_current_id ring"
      "length (sp_ciphertext s) = length p + TAG_BYTES"
      "\<And>ring'. kr_keys ring' (kr_current_id ring) = kr_keys ring (kr_current_id ring) \<Longrightarrow>
        at_rest_open cr ring' (binding_context b) s = Inr p"
      using seal_drawn_total [OF cr b kr drawn(2-5)] drawn(1) by metis
    with drawn(2) show thesis by (intro sealed)
  qed
qed

lemma at_rest_setup:
  assumes "Context_make b = Inr ctx" and "KeyId_new s = Inr current_id" and "Keyring_new current_id entries = Inr ring"
  shows "binding_ok b" and "ctx = binding_context b" and "keyring_ok ring"
    and "kr_current_id ring = current_id" and "key_id_ok current_id"
  using assms Keyring_new_ok [OF assms(3)]
  by (auto simp: Context_make_eq KeyId_new_eq Keyring_new_eq split: if_splits)

text \<open>
  C18: what is sealed can be stored and opened again. With working cryptographic providers, a valid
  binding and a key ring, sealing fails only for an oversized plaintext or for lack of randomness, and
  never panics. Otherwise the payload is wrapped under the current key, has an encoding, and decoding
  that encoding and opening it under the same binding with any key ring that still holds this key
  yields the plaintext.
\<close>

theorem at_rest_seal_opens:
  assumes cr: "crypto_ok cr" and ctx: "Context_make b = Inr ctx" and id: "KeyId_new s = Inr current_id"
    and ring: "Keyring_new current_id entries = Inr ring"
  shows "case at_rest_seal cr ring ctx p random of
      (Inl e, _) \<Rightarrow> e = Failure PlaintextTooLarge \<and> MAX_PLAINTEXT_BYTES < length p \<or>
        e = Failure RandomnessUnavailable \<and> (\<exists>q n. fst (cr_fill cr q n) = None)
    | (Inr sealed, _) \<Rightarrow>
        length p \<le> MAX_PLAINTEXT_BYTES \<and> wk_key_id (env_wrapped_key (sp_envelope sealed)) = current_id \<and>
        length (sp_ciphertext sealed) = length p + TAG_BYTES \<and>
        (\<exists>bs. SealedPayload_encode sealed = Some bs \<and>
          (\<forall>ring'. kr_keys ring' current_id = kr_keys ring current_id \<longrightarrow>
             try_bind (map_err Failure (SealedPayload_decode bs)) (at_rest_open cr ring' ctx) = Inr p))"
proof -
  note b = at_rest_setup(1,2) [OF ctx id ring] and kr = at_rest_setup(3) [OF ctx id ring]
    and cur = at_rest_setup(4) [OF ctx id ring]
  obtain r random' where seal: "at_rest_seal cr ring (binding_context b) p random = (r, random')"
    by (cases "at_rest_seal cr ring (binding_context b) p random")
  show ?thesis
  proof (cases rule: at_rest_seal_result [OF cr b(1) kr seal, case_names failed sealed])
    case (failed e)
    then show ?thesis using seal b(2) by auto
  next
    case (sealed sealed)
    obtain bs where "SealedPayload_encode sealed = Some bs" "SealedPayload_decode bs = Inr sealed"
      using sealed_codec.canonical sealed(3) by blast
    then show ?thesis
      using sealed seal unfolding b(2) cur by auto
  qed
qed

lemma unwrap_data_key_length:
  assumes cr: "crypto_ok cr" and env: "envelope_ok envelope" and "unwrap_data_key cr ring ctx envelope = Inr dk"
  shows "length dk = SECRET_KEY_BYTES"
proof -
  let ?w = "wk_encrypted_data_key (env_wrapped_key envelope)"
  obtain key nonce aad where
    "cr_decrypt cr key nonce aad (take SECRET_KEY_BYTES ?w) (drop SECRET_KEY_BYTES ?w) = Some dk"
    using assms(3) by (auto simp: unwrap_data_key_def decrypt_data_key_def Let_def try_bind_eq_Inr ok_or_eq_Inr)
  then have "length (take SECRET_KEY_BYTES ?w) = length dk"
    using crypto_okD(2,5) [OF cr] by blast
  moreover have "length ?w = WRAPPED_DATA_KEY_BYTES"
    using env by (simp add: envelope_ok_def wrapped_key_ok_def)
  ultimately show ?thesis by (simp add: WRAPPED_DATA_KEY_BYTES_def)
qed

lemma rewrap_new_wrapper:
  assumes cr: "crypto_ok cr" and b: "binding_ok b" and kr: "keyring_ok ring" and env: "envelope_ok envelope"
    and unwrap: "unwrap_data_key cr ring (binding_context b) envelope = Inr dk"
    and old: "wk_key_id (env_wrapped_key envelope) \<noteq> kr_current_id ring"
    and fill: "cr_fill cr random NONCE_BYTES = (Some wn, random')"
  obtains w where "at_rest_rewrap_envelope cr ring (binding_context b) envelope random =
      (Inr (with_wrapped_key w envelope), random')"
    and "wrapped_key_ok w" and "wk_key_id w = kr_current_id ring"
    and "\<And>ring' e. kr_keys ring' (kr_current_id ring) = kr_keys ring (kr_current_id ring) \<Longrightarrow>
      env_wrapped_key e = w \<Longrightarrow> env_descriptor e = env_descriptor envelope \<Longrightarrow>
      unwrap_data_key cr ring' (binding_context b) e = Inr dk"
proof -
  obtain master where m: "kr_keys ring (kr_current_id ring) = Some master" and k: "key_id_ok (kr_current_id ring)"
    using kr by (auto simp: keyring_ok_def)
  have d: "descriptor_ok (env_descriptor envelope)"
    using env by (simp add: envelope_ok_def)
  obtain w where w: "wrap_data_key cr (binding_context b) (env_descriptor envelope) (kr_current_id ring) master wn dk = Inr w"
    "wrapped_key_ok w" "wk_key_id w = kr_current_id ring"
    "\<And>ring' e. kr_keys ring' (kr_current_id ring) = Some master \<Longrightarrow> env_wrapped_key e = w \<Longrightarrow>
      env_descriptor e = env_descriptor envelope \<Longrightarrow> unwrap_data_key cr ring' (binding_context b) e = Inr dk"
    using wrap_data_key_total [OF cr b d k crypto_okD(4) [OF cr fill] unwrap_data_key_length [OF cr env unwrap],
        of master] by blast
  show ?thesis
    using unwrap old fill m w
    by (intro that [of w]) (simp_all add: at_rest_rewrap_envelope_def at_rest_rewrap_def rand_bind_def
        random_draw_def Keyring_current_key_def Keyring_key_def)
qed

text \<open>
  C19: rewrapping replaces only the wrapper. For a valid envelope, rewrapping fails only as unwrapping
  itself fails (before any randomness is drawn) or for lack of randomness; a wrapper that is already
  current is returned unchanged without drawing; and the new envelope has the descriptor of the old
  one, names the current key, and opens every body to exactly what the old envelope opened it to,
  also under a key ring from which the old key has been removed.
\<close>

theorem at_rest_rewrap_keeps_payload:
  assumes cr: "crypto_ok cr" and ctx: "Context_make b = Inr ctx" and id: "KeyId_new s = Inr current_id"
    and ring: "Keyring_new current_id entries = Inr ring" and env: "envelope_ok envelope"
  shows "case at_rest_rewrap_envelope cr ring ctx envelope random of
      (Inl e, random') \<Rightarrow> unwrap_data_key cr ring ctx envelope = Inl e \<and> random' = random \<or>
        e = Failure RandomnessUnavailable \<and> fst (cr_fill cr random NONCE_BYTES) = None
    | (Inr envelope', random') \<Rightarrow>
        env_descriptor envelope' = env_descriptor envelope \<and> envelope_ok envelope' \<and>
        wk_key_id (env_wrapped_key envelope') = current_id \<and>
        (wk_key_id (env_wrapped_key envelope) = current_id \<longrightarrow> envelope' = envelope \<and> random' = random) \<and>
        (\<forall>body ring'. kr_keys ring' current_id = kr_keys ring current_id \<longrightarrow>
           at_rest_open cr ring' ctx \<lparr>sp_envelope = envelope', sp_ciphertext = body\<rparr> =
           at_rest_open cr ring ctx \<lparr>sp_envelope = envelope, sp_ciphertext = body\<rparr>)"
proof (cases "unwrap_data_key cr ring ctx envelope")
  case (Inl e)
  then show ?thesis
    by (simp add: at_rest_rewrap_envelope_def at_rest_rewrap_def)
next
  case (Inr dk)
  note b = at_rest_setup(1,2) [OF ctx id ring] and kr = at_rest_setup(3) [OF ctx id ring]
    and cur = at_rest_setup(4) [OF ctx id ring]
  consider (current) "wk_key_id (env_wrapped_key envelope) = current_id"
    | (failed) random' where "wk_key_id (env_wrapped_key envelope) \<noteq> current_id"
        "cr_fill cr random NONCE_BYTES = (None, random')"
    | (drawn) wn random' where "wk_key_id (env_wrapped_key envelope) \<noteq> kr_current_id ring"
        "cr_fill cr random NONCE_BYTES = (Some wn, random')"
    using cur by (cases "cr_fill cr random NONCE_BYTES"; cases "fst (cr_fill cr random NONCE_BYTES)") auto
  then show ?thesis
  proof cases
    case current
    then have "at_rest_rewrap_envelope cr ring ctx envelope random = (Inr envelope, random)"
      using Inr by (simp add: at_rest_rewrap_envelope_def at_rest_rewrap_def cur with_wrapped_key_def)
    then show ?thesis
      using env current by (simp add: at_rest_open_def unwrap_data_key_def Keyring_key_def Let_def)
  next
    case failed
    then show ?thesis
      using Inr by (simp add: at_rest_rewrap_envelope_def at_rest_rewrap_def cur rand_bind_def random_draw_def)
  next
    case drawn
    obtain w where w: "at_rest_rewrap_envelope cr ring ctx envelope random = (Inr (with_wrapped_key w envelope), random')"
      "wrapped_key_ok w" "wk_key_id w = current_id"
      "\<And>ring' e. kr_keys ring' current_id = kr_keys ring current_id \<Longrightarrow> env_wrapped_key e = w \<Longrightarrow>
        env_descriptor e = env_descriptor envelope \<Longrightarrow> unwrap_data_key cr ring' ctx e = Inr dk"
      using rewrap_new_wrapper [OF cr b(1) kr env Inr [unfolded b(2)] drawn] unfolding b(2) cur by blast
    show ?thesis
      unfolding w(1) using drawn(1) w(2,3) env Inr cur
      by (simp add: with_wrapped_key_def envelope_ok_def at_rest_open_def w(4) Let_def)
  qed
qed

lemma unwrap_data_key_aad:
  assumes "binding_ok b" and "envelope_ok e" and "unwrap_data_key cr ring (binding_context b) e = Inr dk"
  obtains master key where "kr_keys ring (wk_key_id (env_wrapped_key e)) = Some master"
    and "derive_wrapping_key cr master (binding_context b) = Inr key"
    and "cr_decrypt cr key (wk_nonce (env_wrapped_key e))
      (wrapping_aad_bytes b (env_descriptor e) (wk_key_id (env_wrapped_key e)))
      (take SECRET_KEY_BYTES (wk_encrypted_data_key (env_wrapped_key e)))
      (drop SECRET_KEY_BYTES (wk_encrypted_data_key (env_wrapped_key e))) = Some dk"
proof -
  have aad: "wrapping_aad (binding_context b) (env_descriptor e) (wk_key_id (env_wrapped_key e)) =
      Inr (wrapping_aad_bytes b (env_descriptor e) (wk_key_id (env_wrapped_key e)))"
    using assms(1,2) by (intro wrapping_aad_eq) (simp_all add: envelope_ok_def wrapped_key_ok_def)
  show ?thesis
    using assms(3) that
    by (cases "kr_keys ring (wk_key_id (env_wrapped_key e))")
      (auto simp: unwrap_data_key_def aad decrypt_data_key_def cipher_def Let_def Keyring_key_def
        try_bind_eq_Inr ok_or_eq_Inr split: if_splits)
qed

lemma open_unwraps: "at_rest_open cr ring ctx s = Inr p \<Longrightarrow> \<exists>dk. unwrap_data_key cr ring ctx (sp_envelope s) = Inr dk"
  by (auto simp: at_rest_open_def Let_def try_bind_eq_Inr)

text \<open>
  A forgery against the authenticated cipher, with the evidence in hand: the encrypted data key and tag
  of a wrapper come from the encryption under \<open>key\<close> with the associated data \<open>aad\<close>, and decryption
  under \<open>key'\<close> accepts them with associated data that was never authenticated.
\<close>

definition aead_forgery :: "'r crypto \<Rightarrow> wrapped_key \<Rightarrow> bytes \<Rightarrow> bytes \<Rightarrow> bytes \<Rightarrow> bytes \<Rightarrow> bool" where
  "aead_forgery cr w key aad key' aad' \<longleftrightarrow>
     (let c = take SECRET_KEY_BYTES (wk_encrypted_data_key w); t = drop SECRET_KEY_BYTES (wk_encrypted_data_key w)
      in aad' \<noteq> aad \<and> (\<exists>dk. cr_encrypt cr key (wk_nonce w) aad dk = Some (c, t)) \<and>
         (\<exists>dk'. cr_decrypt cr key' (wk_nonce w) aad' c t = Some dk'))"

text \<open>
  C17: a sealed value is bound to its context. Take the wrapper of a sealed value, and let any
  well-formed record that carries this wrapper (its nonce and its encrypted data key) be opened
  successfully, with any key ring and under any context. Then the context was made from exactly the
  same namespace, purpose, owner, resource or tenant and payload schema and by the same kind of
  binding, the record has the same descriptor and it names the same key; or the opening is itself a
  forgery against the cipher: the key derived for the opening accepted the wrapper with associated
  data other than the one it was encrypted with under the key derived for the seal. No secrecy or
  authenticity of the cipher is assumed: a wrapper that opens in another row, tenant, purpose, record
  or under another key identifier exhibits the two keys and the two associated data.
\<close>

theorem at_rest_context_binding:
  assumes cr: "crypto_ok cr" and ctx: "Context_make b = Inr ctx" and id: "KeyId_new s = Inr current_id"
    and ring: "Keyring_new current_id entries = Inr ring"
    and seal: "at_rest_seal cr ring ctx p random = (Inr sealed, random')"
    and ctx': "Context_make b' = Inr ctx'" and other: "envelope_ok (sp_envelope other)"
    and nonce: "wk_nonce (env_wrapped_key (sp_envelope other)) = wk_nonce (env_wrapped_key (sp_envelope sealed))"
    and body: "wk_encrypted_data_key (env_wrapped_key (sp_envelope other)) =
      wk_encrypted_data_key (env_wrapped_key (sp_envelope sealed))"
    and opened: "at_rest_open cr ring' ctx' other = Inr q"
  shows "b' = b \<and> env_descriptor (sp_envelope other) = env_descriptor (sp_envelope sealed) \<and>
      wk_key_id (env_wrapped_key (sp_envelope other)) = current_id \<or>
    (\<exists>master master' key key'.
       kr_keys ring current_id = Some master \<and> derive_wrapping_key cr master ctx = Inr key \<and>
       kr_keys ring' (wk_key_id (env_wrapped_key (sp_envelope other))) = Some master' \<and>
       derive_wrapping_key cr master' ctx' = Inr key' \<and>
       aead_forgery cr (env_wrapped_key (sp_envelope sealed))
         key (wrapping_aad_bytes b (env_descriptor (sp_envelope sealed)) current_id)
         key' (wrapping_aad_bytes b' (env_descriptor (sp_envelope other))
           (wk_key_id (env_wrapped_key (sp_envelope other)))))"
proof -
  note b = at_rest_setup(1,2) [OF ctx id ring] and kr = at_rest_setup(3) [OF ctx id ring]
    and cur = at_rest_setup(4) [OF ctx id ring]
  have b': "binding_ok b'" "ctx' = binding_context b'"
    using at_rest_setup(1,2) [OF ctx' id ring] .
  have s: "sealed_ok sealed" "wk_key_id (env_wrapped_key (sp_envelope sealed)) = current_id"
    "at_rest_open cr ring ctx sealed = Inr p"
    using at_rest_seal_result [OF cr b(1) kr seal [unfolded b(2)]] unfolding cur b(2) by auto
  let ?e = "sp_envelope sealed" and ?f = "sp_envelope other"
  let ?aad = "wrapping_aad_bytes b (env_descriptor ?e) current_id"
    and ?aad' = "wrapping_aad_bytes b' (env_descriptor ?f) (wk_key_id (env_wrapped_key ?f))"
  have ok: "envelope_ok ?e" using s(1) by (simp add: sealed_ok_def)
  obtain dk where "unwrap_data_key cr ring (binding_context b) ?e = Inr dk"
    using open_unwraps s(3) b(2) by blast
  then obtain master key where one: "kr_keys ring current_id = Some master"
      "derive_wrapping_key cr master ctx = Inr key"
      "cr_decrypt cr key (wk_nonce (env_wrapped_key ?e)) ?aad
        (take SECRET_KEY_BYTES (wk_encrypted_data_key (env_wrapped_key ?e)))
        (drop SECRET_KEY_BYTES (wk_encrypted_data_key (env_wrapped_key ?e))) = Some dk"
    using unwrap_data_key_aad [OF b(1) ok] s(2) b(2) by metis
  obtain dk' where "unwrap_data_key cr ring' (binding_context b') ?f = Inr dk'"
    using open_unwraps opened b'(2) by blast
  then obtain master' key' where two: "kr_keys ring' (wk_key_id (env_wrapped_key ?f)) = Some master'"
      "derive_wrapping_key cr master' ctx' = Inr key'"
      "cr_decrypt cr key' (wk_nonce (env_wrapped_key ?e)) ?aad'
        (take SECRET_KEY_BYTES (wk_encrypted_data_key (env_wrapped_key ?e)))
        (drop SECRET_KEY_BYTES (wk_encrypted_data_key (env_wrapped_key ?e))) = Some dk'"
    using unwrap_data_key_aad [OF b'(1) other] nonce body b'(2) by metis
  show ?thesis
  proof (cases "?aad' = ?aad")
    case True
    with wrapping_aad_inject [OF b'(1) _ _ b(1) _ _ True] other ok s(2) show ?thesis
      by (auto simp: envelope_ok_def wrapped_key_ok_def)
  next
    case False
    then have "aead_forgery cr (env_wrapped_key ?e) key ?aad key' ?aad'"
      using one(3) two(3) crypto_okD(2) [OF cr] unfolding aead_forgery_def Let_def by blast
    with one(1,2) two(1,2) show ?thesis by blast
  qed
qed

section \<open>Concrete instances\<close>

text \<open>
  A toy provider that satisfies the promises: it leaves the plaintext as it is, and its tag tells one
  chosen associated data from all others.
\<close>

definition sample_tag :: "bytes \<Rightarrow> bytes \<Rightarrow> bytes" where
  "sample_tag aad0 aad = replicate 16 (if aad = aad0 then 1 else 0)"

lemma length_sample_tag [simp]: "length (sample_tag aad0 aad) = 16"
  by (simp add: sample_tag_def)

definition sample_crypto :: "bytes \<Rightarrow> nat crypto" where
  "sample_crypto aad0 =
     \<lparr>cr_encrypt = (\<lambda>key nonce aad p. Some (p, sample_tag aad0 aad)),
      cr_decrypt = (\<lambda>key nonce aad c t. if t = sample_tag aad0 aad then Some c else None),
      cr_hkdf = (\<lambda>salt ikm info n. Some (replicate n 0)), cr_hmac = (\<lambda>key m. replicate 32 0),
      cr_fill = (\<lambda>random n. (Some (replicate n 5), random + 1))\<rparr>"

lemma sample_crypto_simps [simp]:
  "cr_encrypt (sample_crypto aad0) key nonce aad p = Some (p, sample_tag aad0 aad)"
  "cr_decrypt (sample_crypto aad0) key nonce aad c t = (if t = sample_tag aad0 aad then Some c else None)"
  "cr_hkdf (sample_crypto aad0) salt ikm info n = Some (replicate n 0)"
  "cr_fill (sample_crypto aad0) q n = (Some (replicate n 5), q + 1)"
  by (simp_all add: sample_crypto_def)

lemma sample_crypto_ok: "crypto_ok (sample_crypto aad0)"
  by (auto simp: crypto_ok_def sample_tag_def TAG_BYTES_def)

definition sample_binding :: at_rest_binding where
  "sample_binding = RowBinding (lit ''app'') (lit ''record'') [1] [2] (lit ''v1'')"

lemma sample_binding_make: "Context_make sample_binding = Inr (binding_context sample_binding)"
  by (simp add: Context_make_eq sample_binding_def label_ok_def component_ok_def validate_label_def
      validate_binding_def label_byte_def str_len_def utf8_char_def lit_def is_ascii_lowercase_def
      is_ascii_digit_def MAX_CONTEXT_LABEL_BYTES_def MAX_BINDING_COMPONENT_BYTES_def)

definition sample_key_id :: key_id where "sample_key_id = KeyId (lit ''k1'')"
definition sample_next_id :: key_id where "sample_next_id = KeyId (lit ''k2'')"

lemma sample_key_ids: "KeyId_new (lit ''k1'') = Inr sample_key_id" "KeyId_new (lit ''k2'') = Inr sample_next_id"
  by (simp_all add: sample_key_id_def sample_next_id_def KeyId_new_def key_id_byte_def str_len_def utf8_char_def
      lit_def is_ascii_alphanumeric_def is_ascii_digit_def is_ascii_uppercase_def is_ascii_lowercase_def
      MAX_KEY_ID_BYTES_def)

definition sample_keys :: "(key_id \<times> secret_key) list" where
  "sample_keys = [(sample_key_id, SecretKey (replicate 32 7)), (sample_next_id, SecretKey (replicate 32 9))]"

definition sample_ring :: "key_id \<Rightarrow> keyring" where
  "sample_ring current_id = \<lparr>kr_current_id = current_id, kr_keys = map_of sample_keys\<rparr>"

lemma sample_ring_new:
  "Keyring_new sample_key_id sample_keys = Inr (sample_ring sample_key_id)"
  "Keyring_new sample_next_id sample_keys = Inr (sample_ring sample_next_id)"
  by (simp_all add: Keyring_new_eq sample_ring_def sample_keys_def sample_key_id_def sample_next_id_def lit_def)

lemma sample_ring_simps [simp]:
  "kr_keys (sample_ring k) = map_of sample_keys" "kr_current_id (sample_ring k) = k"
  by (simp_all add: sample_ring_def)

lemma sample_fill: "fst (cr_fill (sample_crypto aad0) q n) \<noteq> None"
  by simp

lemma sample_valid: "binding_ok sample_binding" "key_id_ok sample_key_id" "key_id_ok sample_next_id"
  using sample_binding_make sample_key_ids by (auto simp: Context_make_eq KeyId_new_eq split: if_splits)

definition sample_payload :: "bytes \<Rightarrow> bytes \<Rightarrow> sealed_payload" where
  "sample_payload aad0 p =
     (let d = ContentDescriptor_new (replicate 12 5)
      in \<lparr>sp_envelope = \<lparr>env_descriptor = d,
            env_wrapped_key = \<lparr>wk_key_id = sample_key_id, wk_nonce = replicate 12 5,
              wk_encrypted_data_key = replicate 32 5 @ sample_tag aad0 (wrapping_aad_bytes sample_binding d sample_key_id)\<rparr>\<rparr>,
          sp_ciphertext = p @ sample_tag aad0 (payload_aad_bytes sample_binding d)\<rparr>)"

lemma sample_derive:
  "derive_wrapping_key (sample_crypto aad0) master (binding_context sample_binding) = Inr (replicate 32 0)"
  using sample_valid
  by (simp add: derive_wrapping_key_def push_frame_eq context_fields context_sizes
      context_sizes(3) [unfolded One_nat_def] SECRET_KEY_BYTES_def)

lemma sample_descriptor: "descriptor_ok (ContentDescriptor_new (replicate 12 5))"
  by (simp add: descriptor_ok_def ContentDescriptor_new_def NONCE_BYTES_def)

lemma sample_seal:
  "at_rest_seal (sample_crypto aad0) (sample_ring sample_key_id) (binding_context sample_binding) [1, 2, 3] 0 =
     (Inr (sample_payload aad0 [1, 2, 3]), 3)"
proof -
  let ?d = "ContentDescriptor_new (replicate 12 5)"
  have wrap: "wrap_data_key (sample_crypto aad0) (binding_context sample_binding) ?d sample_key_id
      (SecretKey (replicate 32 7)) (replicate 12 5) (replicate 32 5) =
      Inr (env_wrapped_key (sp_envelope (sample_payload aad0 [1, 2, 3])))"
    using wrapping_aad_eq [OF sample_valid(1,2) sample_descriptor]
    by (simp add: wrap_data_key_def sample_derive encrypt_data_key_def cipher_def sample_payload_def Let_def
        SECRET_KEY_BYTES_def)
  have encrypt: "encrypt_bytes (sample_crypto aad0) (replicate 32 5) (replicate 12 5)
      (payload_aad_bytes sample_binding ?d) [1, 2, 3] = Inr (sp_ciphertext (sample_payload aad0 [1, 2, 3]))"
    by (simp add: encrypt_bytes_def cipher_def checked_add_def U64_MAX_def TAG_BYTES_def
        SECRET_KEY_BYTES_def sample_payload_def Let_def)
  have draw: "random_draw (sample_crypto aad0) q n = (Inr (replicate n 5), q + 1)" for q n
    by (simp add: random_draw_def)
  have nonce: "cd_payload_nonce ?d = replicate 12 5"
    by (simp add: ContentDescriptor_new_def)
  have ring: "Keyring_current_key (sample_ring sample_key_id) = Inr (SecretKey (replicate 32 7))"
    by (simp add: Keyring_current_key_def Keyring_key_def sample_ring_def sample_keys_def)
  have drawn: "seal_drawn (sample_crypto aad0) (sample_ring sample_key_id) (binding_context sample_binding) [1, 2, 3]
      (replicate 32 5) (replicate 12 5) (replicate 12 5) = Inr (sample_payload aad0 [1, 2, 3])"
    using wrap encrypt
    by (simp add: seal_drawn_def payload_aad_eq sample_valid ring nonce Let_def
        SealedPayload_from_parts_def validate_body_def validate_body_length_def sample_payload_def
        Envelope_from_parts_def MAX_BODY_BYTES_def MAX_PLAINTEXT_BYTES_def TAG_BYTES_def)
  show ?thesis
    by (simp add: at_rest_seal_def draw rand_bind_def SECRET_KEY_BYTES_def NONCE_BYTES_def drawn
        MAX_PLAINTEXT_BYTES_def)
qed

theorem at_rest_seal_opens_witness:
  "\<exists>sealed bs. at_rest_seal (sample_crypto []) (sample_ring sample_key_id) (binding_context sample_binding) [1, 2, 3] 0 =
       (Inr sealed, 3) \<and> SealedPayload_encode sealed = Some bs \<and>
     try_bind (map_err Failure (SealedPayload_decode bs))
       (at_rest_open (sample_crypto []) (sample_ring sample_next_id) (binding_context sample_binding)) = Inr [1, 2, 3]"
  using at_rest_seal_opens [OF sample_crypto_ok [of "[]"] sample_binding_make sample_key_ids(1) sample_ring_new(1),
      where p = "[1, 2, 3]" and random = 0]
  by (auto simp: sample_seal)

definition sample_aad :: bytes where
  "sample_aad = wrapping_aad_bytes sample_binding (ContentDescriptor_new (replicate 12 5)) sample_key_id"

lemma sample_payload_wrapper:
  "env_wrapped_key (sp_envelope (sample_payload sample_aad p)) =
     \<lparr>wk_key_id = sample_key_id, wk_nonce = replicate 12 5, wk_encrypted_data_key = replicate 32 5 @ replicate 16 1\<rparr>"
  by (simp add: sample_payload_def Let_def sample_aad_def sample_tag_def)

lemma sample_payload_envelope: "envelope_ok (sp_envelope (sample_payload sample_aad p))"
  using sample_descriptor sample_valid(2)
  by (simp add: envelope_ok_def wrapped_key_ok_def sample_payload_wrapper at_rest_limits)
    (simp add: sample_payload_def Let_def)

text \<open>The wrapper of the sample, whose tag stands for its own associated data, cannot be forged.\<close>

lemma sample_unforged:
  "\<not> aead_forgery (sample_crypto sample_aad) (env_wrapped_key (sp_envelope (sample_payload sample_aad p)))
     key sample_aad key' aad'"
  by (auto simp: aead_forgery_def sample_payload_wrapper SECRET_KEY_BYTES_def sample_tag_def Let_def split: if_splits)

lemma sample_payload_descriptor:
  "wrapping_aad_bytes sample_binding (env_descriptor (sp_envelope (sample_payload sample_aad p))) sample_key_id = sample_aad"
  by (simp add: sample_payload_def Let_def sample_aad_def)

lemma sample_open:
  "at_rest_open (sample_crypto sample_aad) (sample_ring sample_next_id) (binding_context sample_binding)
     (sample_payload sample_aad [1, 2, 3]) = Inr [1, 2, 3]"
proof (cases rule: at_rest_seal_result [OF sample_crypto_ok sample_valid(1)
      at_rest_setup(3) [OF sample_binding_make sample_key_ids(1) sample_ring_new(1)] sample_seal [of sample_aad],
      case_names failed sealed])
  case (sealed s)
  show ?thesis
    using sealed(6) [of "sample_ring sample_next_id"] sealed(1) by simp
qed simp

definition sample_other_binding :: at_rest_binding where
  "sample_other_binding = TenantTokenBinding (lit ''app'') (lit ''record'') [1] (lit ''v1'')"

lemma sample_other_make: "Context_make sample_other_binding = Inr (binding_context sample_other_binding)"
  using sample_valid(1) by (simp add: Context_make_eq sample_other_binding_def sample_binding_def)

theorem at_rest_context_binding_witness:
  "at_rest_open (sample_crypto sample_aad) (sample_ring sample_next_id) (binding_context sample_binding)
     (sample_payload sample_aad [1, 2, 3]) = Inr [1, 2, 3] \<and>
   wk_key_id (env_wrapped_key (sp_envelope (sample_payload sample_aad [1, 2, 3]))) = sample_key_id \<and>
   at_rest_open (sample_crypto sample_aad) (sample_ring sample_next_id) (binding_context sample_other_binding)
     (sample_payload sample_aad [1, 2, 3]) \<noteq> Inr [1, 2, 3]"
proof (intro conjI notI)
  note bound = at_rest_context_binding [OF sample_crypto_ok sample_binding_make sample_key_ids(1) sample_ring_new(1)
      sample_seal _ sample_payload_envelope refl refl, unfolded sample_payload_descriptor]
  show "at_rest_open (sample_crypto sample_aad) (sample_ring sample_next_id) (binding_context sample_binding)
     (sample_payload sample_aad [1, 2, 3]) = Inr [1, 2, 3]"
    by (rule sample_open)
  show "wk_key_id (env_wrapped_key (sp_envelope (sample_payload sample_aad [1, 2, 3]))) = sample_key_id"
    using bound [OF sample_binding_make sample_open] sample_unforged by blast
  assume "at_rest_open (sample_crypto sample_aad) (sample_ring sample_next_id)
      (binding_context sample_other_binding) (sample_payload sample_aad [1, 2, 3]) = Inr [1, 2, 3]"
  from bound [OF sample_other_make this] sample_unforged have "sample_other_binding = sample_binding" by blast
  then show False by (simp add: sample_other_binding_def sample_binding_def)
qed

theorem at_rest_rewrap_keeps_payload_witness:
  "\<exists>envelope'. fst (at_rest_rewrap_envelope (sample_crypto sample_aad) (sample_ring sample_next_id)
       (binding_context sample_binding) (sp_envelope (sample_payload sample_aad [1, 2, 3])) 0) = Inr envelope' \<and>
     wk_key_id (env_wrapped_key envelope') = sample_next_id"
proof -
  obtain dk where "unwrap_data_key (sample_crypto sample_aad) (sample_ring sample_next_id)
      (binding_context sample_binding) (sp_envelope (sample_payload sample_aad [1, 2, 3])) = Inr dk"
    using open_unwraps [OF sample_open] by blast
  then show ?thesis
    using at_rest_rewrap_keeps_payload [OF sample_crypto_ok [of sample_aad] sample_binding_make sample_key_ids(2)
        sample_ring_new(2) sample_payload_envelope [of "[1, 2, 3]"], where random = 0]
    by (auto simp del: sample_crypto_simps(1,2) split: prod.splits sum.splits)
qed

section \<open>MAC keys: signing and verifying agree\<close>

lemma verify_segments_exact:
  "verify_segments cr key segments tag = (if tag = sign_segments cr key segments then Inr () else Inl AuthenticationFailed)"
  by (auto simp: verify_segments_def sign_segments_def)

lemma mac_verify_exact: "mac_verify cr key message tag = Inr () \<longleftrightarrow> tag = mac_sign cr key message"
  by (simp add: mac_verify_def mac_sign_def verify_segments_exact)

lemma sign_segments_concat: "concat xs = concat ys \<Longrightarrow> sign_segments cr key xs = sign_segments cr key ys"
  by (simp add: sign_segments_def)

lemma MacKey_derive_total:
  assumes "crypto_ok cr"
  obtains k where "MacKey_derive_hkdf cr ikm salt info = Inr (MacKey k)" and "MacKey_try_from_slice k = Inr (MacKey k)"
  using crypto_okD(3) [OF assms, of salt ikm info]
  by (auto simp: MacKey_derive_hkdf_def MacKey_try_from_slice_def expect_def MAC_BYTES_def SECRET_KEY_BYTES_def)

end
