(* ===== verification/Core_Operation.thy ===== *)
theory Core_Operation
  imports Rust_Text
begin

text \<open>
  Operation boundaries of \<open>batter-core\<close>: configuration checks (\<open>validation.rs\<close>), deadlines and
  execution of one operation (\<open>operation.rs\<close>, \<open>operation/owner.rs\<close>, \<open>operation/tracked.rs\<close>).

  Instants are nanoseconds on the monotonic clock; the largest instant the platform represents is the
  argument \<open>limit\<close>. Clock readings and the state of the cancellation token (a third-party type) are
  arguments of the operation that reads them. Awaiting a future is the sequence of its polls: each
  poll observes the three branches of the biased selection, and a future whose polls run out is still
  pending, which is \<open>None\<close>. Telemetry is not modelled.
\<close>

section \<open>Configuration checks\<close>

type_synonym instant = nat

datatype configuration_error =
    Config_Zero string
  | Config_TooLarge string
  | InvalidBackoff
  | InvalidReserve
  | InvalidHealthTiming

definition instant_add :: "instant \<Rightarrow> instant \<Rightarrow> duration \<Rightarrow> instant option" where
  "instant_add limit t d = checked_add limit t d"

definition ONE_YEAR :: duration where
  "ONE_YEAR = 365 * 24 * 60 * 60 * NANOS_PER_SEC"

definition representable :: "instant \<Rightarrow> instant \<Rightarrow> duration \<Rightarrow> string \<Rightarrow> configuration_error + unit" where
  "representable limit now value field =
     (if ONE_YEAR < value then Inl (Config_TooLarge field)
      else try_bind (ok_or (instant_add limit now value) (Config_TooLarge field)) (\<lambda>_. Inr ()))"

definition positive :: "instant \<Rightarrow> instant \<Rightarrow> duration \<Rightarrow> string \<Rightarrow> configuration_error + duration" where
  "positive limit now value field =
     (if value = 0 then Inl (Config_Zero field)
      else try_bind (representable limit now value field) (\<lambda>_. Inr value))"

datatype registration_error = InvalidName | Duplicate rstr

definition name_byte :: "byte \<Rightarrow> bool" where
  "name_byte b \<longleftrightarrow> is_ascii_alphanumeric (unat b) \<or> unat b \<in> set (lit ''._-'')"

definition validate_name :: "rstr \<Rightarrow> registration_error + unit" where
  "validate_name value =
     (if value = [] \<or> 96 < str_len value \<or> \<not> list_all name_byte (str_bytes value)
      then Inl InvalidName else Inr ())"

section \<open>Contexts\<close>

datatype interruption = Cancelled | DeadlineExceeded

record operation_context =
  oc_deadline :: instant

text \<open>A check observes whether the token is cancelled and, if not, the clock.\<close>

fun context_check :: "operation_context \<Rightarrow> bool \<times> instant \<Rightarrow> interruption + unit" where
  "context_check ctx (is_cancelled, now) =
     (if is_cancelled then Inl Cancelled
      else if oc_deadline ctx \<le> now then Inl DeadlineExceeded
      else Inr ())"

definition context_remaining :: "operation_context \<Rightarrow> instant \<Rightarrow> duration" where
  "context_remaining ctx now = oc_deadline ctx - now"

definition scoped_child_with_maximum ::
  "instant \<Rightarrow> instant \<Rightarrow> duration \<Rightarrow> operation_context \<Rightarrow> operation_context" where
  "scoped_child_with_maximum limit now maximum ctx =
     (let requested = (case instant_add limit now maximum of Some t \<Rightarrow> t | None \<Rightarrow> oc_deadline ctx)
      in \<lparr>oc_deadline = min (oc_deadline ctx) requested\<rparr>)"

text \<open>The validation and the deadline read the clock one after the other.\<close>

definition context_child ::
  "instant \<Rightarrow> instant \<Rightarrow> instant \<Rightarrow> duration \<Rightarrow> operation_context \<Rightarrow> configuration_error + operation_context" where
  "context_child limit now now' maximum ctx =
     try_bind (positive limit now maximum ''child budget'') (\<lambda>_.
       Inr (scoped_child_with_maximum limit now' maximum ctx))"

definition child_until :: "instant \<Rightarrow> operation_context \<Rightarrow> operation_context" where
  "child_until deadline ctx = \<lparr>oc_deadline = min (oc_deadline ctx) deadline\<rparr>"

record operation_phases =
  op_work :: operation_context
  op_finalization :: operation_context

definition phases_before :: "instant \<Rightarrow> duration \<Rightarrow> operation_context \<Rightarrow> configuration_error + operation_phases" where
  "phases_before now reserve ctx =
     (if reserve \<le> oc_deadline ctx \<and> now < oc_deadline ctx - reserve
      then Inr \<lparr>op_work = \<lparr>oc_deadline = oc_deadline ctx - reserve\<rparr>,
                op_finalization = \<lparr>oc_deadline = oc_deadline ctx\<rparr>\<rparr>
      else Inl InvalidReserve)"

definition reserve_finalization ::
  "instant \<Rightarrow> instant \<Rightarrow> instant \<Rightarrow> duration \<Rightarrow> operation_context \<Rightarrow> configuration_error + operation_phases" where
  "reserve_finalization limit now now' reserve ctx =
     try_bind (positive limit now reserve ''finalization reserve'') (\<lambda>_. phases_before now' reserve ctx)"

definition split_finalization :: "instant \<Rightarrow> operation_context \<Rightarrow> configuration_error + operation_phases" where
  "split_finalization now ctx = phases_before now 0 ctx"

definition root_deadline_after :: "instant \<Rightarrow> instant \<Rightarrow> instant \<Rightarrow> duration \<Rightarrow> configuration_error + instant" where
  "root_deadline_after limit now now' budget =
     try_bind (positive limit now budget ''operation budget'') (\<lambda>_.
       ok_or (instant_add limit now' budget) (Config_TooLarge ''operation budget''))"

section \<open>Running one operation\<close>

datatype 'e tracked_error =
    NotStarted interruption
  | Tracked_Interrupted interruption
  | Tracked_Failed 'e

datatype 'e operation_error =
    Op_Failed 'e
  | Op_Interrupted interruption

fun into_untracked :: "'e tracked_error \<Rightarrow> 'e operation_error" where
  "into_untracked (NotStarted reason) = Op_Interrupted reason"
| "into_untracked (Tracked_Interrupted reason) = Op_Interrupted reason"
| "into_untracked (Tracked_Failed e) = Op_Failed e"

text \<open>
  One poll of the selection: whether the token is observed cancelled, whether the deadline timer has
  fired, and what the work future returns if it is polled. The selection ends with an interruption,
  before or after the factory was invoked, or with what the work returned.
\<close>

record 'r poll =
  pl_cancelled :: bool
  pl_expired :: bool
  pl_work :: "'r option"

datatype 'r run_end =
    Ended_NotStarted interruption
  | Ended_Interrupted interruption
  | Ended_Completed 'r

definition run_interrupted :: "bool \<Rightarrow> interruption \<Rightarrow> 'r run_end" where
  "run_interrupted started reason =
     (if started then Ended_Interrupted reason else Ended_NotStarted reason)"

fun run_select :: "bool \<Rightarrow> 'r poll list \<Rightarrow> 'r run_end option" where
  "run_select started [] = None"
| "run_select started (p # polls) =
     (if pl_cancelled p then Some (run_interrupted started Cancelled)
      else if pl_expired p then Some (run_interrupted started DeadlineExceeded)
      else case pl_work p of
          Some result \<Rightarrow> Some (Ended_Completed result)
        | None \<Rightarrow> run_select True polls)"

definition run_inner :: "operation_context \<Rightarrow> bool \<times> instant \<Rightarrow> 'r poll list \<Rightarrow> 'r run_end option" where
  "run_inner ctx observed polls =
     (case context_check ctx observed of
        Inl reason \<Rightarrow> Some (Ended_NotStarted reason)
      | Inr _ \<Rightarrow> run_select False polls)"

fun tracked_result :: "('e + 'a) run_end \<Rightarrow> 'e tracked_error + 'a" where
  "tracked_result (Ended_NotStarted reason) = Inl (NotStarted reason)"
| "tracked_result (Ended_Interrupted reason) = Inl (Tracked_Interrupted reason)"
| "tracked_result (Ended_Completed result) = map_err Tracked_Failed result"

definition run_tracked ::
  "operation_context \<Rightarrow> bool \<times> instant \<Rightarrow> ('e + 'a) poll list \<Rightarrow> ('e tracked_error + 'a) option" where
  "run_tracked ctx observed polls = map_option tracked_result (run_inner ctx observed polls)"

definition context_run ::
  "operation_context \<Rightarrow> bool \<times> instant \<Rightarrow> ('e + 'a) poll list \<Rightarrow> ('e operation_error + 'a) option" where
  "context_run ctx observed polls = map_option (map_err into_untracked) (run_tracked ctx observed polls)"

section \<open>Facts\<close>

lemma representable_ok: "representable limit now value field = Inr u \<longleftrightarrow> value \<le> ONE_YEAR \<and> now + value \<le> limit"
  by (cases u) (auto simp: representable_def instant_add_def try_bind_eq_Inr ok_or_eq_Inr)

lemma positive_ok:
  "positive limit now value field = Inr v \<longleftrightarrow> v = value \<and> 0 < value \<and> value \<le> ONE_YEAR \<and> now + value \<le> limit"
  by (auto simp: positive_def try_bind_eq_Inr representable_ok)

lemma scoped_child_deadline:
  "oc_deadline (scoped_child_with_maximum limit now maximum ctx) \<le> oc_deadline ctx"
  "now + maximum \<le> limit \<Longrightarrow> oc_deadline (scoped_child_with_maximum limit now maximum ctx) \<le> now + maximum"
  by (auto simp: scoped_child_with_maximum_def instant_add_def checked_add_def Let_def)

text \<open>A poll that ends the selection.\<close>

definition decisive :: "'r poll \<Rightarrow> bool" where
  "decisive p \<longleftrightarrow> pl_cancelled p \<or> pl_expired p \<or> pl_work p \<noteq> None"

lemma run_select_pending: "run_select started polls = None \<longleftrightarrow> (\<forall>p\<in>set polls. \<not> decisive p)"
  by (induction polls arbitrary: started) (auto simp: decisive_def split: option.splits)

lemma run_select_decided:
  assumes "\<forall>q\<in>set before. \<not> decisive q" and "decisive p"
  shows "run_select started (before @ p # polls) =
    Some (if pl_cancelled p then run_interrupted (started \<or> before \<noteq> []) Cancelled
          else if pl_expired p then run_interrupted (started \<or> before \<noteq> []) DeadlineExceeded
          else Ended_Completed (the (pl_work p)))"
  using assms
proof (induction before arbitrary: started)
  case Nil
  then show ?case by (auto simp: decisive_def)
next
  case (Cons q before)
  then show ?case
    by (auto simp: decisive_def run_interrupted_def split: option.splits)
qed

text \<open>The factory is invoked in the first poll that sees neither cancellation nor expiry.\<close>

definition factory_invoked :: "operation_context \<Rightarrow> bool \<times> instant \<Rightarrow> 'r poll list \<Rightarrow> bool" where
  "factory_invoked ctx observed polls \<longleftrightarrow>
     context_check ctx observed = Inr () \<and> polls \<noteq> [] \<and> \<not> pl_cancelled (hd polls) \<and> \<not> pl_expired (hd polls)"

lemma run_select_started: "run_select True polls \<noteq> Some (Ended_NotStarted reason)"
  by (induction polls) (auto simp: run_interrupted_def split: option.splits)

lemma run_inner_not_started:
  assumes "run_inner ctx observed polls = Some r"
  shows "(\<exists>reason. r = Ended_NotStarted reason) \<longleftrightarrow> \<not> factory_invoked ctx observed polls"
proof (cases "context_check ctx observed")
  case (Inl reason)
  then show ?thesis using assms by (auto simp: run_inner_def factory_invoked_def)
next
  case (Inr u)
  then have r: "run_select False polls = Some r" using assms by (simp add: run_inner_def)
  then obtain p ps where p: "polls = p # ps" by (cases polls) auto
  show ?thesis
    using r Inr run_select_started [of ps] unfolding p factory_invoked_def
    by (auto simp: run_interrupted_def split: if_splits option.splits)
qed

end
