(* ===== verification/Core_Retry.thy ===== *)
theory Core_Retry
  imports Core_Operation
begin

text \<open>
  Explicit replay of \<open>batter-core\<close> (\<open>retry.rs\<close>): validated policies, exponential backoff, equal jitter
  and the retry loop with its replay authorization, classification, attempt limit and budget checks.

  One round of the loop observes the clock and the cancellation token several times, polls the
  attempt and the backoff, and calls the application's factory, classifier and sampler; all these
  observations are the fields of a round. The loop consumes a list of rounds and emits the factories
  it starts and the delays it sleeps. A loop whose rounds or polls run out is still pending.
\<close>

section \<open>Policies\<close>

datatype replay_safety = Never | Idempotent | Deduplicated

datatype retry_decision = Stop | Retry | RetryAfter duration

record retry_policy =
  rp_max_attempts :: nat
  rp_initial :: duration
  rp_maximum :: duration

definition RetryPolicy_new ::
  "instant \<Rightarrow> instant \<Rightarrow> instant \<Rightarrow> nat \<Rightarrow> duration \<Rightarrow> duration \<Rightarrow> configuration_error + retry_policy" where
  "RetryPolicy_new limit now now' max_attempts initial maximum =
     (if max_attempts = 0 then Inl (Config_Zero ''max attempts'')
      else try_bind (positive limit now initial ''initial backoff'') (\<lambda>_.
           try_bind (positive limit now' maximum ''maximum backoff'') (\<lambda>_.
             if maximum < initial then Inl InvalidBackoff
             else Inr \<lparr>rp_max_attempts = max_attempts, rp_initial = initial, rp_maximum = maximum\<rparr>)))"

fun delay_loop :: "duration \<Rightarrow> nat \<Rightarrow> duration \<Rightarrow> duration" where
  "delay_loop maximum 0 delay = delay"
| "delay_loop maximum (Suc n) delay =
     (let delay = min (duration_saturating_mul delay 2) maximum
      in if delay = maximum then delay else delay_loop maximum n delay)"

definition retry_delay :: "retry_policy \<Rightarrow> nat \<Rightarrow> duration" where
  "retry_delay policy failed_attempt = delay_loop (rp_maximum policy) (failed_attempt - 1) (rp_initial policy)"

text \<open>A subtraction or product that would leave its type panics, which is \<open>None\<close>.\<close>

definition equal_jitter :: "duration \<Rightarrow> nat \<Rightarrow> duration option" where
  "equal_jitter upper sample =
     (let lower = max (upper div 2) 1
      in if upper < lower then None
         else let width = upper - lower + 1
              in Option.bind (checked_mul U128_MAX sample width) (\<lambda>product.
                   let offset = product div 2 ^ 64 mod 2 ^ 64
                   in checked_add DURATION_MAX lower offset))"

section \<open>Attempts\<close>

datatype stop_reason = NotRetryable | ReplayForbidden | AttemptsExhausted | InsufficientBudget

datatype 'e retry_execution_error =
    Exec_Stopped nat stop_reason 'e
  | Exec_Interrupted nat interruption "'e option"
  | Exec_AttemptDeadlineExceeded nat "'e option"

datatype 'e retry_error =
    Retry_Stopped nat stop_reason 'e
  | Retry_Interrupted nat interruption "'e option"

fun into_legacy :: "'e retry_execution_error \<Rightarrow> 'e retry_error failure" where
  "into_legacy (Exec_Stopped attempts reason error) = Failure (Retry_Stopped attempts reason error)"
| "into_legacy (Exec_Interrupted attempts reason last_error) = Failure (Retry_Interrupted attempts reason last_error)"
| "into_legacy (Exec_AttemptDeadlineExceeded _ _) = Panicked"

record execution_settings =
  es_context :: operation_context
  es_safety :: replay_safety
  es_policy :: retry_policy
  es_attempt_maximum :: "duration option"

datatype ('e, 'a) attempt_completion =
    Completion_Returned "'e + 'a"
  | Completion_Cancelled "'e option"

datatype 'e attempt_failure =
    Attempt_Application 'e
  | Attempt_Interrupted interruption "'e option"
  | Attempt_DeadlineExceeded

text \<open>
  What one round observes. The work polls return the application's result together with whether the
  attempt's scope was cancelled when it returned.
\<close>

record ('e, 'a) round =
  rd_check :: "bool \<times> instant"
  rd_scope_now :: instant
  rd_attempt_check :: "bool \<times> instant"
  rd_attempt_polls :: "(('e + 'a) \<times> bool) poll list"
  rd_classify :: "'e \<Rightarrow> retry_decision"
  rd_recheck :: "bool \<times> instant"
  rd_sample :: nat
  rd_budget_now :: instant
  rd_backoff_check :: "bool \<times> instant"
  rd_backoff_polls :: "unit poll list"

datatype 'e retry_event =
    Ev_Started nat
  | Ev_Returned 'e
  | Ev_Slept retry_decision instant duration

fun attempt_completed :: "('e + 'a) \<times> bool \<Rightarrow> ('e, 'a) attempt_completion" where
  "attempt_completed (result, scope_cancelled) =
     (if scope_cancelled then Completion_Cancelled (case result of Inl e \<Rightarrow> Some e | Inr _ \<Rightarrow> None)
      else Completion_Returned result)"

definition attempt_context :: "instant \<Rightarrow> execution_settings \<Rightarrow> instant \<Rightarrow> operation_context" where
  "attempt_context limit settings now =
     (case es_attempt_maximum settings of
        Some maximum \<Rightarrow> scoped_child_with_maximum limit now maximum (es_context settings)
      | None \<Rightarrow> es_context settings)"

definition attempt_result :: "bool \<Rightarrow> (('e + 'a) \<times> bool) run_end \<Rightarrow> 'e attempt_failure + 'a" where
  "attempt_result deadline_is_tighter result =
     (let interrupted = (\<lambda>reason.
        if reason = DeadlineExceeded \<and> deadline_is_tighter then Inl Attempt_DeadlineExceeded
        else Inl (Attempt_Interrupted reason None))
      in case result of
           Ended_Completed completed \<Rightarrow>
             (case attempt_completed completed of
                Completion_Returned (Inr value) \<Rightarrow> Inr value
              | Completion_Returned (Inl error) \<Rightarrow> Inl (Attempt_Application error)
              | Completion_Cancelled returned_error \<Rightarrow> Inl (Attempt_Interrupted Cancelled returned_error))
         | Ended_NotStarted reason \<Rightarrow> interrupted reason
         | Ended_Interrupted reason \<Rightarrow> interrupted reason)"

text \<open>The attempt is counted inside its factory, so an interruption before that is no attempt.\<close>

definition run_attempt ::
  "instant \<Rightarrow> execution_settings \<Rightarrow> nat \<Rightarrow> ('e, 'a) round \<Rightarrow> nat \<times> ('e attempt_failure + 'a) option" where
  "run_attempt limit settings attempts round =
     (let ctx = attempt_context limit settings (rd_scope_now round);
          deadline_is_tighter = oc_deadline ctx < oc_deadline (es_context settings);
          started = factory_invoked ctx (rd_attempt_check round) (rd_attempt_polls round)
      in (if started then attempts + 1 else attempts,
          map_option (attempt_result deadline_is_tighter)
            (run_inner ctx (rd_attempt_check round) (rd_attempt_polls round))))"

section \<open>The loop\<close>

text \<open>
  What follows a returned application error: the terminal error, or the delay to sleep. The function
  \<open>delay_for\<close> turns a sample and the exponential backoff into the backoff to use.
\<close>

definition plan_retry ::
  "(nat \<Rightarrow> duration \<Rightarrow> duration option) \<Rightarrow> execution_settings \<Rightarrow> ('e, 'a) round \<Rightarrow> nat \<Rightarrow> 'e
    \<Rightarrow> 'e retry_execution_error failure + duration" where
  "plan_retry delay_for settings round attempts error =
     (if es_safety settings = Never then Inl (Failure (Exec_Stopped attempts ReplayForbidden error))
      else let decision = rd_classify round error
      in if decision = Stop then Inl (Failure (Exec_Stopped attempts NotRetryable error))
      else if rp_max_attempts (es_policy settings) \<le> attempts
        then Inl (Failure (Exec_Stopped attempts AttemptsExhausted error))
      else case context_check (es_context settings) (rd_recheck round) of
          Inl reason \<Rightarrow> Inl (Failure (Exec_Interrupted attempts reason (Some error)))
        | Inr _ \<Rightarrow>
            try_bind (expect (delay_for (rd_sample round) (retry_delay (es_policy settings) attempts)))
              (\<lambda>backoff.
                let delay = (case decision of RetryAfter provider \<Rightarrow> max backoff provider | _ \<Rightarrow> backoff)
                in if context_remaining (es_context settings) (rd_budget_now round) \<le> delay
                   then Inl (Failure (Exec_Stopped attempts InsufficientBudget error))
                   else Inr delay))"

datatype ('e, 'a) round_end =
    Round_Pending
  | Round_Done "'e retry_execution_error failure + 'a"
  | Round_Again nat 'e

definition loop_round ::
  "instant \<Rightarrow> (nat \<Rightarrow> duration \<Rightarrow> duration option) \<Rightarrow> execution_settings \<Rightarrow> nat \<Rightarrow> 'e option
    \<Rightarrow> ('e, 'a) round \<Rightarrow> 'e retry_event list \<times> ('e, 'a) round_end" where
  "loop_round limit delay_for settings attempts last_error round =
     (case context_check (es_context settings) (rd_check round) of
        Inl reason \<Rightarrow> ([], Round_Done (Inl (Failure (Exec_Interrupted attempts reason last_error))))
      | Inr _ \<Rightarrow>
          let (attempts', result) = run_attempt limit settings attempts round;
              started = (if attempts' = attempts then [] else [Ev_Started attempts'])
          in case result of
               None \<Rightarrow> (started, Round_Pending)
             | Some (Inr value) \<Rightarrow> (started, Round_Done (Inr value))
             | Some (Inl Attempt_DeadlineExceeded) \<Rightarrow>
                 (started, Round_Done (Inl (Failure (Exec_AttemptDeadlineExceeded attempts' last_error))))
             | Some (Inl (Attempt_Interrupted reason (Some error))) \<Rightarrow>
                 (started @ [Ev_Returned error],
                  Round_Done (Inl (Failure (Exec_Interrupted attempts' reason (Some error)))))
             | Some (Inl (Attempt_Interrupted reason None)) \<Rightarrow>
                 (started, Round_Done (Inl (Failure (Exec_Interrupted attempts' reason last_error))))
             | Some (Inl (Attempt_Application error)) \<Rightarrow>
                 (case plan_retry delay_for settings round attempts' error of
                    Inl stop \<Rightarrow> (started @ [Ev_Returned error], Round_Done (Inl stop))
                  | Inr delay \<Rightarrow>
                      (started @ [Ev_Returned error,
                         Ev_Slept (rd_classify round error) (rd_budget_now round) delay],
                       case run_inner (es_context settings) (rd_backoff_check round) (rd_backoff_polls round) of
                         None \<Rightarrow> Round_Pending
                       | Some (Ended_Completed _) \<Rightarrow> Round_Again attempts' error
                       | Some (Ended_NotStarted reason) \<Rightarrow>
                           Round_Done (Inl (Failure (Exec_Interrupted attempts' reason (Some error))))
                       | Some (Ended_Interrupted reason) \<Rightarrow>
                           Round_Done (Inl (Failure (Exec_Interrupted attempts' reason (Some error)))))))"

fun execute_loop ::
  "instant \<Rightarrow> (nat \<Rightarrow> duration \<Rightarrow> duration option) \<Rightarrow> execution_settings \<Rightarrow> nat \<Rightarrow> 'e option
    \<Rightarrow> ('e, 'a) round list
    \<Rightarrow> 'e retry_event list \<times> ('e retry_execution_error failure + 'a) option" where
  "execute_loop limit delay_for settings attempts last_error [] = ([], None)"
| "execute_loop limit delay_for settings attempts last_error (round # rounds) =
     (case loop_round limit delay_for settings attempts last_error round of
        (events, Round_Pending) \<Rightarrow> (events, None)
      | (events, Round_Done outcome) \<Rightarrow> (events, Some outcome)
      | (events, Round_Again attempts' error) \<Rightarrow>
          (let (later, outcome) = execute_loop limit delay_for settings attempts' (Some error) rounds
           in (events @ later, outcome)))"

definition execute_with_options ::
  "instant \<Rightarrow> operation_context \<Rightarrow> replay_safety \<Rightarrow> retry_policy \<Rightarrow> duration option \<Rightarrow> bool
    \<Rightarrow> ('e, 'a) round list \<Rightarrow> 'e retry_event list \<times> ('e retry_execution_error failure + 'a) option" where
  "execute_with_options limit ctx safety policy attempt_maximum jitter rounds =
     execute_loop limit (if jitter then (\<lambda>sample delay. equal_jitter delay sample) else (\<lambda>_. Some))
       \<lparr>es_context = ctx, es_safety = safety, es_policy = policy, es_attempt_maximum = attempt_maximum\<rparr>
       0 None rounds"

definition legacy_outcome ::
  "('e retry_execution_error failure + 'a) option \<Rightarrow> ('e retry_error failure + 'a) option" where
  "legacy_outcome = map_option (map_err (\<lambda>f. case f of Failure e \<Rightarrow> into_legacy e | Panicked \<Rightarrow> Panicked))"

definition execute ::
  "instant \<Rightarrow> operation_context \<Rightarrow> replay_safety \<Rightarrow> retry_policy \<Rightarrow> ('e, 'a) round list
    \<Rightarrow> 'e retry_event list \<times> ('e retry_error failure + 'a) option" where
  "execute limit ctx safety policy rounds =
     map_prod id legacy_outcome (execute_with_options limit ctx safety policy None False rounds)"

definition execute_with_jitter ::
  "instant \<Rightarrow> operation_context \<Rightarrow> replay_safety \<Rightarrow> retry_policy \<Rightarrow> ('e, 'a) round list
    \<Rightarrow> 'e retry_event list \<times> ('e retry_error failure + 'a) option" where
  "execute_with_jitter limit ctx safety policy rounds =
     map_prod id legacy_outcome (execute_with_options limit ctx safety policy None True rounds)"

section \<open>Backoff and jitter\<close>

definition retry_policy_ok :: "retry_policy \<Rightarrow> bool" where
  "retry_policy_ok p \<longleftrightarrow> 0 < rp_max_attempts p \<and> 0 < rp_initial p \<and> rp_initial p \<le> rp_maximum p \<and>
     rp_maximum p \<le> ONE_YEAR"

lemma RetryPolicy_new_ok:
  "RetryPolicy_new limit now now' n initial maximum = Inr p \<longleftrightarrow>
     p = \<lparr>rp_max_attempts = n, rp_initial = initial, rp_maximum = maximum\<rparr> \<and> retry_policy_ok p \<and>
     now + initial \<le> limit \<and> now' + maximum \<le> limit"
  by (auto simp: RetryPolicy_new_def retry_policy_ok_def positive_ok try_bind_eq_Inr)

lemma ONE_YEAR_small: "ONE_YEAR * 2 \<le> DURATION_MAX" "ONE_YEAR < 2 ^ 63"
  by (simp_all add: ONE_YEAR_def NANOS_PER_SEC_def DURATION_MAX_def U64_MAX_def)

lemma delay_loop_eq:
  "\<lbrakk>maximum \<le> ONE_YEAR; delay \<le> maximum\<rbrakk> \<Longrightarrow> delay_loop maximum n delay = min maximum (delay * 2 ^ n)"
proof (induction n arbitrary: delay)
  case 0
  then show ?case by simp
next
  case (Suc n)
  have "duration_saturating_mul delay 2 = delay * 2"
    using Suc.prems ONE_YEAR_small(1) by (simp add: duration_saturating_mul_def saturating_mul_def)
  then have step: "delay_loop maximum (Suc n) delay =
      (if maximum \<le> delay * 2 then maximum else delay_loop maximum n (delay * 2))"
    by (simp add: Let_def min_def)
  show ?case
  proof (cases "maximum \<le> delay * 2")
    case True
    also have "delay * 2 \<le> delay * 2 ^ Suc n" by simp
    finally show ?thesis using True step by (simp only: if_True min_absorb1)
  next
    case False
    then have "delay_loop maximum n (delay * 2) = min maximum (delay * 2 * 2 ^ n)"
      using Suc.IH Suc.prems(1) by simp
    with False step show ?thesis by (simp add: mult.assoc)
  qed
qed

lemma retry_delay_eq:
  "retry_policy_ok p \<Longrightarrow> retry_delay p n = min (rp_maximum p) (rp_initial p * 2 ^ (n - 1))"
  by (simp add: retry_policy_ok_def retry_delay_def delay_loop_eq)

lemma equal_jitter_eq:
  assumes "0 < upper" and "upper \<le> ONE_YEAR" and "sample \<le> U64_MAX"
  shows "equal_jitter upper sample =
    Some (max (upper div 2) 1 + sample * (upper - max (upper div 2) 1 + 1) div 2 ^ 64)"
    and "sample * (upper - max (upper div 2) 1 + 1) div 2 ^ 64 \<le> upper - max (upper div 2) 1"
proof -
  let ?lower = "max (upper div 2) 1"
  have lower: "?lower \<le> upper" using assms(1) by simp
  define width where "width = upper - ?lower + 1"
  have width: "0 < width" "width \<le> 2 ^ 63"
    using assms(1,2) ONE_YEAR_small(2) by (auto simp: width_def)
  have "sample * width < 2 ^ 64 * width"
    using assms(3) width(1) by (simp add: U64_MAX_def)
  then have offset: "sample * width div 2 ^ 64 < width"
    by (simp add: div_less_iff_less_mult mult.commute)
  have "sample * width \<le> U64_MAX * 2 ^ 63"
    using assms(3) width(2) by (rule mult_le_mono)
  then have product: "sample * width \<le> U128_MAX"
    by (simp add: U64_MAX_def U128_MAX_def)
  have small: "sample * width div 2 ^ 64 \<le> upper - ?lower"
    using offset unfolding width_def by linarith
  then show "sample * (upper - ?lower + 1) div 2 ^ 64 \<le> upper - ?lower"
    by (simp only: width_def)
  have "?lower + sample * width div 2 ^ 64 \<le> upper"
    using small lower by linarith
  also have "upper \<le> DURATION_MAX"
    using assms(2) ONE_YEAR_small(1) by simp
  finally have bound: "?lower + sample * width div 2 ^ 64 \<le> DURATION_MAX" .
  have "sample * width div 2 ^ 64 mod 2 ^ 64 = sample * width div 2 ^ 64"
    using offset width(2) by simp
  moreover have "equal_jitter upper sample = Option.bind (checked_mul U128_MAX sample width)
      (\<lambda>product. checked_add DURATION_MAX ?lower (product div 2 ^ 64 mod 2 ^ 64))"
    using lower unfolding equal_jitter_def Let_def width_def by (simp only: not_le [symmetric] if_False not_not if_not_P)
  ultimately show "equal_jitter upper sample = Some (?lower + sample * (upper - ?lower + 1) div 2 ^ 64)"
    using product bound by (simp only: checked_mul_def checked_add_def if_True Option.bind.bind_lunit flip: width_def)
qed

lemma full_sample:
  assumes "0 < width" and "width \<le> 2 ^ 63"
  shows "U64_MAX * width div 2 ^ 64 = width - 1"
proof -
  have "U64_MAX * width = (width - 1) * 2 ^ 64 + (2 ^ 64 - width)"
    using assms by (cases width) (auto simp: U64_MAX_def algebra_simps)
  moreover have "((width - 1) * 2 ^ 64 + (2 ^ 64 - width)) div 2 ^ 64 = width - 1"
    using assms by (simp add: div_mult_self3)
  ultimately show ?thesis by simp
qed

lemma equal_jitter_range:
  assumes "0 < upper" and "upper \<le> ONE_YEAR" and "sample \<le> U64_MAX"
  obtains b where "equal_jitter upper sample = Some b" and "max (upper div 2) 1 \<le> b" and "b \<le> upper"
proof -
  have "max (upper div 2) 1 \<le> upper" using assms(1) by simp
  then show ?thesis
    using equal_jitter_eq(2) [OF assms] by (intro that [OF equal_jitter_eq(1) [OF assms]]) linarith+
qed

section \<open>What one attempt and one plan establish\<close>

lemma run_inner_completed: "run_inner ctx observed polls = Some (Ended_Completed r) \<Longrightarrow> factory_invoked ctx observed polls"
  using run_inner_not_started [of ctx observed polls] by blast

lemma attempt_result_cases:
  "attempt_result tighter r = Inr v \<Longrightarrow> \<exists>c. r = Ended_Completed c"
  "attempt_result tighter r = Inl (Attempt_Application e) \<Longrightarrow> \<exists>c. r = Ended_Completed c"
  "attempt_result tighter r = Inl (Attempt_Interrupted reason (Some e)) \<Longrightarrow> \<exists>c. r = Ended_Completed c"
  "attempt_result tighter r = Inl Attempt_DeadlineExceeded \<Longrightarrow> tighter"
  by (cases r; auto simp: attempt_result_def Let_def split: if_splits attempt_completion.splits sum.splits)+

lemma run_attempt_count:
  assumes "run_attempt limit settings attempts round = (attempts', result)"
  shows "attempts' = attempts \<or> attempts' = Suc attempts"
    and "result = Some (Inr v) \<Longrightarrow> attempts' = Suc attempts"
    and "result = Some (Inl (Attempt_Application e)) \<Longrightarrow> attempts' = Suc attempts"
    and "result = Some (Inl (Attempt_Interrupted reason (Some e))) \<Longrightarrow> attempts' = Suc attempts"
    and "result = Some (Inl Attempt_DeadlineExceeded) \<Longrightarrow> es_attempt_maximum settings \<noteq> None"
proof -
  define ctx where "ctx = attempt_context limit settings (rd_scope_now round)"
  define run where "run = run_inner ctx (rd_attempt_check round) (rd_attempt_polls round)"
  define tighter where "tighter = (oc_deadline ctx < oc_deadline (es_context settings))"
  have count: "attempts' = (if factory_invoked ctx (rd_attempt_check round) (rd_attempt_polls round)
      then attempts + 1 else attempts)"
    and result: "result = map_option (attempt_result tighter) run"
    using assms unfolding run_attempt_def Let_def ctx_def run_def tighter_def by (simp_all only: prod.inject)
  have ended: "\<exists>r. run = Some r \<and> attempt_result tighter r = x" if "result = Some x" for x
    using that unfolding result by (cases run) simp_all
  have invoked: "attempts' = Suc attempts" if "run = Some (Ended_Completed c)" for c
    using count run_inner_completed [OF that [unfolded run_def]] by simp
  show "attempts' = attempts \<or> attempts' = Suc attempts"
    using count by simp
  show "attempts' = Suc attempts" if "result = Some (Inr v)"
    using ended [OF that] attempt_result_cases(1) invoked by metis
  show "attempts' = Suc attempts" if "result = Some (Inl (Attempt_Application e))"
    using ended [OF that] attempt_result_cases(2) invoked by metis
  show "attempts' = Suc attempts" if "result = Some (Inl (Attempt_Interrupted reason (Some e)))"
    using ended [OF that] attempt_result_cases(3) invoked by metis
  show "es_attempt_maximum settings \<noteq> None" if "result = Some (Inl Attempt_DeadlineExceeded)"
  proof -
    have tighter using ended [OF that] attempt_result_cases(4) by metis
    then show ?thesis unfolding tighter_def ctx_def attempt_context_def by (cases "es_attempt_maximum settings") simp_all
  qed
qed

text \<open>The backoff of a round lies between the jittered minimum and the exponential delay.\<close>

definition backoff_floor :: "bool \<Rightarrow> duration \<Rightarrow> duration" where
  "backoff_floor jitter delay = (if jitter then max (delay div 2) 1 else delay)"

definition slept_ok ::
  "bool \<Rightarrow> execution_settings \<Rightarrow> nat \<Rightarrow> retry_decision \<Rightarrow> instant \<Rightarrow> duration \<Rightarrow> bool" where
  "slept_ok jitter settings attempts decision now delay \<longleftrightarrow>
     es_safety settings \<noteq> Never \<and> attempts < rp_max_attempts (es_policy settings) \<and>
     now + delay < oc_deadline (es_context settings) \<and>
     backoff_floor jitter (retry_delay (es_policy settings) attempts) \<le> delay \<and>
     (case decision of Stop \<Rightarrow> False
      | Retry \<Rightarrow> delay \<le> retry_delay (es_policy settings) attempts
      | RetryAfter provider \<Rightarrow> provider \<le> delay \<and> delay \<le> max provider (retry_delay (es_policy settings) attempts))"

definition backoff_choice :: "bool \<Rightarrow> nat \<Rightarrow> duration \<Rightarrow> duration option" where
  "backoff_choice jitter = (if jitter then (\<lambda>sample delay. equal_jitter delay sample) else (\<lambda>_. Some))"

lemma backoff_choice_ok:
  assumes "retry_policy_ok policy" and "sample \<le> U64_MAX"
  obtains b where "backoff_choice jitter sample (retry_delay policy n) = Some b"
    and "backoff_floor jitter (retry_delay policy n) \<le> b" and "b \<le> retry_delay policy n"
proof -
  let ?d = "retry_delay policy n"
  have d: "0 < ?d" "?d \<le> ONE_YEAR"
    using assms(1) retry_delay_eq [OF assms(1), of n] by (auto simp: retry_policy_ok_def)
  show ?thesis
  proof (cases jitter)
    case True
    obtain b where "equal_jitter ?d sample = Some b" "max (?d div 2) 1 \<le> b" "b \<le> ?d"
      using equal_jitter_range [OF d assms(2)] .
    with True show ?thesis
      by (intro that) (simp_all add: backoff_choice_def backoff_floor_def)
  next
    case False
    then show ?thesis by (intro that [of ?d]) (simp_all add: backoff_choice_def backoff_floor_def)
  qed
qed

lemma plan_retry_sleeps:
  assumes "retry_policy_ok (es_policy settings)" and "rd_sample round \<le> U64_MAX"
    and "plan_retry (backoff_choice jitter) settings round attempts error = Inr delay"
  shows "slept_ok jitter settings attempts (rd_classify round error) (rd_budget_now round) delay"
proof -
  obtain b where b: "backoff_choice jitter (rd_sample round) (retry_delay (es_policy settings) attempts) = Some b"
    "backoff_floor jitter (retry_delay (es_policy settings) attempts) \<le> b" "b \<le> retry_delay (es_policy settings) attempts"
    using backoff_choice_ok [OF assms(1,2)] .
  then show ?thesis
    using assms(3)
    by (auto simp: plan_retry_def slept_ok_def context_remaining_def Let_def
        split: if_splits sum.splits retry_decision.splits)
qed

lemma plan_retry_stops:
  assumes "retry_policy_ok (es_policy settings)" and "rd_sample round \<le> U64_MAX"
    and "plan_retry (backoff_choice jitter) settings round attempts error = Inl stop"
  shows "(\<exists>reason. stop = Failure (Exec_Stopped attempts reason error) \<and>
            (reason = ReplayForbidden \<longleftrightarrow> es_safety settings = Never) \<and>
            (reason = AttemptsExhausted \<longrightarrow> rp_max_attempts (es_policy settings) \<le> attempts)) \<or>
         (\<exists>reason. stop = Failure (Exec_Interrupted attempts reason (Some error)))"
proof -
  obtain b where "backoff_choice jitter (rd_sample round) (retry_delay (es_policy settings) attempts) = Some b"
    using backoff_choice_ok [OF assms(1,2)] .
  then show ?thesis
    using assms(3) by (auto simp: plan_retry_def Let_def split: if_splits sum.splits)
qed


section \<open>The trace of an execution\<close>

fun starts :: "'e retry_event list \<Rightarrow> nat" where
  "starts [] = 0"
| "starts (Ev_Started _ # events) = Suc (starts events)"
| "starts (_ # events) = starts events"

fun last_returned :: "'e option \<Rightarrow> 'e retry_event list \<Rightarrow> 'e option" where
  "last_returned e [] = e"
| "last_returned _ (Ev_Returned e # events) = last_returned (Some e) events"
| "last_returned e (_ # events) = last_returned e events"

lemma starts_append [simp]: "starts (xs @ ys) = starts xs + starts ys"
  by (induction xs rule: starts.induct) simp_all

lemma last_returned_append [simp]: "last_returned e (xs @ ys) = last_returned (last_returned e xs) ys"
  by (induction xs arbitrary: e rule: starts.induct) (auto split: retry_event.splits)

text \<open>
  A disciplined trace: attempts are numbered consecutively and stay within the limit; each is followed
  by the error it returned and an allowed sleep before the next one starts.
\<close>

fun trace_ok :: "bool \<Rightarrow> execution_settings \<Rightarrow> nat \<Rightarrow> 'e retry_event list \<Rightarrow> bool" where
  "trace_ok jitter settings n [] = True"
| "trace_ok jitter settings n [Ev_Started k] = (k = Suc n \<and> n < rp_max_attempts (es_policy settings))"
| "trace_ok jitter settings n [Ev_Started k, Ev_Returned e] = (k = Suc n \<and> n < rp_max_attempts (es_policy settings))"
| "trace_ok jitter settings n (Ev_Started k # Ev_Returned e # Ev_Slept decision now delay # events) =
     (k = Suc n \<and> slept_ok jitter settings k decision now delay \<and> trace_ok jitter settings k events)"
| "trace_ok jitter settings n _ = False"

definition outcome_ok ::
  "execution_settings \<Rightarrow> nat \<Rightarrow> 'e option \<Rightarrow> 'e retry_event list \<Rightarrow> 'e retry_execution_error failure + 'a \<Rightarrow> bool" where
  "outcome_ok settings n last_error events outcome \<longleftrightarrow>
     (let attempts = n + starts events; latest = last_returned last_error events
      in case outcome of
           Inr _ \<Rightarrow> 0 < starts events
         | Inl Panicked \<Rightarrow> False
         | Inl (Failure (Exec_Stopped k reason e)) \<Rightarrow>
             k = attempts \<and> latest = Some e \<and> 0 < starts events \<and>
             (reason = ReplayForbidden \<longleftrightarrow> es_safety settings = Never) \<and>
             (reason = AttemptsExhausted \<longrightarrow> k = rp_max_attempts (es_policy settings))
         | Inl (Failure (Exec_Interrupted k reason e)) \<Rightarrow> k = attempts \<and> e = latest
         | Inl (Failure (Exec_AttemptDeadlineExceeded k e)) \<Rightarrow>
             k = attempts \<and> e = latest \<and> es_attempt_maximum settings \<noteq> None)"

lemma loop_round_ok:
  assumes policy: "retry_policy_ok (es_policy settings)" and sample: "rd_sample round \<le> U64_MAX"
    and room: "n < rp_max_attempts (es_policy settings)"
    and step: "loop_round limit (backoff_choice jitter) settings n last_error round = (events, round_end)"
  shows "case round_end of
      Round_Pending \<Rightarrow> trace_ok jitter settings n events
    | Round_Done outcome \<Rightarrow> trace_ok jitter settings n events \<and> outcome_ok settings n last_error events outcome
    | Round_Again k e \<Rightarrow> k = Suc n \<and> (\<exists>decision now delay.
        events = [Ev_Started k, Ev_Returned e, Ev_Slept decision now delay] \<and>
        slept_ok jitter settings k decision now delay)"
proof (cases "context_check (es_context settings) (rd_check round)")
  case (Inl reason)
  then show ?thesis using step by (auto simp: loop_round_def outcome_ok_def Let_def)
next
  case (Inr u)
  obtain k result where attempt: "run_attempt limit settings n round = (k, result)"
    by (cases "run_attempt limit settings n round")
  note count = run_attempt_count [OF attempt]
  show ?thesis
  proof (cases result)
    case None
    then show ?thesis using step Inr attempt room count(1) by (auto simp: loop_round_def)
  next
    case (Some r)
    note facts = step Inr attempt Some room
    consider (returned) v where "r = Inr v" | (expired) "r = Inl Attempt_DeadlineExceeded"
      | (cut) reason where "r = Inl (Attempt_Interrupted reason None)"
      | (late) reason e where "r = Inl (Attempt_Interrupted reason (Some e))"
      | (failed) e where "r = Inl (Attempt_Application e)"
      by (metis attempt_failure.exhaust not_None_eq sum.exhaust)
    then show ?thesis
    proof cases
      case returned
      then show ?thesis using facts count(2) by (auto simp: loop_round_def outcome_ok_def Let_def)
    next
      case expired
      then show ?thesis using facts count(1,5) by (auto simp: loop_round_def outcome_ok_def Let_def)
    next
      case cut
      then show ?thesis using facts count(1) by (auto simp: loop_round_def outcome_ok_def Let_def)
    next
      case late
      then show ?thesis using facts count(4) by (auto simp: loop_round_def outcome_ok_def Let_def)
    next
      case failed
      then have k: "k = Suc n" using Some count(3) by blast
      show ?thesis
      proof (cases "plan_retry (backoff_choice jitter) settings round k e")
        case (Inl stop)
        then show ?thesis
          using plan_retry_stops [OF policy sample Inl] facts failed k
          by (auto simp: loop_round_def outcome_ok_def Let_def)
      next
        case (Inr delay)
        then show ?thesis
          using plan_retry_sleeps [OF policy sample Inr] facts failed k
          by (auto simp: loop_round_def outcome_ok_def Let_def split: option.splits run_end.splits)
      qed
    qed
  qed
qed

lemma outcome_ok_cons:
  "outcome_ok settings (Suc n) (Some e) later result \<Longrightarrow>
   outcome_ok settings n last_error (Ev_Started k # Ev_Returned e # Ev_Slept decision now delay # later) result"
  by (cases result) (auto simp: outcome_ok_def Let_def split: failure.splits retry_execution_error.splits)

lemma execute_loop_ok:
  assumes "retry_policy_ok (es_policy settings)" and "\<forall>round\<in>set rounds. rd_sample round \<le> U64_MAX"
    and "n < rp_max_attempts (es_policy settings)"
    and "execute_loop limit (backoff_choice jitter) settings n last_error rounds = (events, outcome)"
  shows "trace_ok jitter settings n events \<and>
    (\<forall>result. outcome = Some result \<longrightarrow> outcome_ok settings n last_error events result)"
  using assms(2-4)
proof (induction rounds arbitrary: n last_error events outcome)
  case Nil
  then show ?case by simp
next
  case (Cons round rounds)
  obtain first round_end where step:
    "loop_round limit (backoff_choice jitter) settings n last_error round = (first, round_end)"
    by (cases "loop_round limit (backoff_choice jitter) settings n last_error round")
  note ok = loop_round_ok [OF assms(1) _ Cons.prems(2) step]
  show ?case
  proof (cases round_end)
    case Round_Pending
    then show ?thesis using ok step Cons.prems by simp
  next
    case (Round_Done result)
    then show ?thesis using ok step Cons.prems by auto
  next
    case (Round_Again k e)
    obtain decision now delay where k: "k = Suc n"
      and first: "first = [Ev_Started k, Ev_Returned e, Ev_Slept decision now delay]"
      and slept: "slept_ok jitter settings k decision now delay"
      using ok Round_Again Cons.prems(1) by auto
    obtain later result where later:
      "execute_loop limit (backoff_choice jitter) settings k (Some e) rounds = (later, result)"
      by (cases "execute_loop limit (backoff_choice jitter) settings k (Some e) rounds")
    have "k < rp_max_attempts (es_policy settings)"
      using slept by (simp add: slept_ok_def)
    then have IH: "trace_ok jitter settings k later \<and>
        (\<forall>r. result = Some r \<longrightarrow> outcome_ok settings k (Some e) later r)"
      using Cons.IH [OF _ _ later] Cons.prems(1) by simp
    have "events = first @ later" and "outcome = result"
      using Cons.prems(3) step Round_Again later by simp_all
    then show ?thesis
      using IH slept by (auto simp: first k intro: outcome_ok_cons)
  qed
qed

text \<open>Termination: a round that does not end the execution starts one more attempt.\<close>

definition settles :: "'r poll list \<Rightarrow> bool" where
  "settles polls \<longleftrightarrow> (\<exists>p\<in>set polls. decisive p)"

lemma run_inner_settles: "settles polls \<Longrightarrow> run_inner ctx observed polls \<noteq> None"
  using run_select_pending [of False polls] by (auto simp: run_inner_def settles_def split: sum.splits)

lemma loop_round_settles:
  assumes "settles (rd_attempt_polls round)" and "settles (rd_backoff_polls round)"
  shows "snd (loop_round limit delay_for settings n last_error round) \<noteq> Round_Pending"
proof -
  obtain k result where attempt: "run_attempt limit settings n round = (k, result)"
    by (cases "run_attempt limit settings n round")
  then have "result \<noteq> None"
    using run_inner_settles [OF assms(1), of "attempt_context limit settings (rd_scope_now round)" "rd_attempt_check round"]
    by (auto simp: run_attempt_def Let_def)
  then show ?thesis
    using attempt run_inner_settles [OF assms(2), of "es_context settings" "rd_backoff_check round"]
    by (auto simp: loop_round_def Let_def split: sum.splits attempt_failure.splits option.splits run_end.splits)
qed

lemma execute_loop_total:
  assumes "retry_policy_ok (es_policy settings)"
    and "\<forall>round\<in>set rounds. rd_sample round \<le> U64_MAX \<and> settles (rd_attempt_polls round) \<and> settles (rd_backoff_polls round)"
    and "n < rp_max_attempts (es_policy settings)" and "rp_max_attempts (es_policy settings) \<le> n + length rounds"
  shows "snd (execute_loop limit (backoff_choice jitter) settings n last_error rounds) \<noteq> None"
  using assms(2-4)
proof (induction rounds arbitrary: n last_error)
  case Nil
  then show ?case by simp
next
  case (Cons round rounds)
  obtain first round_end where step:
    "loop_round limit (backoff_choice jitter) settings n last_error round = (first, round_end)"
    by (cases "loop_round limit (backoff_choice jitter) settings n last_error round")
  show ?case
  proof (cases round_end)
    case Round_Pending
    then show ?thesis
      using loop_round_settles [of round limit "backoff_choice jitter" settings n last_error] step Cons.prems(1) by simp
  next
    case (Round_Done result)
    then show ?thesis using step by simp
  next
    case (Round_Again k e)
    then have "k = Suc n" and "k < rp_max_attempts (es_policy settings)"
      using loop_round_ok [OF assms(1) _ Cons.prems(2) step] Cons.prems(1) by (auto simp: slept_ok_def)
    then show ?thesis
      using Cons.IH [of k "Some e"] Cons.prems step Round_Again by (auto split: prod.splits)
  qed
qed

lemma trace_ok_starts:
  "\<lbrakk>trace_ok jitter settings n events; n \<le> rp_max_attempts (es_policy settings)\<rbrakk> \<Longrightarrow>
     n + starts events \<le> rp_max_attempts (es_policy settings) \<and> (es_safety settings = Never \<longrightarrow> starts events \<le> 1)"
  by (induction jitter settings n events rule: trace_ok.induct) (auto simp: slept_ok_def)

lemma outcome_ok_no_panic:
  assumes "outcome_ok settings n last_error events r"
  shows "r \<noteq> Inl Panicked"
    and "es_attempt_maximum settings = None \<Longrightarrow>
      map_err (\<lambda>f. case f of Failure e \<Rightarrow> into_legacy e | Panicked \<Rightarrow> Panicked) r \<noteq> Inl Panicked"
proof -
  show "r \<noteq> Inl Panicked" using assms by (auto simp: outcome_ok_def Let_def)
  assume none: "es_attempt_maximum settings = None"
  show "map_err (\<lambda>f. case f of Failure e \<Rightarrow> into_legacy e | Panicked \<Rightarrow> Panicked) r \<noteq> Inl Panicked"
  proof (cases r)
    case (Inl f)
    then obtain e where f: "f = Failure e" using assms by (cases f) (auto simp: outcome_ok_def Let_def)
    then show ?thesis using Inl assms none by (cases e) (auto simp: outcome_ok_def Let_def)
  qed simp
qed

lemma execute_with_options_eq:
  "execute_with_options limit ctx safety policy attempt_maximum jitter rounds =
     execute_loop limit (backoff_choice jitter)
       \<lparr>es_context = ctx, es_safety = safety, es_policy = policy, es_attempt_maximum = attempt_maximum\<rparr> 0 None rounds"
  by (simp add: execute_with_options_def backoff_choice_def)

section \<open>Properties\<close>

text \<open>
  C21: retries are disciplined. With a valid policy, whatever the clock, the cancellation token, the
  application and its classifier do, an execution starts at most the configured number of attempts
  and at most one when replay is not authorized. Attempts are numbered consecutively, and between two
  of them it sleeps once: not less than the backoff (the jittered minimum when jittered) and never
  less than the delay the provider asked for, not more than the larger of the two, and only if the
  delay ends before the total deadline. The outcome reports the number of attempts started and the
  latest error the application returned; replay is reported forbidden exactly when it was not
  authorized, exhaustion only at the limit, and an attempt deadline only if one was configured.
\<close>

theorem retry_trace_disciplined:
  assumes "RetryPolicy_new limit now now' max_attempts initial maximum = Inr policy"
    and "\<forall>round\<in>set rounds. rd_sample round \<le> U64_MAX"
    and "execute_with_options limit ctx safety policy attempt_maximum jitter rounds = (events, outcome)"
  shows "starts events \<le> max_attempts \<and> (safety = Never \<longrightarrow> starts events \<le> 1) \<and>
    trace_ok jitter \<lparr>es_context = ctx, es_safety = safety, es_policy = policy,
      es_attempt_maximum = attempt_maximum\<rparr> 0 events \<and>
    (\<forall>result. outcome = Some result \<longrightarrow>
       outcome_ok \<lparr>es_context = ctx, es_safety = safety, es_policy = policy,
         es_attempt_maximum = attempt_maximum\<rparr> 0 None events result)"
proof -
  let ?s = "\<lparr>es_context = ctx, es_safety = safety, es_policy = policy, es_attempt_maximum = attempt_maximum\<rparr>"
  have policy: "retry_policy_ok policy" "rp_max_attempts policy = max_attempts"
    using assms(1) by (auto simp: RetryPolicy_new_ok)
  then have "trace_ok jitter ?s 0 events \<and> (\<forall>result. outcome = Some result \<longrightarrow> outcome_ok ?s 0 None events result)"
    using execute_loop_ok [of ?s rounds 0 limit jitter None events outcome] assms(2,3)
    by (simp add: execute_with_options_eq retry_policy_ok_def)
  then show ?thesis
    using trace_ok_starts [of jitter ?s 0 events] policy by simp
qed

text \<open>
  C34: an execution ends. If every attempt and every backoff that is polled completes, expires or is
  cancelled, the execution has a result after at most as many rounds as the policy permits attempts,
  and the plain and the jittered entry points never reach their unreachable branch or any other
  panic.
\<close>

theorem retry_execution_total:
  assumes "RetryPolicy_new limit now now' max_attempts initial maximum = Inr policy"
    and "\<forall>round\<in>set rounds. rd_sample round \<le> U64_MAX \<and> settles (rd_attempt_polls round) \<and> settles (rd_backoff_polls round)"
    and "max_attempts \<le> length rounds"
  shows "(\<exists>r. snd (execute_with_options limit ctx safety policy attempt_maximum jitter rounds) = Some r \<and> r \<noteq> Inl Panicked) \<and>
    (\<exists>r. snd (execute limit ctx safety policy rounds) = Some r \<and> r \<noteq> Inl Panicked) \<and>
    (\<exists>r. snd (execute_with_jitter limit ctx safety policy rounds) = Some r \<and> r \<noteq> Inl Panicked)"
proof -
  have policy: "retry_policy_ok policy" "rp_max_attempts policy = max_attempts"
    using assms(1) by (auto simp: RetryPolicy_new_ok)
  have ends: "\<exists>r. snd (execute_with_options limit ctx safety policy am j rounds) = Some r \<and>
      outcome_ok \<lparr>es_context = ctx, es_safety = safety, es_policy = policy, es_attempt_maximum = am\<rparr> 0 None
        (fst (execute_with_options limit ctx safety policy am j rounds)) r" for am j
  proof -
    let ?s = "\<lparr>es_context = ctx, es_safety = safety, es_policy = policy, es_attempt_maximum = am\<rparr>"
    obtain events outcome where run: "execute_loop limit (backoff_choice j) ?s 0 None rounds = (events, outcome)"
      by (cases "execute_loop limit (backoff_choice j) ?s 0 None rounds")
    then have "outcome \<noteq> None"
      using execute_loop_total [of ?s rounds 0 limit j None] policy assms(2,3) by (simp add: retry_policy_ok_def)
    then show ?thesis
      using execute_loop_ok [OF _ _ _ run] policy assms(2) run by (auto simp: execute_with_options_eq retry_policy_ok_def)
  qed
  have legacy: "\<exists>r. legacy_outcome (snd (execute_with_options limit ctx safety policy None j rounds)) = Some r \<and>
      r \<noteq> Inl Panicked" for j
    using ends [of None j] outcome_ok_no_panic(2) by (fastforce simp: legacy_outcome_def)
  show ?thesis
    using ends [of attempt_maximum jitter] outcome_ok_no_panic(1) legacy [of False] legacy [of True]
    by (fastforce simp: execute_def execute_with_jitter_def)
qed

text \<open>
  Backoff is exact. For every valid policy the delay after the n-th failed attempt is the initial
  delay doubled n-1 times, capped at the maximum; the saturating loop and its early exit never change
  that. Equal jitter of it never overflows or panics and lies between half of it (at least one
  nanosecond) and all of it, and the extreme samples attain both ends.
\<close>

theorem retry_backoff_exact:
  assumes "RetryPolicy_new limit now now' max_attempts initial maximum = Inr policy" and "sample \<le> U64_MAX"
  shows "retry_delay policy n = min maximum (initial * 2 ^ (n - 1)) \<and>
    (\<exists>b. equal_jitter (retry_delay policy n) sample = Some b \<and>
       max (retry_delay policy n div 2) 1 \<le> b \<and> b \<le> retry_delay policy n) \<and>
    equal_jitter (retry_delay policy n) 0 = Some (max (retry_delay policy n div 2) 1) \<and>
    equal_jitter (retry_delay policy n) U64_MAX = Some (retry_delay policy n)"
proof -
  let ?d = "retry_delay policy n"
  have policy: "retry_policy_ok policy" "rp_initial policy = initial" "rp_maximum policy = maximum"
    using assms(1) by (auto simp: RetryPolicy_new_ok)
  have d: "?d = min maximum (initial * 2 ^ (n - 1))"
    using retry_delay_eq [OF policy(1)] policy by simp
  then have small: "0 < ?d" "?d \<le> ONE_YEAR"
    using policy by (auto simp: retry_policy_ok_def)
  have "max (?d div 2) 1 \<le> ?d" using small(1) by simp
  then have full: "max (?d div 2) 1 + U64_MAX * (?d - max (?d div 2) 1 + 1) div 2 ^ 64 = ?d"
    using full_sample [of "?d - max (?d div 2) 1 + 1"] small ONE_YEAR_small(2) by linarith
  obtain b where "equal_jitter ?d sample = Some b \<and> max (?d div 2) 1 \<le> b \<and> b \<le> ?d"
    using equal_jitter_range [OF small assms(2)] by metis
  moreover have "equal_jitter ?d 0 = Some (max (?d div 2) 1)"
    using equal_jitter_eq(1) [OF small, of 0] by (simp only: le0 mult_0 div_0 add_0_right simp_thms)
  moreover have "equal_jitter ?d U64_MAX = Some ?d"
    using equal_jitter_eq(1) [OF small order_refl] by (simp only: full)
  ultimately show ?thesis using d by metis
qed

section \<open>Concrete executions\<close>

definition sample_policy :: retry_policy where
  "sample_policy = \<lparr>rp_max_attempts = 3, rp_initial = 10, rp_maximum = 40\<rparr>"

lemma sample_policy_new: "RetryPolicy_new 1000 0 0 3 10 40 = Inr sample_policy"
  by (simp add: RetryPolicy_new_def positive_def representable_def instant_add_def checked_add_def sample_policy_def
      ONE_YEAR_def NANOS_PER_SEC_def)

definition sample_round :: "nat + nat \<Rightarrow> (nat, nat) round" where
  "sample_round r =
     \<lparr>rd_check = (False, 0), rd_scope_now = 0, rd_attempt_check = (False, 0),
      rd_attempt_polls = [\<lparr>pl_cancelled = False, pl_expired = False, pl_work = Some (r, False)\<rparr>],
      rd_classify = (\<lambda>_. RetryAfter 15), rd_recheck = (False, 1), rd_sample = 0, rd_budget_now = 1,
      rd_backoff_check = (False, 1),
      rd_backoff_polls = [\<lparr>pl_cancelled = False, pl_expired = False, pl_work = None\<rparr>,
        \<lparr>pl_cancelled = False, pl_expired = False, pl_work = Some ()\<rparr>]\<rparr>"

definition sample_rounds :: "(nat, nat) round list" where
  "sample_rounds = [sample_round (Inl 7), sample_round (Inr 5), sample_round (Inr 6)]"

lemmas sample_round_eval = sample_round_def loop_round_def run_attempt_def attempt_context_def run_inner_def
  factory_invoked_def attempt_result_def Let_def

lemma sample_rounds_step:
  "loop_round limit (\<lambda>_. Some) \<lparr>es_context = \<lparr>oc_deadline = 100\<rparr>, es_safety = Idempotent, es_policy = sample_policy,
     es_attempt_maximum = None\<rparr> 0 None (sample_round (Inl 7)) =
   ([Ev_Started 1, Ev_Returned 7, Ev_Slept (RetryAfter 15) 1 15], Round_Again 1 7)"
  "loop_round limit (\<lambda>_. Some) \<lparr>es_context = \<lparr>oc_deadline = 100\<rparr>, es_safety = Idempotent, es_policy = sample_policy,
     es_attempt_maximum = None\<rparr> 1 (Some 7) (sample_round (Inr 5)) =
   ([Ev_Started 2], Round_Done (Inr 5))"
  by (simp_all add: sample_round_eval plan_retry_def retry_delay_def context_remaining_def sample_policy_def)

lemma sample_rounds_run:
  "execute_with_options 1000 \<lparr>oc_deadline = 100\<rparr> Idempotent sample_policy None False sample_rounds =
     ([Ev_Started 1, Ev_Returned 7, Ev_Slept (RetryAfter 15) 1 15, Ev_Started 2], Some (Inr 5))"
  using sample_rounds_step [of 1000] by (simp add: execute_with_options_def sample_rounds_def)

lemma sample_rounds_valid:
  "\<forall>round\<in>set sample_rounds. rd_sample round \<le> U64_MAX \<and> settles (rd_attempt_polls round) \<and> settles (rd_backoff_polls round)"
  by (auto simp: sample_rounds_def sample_round_def settles_def decisive_def)

theorem retry_trace_disciplined_witness:
  "starts [Ev_Started 1, Ev_Returned (7::nat), Ev_Slept (RetryAfter 15) 1 15, Ev_Started 2] \<le> 3 \<and>
   trace_ok False \<lparr>es_context = \<lparr>oc_deadline = 100\<rparr>, es_safety = Idempotent, es_policy = sample_policy,
     es_attempt_maximum = None\<rparr> 0 [Ev_Started 1, Ev_Returned (7::nat), Ev_Slept (RetryAfter 15) 1 15, Ev_Started 2]"
proof -
  have "\<forall>round\<in>set sample_rounds. rd_sample round \<le> U64_MAX"
    using sample_rounds_valid by blast
  from retry_trace_disciplined [OF sample_policy_new this sample_rounds_run] show ?thesis by blast
qed

theorem retry_execution_total_witness:
  "\<exists>r. snd (execute 1000 \<lparr>oc_deadline = 100\<rparr> Idempotent sample_policy sample_rounds) = Some r \<and> r \<noteq> Inl Panicked"
  using retry_execution_total [OF sample_policy_new sample_rounds_valid] by (simp add: sample_rounds_def)

theorem retry_backoff_exact_witness:
  "retry_delay sample_policy 2 = 20 \<and> equal_jitter (retry_delay sample_policy 2) U64_MAX = Some 20"
  using retry_backoff_exact [OF sample_policy_new, of 0 2] by auto

end
