(* ===== verification/Core_Cleanup.thy ===== *)
theory Core_Cleanup
  imports Core_Operation
begin

text \<open>
  Asynchronous cleanup of \<open>batter-core\<close> (\<open>cleanup.rs\<close>): budgets, the stack of named hooks and closing it,
  which runs the hooks one at a time in reverse order under a total budget, aborts a hook that exceeds
  its own, and skips the rest when the budget is used up or an aborted hook cannot be joined.

  A hook's action is an opaque value; what its task does is observed by polls. The loop consumes rounds
  of observations and emits the actions it starts. A sum of an instant and a duration that the platform
  cannot represent panics. Dropping hooks, spans and metrics are not modelled.
\<close>

section \<open>Budgets\<close>

record cleanup_budget =
  cb_total :: duration
  cb_per_hook :: duration
  cb_abort_reap :: duration

definition CleanupBudget_new ::
  "instant \<Rightarrow> (nat \<Rightarrow> instant) \<Rightarrow> duration \<Rightarrow> duration \<Rightarrow> duration \<Rightarrow> configuration_error + cleanup_budget" where
  "CleanupBudget_new limit now total_budget per_hook abort_reap =
     try_bind (positive limit (now 0) total_budget ''cleanup total'') (\<lambda>_.
     try_bind (positive limit (now 1) per_hook ''cleanup per hook'') (\<lambda>_.
     try_bind (positive limit (now 2) abort_reap ''cleanup abort reap'') (\<lambda>_.
     try_bind (ok_or (checked_add DURATION_MAX total_budget abort_reap) (Config_TooLarge ''cleanup combined budget'')) (\<lambda>combined.
     try_bind (representable limit (now 3) combined ''cleanup combined budget'') (\<lambda>_.
       Inr \<lparr>cb_total = total_budget, cb_per_hook = per_hook, cb_abort_reap = abort_reap\<rparr>)))))"

definition total_allowance :: "cleanup_budget \<Rightarrow> duration option" where
  "total_allowance budget = checked_add DURATION_MAX (cb_total budget) (cb_abort_reap budget)"

section \<open>Records\<close>

datatype cleanup_outcome =
    Cleanup_Succeeded
  | Cleanup_Failed
  | Cleanup_Panicked
  | Cleanup_Cancelled
  | Cleanup_TimedOut
  | Cleanup_Unjoined

datatype skip_reason = BudgetExhausted | PreviousCleanupUnjoined | UnsafeTaskExit

text \<open>How a hook's task ended: it returned, panicked or was cancelled.\<close>

datatype 'e task_end = Task_Returned "'e + unit" | Task_Panicked | Task_Cancelled

datatype 'e cleanup_cause = Hook_Error 'e | Join_Panic | Join_Cancelled

record 'e cleanup_record =
  ur_name :: rstr
  ur_outcome :: cleanup_outcome
  ur_error :: "'e cleanup_cause option"

record skipped_cleanup =
  sk_name :: rstr
  sk_reason :: skip_reason

record 'e cleanup_report =
  rp_records :: "'e cleanup_record list"
  rp_skipped :: "skipped_cleanup list"

definition report_is_success :: "'e cleanup_report \<Rightarrow> bool" where
  "report_is_success report \<longleftrightarrow>
     rp_skipped report = [] \<and> list_all (\<lambda>r. ur_outcome r = Cleanup_Succeeded) (rp_records report)"

definition cleanup_record_of :: "rstr \<Rightarrow> 'e task_end \<Rightarrow> 'e cleanup_record" where
  "cleanup_record_of name result =
     (case result of
        Task_Returned (Inr _) \<Rightarrow> \<lparr>ur_name = name, ur_outcome = Cleanup_Succeeded, ur_error = None\<rparr>
      | Task_Returned (Inl e) \<Rightarrow> \<lparr>ur_name = name, ur_outcome = Cleanup_Failed, ur_error = Some (Hook_Error e)\<rparr>
      | Task_Panicked \<Rightarrow> \<lparr>ur_name = name, ur_outcome = Cleanup_Panicked, ur_error = Some Join_Panic\<rparr>
      | Task_Cancelled \<Rightarrow> \<lparr>ur_name = name, ur_outcome = Cleanup_Cancelled, ur_error = Some Join_Cancelled\<rparr>)"

section \<open>The stack\<close>

record 'h hook =
  hk_name :: rstr
  hk_action :: 'h

type_synonym 'h cleanup_stack = "'h hook list"

definition CleanupStack_new :: "'h cleanup_stack" where
  "CleanupStack_new = []"

definition cleanup_reserve :: "rstr \<Rightarrow> 'h cleanup_stack \<Rightarrow> registration_error + rstr" where
  "cleanup_reserve name stack =
     try_bind (validate_name name) (\<lambda>_.
       if list_ex (\<lambda>hook. hk_name hook = name) stack then Inl (Duplicate name) else Inr name)"

definition cleanup_register :: "rstr \<Rightarrow> 'h \<Rightarrow> 'h cleanup_stack \<Rightarrow> 'h cleanup_stack" where
  "cleanup_register name action stack = stack @ [\<lparr>hk_name = name, hk_action = action\<rparr>]"

definition cleanup_push :: "rstr \<Rightarrow> 'h \<Rightarrow> 'h cleanup_stack \<Rightarrow> registration_error + 'h cleanup_stack" where
  "cleanup_push name action stack =
     try_bind (cleanup_reserve name stack) (\<lambda>name. Inr (cleanup_register name action stack))"

definition skip_remaining :: "skip_reason \<Rightarrow> 'h hook list \<Rightarrow> 'e cleanup_report \<Rightarrow> 'e cleanup_report" where
  "skip_remaining reason hooks report =
     report\<lparr>rp_skipped := rp_skipped report @ map (\<lambda>hook. \<lparr>sk_name = hk_name hook, sk_reason = reason\<rparr>) (rev hooks)\<rparr>"

definition cleanup_skip :: "skip_reason \<Rightarrow> 'h cleanup_stack \<Rightarrow> 'e cleanup_report" where
  "cleanup_skip reason stack = skip_remaining reason stack \<lparr>rp_records = [], rp_skipped = []\<rparr>"

section \<open>Closing\<close>

text \<open>A poll shows the joined task, if it ended, and whether the timer fired; joining comes first.\<close>

fun join_select :: "('e task_end option \<times> bool) list \<Rightarrow> 'e task_end option option" where
  "join_select [] = None"
| "join_select ((joined, expired) # polls) =
     (case joined of
        Some result \<Rightarrow> Some (Some result)
      | None \<Rightarrow> if expired then Some None else join_select polls)"

record 'e cleanup_round =
  cu_now :: instant
  cu_start :: instant
  cu_polls :: "('e task_end option \<times> bool) list"
  cu_abort :: instant
  cu_reap :: "('e task_end option \<times> bool) list"

datatype cleanup_end = Cleanup_Pending | Cleanup_Done | Cleanup_Overflow

text \<open>
  What the loop does: it starts a hook's action with a deadline and aborts it with a deadline for its
  end. The result of a hook is \<open>None\<close> while pending, and \<open>Some None\<close> when computing a deadline panics.
\<close>

datatype 'h cleanup_event = Hook_Started 'h instant | Hook_Aborted 'h instant

definition abort_cleanup ::
  "instant \<Rightarrow> cleanup_budget \<Rightarrow> instant \<Rightarrow> 'h hook \<Rightarrow> 'e cleanup_round \<Rightarrow>
   'h cleanup_event list \<times> 'e cleanup_record option option" where
  "abort_cleanup limit budget final_deadline hook round =
     (case instant_add limit (cu_abort round) (cb_abort_reap budget) of
        None \<Rightarrow> ([], Some None)
      | Some reap_end \<Rightarrow>
          ([Hook_Aborted (hk_action hook) (min final_deadline reap_end)],
           case join_select (cu_reap round) of
             None \<Rightarrow> None
           | Some (Some result) \<Rightarrow>
               Some (Some ((cleanup_record_of (hk_name hook) result)\<lparr>ur_outcome := Cleanup_TimedOut\<rparr>))
           | Some None \<Rightarrow> Some (Some \<lparr>ur_name = hk_name hook, ur_outcome = Cleanup_Unjoined, ur_error = None\<rparr>)))"

definition run_hook ::
  "instant \<Rightarrow> cleanup_budget \<Rightarrow> instant \<Rightarrow> instant \<Rightarrow> 'h hook \<Rightarrow> 'e cleanup_round \<Rightarrow>
   'h cleanup_event list \<times> 'e cleanup_record option option" where
  "run_hook limit budget work_deadline final_deadline hook round =
     (case instant_add limit (cu_start round) (cb_per_hook budget) of
        None \<Rightarrow> ([], Some None)
      | Some hook_end \<Rightarrow>
          map_prod (Cons (Hook_Started (hk_action hook) (min work_deadline hook_end))) id
            (case join_select (cu_polls round) of
               None \<Rightarrow> ([], None)
             | Some (Some result) \<Rightarrow> ([], Some (Some (cleanup_record_of (hk_name hook) result)))
             | Some None \<Rightarrow> abort_cleanup limit budget final_deadline hook round))"

text \<open>The loop over the hooks in the order they are popped.\<close>

fun close_loop ::
  "instant \<Rightarrow> cleanup_budget \<Rightarrow> instant \<Rightarrow> instant \<Rightarrow> 'e cleanup_round list \<Rightarrow> 'h hook list \<Rightarrow> 'e cleanup_report \<Rightarrow>
   'h cleanup_event list \<times> 'e cleanup_report \<times> cleanup_end" where
  "close_loop limit budget work_deadline final_deadline [] pending report = ([], report, Cleanup_Pending)"
| "close_loop limit budget work_deadline final_deadline (round # rounds) pending report =
     (if work_deadline \<le> cu_now round
      then ([], skip_remaining BudgetExhausted (rev pending) report, Cleanup_Done)
      else case pending of
          [] \<Rightarrow> ([], report, Cleanup_Done)
        | hook # pending \<Rightarrow>
            (case run_hook limit budget work_deadline final_deadline hook round of
               (events, None) \<Rightarrow> (events, report, Cleanup_Pending)
             | (events, Some None) \<Rightarrow> (events, report, Cleanup_Overflow)
             | (events, Some (Some record)) \<Rightarrow>
                 (let report = report\<lparr>rp_records := rp_records report @ [record]\<rparr>
                  in if ur_outcome record = Cleanup_Unjoined
                     then (events, skip_remaining PreviousCleanupUnjoined (rev pending) report, Cleanup_Done)
                     else map_prod (append events) id
                       (close_loop limit budget work_deadline final_deadline rounds pending report))))"

definition close_deadlines ::
  "instant \<Rightarrow> cleanup_budget \<Rightarrow> instant option \<Rightarrow> instant \<Rightarrow> (instant \<times> instant) option" where
  "close_deadlines limit budget end_at started =
     Option.bind (total_allowance budget) (\<lambda>allowance.
     Option.bind (instant_add limit started allowance) (\<lambda>latest.
     Option.bind (instant_add limit started (cb_total budget)) (\<lambda>work_end.
       let final_deadline = (case end_at of None \<Rightarrow> latest | Some t \<Rightarrow> min t latest)
       in Some (min work_end (if cb_abort_reap budget \<le> final_deadline then final_deadline - cb_abort_reap budget else started),
           final_deadline))))"

definition close_before ::
  "instant \<Rightarrow> cleanup_budget \<Rightarrow> instant option \<Rightarrow> instant \<Rightarrow> 'e cleanup_round list \<Rightarrow> 'h cleanup_stack \<Rightarrow>
   'h cleanup_event list \<times> 'e cleanup_report \<times> cleanup_end" where
  "close_before limit budget end_at started rounds stack =
     (case close_deadlines limit budget end_at started of
        None \<Rightarrow> ([], \<lparr>rp_records = [], rp_skipped = []\<rparr>, Cleanup_Overflow)
      | Some (work_deadline, final_deadline) \<Rightarrow>
          close_loop limit budget work_deadline final_deadline rounds (rev stack) \<lparr>rp_records = [], rp_skipped = []\<rparr>)"

definition cleanup_close ::
  "instant \<Rightarrow> cleanup_budget \<Rightarrow> instant \<Rightarrow> 'e cleanup_round list \<Rightarrow> 'h cleanup_stack \<Rightarrow>
   'h cleanup_event list \<times> 'e cleanup_report \<times> cleanup_end" where
  "cleanup_close limit budget started rounds stack = close_before limit budget None started rounds stack"

section \<open>Facts\<close>

definition event_start :: "'h cleanup_event \<Rightarrow> 'h option" where
  "event_start event = (case event of Hook_Started action _ \<Rightarrow> Some action | Hook_Aborted _ _ \<Rightarrow> None)"

definition starts_of :: "'h cleanup_event list \<Rightarrow> 'h list" where
  "starts_of events = List.map_filter event_start events"

lemma starts_of_simps [simp]:
  "starts_of [] = []" "starts_of (xs @ ys) = starts_of xs @ starts_of ys"
  "starts_of (Hook_Started a d # xs) = a # starts_of xs" "starts_of (Hook_Aborted a d # xs) = starts_of xs"
  by (simp_all add: starts_of_def event_start_def List.map_filter_def)

lemma record_of_name [simp]: "ur_name (cleanup_record_of name result) = name"
  by (auto simp: cleanup_record_of_def split: task_end.splits sum.splits)

lemma record_of_joined: "ur_outcome (cleanup_record_of name result) \<noteq> Cleanup_Unjoined"
  by (auto simp: cleanup_record_of_def split: task_end.splits sum.splits)

text \<open>A record tells how the task of its hook ended in its round.\<close>

definition record_truthful :: "'e cleanup_round \<Rightarrow> 'e cleanup_record \<Rightarrow> bool" where
  "record_truthful round r \<longleftrightarrow>
     (let joined = join_select (cu_polls round); reaped = join_select (cu_reap round) in
        (ur_outcome r = Cleanup_Succeeded \<longleftrightarrow> (\<exists>v. joined = Some (Some (Task_Returned (Inr v))))) \<and>
        (\<forall>e. joined = Some (Some (Task_Returned (Inl e))) \<longrightarrow> ur_outcome r = Cleanup_Failed \<and> ur_error r = Some (Hook_Error e)) \<and>
        (ur_outcome r = Cleanup_Panicked \<longleftrightarrow> joined = Some (Some Task_Panicked)) \<and>
        (ur_outcome r = Cleanup_TimedOut \<longleftrightarrow> joined = Some None \<and> (\<exists>v. reaped = Some (Some v))) \<and>
        (ur_outcome r = Cleanup_Unjoined \<longleftrightarrow> joined = Some None \<and> reaped = Some None))"

lemma run_hook_record:
  assumes "run_hook limit budget work_deadline final_deadline hook round = (events, Some (Some entry))"
  shows "ur_name entry = hk_name hook \<and> starts_of events = [hk_action hook]"
  using assms
  by (auto simp: run_hook_def abort_cleanup_def split: option.splits)

lemma run_hook_truthful:
  assumes "run_hook limit budget work_deadline final_deadline hook round = (events, Some (Some entry))"
  shows "record_truthful round entry"
  using assms
  by (auto simp: run_hook_def abort_cleanup_def record_truthful_def cleanup_record_of_def Let_def
      split: option.splits task_end.splits sum.splits)

text \<open>A report extends another by records and skips for the given hooks, in their order.\<close>

definition report_extends ::
  "'h hook list \<Rightarrow> 'e cleanup_report \<Rightarrow> 'e cleanup_report \<Rightarrow> 'e cleanup_record list \<Rightarrow> skipped_cleanup list \<Rightarrow> bool" where
  "report_extends pending report report' records skipped \<longleftrightarrow>
     rp_records report' = rp_records report @ records \<and> rp_skipped report' = rp_skipped report @ skipped \<and>
     map ur_name records @ map sk_name skipped = map hk_name pending \<and>
     (\<forall>r\<in>set (butlast records). ur_outcome r \<noteq> Cleanup_Unjoined) \<and>
     (\<forall>s\<in>set skipped. sk_reason s =
        (if records \<noteq> [] \<and> ur_outcome (last records) = Cleanup_Unjoined then PreviousCleanupUnjoined else BudgetExhausted))"

lemma map_prod_append_eq: "map_prod (append es) id p = (events, q) \<longleftrightarrow> (\<exists>es'. p = (es', q) \<and> events = es @ es')"
  by (cases p) auto

lemma close_loop_done:
  assumes "close_loop limit budget work_deadline final_deadline rounds pending report = (events, report', Cleanup_Done)"
  shows "\<exists>records skipped. report_extends pending report report' records skipped \<and>
    starts_of events = take (length records) (map hk_action pending) \<and>
    (\<forall>i < length records. i < length rounds \<and> record_truthful (rounds ! i) (records ! i))"
  using assms
proof (induction rounds arbitrary: pending report events)
  case (Cons round rounds)
  show ?case
  proof (cases "work_deadline \<le> cu_now round \<or> pending = []")
    case True
    with Cons.prems show ?thesis
      by (intro exI [of _ "[]"] exI [of _ "map (\<lambda>hook. \<lparr>sk_name = hk_name hook, sk_reason = BudgetExhausted\<rparr>) pending"])
        (auto simp: report_extends_def skip_remaining_def split: if_splits)
  next
    case False
    then obtain hook rest where p: "pending = hook # rest" by (cases pending) auto
    obtain es result where h: "run_hook limit budget work_deadline final_deadline hook round = (es, result)" by fastforce
    then obtain entry where r: "result = Some (Some entry)"
      using Cons.prems False p by (auto split: option.splits)
    note rec = run_hook_record [OF h [unfolded r]] and true = run_hook_truthful [OF h [unfolded r]]
    define mid where "mid = report\<lparr>rp_records := rp_records report @ [entry]\<rparr>"
    show ?thesis
    proof (cases "ur_outcome entry = Cleanup_Unjoined")
      case True
      with Cons.prems False p h r rec true show ?thesis
        by (intro exI [of _ "[entry]"]
            exI [of _ "map (\<lambda>hook. \<lparr>sk_name = hk_name hook, sk_reason = PreviousCleanupUnjoined\<rparr>) rest"])
          (auto simp: report_extends_def skip_remaining_def)
    next
      case joined: False
      obtain es' where l: "close_loop limit budget work_deadline final_deadline rounds rest mid = (es', report', Cleanup_Done)"
        and events: "events = es @ es'"
        using Cons.prems False p h r joined by (auto simp: mid_def map_prod_append_eq)
      from Cons.IH [OF l] obtain records skipped where
        x: "report_extends rest mid report' records skipped" "starts_of es' = take (length records) (map hk_action rest)"
        "\<forall>i < length records. i < length rounds \<and> record_truthful (rounds ! i) (records ! i)"
        by blast
      have "report_extends pending report report' (entry # records) skipped"
        using x(1) rec joined by (auto simp: report_extends_def p mid_def)
      moreover have "i < length (round # rounds) \<and> record_truthful ((round # rounds) ! i) ((entry # records) ! i)"
        if "i < length (entry # records)" for i
        using that true x(3) by (cases i) auto
      ultimately show ?thesis using x(2) rec
        by (intro exI [of _ "entry # records"] exI [of _ skipped]) (simp add: events p)
    qed
  qed
qed simp

fun cleanup_pushes :: "(rstr \<times> 'h) list \<Rightarrow> 'h cleanup_stack \<Rightarrow> registration_error + 'h cleanup_stack" where
  "cleanup_pushes [] stack = Inr stack"
| "cleanup_pushes ((name, action) # others) stack = try_bind (cleanup_push name action stack) (cleanup_pushes others)"

lemma cleanup_pushes_stack:
  "cleanup_pushes items stack = Inr stack' \<Longrightarrow> distinct (map hk_name stack) \<Longrightarrow>
   map (\<lambda>h. (hk_name h, hk_action h)) stack' = map (\<lambda>h. (hk_name h, hk_action h)) stack @ items \<and> distinct (map hk_name stack')"
proof (induction items arbitrary: stack)
  case (Cons item items)
  obtain name action where item: "item = (name, action)" by (cases item)
  from Cons.prems(1) obtain mid where push: "cleanup_push name action stack = Inr mid" and rest: "cleanup_pushes items mid = Inr stack'"
    by (auto simp: item try_bind_eq_Inr)
  have "mid = stack @ [\<lparr>hk_name = name, hk_action = action\<rparr>]" "name \<notin> set (map hk_name stack)"
    using push by (auto simp: cleanup_push_def cleanup_reserve_def cleanup_register_def try_bind_eq_Inr list_ex_iff split: if_splits)
  with Cons.IH [OF rest] Cons.prems(2) show ?case by (simp add: item)
qed simp

text \<open>Deadlines and progress.\<close>

definition event_within :: "instant \<Rightarrow> instant \<Rightarrow> 'h cleanup_event \<Rightarrow> bool" where
  "event_within work_deadline final_deadline event =
     (case event of Hook_Started _ d \<Rightarrow> d \<le> work_deadline | Hook_Aborted _ d \<Rightarrow> d \<le> final_deadline)"

lemma run_hook_within:
  "run_hook limit budget work_deadline final_deadline hook round = (events, result) \<Longrightarrow>
   list_all (event_within work_deadline final_deadline) events"
  by (auto simp: run_hook_def abort_cleanup_def event_within_def split: option.splits)

lemma close_loop_within:
  "close_loop limit budget work_deadline final_deadline rounds pending report = (events, report', ended) \<Longrightarrow>
   list_all (event_within work_deadline final_deadline) events"
proof (induction rounds arbitrary: pending report events)
  case (Cons round rounds)
  show ?case
  proof (cases pending)
    case Nil
    with Cons.prems show ?thesis by (auto split: if_splits)
  next
    case (Cons hook rest)
    obtain es result where h: "run_hook limit budget work_deadline final_deadline hook round = (es, result)" by fastforce
    with Cons.prems Cons.IH run_hook_within [OF h] show ?thesis
      unfolding Cons by (auto simp: Let_def map_prod_append_eq split: if_splits option.splits)
  qed
qed simp

text \<open>A round in which the platform can represent the timers and every wait ends.\<close>

definition round_settles :: "instant \<Rightarrow> cleanup_budget \<Rightarrow> 'e cleanup_round \<Rightarrow> bool" where
  "round_settles limit budget round \<longleftrightarrow>
     cu_start round + cb_per_hook budget \<le> limit \<and> cu_abort round + cb_abort_reap budget \<le> limit \<and>
     join_select (cu_polls round) \<noteq> None \<and> join_select (cu_reap round) \<noteq> None"

lemma run_hook_settles:
  "round_settles limit budget round \<Longrightarrow>
   \<exists>events entry. run_hook limit budget work_deadline final_deadline hook round = (events, Some (Some entry))"
  by (auto simp: round_settles_def run_hook_def abort_cleanup_def instant_add_def checked_add_def split: option.splits)

lemma close_loop_total:
  assumes "\<forall>round\<in>set rounds. round_settles limit budget round" and "length pending < length rounds"
  shows "snd (snd (close_loop limit budget work_deadline final_deadline rounds pending report)) = Cleanup_Done"
  using assms
proof (induction rounds arbitrary: pending report)
  case (Cons round rounds)
  show ?case
  proof (cases pending)
    case (Cons hook rest)
    obtain events entry where "run_hook limit budget work_deadline final_deadline hook round = (events, Some (Some entry))"
      using run_hook_settles Cons.prems(1) by fastforce
    then show ?thesis
      using Cons.prems Cons.IH [of rest] unfolding Cons by (simp add: Let_def)
  qed simp
qed simp

section \<open>Properties\<close>

text \<open>
  C31: closing a cleanup stack accounts for every hook. Whatever the hooks and the clock do, a finished
  report names every registered hook exactly once, in reverse order of registration: first the hooks
  that were started, each with its outcome, then the skipped ones. The hooks started are exactly the
  recorded ones, in that order, and every record tells how its own hook ended: succeeded exactly if
  its task returned without an error before its deadline, with the hook's error if it returned one,
  panicked if it panicked, timed out if it ended only after it was aborted, unjoined if not even
  then. Only the last record can be an unjoined hook, and then the rest was
  skipped for that reason, otherwise for an exhausted budget. The report is successful exactly if every
  hook was started and succeeded.
\<close>

theorem cleanup_exhaustive:
  assumes pushes: "cleanup_pushes items CleanupStack_new = Inr stack"
    and close: "close_before limit budget end_at started rounds stack = (events, report, Cleanup_Done)"
  shows "map ur_name (rp_records report) @ map sk_name (rp_skipped report) = rev (map fst items) \<and>
    distinct (map fst items) \<and>
    starts_of events = take (length (rp_records report)) (rev (map snd items)) \<and>
    (\<forall>i < length (rp_records report). i < length rounds \<and> record_truthful (rounds ! i) (rp_records report ! i)) \<and>
    (\<forall>r\<in>set (butlast (rp_records report)). ur_outcome r \<noteq> Cleanup_Unjoined) \<and>
    (\<forall>s\<in>set (rp_skipped report). sk_reason s =
       (if rp_records report \<noteq> [] \<and> ur_outcome (last (rp_records report)) = Cleanup_Unjoined
        then PreviousCleanupUnjoined else BudgetExhausted)) \<and>
    (report_is_success report \<longleftrightarrow> starts_of events = rev (map snd items) \<and>
       list_all (\<lambda>r. ur_outcome r = Cleanup_Succeeded) (rp_records report))"
proof -
  from cleanup_pushes_stack [OF pushes] have stack: "map (\<lambda>h. (hk_name h, hk_action h)) stack = items"
    "distinct (map hk_name stack)" by (simp_all add: CleanupStack_new_def)
  then have names: "map hk_name stack = map fst items" and actions: "map hk_action stack = map snd items"
    by (auto simp: comp_def)
  from close obtain work_deadline final_deadline where
    "close_loop limit budget work_deadline final_deadline rounds (rev stack) \<lparr>rp_records = [], rp_skipped = []\<rparr> =
       (events, report, Cleanup_Done)"
    by (auto simp: close_before_def split: option.splits)
  from close_loop_done [OF this] obtain records skipped where
    x: "report_extends (rev stack) \<lparr>rp_records = [], rp_skipped = []\<rparr> report records skipped"
    and s: "starts_of events = take (length records) (map hk_action (rev stack))"
    and true: "\<forall>i < length records. i < length rounds \<and> record_truthful (rounds ! i) (records ! i)" by blast
  have r: "rp_records report = records" "rp_skipped report = skipped"
    and order: "map ur_name records @ map sk_name skipped = rev (map fst items)"
    using x names by (simp_all add: report_extends_def rev_map [symmetric])
  have s': "starts_of events = take (length records) (rev (map snd items))" using s actions by (simp add: rev_map [symmetric])
  have "length records + length skipped = length items" using arg_cong [OF order, of length] by simp
  then have "skipped = [] \<longleftrightarrow> length items \<le> length records"
    unfolding length_0_conv [symmetric] by linarith
  then have "skipped = [] \<longleftrightarrow> starts_of events = rev (map snd items)"
    unfolding s' by (simp add: take_all_iff)
  then show ?thesis
    using order s' x stack(2) true by (auto simp: r names report_extends_def report_is_success_def)
qed

text \<open>
  C32: closing is bounded and ends. For every accepted budget every started hook has a deadline within
  the total budget and, as far as the caller's end leaves room for aborting, before that end; every
  aborted hook has a deadline for its end within the total allowance and before the caller's end. If
  every started task ends or its timer fires, and the platform can represent the timers, closing ends
  after at most one round more than there are hooks, and it never panics.
\<close>

theorem cleanup_bounded:
  assumes budget: "CleanupBudget_new limit clock total_budget per_hook abort_reap = Inr budget"
    and close: "close_before limit budget end_at started rounds stack = (events, report, ended)"
    and room: "started + total_budget + abort_reap \<le> limit"
  shows "(\<forall>event\<in>set events. case event of
        Hook_Started _ d \<Rightarrow> d \<le> started + total_budget \<and> (\<forall>t. end_at = Some t \<and> started + abort_reap \<le> t \<longrightarrow> d + abort_reap \<le> t)
      | Hook_Aborted _ d \<Rightarrow> d \<le> started + total_budget + abort_reap \<and> (\<forall>t. end_at = Some t \<longrightarrow> d \<le> t)) \<and>
    ((\<forall>round\<in>set rounds. round_settles limit budget round) \<and> length stack < length rounds \<longrightarrow> ended = Cleanup_Done)"
proof -
  have b: "budget = \<lparr>cb_total = total_budget, cb_per_hook = per_hook, cb_abort_reap = abort_reap\<rparr>"
    and sum: "total_budget + abort_reap \<le> DURATION_MAX"
    using budget by (auto simp: CleanupBudget_new_def try_bind_eq_Inr ok_or_eq_Inr checked_add_eq_Some)
  define final_deadline where
    "final_deadline = (case end_at of None \<Rightarrow> started + total_budget + abort_reap | Some t \<Rightarrow> min t (started + total_budget + abort_reap))"
  define work_deadline where
    "work_deadline = min (started + total_budget) (if abort_reap \<le> final_deadline then final_deadline - abort_reap else started)"
  have "close_deadlines limit budget end_at started = Some (work_deadline, final_deadline)"
    using sum room
    by (auto simp: close_deadlines_def total_allowance_def b checked_add_def instant_add_def work_deadline_def
        final_deadline_def add.assoc Let_def split: option.splits)
  with close have loop: "close_loop limit budget work_deadline final_deadline rounds (rev stack)
      \<lparr>rp_records = [], rp_skipped = []\<rparr> = (events, report, ended)"
    by (simp add: close_before_def)
  have final: "final_deadline \<le> started + total_budget + abort_reap" "\<And>t. end_at = Some t \<Longrightarrow> final_deadline \<le> t"
    by (auto simp: final_deadline_def split: option.splits)
  have work: "work_deadline \<le> started + total_budget"
    "\<And>t. end_at = Some t \<Longrightarrow> started + abort_reap \<le> t \<Longrightarrow> work_deadline + abort_reap \<le> t"
    by (auto simp: work_deadline_def final_deadline_def split: option.splits)
  have "case event of
      Hook_Started _ d \<Rightarrow> d \<le> started + total_budget \<and> (\<forall>t. end_at = Some t \<and> started + abort_reap \<le> t \<longrightarrow> d + abort_reap \<le> t)
    | Hook_Aborted _ d \<Rightarrow> d \<le> started + total_budget + abort_reap \<and> (\<forall>t. end_at = Some t \<longrightarrow> d \<le> t)"
    if "event \<in> set events" for event
    using close_loop_within [OF loop] that final work
    by (cases event) (force simp: list_all_iff event_within_def)+
  moreover have "ended = Cleanup_Done"
    if "\<forall>round\<in>set rounds. round_settles limit budget round" "length stack < length rounds"
    using close_loop_total [of rounds limit budget "rev stack" work_deadline final_deadline] that loop
    by (metis length_rev snd_conv)
  ultimately show ?thesis by blast
qed

section \<open>Witnesses\<close>

text \<open>Three hooks: the last succeeds, the second hangs and cannot be joined, the first is skipped.\<close>

definition sample_hooks :: "nat hook list" where
  "sample_hooks = [\<lparr>hk_name = [97], hk_action = 1\<rparr>, \<lparr>hk_name = [98], hk_action = 2\<rparr>, \<lparr>hk_name = [99], hk_action = 3\<rparr>]"

definition sample_cleanup_budget :: cleanup_budget where
  "sample_cleanup_budget = \<lparr>cb_total = 100, cb_per_hook = 30, cb_abort_reap = 10\<rparr>"

definition sample_cleanup_rounds :: "nat cleanup_round list" where
  "sample_cleanup_rounds =
     [\<lparr>cu_now = 1000, cu_start = 1000, cu_polls = [(None, False), (Some (Task_Returned (Inr ())), False)],
       cu_abort = 1000, cu_reap = [(None, True)]\<rparr>,
      \<lparr>cu_now = 1005, cu_start = 1005, cu_polls = [(None, True)], cu_abort = 1035, cu_reap = [(None, True)]\<rparr>,
      \<lparr>cu_now = 1045, cu_start = 1045, cu_polls = [(None, True)], cu_abort = 1075, cu_reap = [(None, True)]\<rparr>,
      \<lparr>cu_now = 1090, cu_start = 1090, cu_polls = [(None, True)], cu_abort = 1095, cu_reap = [(None, True)]\<rparr>]"

definition sample_cleanup_report :: "nat cleanup_report" where
  "sample_cleanup_report =
     \<lparr>rp_records = [\<lparr>ur_name = [99], ur_outcome = Cleanup_Succeeded, ur_error = None\<rparr>,
        \<lparr>ur_name = [98], ur_outcome = Cleanup_Unjoined, ur_error = None\<rparr>],
      rp_skipped = [\<lparr>sk_name = [97], sk_reason = PreviousCleanupUnjoined\<rparr>]\<rparr>"

lemma sample_names: "validate_name [97] = Inr ()" "validate_name [98] = Inr ()" "validate_name [99] = Inr ()"
  by (code_simp, code_simp, code_simp)

lemma sample_pushes: "cleanup_pushes [([97], 1), ([98], 2), ([99], 3 :: nat)] CleanupStack_new = Inr sample_hooks"
  by (simp add: CleanupStack_new_def cleanup_push_def cleanup_reserve_def cleanup_register_def sample_hooks_def
      sample_names try_bind_def)

lemma sample_close:
  "close_before 5000 sample_cleanup_budget (Some 1200) 1000 sample_cleanup_rounds sample_hooks =
     ([Hook_Started 3 1030, Hook_Started 2 1035, Hook_Aborted 2 1045], sample_cleanup_report, Cleanup_Done)"
  by (simp add: close_before_def close_deadlines_def total_allowance_def sample_cleanup_budget_def instant_add_def
      checked_add_def DURATION_MAX_def U64_MAX_def NANOS_PER_SEC_def sample_cleanup_rounds_def sample_hooks_def
      run_hook_def abort_cleanup_def cleanup_record_of_def skip_remaining_def sample_cleanup_report_def Let_def)

lemma sample_budget_accepted: "CleanupBudget_new 5000 (\<lambda>_. 0) 100 30 10 = Inr sample_cleanup_budget"
  by (simp add: CleanupBudget_new_def sample_cleanup_budget_def positive_def representable_def instant_add_def
      checked_add_def ONE_YEAR_def DURATION_MAX_def U64_MAX_def NANOS_PER_SEC_def try_bind_def ok_or_def)

theorem cleanup_exhaustive_witness:
  "map ur_name (rp_records sample_cleanup_report) @ map sk_name (rp_skipped sample_cleanup_report) = [[99], [98], [97]] \<and>
   \<not> report_is_success sample_cleanup_report"
  using cleanup_exhaustive [OF sample_pushes sample_close] by (simp add: sample_cleanup_report_def)

theorem cleanup_bounded_witness:
  "case Hook_Aborted 2 1045 of Hook_Started (_ :: nat) d \<Rightarrow> d \<le> 1000 + cb_total sample_cleanup_budget | Hook_Aborted _ d \<Rightarrow> d \<le> 1200"
  using cleanup_bounded [OF sample_budget_accepted sample_close] by (simp add: sample_cleanup_budget_def)

end
