(* ===== verification/Lifecycle_State.thy ===== *)
theory Lifecycle_State
  imports Core_Operation
begin

text \<open>
  Lifecycle transitions and admission of \<open>batter-core\<close> (\<open>lifecycle/state.rs\<close>,
  \<open>lifecycle/state/readiness.rs\<close>).

  All transitions run under one mutex, so each is one atomic function of the shared state. The
  cancellation tokens an operation cancels after releasing the mutex are the list it returns; in the
  transition system below these cancellations are separate steps that other callers interleave with.
  Every reading of the clock is an argument. Notifications and the futures that wait for them have no
  effect on the state and are not modelled.
\<close>

section \<open>State\<close>

datatype readiness = Starting | Ready | Draining | Stopped

datatype readiness_progress =
    Progress_Pending "instant option"
  | Progress_Ready
  | Progress_Stopped
  | Progress_DeadlineExceeded

record admission_state =
  as_readiness :: readiness
  as_progress :: readiness_progress
  as_supervised :: bool
  as_driver_started :: bool
  as_ready_requested :: bool
  as_pending_startups :: nat
  as_finite_active :: nat
  as_forced :: bool
  as_failed :: bool
  as_support_closed :: bool
  as_stop_started :: "instant option"

datatype token = Drain_Token | Support_Token | Cancel_Token

record shared =
  sh_admission :: admission_state
  sh_published :: nat
  sh_cancelled :: "token set"

datatype supervision = Driven | Standalone

datatype periodic_role = Support | Ordinary

datatype queue_state = Queue_Closed | Queue_Open

datatype process_admission_error = NotRunning | NotReady | Closed | Full | Process_InvalidName registration_error

datatype periodic_admission = Admitted "instant option" | Periodic_Stopped

section \<open>Transitions of the admission state\<close>

definition may_become_ready :: "instant \<Rightarrow> readiness_progress \<Rightarrow> bool" where
  "may_become_ready now progress =
     (case progress of
        Progress_Pending deadline \<Rightarrow> (case deadline of None \<Rightarrow> True | Some end \<Rightarrow> now < end)
      | _ \<Rightarrow> False)"

definition progress_stop :: "instant \<Rightarrow> readiness_progress \<Rightarrow> readiness_progress" where
  "progress_stop now progress =
     (case progress of
        Progress_Pending deadline \<Rightarrow>
          (case deadline of
             Some end \<Rightarrow> if end \<le> now then Progress_DeadlineExceeded else Progress_Stopped
           | None \<Rightarrow> Progress_Stopped)
      | _ \<Rightarrow> progress)"

definition publish_ready :: "instant \<Rightarrow> admission_state \<Rightarrow> admission_state" where
  "publish_ready now state =
     (if as_readiness state = Starting \<and> as_ready_requested state \<and>
         (\<not> as_supervised state \<or> as_driver_started state) \<and> as_pending_startups state = 0
      then if may_become_ready now (as_progress state)
           then state\<lparr>as_readiness := Ready, as_progress := Progress_Ready\<rparr>
           else state
      else state)"

definition request_drain :: "instant \<Rightarrow> instant \<Rightarrow> instant \<Rightarrow> admission_state \<Rightarrow> admission_state" where
  "request_drain started now now' state =
     (let state = state\<lparr>as_progress := progress_stop now (as_progress state)\<rparr>;
          started = min started now';
          state = state\<lparr>as_stop_started :=
            Some (case as_stop_started state of None \<Rightarrow> started | Some old \<Rightarrow> min old started)\<rparr>
      in if as_readiness state \<noteq> Stopped then state\<lparr>as_readiness := Draining\<rparr> else state)"

section \<open>The shared lifecycle\<close>

definition readiness_code :: "readiness \<Rightarrow> nat" where
  "readiness_code r = (case r of Starting \<Rightarrow> 0 | Ready \<Rightarrow> 1 | Draining \<Rightarrow> 2 | Stopped \<Rightarrow> 3)"

definition Shared_new :: "supervision \<Rightarrow> shared" where
  "Shared_new supervised =
     \<lparr>sh_admission =
        \<lparr>as_readiness = Starting, as_progress = Progress_Pending None, as_supervised = (supervised = Driven),
         as_driver_started = False, as_ready_requested = False, as_pending_startups = 0, as_finite_active = 0,
         as_forced = False, as_failed = False, as_support_closed = False, as_stop_started = None\<rparr>,
      sh_published = readiness_code Starting, sh_cancelled = {}\<rparr>"

definition shared_readiness :: "shared \<Rightarrow> readiness" where
  "shared_readiness shared =
     (if sh_published shared = readiness_code Starting then Starting
      else if sh_published shared = readiness_code Ready then Ready
      else if sh_published shared = readiness_code Draining then Draining
      else Stopped)"

definition publish_readiness :: "admission_state \<Rightarrow> shared \<Rightarrow> shared" where
  "publish_readiness state shared = shared\<lparr>sh_admission := state, sh_published := readiness_code (as_readiness state)\<rparr>"

definition mark_ready :: "instant \<Rightarrow> shared \<Rightarrow> bool \<times> shared" where
  "mark_ready now shared =
     (let state = sh_admission shared
      in if as_ready_requested state \<or> as_readiness state \<in> {Draining, Stopped} then (False, shared)
         else (True, publish_readiness (publish_ready now (state\<lparr>as_ready_requested := True\<rparr>)) shared))"

definition register_component :: "shared \<Rightarrow> shared" where
  "register_component shared =
     shared\<lparr>sh_admission := (sh_admission shared)\<lparr>as_pending_startups := as_pending_startups (sh_admission shared) + 1\<rparr>\<rparr>"

text \<open>The checked subtraction panics, which is \<open>None\<close>, when no startup is pending.\<close>

definition acknowledge_component_start :: "instant \<Rightarrow> shared \<Rightarrow> shared option" where
  "acknowledge_component_start now shared =
     (let state = sh_admission shared
      in if as_pending_startups state = 0 then None
         else Some (publish_readiness
           (publish_ready now (state\<lparr>as_pending_startups := as_pending_startups state - 1\<rparr>)) shared))"

definition start_driver :: "instant \<Rightarrow> shared \<Rightarrow> shared" where
  "start_driver now shared =
     publish_readiness (publish_ready now ((sh_admission shared)\<lparr>as_driver_started := True\<rparr>)) shared"

definition stop_driver :: "instant \<Rightarrow> shared \<Rightarrow> shared" where
  "stop_driver now shared =
     publish_readiness ((sh_admission shared)
       \<lparr>as_readiness := Stopped, as_progress := progress_stop now (as_progress (sh_admission shared))\<rparr>) shared"

definition request_since :: "instant \<Rightarrow> instant \<Rightarrow> instant \<Rightarrow> shared \<Rightarrow> shared \<times> token list" where
  "request_since started now now' shared =
     (publish_readiness (request_drain started now now' (sh_admission shared)) shared, [Drain_Token])"

definition force_cancel :: "instant \<Rightarrow> instant \<Rightarrow> instant \<Rightarrow> shared \<Rightarrow> shared \<times> token list" where
  "force_cancel started now now' shared =
     (publish_readiness ((request_drain started now now' (sh_admission shared))
        \<lparr>as_forced := True, as_support_closed := True\<rparr>) shared,
      [Drain_Token, Support_Token, Cancel_Token])"

definition close_support :: "shared \<Rightarrow> shared \<times> token list" where
  "close_support shared =
     (shared\<lparr>sh_admission := (sh_admission shared)\<lparr>as_support_closed := True\<rparr>\<rparr>, [Support_Token])"

definition fail_task :: "shared \<Rightarrow> shared" where
  "fail_task shared = shared\<lparr>sh_admission := (sh_admission shared)\<lparr>as_failed := True\<rparr>\<rparr>"

definition set_readiness_deadline :: "instant \<Rightarrow> shared \<Rightarrow> shared" where
  "set_readiness_deadline deadline shared =
     (case as_progress (sh_admission shared) of
        Progress_Pending _ \<Rightarrow>
          shared\<lparr>sh_admission := (sh_admission shared)\<lparr>as_progress := Progress_Pending (Some deadline)\<rparr>\<rparr>
      | _ \<Rightarrow> shared)"

definition expire_readiness :: "instant \<Rightarrow> instant \<Rightarrow> instant \<Rightarrow> instant \<Rightarrow> shared \<Rightarrow> shared \<times> token list" where
  "expire_readiness now started now' now'' shared =
     (let state = sh_admission shared
      in case as_progress state of
           Progress_Pending (Some end) \<Rightarrow>
             if end \<le> now
             then (publish_readiness (request_drain started now' now''
                     (state\<lparr>as_progress := Progress_DeadlineExceeded\<rparr>)) shared, [Drain_Token])
             else (shared, [])
         | _ \<Rightarrow> (shared, []))"

definition admit_periodic ::
  "instant \<Rightarrow> instant \<Rightarrow> periodic_role \<Rightarrow> duration \<Rightarrow> shared \<Rightarrow> periodic_admission" where
  "admit_periodic limit now role graceful shared =
     (let state = sh_admission shared; draining = as_readiness state \<in> {Draining, Stopped}
      in if as_forced state \<or> \<not> as_driver_started state then Periodic_Stopped
         else if (role = Support \<and> as_support_closed state) \<or>
                 (role = Ordinary \<and> (draining \<or> as_failed state)) then Periodic_Stopped
         else Admitted
           (if draining
            then let started = (case as_stop_started state of Some t \<Rightarrow> t | None \<Rightarrow> now)
                 in Some (case instant_add limit started graceful of Some t \<Rightarrow> t | None \<Rightarrow> started)
            else None))"

text \<open>The ancestor of a submission is whether its parent task is still active.\<close>

definition admission_check :: "bool option \<Rightarrow> queue_state \<Rightarrow> shared \<Rightarrow> process_admission_error + unit" where
  "admission_check ancestor queue shared =
     (let state = sh_admission shared
      in if as_forced state \<or> as_failed state \<or> queue = Queue_Closed \<or> ancestor = Some False \<or>
            (ancestor = None \<and> as_readiness state \<in> {Draining, Stopped})
         then Inl Closed
         else if \<not> as_driver_started state then Inl NotRunning
         else if ancestor = None \<and> as_readiness state \<noteq> Ready then Inl NotReady
         else Inr ())"

definition admit_finite :: "shared \<Rightarrow> shared" where
  "admit_finite shared =
     shared\<lparr>sh_admission := (sh_admission shared)\<lparr>as_finite_active := as_finite_active (sh_admission shared) + 1\<rparr>\<rparr>"

definition finish_finite :: "shared \<Rightarrow> shared option" where
  "finish_finite shared =
     (if as_finite_active (sh_admission shared) = 0 then None
      else Some (shared\<lparr>sh_admission := (sh_admission shared)
        \<lparr>as_finite_active := as_finite_active (sh_admission shared) - 1\<rparr>\<rparr>))"

definition has_finite_tasks :: "shared \<Rightarrow> bool" where
  "has_finite_tasks shared \<longleftrightarrow> as_finite_active (sh_admission shared) \<noteq> 0"

definition cancel_token :: "token \<Rightarrow> shared \<Rightarrow> shared" where
  "cancel_token token shared = shared\<lparr>sh_cancelled := insert token (sh_cancelled shared)\<rparr>"

section \<open>Interleaved callers\<close>

text \<open>
  A system is the shared state, for every call that has released the mutex the tokens it still has to
  cancel, the number of component-start tokens that exist and the number of active-task leases.
\<close>

record lifecycle =
  ly_shared :: shared
  ly_calls :: "token list list"
  ly_starts :: nat
  ly_leases :: nat

definition lifecycle_new :: "supervision \<Rightarrow> lifecycle" where
  "lifecycle_new supervised = \<lparr>ly_shared = Shared_new supervised, ly_calls = [], ly_starts = 0, ly_leases = 0\<rparr>"

definition call :: "shared \<times> token list \<Rightarrow> lifecycle \<Rightarrow> lifecycle" where
  "call effect s = s\<lparr>ly_shared := fst effect, ly_calls := snd effect # ly_calls s\<rparr>"

inductive lifecycle_step :: "lifecycle \<Rightarrow> lifecycle \<Rightarrow> bool" where
  ready: "lifecycle_step s (s\<lparr>ly_shared := snd (mark_ready now (ly_shared s))\<rparr>)"
| register: "lifecycle_step s (s\<lparr>ly_shared := register_component (ly_shared s), ly_starts := Suc (ly_starts s)\<rparr>)"
| acknowledge: "ly_starts s = Suc n \<Longrightarrow> acknowledge_component_start now (ly_shared s) = Some shared \<Longrightarrow>
    lifecycle_step s (s\<lparr>ly_shared := shared, ly_starts := n\<rparr>)"
| abandon: "ly_starts s = Suc n \<Longrightarrow> lifecycle_step s (s\<lparr>ly_starts := n\<rparr>)"
| driver: "lifecycle_step s (s\<lparr>ly_shared := start_driver now (ly_shared s)\<rparr>)"
| stop: "lifecycle_step s (s\<lparr>ly_shared := stop_driver now (ly_shared s)\<rparr>)"
| request: "lifecycle_step s (call (request_since started now now' (ly_shared s)) s)"
| force: "lifecycle_step s (call (force_cancel started now now' (ly_shared s)) s)"
| support: "lifecycle_step s (call (close_support (ly_shared s)) s)"
| fail: "lifecycle_step s (s\<lparr>ly_shared := fail_task (ly_shared s)\<rparr>)"
| deadline: "lifecycle_step s (s\<lparr>ly_shared := set_readiness_deadline d (ly_shared s)\<rparr>)"
| expire: "lifecycle_step s (call (expire_readiness now started now' now'' (ly_shared s)) s)"
| admit: "admission_check ancestor queue (ly_shared s) = Inr () \<Longrightarrow>
    lifecycle_step s (s\<lparr>ly_shared := admit_finite (ly_shared s), ly_leases := Suc (ly_leases s)\<rparr>)"
| finish: "ly_leases s = Suc n \<Longrightarrow> finish_finite (ly_shared s) = Some shared \<Longrightarrow>
    lifecycle_step s (s\<lparr>ly_shared := shared, ly_leases := n\<rparr>)"
| deliver: "i < length (ly_calls s) \<Longrightarrow> ly_calls s ! i = t # ts \<Longrightarrow>
    lifecycle_step s (s\<lparr>ly_shared := cancel_token t (ly_shared s), ly_calls := (ly_calls s)[i := ts]\<rparr>)"

inductive lifecycle_steps :: "lifecycle \<Rightarrow> lifecycle \<Rightarrow> bool" where
  refl: "lifecycle_steps s s"
| step: "lifecycle_steps s t \<Longrightarrow> lifecycle_step t u \<Longrightarrow> lifecycle_steps s u"

section \<open>What every transition keeps\<close>

definition stopping :: "readiness \<Rightarrow> bool" where
  "stopping r \<longleftrightarrow> r = Draining \<or> r = Stopped"

definition admission_ok :: "admission_state \<Rightarrow> bool" where
  "admission_ok state \<longleftrightarrow>
     (as_forced state \<longrightarrow> as_support_closed state \<and> stopping (as_readiness state)) \<and>
     (as_readiness state = Ready \<longrightarrow> as_ready_requested state \<and>
        (as_supervised state \<longrightarrow> as_driver_started state) \<and> as_progress state = Progress_Ready) \<and>
     (as_readiness state = Starting \<longrightarrow> (\<exists>d. as_progress state = Progress_Pending d)) \<and>
     (as_readiness state = Draining \<longrightarrow> as_stop_started state \<noteq> None) \<and>
     (as_stop_started state \<noteq> None \<longrightarrow> stopping (as_readiness state))"

definition shared_ok :: "shared \<Rightarrow> bool" where
  "shared_ok shared \<longleftrightarrow>
     sh_published shared = readiness_code (as_readiness (sh_admission shared)) \<and> admission_ok (sh_admission shared)"

text \<open>What the cancellation of a token announces.\<close>

fun announced :: "token \<Rightarrow> admission_state \<Rightarrow> bool" where
  "announced Drain_Token state = stopping (as_readiness state)"
| "announced Support_Token state = as_support_closed state"
| "announced Cancel_Token state = as_forced state"

text \<open>How a later admission state relates to an earlier one.\<close>

definition stop_forward :: "instant option \<Rightarrow> instant option \<Rightarrow> bool" where
  "stop_forward a b = (case a of None \<Rightarrow> True | Some t \<Rightarrow> (case b of None \<Rightarrow> False | Some u \<Rightarrow> u \<le> t))"

definition progress_forward :: "readiness_progress \<Rightarrow> readiness_progress \<Rightarrow> bool" where
  "progress_forward p q \<longleftrightarrow> (case p of Progress_Pending _ \<Rightarrow> True | _ \<Rightarrow> q = p)"

definition forward :: "admission_state \<Rightarrow> admission_state \<Rightarrow> bool" where
  "forward a b \<longleftrightarrow>
     readiness_code (as_readiness a) \<le> readiness_code (as_readiness b) \<and>
     (as_forced a \<longrightarrow> as_forced b) \<and> (as_support_closed a \<longrightarrow> as_support_closed b) \<and>
     (as_failed a \<longrightarrow> as_failed b) \<and> (as_ready_requested a \<longrightarrow> as_ready_requested b) \<and>
     (as_driver_started a \<longrightarrow> as_driver_started b) \<and> as_supervised b = as_supervised a \<and>
     progress_forward (as_progress a) (as_progress b) \<and> stop_forward (as_stop_started a) (as_stop_started b)"

lemma readiness_code_simps [simp]:
  "readiness_code Starting = 0" "readiness_code Ready = 1" "readiness_code Draining = 2" "readiness_code Stopped = 3"
  by (simp_all add: readiness_code_def)

lemma readiness_code_inject [simp]: "readiness_code a = readiness_code b \<longleftrightarrow> a = b"
  by (cases a; cases b) simp_all

lemma readiness_code_le3: "readiness_code r \<le> 3"
  by (cases r) simp_all

lemma stopping_iff: "stopping r \<longleftrightarrow> 2 \<le> readiness_code r"
  by (cases r) (simp_all add: stopping_def)

lemma shared_readiness_eq: "shared_ok shared \<Longrightarrow> shared_readiness shared = as_readiness (sh_admission shared)"
  by (cases "as_readiness (sh_admission shared)") (auto simp: shared_ok_def shared_readiness_def)

lemma stop_forward_refl [simp]: "stop_forward a a"
  by (simp add: stop_forward_def split: option.splits)

lemma progress_forward_refl [simp]: "progress_forward p p"
  by (simp add: progress_forward_def split: readiness_progress.splits)

lemma progress_forward_stop [simp]: "progress_forward p (progress_stop now p)"
  by (simp add: progress_forward_def progress_stop_def split: readiness_progress.splits)

lemma forward_refl [simp]: "forward a a"
  by (simp add: forward_def)

lemma stop_forward_trans: "stop_forward a b \<Longrightarrow> stop_forward b c \<Longrightarrow> stop_forward a c"
  by (cases a; cases b; cases c) (auto simp: stop_forward_def)

lemma progress_forward_trans: "progress_forward p q \<Longrightarrow> progress_forward q r \<Longrightarrow> progress_forward p r"
  by (cases p; cases q) (auto simp: progress_forward_def)

lemma forward_trans: "forward a b \<Longrightarrow> forward b c \<Longrightarrow> forward a c"
  using order_trans [of "readiness_code (as_readiness a)"] stop_forward_trans [of "as_stop_started a"]
    progress_forward_trans [of "as_progress a"]
  unfolding forward_def by metis

lemma forward_announced: "forward a b \<Longrightarrow> announced t a \<Longrightarrow> announced t b"
  by (cases t) (auto simp: forward_def stopping_iff)

lemma publish_ready_forward: "forward a (publish_ready now a)"
  by (auto simp: publish_ready_def forward_def stop_forward_def progress_forward_def may_become_ready_def
      split: readiness_progress.splits option.splits)

lemma request_drain_forward: "forward a (request_drain started now now' a)"
  by (cases "as_readiness a")
    (auto simp: request_drain_def forward_def stop_forward_def progress_forward_def progress_stop_def Let_def
      split: readiness_progress.splits option.splits)

lemma publish_ready_ok: "admission_ok a \<Longrightarrow> admission_ok (publish_ready now a)"
  by (auto simp: publish_ready_def admission_ok_def stopping_def)

lemma request_drain_ok:
  "(as_forced a \<longrightarrow> as_support_closed a) \<Longrightarrow> admission_ok (request_drain started now now' a)"
  by (auto simp: request_drain_def admission_ok_def stopping_def Let_def)

lemma admission_ok_forced: "admission_ok a \<Longrightarrow> as_forced a \<longrightarrow> as_support_closed a"
  by (simp add: admission_ok_def)

lemma request_drain_stops: "stopping (as_readiness (request_drain started now now' a))"
  by (auto simp: request_drain_def stopping_def Let_def)

definition evolves :: "shared \<Rightarrow> shared \<Rightarrow> bool" where
  "evolves a b \<longleftrightarrow> (shared_ok a \<longrightarrow> shared_ok b) \<and> forward (sh_admission a) (sh_admission b) \<and>
     sh_cancelled b = sh_cancelled a"

lemma evolves_publish:
  "\<lbrakk>forward (sh_admission shared) state; admission_ok (sh_admission shared) \<Longrightarrow> admission_ok state\<rbrakk> \<Longrightarrow>
     evolves shared (publish_readiness state shared)"
  by (simp add: evolves_def publish_readiness_def shared_ok_def)

lemma evolves_fields:
  "\<lbrakk>forward (sh_admission shared) state; as_readiness state = as_readiness (sh_admission shared);
    admission_ok (sh_admission shared) \<Longrightarrow> admission_ok state\<rbrakk> \<Longrightarrow>
     evolves shared (shared\<lparr>sh_admission := state\<rparr>)"
  by (simp add: evolves_def shared_ok_def)

lemma evolves_refl [simp]: "evolves a a"
  by (simp add: evolves_def)

lemma forward_fields [simp]:
  "forward a (a\<lparr>as_ready_requested := True\<rparr>)" "forward a (a\<lparr>as_pending_startups := n\<rparr>)"
  "forward a (a\<lparr>as_driver_started := True\<rparr>)" "forward a (a\<lparr>as_finite_active := n\<rparr>)"
  "forward a (a\<lparr>as_failed := True\<rparr>)" "forward a (a\<lparr>as_support_closed := True\<rparr>)"
  "forward a (a\<lparr>as_forced := True, as_support_closed := True\<rparr>)"
  "forward a (a\<lparr>as_readiness := Stopped, as_progress := progress_stop now (as_progress a)\<rparr>)"
  "as_progress a = Progress_Pending d \<Longrightarrow> forward a (a\<lparr>as_progress := p\<rparr>)"
  using readiness_code_le3 [of "as_readiness a"] by (simp_all add: forward_def) (simp add: progress_forward_def)

lemma admission_ok_fields [simp]:
  assumes "admission_ok a"
  shows "admission_ok (a\<lparr>as_ready_requested := True\<rparr>)" "admission_ok (a\<lparr>as_pending_startups := n\<rparr>)"
    "admission_ok (a\<lparr>as_driver_started := True\<rparr>)" "admission_ok (a\<lparr>as_finite_active := n\<rparr>)"
    "admission_ok (a\<lparr>as_failed := True\<rparr>)" "admission_ok (a\<lparr>as_support_closed := True\<rparr>)"
    "stopping (as_readiness a) \<Longrightarrow> admission_ok (a\<lparr>as_forced := True, as_support_closed := True\<rparr>)"
    "admission_ok (a\<lparr>as_readiness := Stopped, as_progress := p\<rparr>)"
    "as_progress a = Progress_Pending d \<Longrightarrow> admission_ok (a\<lparr>as_progress := Progress_Pending e\<rparr>)"
  using assms by (auto simp: admission_ok_def stopping_def)

lemma publish_evolves:
  assumes "forward (sh_admission shared) a" and "admission_ok (sh_admission shared) \<Longrightarrow> admission_ok a"
  shows "evolves shared (publish_readiness (publish_ready now a) shared)"
  using assms by (intro evolves_publish forward_trans [OF _ publish_ready_forward] publish_ready_ok) simp_all

text \<open>Every operation moves the shared state forward, keeps its invariant and cancels nothing itself.\<close>

lemma mark_ready_evolves: "evolves shared (snd (mark_ready now shared))"
  by (simp add: mark_ready_def Let_def publish_evolves)

lemma register_evolves: "evolves shared (register_component shared)"
  unfolding register_component_def by (rule evolves_fields) simp_all

lemma acknowledge_evolves: "acknowledge_component_start now shared = Some shared' \<Longrightarrow> evolves shared shared'"
  by (auto simp: acknowledge_component_start_def Let_def publish_evolves split: if_splits)

lemma start_driver_evolves: "evolves shared (start_driver now shared)"
  by (simp add: start_driver_def publish_evolves)

lemma stop_driver_evolves: "evolves shared (stop_driver now shared)"
  unfolding stop_driver_def by (rule evolves_publish) simp_all

lemma request_evolves: "evolves shared (fst (request_since started now now' shared))"
  by (simp add: request_since_def evolves_publish request_drain_forward request_drain_ok admission_ok_forced)

lemma force_evolves: "evolves shared (fst (force_cancel started now now' shared))"
  unfolding force_cancel_def fst_conv
  by (rule evolves_publish [OF forward_trans [OF request_drain_forward forward_fields(7)]])
    (simp add: request_drain_ok admission_ok_forced request_drain_stops)

lemma close_support_evolves: "evolves shared (fst (close_support shared))"
  unfolding close_support_def fst_conv by (rule evolves_fields) simp_all

lemma fail_task_evolves: "evolves shared (fail_task shared)"
  unfolding fail_task_def by (rule evolves_fields) simp_all

lemma set_deadline_evolves: "evolves shared (set_readiness_deadline d shared)"
  by (auto simp: set_readiness_deadline_def intro: evolves_fields split: readiness_progress.splits)

lemma admit_finite_evolves: "evolves shared (admit_finite shared)"
  unfolding admit_finite_def by (rule evolves_fields) simp_all

lemma finish_finite_evolves: "finish_finite shared = Some shared' \<Longrightarrow> evolves shared shared'"
  by (auto simp: finish_finite_def intro: evolves_fields split: if_splits)

lemma expire_evolves: "evolves shared (fst (expire_readiness now started now' now'' shared))"
proof -
  let ?a = "sh_admission shared"
  have "evolves shared (publish_readiness (request_drain started now' now'' (?a\<lparr>as_progress := Progress_DeadlineExceeded\<rparr>)) shared)"
    if "as_progress ?a = Progress_Pending d" for d
    using that
    by (intro evolves_publish [OF forward_trans [OF forward_fields(9) request_drain_forward]] request_drain_ok)
      (auto dest: admission_ok_forced)
  then show ?thesis
    by (auto simp: expire_readiness_def Let_def split: readiness_progress.splits option.splits)
qed

section \<open>Invariant of the interleaved system\<close>

definition tokens_due :: "lifecycle \<Rightarrow> token set" where
  "tokens_due s = sh_cancelled (ly_shared s) \<union> \<Union> (set ` set (ly_calls s))"

lemma tokens_due_simps [simp]:
  "tokens_due (ly_starts_update f s) = tokens_due s" "tokens_due (ly_leases_update g s) = tokens_due s"
  by (simp_all add: tokens_due_def)

definition lifecycle_inv :: "lifecycle \<Rightarrow> bool" where
  "lifecycle_inv s \<longleftrightarrow>
     shared_ok (ly_shared s) \<and> (\<forall>t\<in>tokens_due s. announced t (sh_admission (ly_shared s))) \<and>
     ly_starts s \<le> as_pending_startups (sh_admission (ly_shared s)) \<and>
     ly_leases s = as_finite_active (sh_admission (ly_shared s))"

lemma lifecycle_inv_new: "lifecycle_inv (lifecycle_new supervised)"
  by (simp add: lifecycle_inv_def lifecycle_new_def Shared_new_def shared_ok_def admission_ok_def tokens_due_def)

lemma publish_ready_counts [simp]:
  "as_pending_startups (publish_ready now a) = as_pending_startups a"
  "as_finite_active (publish_ready now a) = as_finite_active a"
  by (simp_all add: publish_ready_def)

lemma request_drain_counts [simp]:
  "as_pending_startups (request_drain started now now' a) = as_pending_startups a"
  "as_finite_active (request_drain started now now' a) = as_finite_active a"
  by (simp_all add: request_drain_def Let_def)

lemma publish_readiness_fields [simp]:
  "sh_admission (publish_readiness state shared) = state"
  "sh_cancelled (publish_readiness state shared) = sh_cancelled shared"
  by (simp_all add: publish_readiness_def)

text \<open>A call whose tokens are announced by its effect, and an effect without tokens.\<close>

lemma evolves_announced:
  assumes "lifecycle_inv s" and "evolves (ly_shared s) shared" and "t \<in> tokens_due s"
  shows "announced t (sh_admission shared)"
  using assms forward_announced by (auto simp: lifecycle_inv_def evolves_def)

lemma inv_effect:
  assumes inv: "lifecycle_inv s" and "evolves (ly_shared s) shared"
    and "n \<le> as_pending_startups (sh_admission shared)" and "m = as_finite_active (sh_admission shared)"
  shows "lifecycle_inv (s\<lparr>ly_shared := shared, ly_starts := n, ly_leases := m\<rparr>)"
  using assms evolves_announced [OF inv assms(2)]
  by (auto simp: lifecycle_inv_def evolves_def tokens_due_def)

lemma inv_call:
  assumes inv: "lifecycle_inv s" and "evolves (ly_shared s) (fst effect)"
    and "\<forall>t\<in>set (snd effect). announced t (sh_admission (fst effect))"
    and "as_pending_startups (sh_admission (fst effect)) = as_pending_startups (sh_admission (ly_shared s))"
    and "as_finite_active (sh_admission (fst effect)) = as_finite_active (sh_admission (ly_shared s))"
  shows "lifecycle_inv (call effect s)"
  using assms evolves_announced [OF inv assms(2)]
  by (auto simp: lifecycle_inv_def evolves_def tokens_due_def call_def)

lemma step_forward:
  "lifecycle_step s u \<Longrightarrow> forward (sh_admission (ly_shared s)) (sh_admission (ly_shared u)) \<and>
     sh_cancelled (ly_shared s) \<subseteq> sh_cancelled (ly_shared u)"
  by (cases rule: lifecycle_step.cases)
    (use mark_ready_evolves register_evolves acknowledge_evolves start_driver_evolves stop_driver_evolves
      request_evolves force_evolves close_support_evolves fail_task_evolves set_deadline_evolves expire_evolves
      admit_finite_evolves finish_finite_evolves in \<open>auto simp: evolves_def call_def cancel_token_def\<close>)

lemma inv_shared:
  assumes "lifecycle_inv s" and "evolves (ly_shared s) shared"
    and "as_pending_startups (sh_admission shared) = as_pending_startups (sh_admission (ly_shared s))"
    and "as_finite_active (sh_admission shared) = as_finite_active (sh_admission (ly_shared s))"
  shows "lifecycle_inv (s\<lparr>ly_shared := shared\<rparr>)"
  using inv_effect [OF assms(1,2), of "ly_starts s" "ly_leases s"] assms by (simp add: lifecycle_inv_def)

lemma inv_deliver:
  assumes "lifecycle_inv s" and "i < length (ly_calls s)" and "ly_calls s ! i = t # ts"
  shows "lifecycle_inv (s\<lparr>ly_shared := cancel_token t (ly_shared s), ly_calls := (ly_calls s)[i := ts]\<rparr>)"
proof -
  have call: "t # ts \<in> set (ly_calls s)"
    using assms(2,3) by (metis nth_mem)
  have "set ((ly_calls s)[i := ts]) \<subseteq> insert ts (set (ly_calls s))"
    by (rule set_update_subset_insert)
  then have "tokens_due (s\<lparr>ly_shared := cancel_token t (ly_shared s), ly_calls := (ly_calls s)[i := ts]\<rparr>) \<subseteq> tokens_due s"
    using call by (fastforce simp: tokens_due_def cancel_token_def)
  then show ?thesis
    using assms(1) by (auto simp: lifecycle_inv_def cancel_token_def shared_ok_def)
qed

lemma step_inv: "lifecycle_step s u \<Longrightarrow> lifecycle_inv s \<Longrightarrow> lifecycle_inv u"
proof (induction rule: lifecycle_step.induct)
  case (ready s now)
  then show ?case by (rule inv_shared [OF _ mark_ready_evolves]) (simp_all add: mark_ready_def Let_def)
next
  case (register s)
  then show ?case
    using inv_effect [OF _ register_evolves, of s "Suc (ly_starts s)" "ly_leases s"]
    by (simp add: lifecycle_inv_def register_component_def)
next
  case (acknowledge s n now shared)
  then show ?case
    using inv_effect [OF _ acknowledge_evolves, of s now shared n "ly_leases s"]
    by (auto simp: lifecycle_inv_def acknowledge_component_start_def Let_def split: if_splits)
next
  case (abandon s n)
  then show ?case by (auto simp: lifecycle_inv_def tokens_due_def)
next
  case (driver s now)
  then show ?case by (rule inv_shared [OF _ start_driver_evolves]) (simp_all add: start_driver_def)
next
  case (stop s now)
  then show ?case by (rule inv_shared [OF _ stop_driver_evolves]) (simp_all add: stop_driver_def)
next
  case (request s started now now')
  then show ?case
    by (rule inv_call [OF _ request_evolves]) (simp_all add: request_since_def request_drain_stops)
next
  case (force s started now now')
  then show ?case
    by (rule inv_call [OF _ force_evolves]) (simp_all add: force_cancel_def request_drain_stops)
next
  case (support s)
  then show ?case by (rule inv_call [OF _ close_support_evolves]) (simp_all add: close_support_def)
next
  case (fail s)
  then show ?case by (rule inv_shared [OF _ fail_task_evolves]) (simp_all add: fail_task_def)
next
  case (deadline s d)
  then show ?case
    by (rule inv_shared [OF _ set_deadline_evolves])
      (simp_all add: set_readiness_deadline_def split: readiness_progress.splits)
next
  case (expire s now started now' now'')
  then show ?case
    by (rule inv_call [OF _ expire_evolves])
      (auto simp: expire_readiness_def Let_def request_drain_stops split: readiness_progress.splits option.splits)
next
  case (admit ancestor queue s)
  then show ?case
    using inv_effect [OF _ admit_finite_evolves, of s "ly_starts s" "Suc (ly_leases s)"]
    by (simp add: lifecycle_inv_def admit_finite_def)
next
  case (finish s n shared)
  then show ?case
    using inv_effect [OF _ finish_finite_evolves, of s shared "ly_starts s" n]
    by (auto simp: lifecycle_inv_def finish_finite_def split: if_splits)
next
  case (deliver i s t ts)
  then show ?case by (simp add: inv_deliver)
qed

lemma steps_inv: "lifecycle_steps s u \<Longrightarrow> lifecycle_inv s \<Longrightarrow> lifecycle_inv u"
  by (induction rule: lifecycle_steps.induct) (auto intro: step_inv)

lemma steps_forward:
  "lifecycle_steps s u \<Longrightarrow> forward (sh_admission (ly_shared s)) (sh_admission (ly_shared u)) \<and>
     sh_cancelled (ly_shared s) \<subseteq> sh_cancelled (ly_shared u)"
proof (induction rule: lifecycle_steps.induct)
  case (refl s)
  show ?case by simp
next
  case (step s t u)
  then show ?case using step_forward [OF step.hyps(2)] forward_trans by blast
qed

lemma reachable_inv: "lifecycle_steps (lifecycle_new supervised) s \<Longrightarrow> lifecycle_inv s"
  using steps_inv lifecycle_inv_new by blast

lemma steps_trans: "lifecycle_steps t u \<Longrightarrow> lifecycle_steps s t \<Longrightarrow> lifecycle_steps s u"
  by (induction rule: lifecycle_steps.induct) (auto intro: lifecycle_steps.step)

lemmas shared_ops = mark_ready_def register_component_def acknowledge_component_start_def start_driver_def
  stop_driver_def request_since_def force_cancel_def close_support_def fail_task_def set_readiness_deadline_def
  expire_readiness_def admit_finite_def finish_finite_def cancel_token_def publish_readiness_def

section \<open>Properties\<close>

lemma publish_ready_ready:
  "as_readiness (publish_ready now a) = Ready \<Longrightarrow> as_readiness a \<noteq> Ready \<Longrightarrow> as_pending_startups a = 0"
  by (auto simp: publish_ready_def split: if_splits)

lemma request_drain_not_ready [simp]: "as_readiness (request_drain started now now' a) \<noteq> Ready"
  using request_drain_stops [of started now now' a] by (auto simp: stopping_def)

lemma becomes_ready:
  "lifecycle_step s u \<Longrightarrow> as_readiness (sh_admission (ly_shared s)) \<noteq> Ready \<Longrightarrow>
   as_readiness (sh_admission (ly_shared u)) = Ready \<Longrightarrow>
   as_pending_startups (sh_admission (ly_shared u)) = 0"
proof (induction rule: lifecycle_step.induct)
  case (ready s now)
  then show ?case
    using publish_ready_ready by (fastforce simp: mark_ready_def Let_def split: if_splits)
next
  case (acknowledge s n now shared)
  then show ?case
    using publish_ready_ready by (fastforce simp: acknowledge_component_start_def Let_def split: if_splits)
next
  case (driver s now)
  then show ?case using publish_ready_ready by (fastforce simp: start_driver_def)
next
  case (deadline s d)
  then show ?case by (simp add: set_readiness_deadline_def split: readiness_progress.splits)
next
  case (expire s now started now' now'')
  then show ?case
    by (auto simp: expire_readiness_def call_def Let_def split: readiness_progress.splits option.splits if_splits)
next
  case (finish s n shared)
  then show ?case by (auto simp: finish_finite_def split: if_splits)
qed (simp_all add: register_component_def stop_driver_def request_since_def force_cancel_def close_support_def
    fail_task_def admit_finite_def cancel_token_def call_def)

text \<open>
  C22: readiness only moves forward. In every state that callers can reach by any interleaving of
  lifecycle operations and pending cancellations, and for every later state, the published readiness
  never goes back from Ready to Starting, from Draining to Ready or from Stopped to anything. It is
  Ready only after the application approved and, if supervised, the driver started; the step that
  makes it Ready leaves no component start outstanding; and once the startup ended by a stop or an
  expired deadline, it never becomes Ready.
\<close>

theorem lifecycle_readiness_monotone:
  assumes reach: "lifecycle_steps (lifecycle_new supervised) s" and later: "lifecycle_steps s u"
  shows "readiness_code (shared_readiness (ly_shared s)) \<le> readiness_code (shared_readiness (ly_shared u)) \<and>
    (shared_readiness (ly_shared u) = Ready \<longrightarrow> as_ready_requested (sh_admission (ly_shared u)) \<and>
       (supervised = Driven \<longrightarrow> as_driver_started (sh_admission (ly_shared u)))) \<and>
    (lifecycle_step u v \<and> shared_readiness (ly_shared u) \<noteq> Ready \<and> shared_readiness (ly_shared v) = Ready \<longrightarrow>
       as_pending_startups (sh_admission (ly_shared v)) = 0) \<and>
    (as_progress (sh_admission (ly_shared s)) \<in> {Progress_Stopped, Progress_DeadlineExceeded} \<longrightarrow>
       shared_readiness (ly_shared u) \<noteq> Ready)"
proof -
  note inv_s = reachable_inv [OF reach] and inv_u = steps_inv [OF later reachable_inv [OF reach]]
  have ok: "shared_ok (ly_shared s)" "shared_ok (ly_shared u)"
    using inv_s inv_u by (simp_all add: lifecycle_inv_def)
  note fwd = conjunct1 [OF steps_forward [OF later]]
  have "as_supervised (sh_admission (ly_shared u)) = (supervised = Driven)"
    using conjunct1 [OF steps_forward [OF steps_trans [OF later reach]]]
    by (simp add: forward_def lifecycle_new_def Shared_new_def)
  moreover have "as_pending_startups (sh_admission (ly_shared v)) = 0"
    if "lifecycle_step u v \<and> as_readiness (sh_admission (ly_shared u)) \<noteq> Ready \<and> shared_readiness (ly_shared v) = Ready"
  proof -
    have step: "lifecycle_step u v" using that by blast
    have "shared_ok (ly_shared v)"
      using step_inv [OF step inv_u] by (simp add: lifecycle_inv_def)
    then have "as_readiness (sh_admission (ly_shared v)) = Ready"
      using that shared_readiness_eq by metis
    with becomes_ready [OF step] that show ?thesis by blast
  qed
  moreover have "as_readiness (sh_admission (ly_shared u)) \<noteq> Ready"
    if "as_progress (sh_admission (ly_shared s)) \<in> {Progress_Stopped, Progress_DeadlineExceeded}"
  proof -
    have "progress_forward (as_progress (sh_admission (ly_shared s))) (as_progress (sh_admission (ly_shared u)))"
      using fwd by (simp add: forward_def)
    then have "as_progress (sh_admission (ly_shared u)) \<noteq> Progress_Ready"
      using that by (auto simp: progress_forward_def)
    then show ?thesis using ok(2) by (auto simp: shared_ok_def admission_ok_def)
  qed
  moreover have "readiness_code (as_readiness (sh_admission (ly_shared s))) \<le>
      readiness_code (as_readiness (sh_admission (ly_shared u)))"
    using fwd by (simp add: forward_def)
  moreover have "as_ready_requested (sh_admission (ly_shared u)) \<and>
      (as_supervised (sh_admission (ly_shared u)) \<longrightarrow> as_driver_started (sh_admission (ly_shared u)))"
    if "as_readiness (sh_admission (ly_shared u)) = Ready"
    using ok(2) that by (simp add: shared_ok_def admission_ok_def)
  ultimately show ?thesis
    unfolding shared_readiness_eq [OF ok(1)] shared_readiness_eq [OF ok(2)] by simp
qed

text \<open>
  C23: no grant follows an observed stop. Once the drain token is cancelled, no later root submission
  and no later ordinary periodic run is admitted; once the support token is cancelled, no supporting
  run; once the cancel token is cancelled, nothing at all, children of running tasks included. And
  once a stop time is recorded, every periodic run admitted later is admitted with a forced
  cancellation time, at most that stop time plus the graceful period. This holds although the tokens
  are cancelled outside the mutex, in any interleaving.
\<close>

theorem lifecycle_stop_final:
  assumes reach: "lifecycle_steps (lifecycle_new supervised) s" and later: "lifecycle_steps s u"
  shows "(Drain_Token \<in> sh_cancelled (ly_shared s) \<longrightarrow>
       admission_check None queue (ly_shared u) = Inl Closed \<and>
       admit_periodic limit now Ordinary graceful (ly_shared u) = Periodic_Stopped) \<and>
    (Support_Token \<in> sh_cancelled (ly_shared s) \<longrightarrow>
       admit_periodic limit now Support graceful (ly_shared u) = Periodic_Stopped) \<and>
    (Cancel_Token \<in> sh_cancelled (ly_shared s) \<longrightarrow>
       admission_check ancestor queue (ly_shared u) = Inl Closed \<and>
       admit_periodic limit now role graceful (ly_shared u) = Periodic_Stopped) \<and>
    (as_stop_started (sh_admission (ly_shared s)) = Some t \<and>
       admit_periodic limit now role graceful (ly_shared u) = Admitted forced \<longrightarrow>
       (\<exists>forced_at \<le> t + graceful. forced = Some forced_at))"
proof -
  have announced: "announced k (sh_admission (ly_shared u))" if "k \<in> sh_cancelled (ly_shared s)" for k
  proof (rule forward_announced [OF conjunct1 [OF steps_forward [OF later]]])
    show "announced k (sh_admission (ly_shared s))"
      using that reachable_inv [OF reach] by (simp add: lifecycle_inv_def tokens_due_def)
  qed
  have "shared_ok (ly_shared u)"
    using steps_inv [OF later reachable_inv [OF reach]] by (simp add: lifecycle_inv_def)
  then have draining: "stopping (as_readiness (sh_admission (ly_shared u)))"
    if "as_stop_started (sh_admission (ly_shared u)) \<noteq> None"
    using that by (simp add: shared_ok_def admission_ok_def)
  have stop: "\<exists>w\<le>t. as_stop_started (sh_admission (ly_shared u)) = Some w"
    if "as_stop_started (sh_admission (ly_shared s)) = Some t"
    using conjunct1 [OF steps_forward [OF later]] that
    by (auto simp: forward_def stop_forward_def split: option.splits)
  show ?thesis
    using announced [of Drain_Token] announced [of Support_Token] announced [of Cancel_Token] stop draining
    by (auto simp: admission_check_def admit_periodic_def stopping_def instant_add_def checked_add_def Let_def
        split: if_splits)
qed

text \<open>
  C35: the lifecycle's counters are exact. In every reachable state the active finite tasks are the
  leases that exist, and every component-start token that still exists has its pending registration.
  So acknowledging a start and finishing a task never hit their panics, and an approval is accepted
  at most once.
\<close>

theorem lifecycle_accounting:
  assumes reach: "lifecycle_steps (lifecycle_new supervised) s"
  shows "as_finite_active (sh_admission (ly_shared s)) = ly_leases s \<and>
    (has_finite_tasks (ly_shared s) \<longleftrightarrow> ly_leases s \<noteq> 0) \<and>
    ly_starts s \<le> as_pending_startups (sh_admission (ly_shared s)) \<and>
    (ly_starts s \<noteq> 0 \<longrightarrow> acknowledge_component_start now (ly_shared s) \<noteq> None) \<and>
    (ly_leases s \<noteq> 0 \<longrightarrow> finish_finite (ly_shared s) \<noteq> None) \<and>
    (fst (mark_ready now (ly_shared s)) \<and> lifecycle_steps (s\<lparr>ly_shared := snd (mark_ready now (ly_shared s))\<rparr>) u \<longrightarrow>
       \<not> fst (mark_ready now' (ly_shared u)))"
proof -
  have inv: "as_finite_active (sh_admission (ly_shared s)) = ly_leases s"
    "ly_starts s \<le> as_pending_startups (sh_admission (ly_shared s))"
    using reachable_inv [OF reach] by (simp_all add: lifecycle_inv_def)
  have "\<not> fst (mark_ready now' (ly_shared u))"
    if "fst (mark_ready now (ly_shared s))" "lifecycle_steps (s\<lparr>ly_shared := snd (mark_ready now (ly_shared s))\<rparr>) u"
  proof -
    have "as_ready_requested (sh_admission (snd (mark_ready now (ly_shared s))))"
      using that(1) by (auto simp: mark_ready_def publish_ready_def Let_def split: if_splits)
    then have "as_ready_requested (sh_admission (ly_shared u))"
      using steps_forward [OF that(2)] by (simp add: forward_def)
    then show ?thesis by (simp add: mark_ready_def)
  qed
  then show ?thesis
    using inv by (auto simp: has_finite_tasks_def acknowledge_component_start_def finish_finite_def Let_def)
qed

section \<open>A concrete run\<close>

text \<open>A supervised process with one component becomes ready, is asked to stop, and its drain is announced.\<close>

definition sample_ready :: lifecycle where
  "sample_ready =
     (let s = lifecycle_new Driven;
          s = s\<lparr>ly_shared := register_component (ly_shared s), ly_starts := 1\<rparr>;
          s = s\<lparr>ly_shared := start_driver 1 (ly_shared s)\<rparr>;
          s = s\<lparr>ly_shared := snd (mark_ready 2 (ly_shared s))\<rparr>
      in s\<lparr>ly_shared := the (acknowledge_component_start 3 (ly_shared s)), ly_starts := 0\<rparr>)"

definition sample_stopped :: lifecycle where
  "sample_stopped =
     (let s = call (request_since 4 4 4 (ly_shared sample_ready)) sample_ready
      in s\<lparr>ly_shared := cancel_token Drain_Token (ly_shared s), ly_calls := [[]]\<rparr>)"

lemma sample_ready_reachable: "lifecycle_steps (lifecycle_new Driven) sample_ready"
proof -
  let ?a = "lifecycle_new Driven"
  let ?b = "?a\<lparr>ly_shared := register_component (ly_shared ?a), ly_starts := 1\<rparr>"
  let ?c = "?b\<lparr>ly_shared := start_driver 1 (ly_shared ?b)\<rparr>"
  let ?d = "?c\<lparr>ly_shared := snd (mark_ready 2 (ly_shared ?c))\<rparr>"
  have "lifecycle_step ?a ?b"
    using lifecycle_step.register [of ?a] by (simp add: lifecycle_new_def)
  then have "lifecycle_steps ?a ?b" by (rule lifecycle_steps.step [OF lifecycle_steps.refl])
  then have "lifecycle_steps ?a ?c" by (rule lifecycle_steps.step [OF _ lifecycle_step.driver])
  then have steps: "lifecycle_steps ?a ?d" by (rule lifecycle_steps.step [OF _ lifecycle_step.ready])
  have "acknowledge_component_start 3 (ly_shared ?d) = Some (the (acknowledge_component_start 3 (ly_shared ?d)))"
    by (simp add: acknowledge_component_start_def mark_ready_def start_driver_def register_component_def
        publish_ready_def lifecycle_new_def Shared_new_def Let_def)
  then have "lifecycle_step ?d (?d\<lparr>ly_shared := the (acknowledge_component_start 3 (ly_shared ?d)), ly_starts := 0\<rparr>)"
    by (intro lifecycle_step.acknowledge) simp_all
  with steps show ?thesis
    unfolding sample_ready_def Let_def by (rule lifecycle_steps.step)
qed

lemma sample_ready_state: "shared_readiness (ly_shared sample_ready) = Ready" "ly_calls sample_ready = []"
  by (simp_all add: sample_ready_def shared_ops publish_ready_def may_become_ready_def shared_readiness_def
      lifecycle_new_def Shared_new_def Let_def)

lemma sample_stopped_later: "lifecycle_steps sample_ready sample_stopped"
proof -
  let ?s = "call (request_since 4 4 4 (ly_shared sample_ready)) sample_ready"
  have "lifecycle_steps sample_ready ?s"
    by (rule lifecycle_steps.step [OF lifecycle_steps.refl lifecycle_step.request])
  moreover have "lifecycle_step ?s sample_stopped"
    using lifecycle_step.deliver [of 0 ?s Drain_Token "[]"]
    by (simp add: sample_stopped_def Let_def call_def request_since_def sample_ready_state(2))
  ultimately show ?thesis by (rule lifecycle_steps.step)
qed

theorem lifecycle_readiness_monotone_witness:
  "as_ready_requested (sh_admission (ly_shared sample_ready)) \<and>
   readiness_code (shared_readiness (ly_shared sample_ready)) \<le> readiness_code (shared_readiness (ly_shared sample_stopped))"
  using lifecycle_readiness_monotone [OF sample_ready_reachable sample_stopped_later]
    lifecycle_readiness_monotone [OF sample_ready_reachable lifecycle_steps.refl] sample_ready_state(1)
  by blast

theorem lifecycle_stop_final_witness:
  "admission_check None Queue_Open (ly_shared sample_stopped) = Inl Closed \<and>
   admit_periodic 100 5 Ordinary 10 (ly_shared sample_stopped) = Periodic_Stopped"
proof -
  have "Drain_Token \<in> sh_cancelled (ly_shared sample_stopped)"
    by (simp add: sample_stopped_def Let_def cancel_token_def)
  then show ?thesis
    using lifecycle_stop_final [OF steps_trans [OF sample_stopped_later sample_ready_reachable] lifecycle_steps.refl]
    by blast
qed

theorem lifecycle_accounting_witness:
  "as_finite_active (sh_admission (ly_shared sample_ready)) = 0 \<and> \<not> has_finite_tasks (ly_shared sample_ready)"
  using lifecycle_accounting [OF sample_ready_reachable] by (simp add: sample_ready_def lifecycle_new_def Let_def)

end
