(* ===== verification/Core_Health.thy ===== *)
theory Core_Health
  imports Lifecycle_State
begin

text \<open>
  Dependency health and process readiness of \<open>batter-core\<close> (\<open>health.rs\<close>, \<open>health/policy.rs\<close>,
  \<open>health/observation.rs\<close>, \<open>readiness.rs\<close>), over the lifecycle of \<open>Lifecycle_State\<close>.

  The publication behind a monitor and its readers is one record; a reader computes its snapshot from
  it and a clock reading. The monitor's loop consumes rounds of observations like the retry loop does:
  what the shutdown signal shows, what the probe's polls return, and the clock readings. A sum of an
  instant and a duration that the platform cannot represent panics. The retained error of a probe is
  the type parameter.
\<close>

section \<open>Policies\<close>

record health_policy =
  hp_probe_budget :: duration
  hp_probe_delay :: duration
  hp_maximum_age :: duration
  hp_scheduling_margin :: duration

definition duration_add :: "duration \<Rightarrow> duration \<Rightarrow> duration option" where
  "duration_add a b = checked_add DURATION_MAX a b"

text \<open>The clock is read by each of the five checks, at \<open>now 0\<close> to \<open>now 4\<close>.\<close>

definition HealthPolicy_new ::
  "instant \<Rightarrow> (nat \<Rightarrow> instant) \<Rightarrow> duration \<Rightarrow> duration \<Rightarrow> duration \<Rightarrow> duration \<Rightarrow> configuration_error + health_policy" where
  "HealthPolicy_new limit now probe_budget probe_delay maximum_age scheduling_margin =
     try_bind (positive limit (now 0) probe_budget ''health probe budget'') (\<lambda>_.
     try_bind (positive limit (now 1) probe_delay ''health probe delay'') (\<lambda>_.
     try_bind (positive limit (now 2) maximum_age ''health maximum age'') (\<lambda>_.
     try_bind (positive limit (now 3) scheduling_margin ''health scheduling margin'') (\<lambda>_.
     try_bind (ok_or (Option.bind (duration_add probe_budget probe_delay) (\<lambda>d. duration_add d scheduling_margin))
         (Config_TooLarge ''health combined timing'')) (\<lambda>minimum_age.
     try_bind (representable limit (now 4) minimum_age ''health combined timing'') (\<lambda>_.
       if maximum_age < minimum_age then Inl InvalidHealthTiming
       else Inr \<lparr>hp_probe_budget = probe_budget, hp_probe_delay = probe_delay,
                 hp_maximum_age = maximum_age, hp_scheduling_margin = scheduling_margin\<rparr>))))))"

section \<open>Observations\<close>

datatype health_status = Health_Unknown | Healthy | Health_Failed | TimedOut | Stale | Health_Stopped

datatype dependency_unready_reason = Unknown | ProbeFailed | ProbeTimedOut | Reason_Stale | WriterStopped

datatype dependency_readiness = Dependency_Ready | Dependency_Unready dependency_unready_reason

definition status_readiness :: "health_status \<Rightarrow> dependency_readiness" where
  "status_readiness s =
     (case s of
        Health_Unknown \<Rightarrow> Dependency_Unready Unknown
      | Healthy \<Rightarrow> Dependency_Ready
      | Health_Failed \<Rightarrow> Dependency_Unready ProbeFailed
      | TimedOut \<Rightarrow> Dependency_Unready ProbeTimedOut
      | Stale \<Rightarrow> Dependency_Unready Reason_Stale
      | Health_Stopped \<Rightarrow> Dependency_Unready WriterStopped)"

datatype 'e probe_outcome = Probe_Succeeded | Probe_Failed 'e | Probe_TimedOut

record 'e probe_observation =
  po_completed_at :: instant
  po_outcome :: "'e probe_outcome"

record 'e publication =
  pb_maximum_age :: duration
  pb_alive :: bool
  pb_last_probe :: "'e probe_observation option"

definition Publication_new :: "duration \<Rightarrow> 'e publication" where
  "Publication_new maximum_age = \<lparr>pb_maximum_age = maximum_age, pb_alive = True, pb_last_probe = None\<rparr>"

text \<open>Publishing after the writer stopped violates an assertion, which is \<open>None\<close>.\<close>

definition publish :: "'e probe_observation \<Rightarrow> 'e publication \<Rightarrow> 'e publication option" where
  "publish observation pub = (if pb_alive pub then Some (pub\<lparr>pb_last_probe := Some observation\<rparr>) else None)"

definition publication_stop :: "'e publication \<Rightarrow> 'e publication" where
  "publication_stop pub = pub\<lparr>pb_alive := False\<rparr>"

definition snapshot_status :: "instant \<Rightarrow> 'e publication \<Rightarrow> health_status" where
  "snapshot_status observed_at pub =
     (if \<not> pb_alive pub then Health_Stopped
      else case pb_last_probe pub of
          None \<Rightarrow> Health_Unknown
        | Some probe \<Rightarrow>
            if pb_maximum_age pub \<le> observed_at - po_completed_at probe then Stale
            else (case po_outcome probe of
                    Probe_Succeeded \<Rightarrow> Healthy
                  | Probe_Failed _ \<Rightarrow> Health_Failed
                  | Probe_TimedOut \<Rightarrow> TimedOut))"

definition reader_is_healthy :: "instant \<Rightarrow> 'e publication \<Rightarrow> bool" where
  "reader_is_healthy observed_at pub \<longleftrightarrow> status_readiness (snapshot_status observed_at pub) = Dependency_Ready"

section \<open>The monitor\<close>

record 'e probe_poll =
  pp_draining :: bool
  pp_cancelled :: bool
  pp_expired :: bool
  pp_now :: instant
  pp_work :: "('e + unit) option"

fun sample_probe :: "instant \<Rightarrow> 'e probe_poll list \<Rightarrow> 'e probe_observation option option" where
  "sample_probe deadline [] = None"
| "sample_probe deadline (p # polls) =
     (if pp_draining p \<or> pp_cancelled p then Some None
      else if pp_expired p then Some (Some \<lparr>po_completed_at = pp_now p, po_outcome = Probe_TimedOut\<rparr>)
      else case pp_work p of
          None \<Rightarrow> sample_probe deadline polls
        | Some result \<Rightarrow>
            Some (Some \<lparr>po_completed_at = pp_now p,
              po_outcome = (if deadline \<le> pp_now p then Probe_TimedOut
                else case result of Inr _ \<Rightarrow> Probe_Succeeded | Inl e \<Rightarrow> Probe_Failed e)\<rparr>))"

record wait_poll =
  wp_stopping :: bool
  wp_elapsed :: bool

fun wait_next :: "wait_poll list \<Rightarrow> bool option" where
  "wait_next [] = None"
| "wait_next (p # polls) =
     (if wp_stopping p then Some False else if wp_elapsed p then Some True else wait_next polls)"

record 'e health_round =
  hr_stopping :: bool
  hr_start :: instant
  hr_polls :: "'e probe_poll list"
  hr_stopping_after :: bool
  hr_published :: instant
  hr_wait :: "wait_poll list"

datatype monitor_end = Monitor_Pending | Monitor_Returned | Monitor_Panicked

fun monitor_loop ::
  "instant \<Rightarrow> health_policy \<Rightarrow> 'e health_round list \<Rightarrow> 'e publication \<Rightarrow> 'e publication list \<times> monitor_end" where
  "monitor_loop limit policy [] pub = ([], Monitor_Pending)"
| "monitor_loop limit policy (r # rounds) pub =
     (if hr_stopping r then ([], Monitor_Returned)
      else case instant_add limit (hr_start r) (hp_probe_budget policy) of
          None \<Rightarrow> ([], Monitor_Panicked)
        | Some deadline \<Rightarrow>
            (case sample_probe deadline (hr_polls r) of
               None \<Rightarrow> ([], Monitor_Pending)
             | Some None \<Rightarrow> ([], Monitor_Returned)
             | Some (Some observation) \<Rightarrow>
                 if hr_stopping_after r then ([], Monitor_Returned)
                 else case publish observation pub of
                     None \<Rightarrow> ([], Monitor_Panicked)
                   | Some pub \<Rightarrow>
                       (case instant_add limit (hr_published r) (hp_probe_delay policy) of
                          None \<Rightarrow> ([pub], Monitor_Panicked)
                        | Some _ \<Rightarrow>
                            (case wait_next (hr_wait r) of
                               None \<Rightarrow> ([pub], Monitor_Pending)
                             | Some False \<Rightarrow> ([pub], Monitor_Returned)
                             | Some True \<Rightarrow> map_prod (Cons pub) id (monitor_loop limit policy rounds pub)))))"

text \<open>
  Running consumes the monitor, and dropping it stops the publication, also when it panics. The
  result lists the states of the publication after each change.
\<close>

definition monitor_run ::
  "instant \<Rightarrow> health_policy \<Rightarrow> bool \<Rightarrow> 'e health_round list \<Rightarrow> 'e publication list \<times> monitor_end" where
  "monitor_run limit policy stopped_first rounds =
     (let pub = Publication_new (hp_maximum_age policy);
          (pubs, ended) = (if stopped_first then ([], Monitor_Returned) else monitor_loop limit policy rounds pub)
      in (if ended = Monitor_Pending then pubs else pubs @ [publication_stop (last (pub # pubs))], ended))"

text \<open>A registered monitor acknowledges its start unless it is already stopping, and then runs.\<close>

definition run_registered ::
  "instant \<Rightarrow> health_policy \<Rightarrow> bool \<Rightarrow> bool \<Rightarrow> 'e health_round list \<Rightarrow> bool \<times> 'e publication list \<times> monitor_end" where
  "run_registered limit policy stopped_before stopped_first rounds =
     (if stopped_before then (False, [publication_stop (Publication_new (hp_maximum_age policy))], Monitor_Returned)
      else (True, monitor_run limit policy stopped_first rounds))"

section \<open>Process readiness\<close>

datatype readiness_condition = ReadinessCondition rstr

datatype readiness_condition_error = Condition_InvalidName

definition ReadinessCondition_new :: "rstr \<Rightarrow> readiness_condition_error + readiness_condition" where
  "ReadinessCondition_new name =
     try_bind (map_err (\<lambda>_. Condition_InvalidName) (validate_name name)) (\<lambda>_. Inr (ReadinessCondition name))"

datatype readiness_unready_reason =
    Unready_Starting
  | Unready_Draining
  | Unready_Stopped
  | Unready_Dependency dependency_unready_reason
  | Unready_Condition readiness_condition

datatype readiness_decision = Decision_Ready | Decision_Unready readiness_unready_reason

datatype observed = Observed_Ready | Observed_Dependency dependency_unready_reason | Observed_Condition readiness_condition

text \<open>
  An evaluator is its conditions in the order added, each a check of the application's state at the
  time of the decision, and the publication of its dependency if it has one.
\<close>

record ('e, 'app) evaluator =
  ev_dependency :: "'e publication option"
  ev_conditions :: "(readiness_condition \<times> ('app \<Rightarrow> bool)) list"

definition lifecycle_only :: "('e, 'app) evaluator" where
  "lifecycle_only = \<lparr>ev_dependency = None, ev_conditions = []\<rparr>"

definition ReadinessEvaluator_new :: "'e publication \<Rightarrow> ('e, 'app) evaluator" where
  "ReadinessEvaluator_new dependency = \<lparr>ev_dependency = Some dependency, ev_conditions = []\<rparr>"

definition with_condition ::
  "readiness_condition \<Rightarrow> ('app \<Rightarrow> bool) \<Rightarrow> ('e, 'app) evaluator \<Rightarrow> ('e, 'app) evaluator" where
  "with_condition condition satisfied ev = ev\<lparr>ev_conditions := ev_conditions ev @ [(condition, satisfied)]\<rparr>"

definition observe ::
  "'app \<Rightarrow> dependency_readiness \<Rightarrow> (readiness_condition \<times> ('app \<Rightarrow> bool)) list \<Rightarrow> observed" where
  "observe app dependency conditions =
     (case dependency of
        Dependency_Unready reason \<Rightarrow> Observed_Dependency reason
      | Dependency_Ready \<Rightarrow>
          (case find (\<lambda>(_, satisfied). \<not> satisfied app) conditions of
             None \<Rightarrow> Observed_Ready
           | Some (name, _) \<Rightarrow> Observed_Condition name))"

definition classify :: "readiness \<Rightarrow> observed \<Rightarrow> readiness_decision" where
  "classify lifecycle observed =
     (case lifecycle of
        Starting \<Rightarrow> Decision_Unready Unready_Starting
      | Ready \<Rightarrow>
          (case observed of
             Observed_Ready \<Rightarrow> Decision_Ready
           | Observed_Dependency reason \<Rightarrow> Decision_Unready (Unready_Dependency reason)
           | Observed_Condition condition \<Rightarrow> Decision_Unready (Unready_Condition condition))
      | Draining \<Rightarrow> Decision_Unready Unready_Draining
      | Stopped \<Rightarrow> Decision_Unready Unready_Stopped)"

text \<open>The dependency and the conditions are sampled before the lifecycle is read.\<close>

definition evaluator_decision :: "instant \<Rightarrow> 'app \<Rightarrow> ('e, 'app) evaluator \<Rightarrow> shared \<Rightarrow> readiness_decision" where
  "evaluator_decision now app ev lifecycle =
     (let dependency = (case ev_dependency ev of
            None \<Rightarrow> Dependency_Ready
          | Some pub \<Rightarrow> status_readiness (snapshot_status now pub))
      in classify (shared_readiness lifecycle) (observe app dependency (ev_conditions ev)))"

section \<open>What a reader sees\<close>

text \<open>The evidence of a fresh success.\<close>

definition fresh_success :: "instant \<Rightarrow> 'e publication \<Rightarrow> bool" where
  "fresh_success now pub \<longleftrightarrow> pb_alive pub \<and>
     (case pb_last_probe pub of
        None \<Rightarrow> False
      | Some probe \<Rightarrow> po_outcome probe = Probe_Succeeded \<and> now - po_completed_at probe < pb_maximum_age pub)"

lemma dependency_ready_iff: "status_readiness (snapshot_status now pub) = Dependency_Ready \<longleftrightarrow> fresh_success now pub"
  by (auto simp: status_readiness_def snapshot_status_def fresh_success_def
      split: option.splits probe_outcome.splits)

lemma stopped_unready: "\<not> pb_alive pub \<Longrightarrow> snapshot_status now pub = Health_Stopped"
  by (simp add: snapshot_status_def)

definition dependency_satisfied :: "instant \<Rightarrow> ('e, 'app) evaluator \<Rightarrow> bool" where
  "dependency_satisfied now ev = (case ev_dependency ev of None \<Rightarrow> True | Some pub \<Rightarrow> fresh_success now pub)"

definition lifecycle_reason :: "readiness \<Rightarrow> readiness_unready_reason" where
  "lifecycle_reason r = (case r of Starting \<Rightarrow> Unready_Starting | Draining \<Rightarrow> Unready_Draining | _ \<Rightarrow> Unready_Stopped)"

lemma observe_ready_iff:
  "observe app dependency conditions = Observed_Ready \<longleftrightarrow>
     dependency = Dependency_Ready \<and> list_all (\<lambda>(_, satisfied). satisfied app) conditions"
proof -
  have "find (\<lambda>(_, satisfied). \<not> satisfied app) conditions = None \<longleftrightarrow> list_all (\<lambda>(_, satisfied). satisfied app) conditions"
    by (auto simp: find_None_iff list_all_iff)
  then show ?thesis
    by (cases "find (\<lambda>(_, satisfied). \<not> satisfied app) conditions")
      (auto simp: observe_def split: dependency_readiness.splits)
qed

lemma find_first_iff:
  "(\<exists>x. find P xs = Some (k, x)) \<longleftrightarrow> (\<exists>pre x post. xs = pre @ (k, x) # post \<and> P (k, x) \<and> list_all (\<lambda>y. \<not> P y) pre)"
proof (induction xs)
  case (Cons y ys)
  show ?case
  proof (cases "P y")
    case True
    then show ?thesis
      by (cases y) (auto 0 3 simp: Cons_eq_append_conv list_all_iff intro: exI [of _ "[]"])
  next
    case False
    have "(\<exists>pre x post. y # ys = pre @ (k, x) # post \<and> P (k, x) \<and> list_all (\<lambda>y. \<not> P y) pre) \<longleftrightarrow>
        (\<exists>pre x post. ys = pre @ (k, x) # post \<and> P (k, x) \<and> list_all (\<lambda>y. \<not> P y) pre)" (is "?l = ?r")
    proof
      assume ?l
      then obtain pre x post where l: "y # ys = pre @ (k, x) # post" "P (k, x)" "list_all (\<lambda>y. \<not> P y) pre" by blast
      with False obtain pre' where "pre = y # pre'" by (cases pre) auto
      with l have "ys = pre' @ (k, x) # post \<and> P (k, x) \<and> list_all (\<lambda>y. \<not> P y) pre'" by simp
      then show ?r by blast
    next
      assume ?r
      then obtain pre x post where "ys = pre @ (k, x) # post" "P (k, x)" "list_all (\<lambda>y. \<not> P y) pre" by blast
      then have "y # ys = (y # pre) @ (k, x) # post \<and> P (k, x) \<and> list_all (\<lambda>y. \<not> P y) (y # pre)"
        using False by simp
      then show ?l by blast
    qed
    with Cons False show ?thesis by simp
  qed
qed simp

lemma observe_condition_iff:
  "observe app dependency conditions = Observed_Condition c \<longleftrightarrow>
     dependency = Dependency_Ready \<and>
     (\<exists>pre satisfied post. conditions = pre @ (c, satisfied) # post \<and> \<not> satisfied app \<and>
        list_all (\<lambda>(_, satisfied). satisfied app) pre)"
proof -
  have "observe app dependency conditions = Observed_Condition c \<longleftrightarrow>
      dependency = Dependency_Ready \<and> (\<exists>x. find (\<lambda>(_, satisfied). \<not> satisfied app) conditions = Some (c, x))"
    by (auto simp: observe_def split: dependency_readiness.splits option.splits)
  then show ?thesis by (simp add: find_first_iff case_prod_unfold)
qed

lemma decision_unready_lifecycle:
  "shared_readiness lifecycle \<noteq> Ready \<Longrightarrow>
   evaluator_decision now app ev lifecycle = Decision_Unready (lifecycle_reason (shared_readiness lifecycle))"
  by (cases "shared_readiness lifecycle") (simp_all add: evaluator_decision_def classify_def lifecycle_reason_def Let_def)

lemma decision_ready_lifecycle:
  assumes "shared_readiness lifecycle = Ready"
  shows "evaluator_decision now app ev lifecycle = Decision_Ready \<longleftrightarrow>
      dependency_satisfied now ev \<and> list_all (\<lambda>(_, satisfied). satisfied app) (ev_conditions ev)"
    and "evaluator_decision now app ev lifecycle = Decision_Unready (Unready_Condition c) \<longleftrightarrow>
      dependency_satisfied now ev \<and>
      (\<exists>pre satisfied post. ev_conditions ev = pre @ (c, satisfied) # post \<and> \<not> satisfied app \<and>
         list_all (\<lambda>(_, satisfied). satisfied app) pre)"
    and "(\<exists>reason. evaluator_decision now app ev lifecycle = Decision_Unready (Unready_Dependency reason)) \<longleftrightarrow>
      \<not> dependency_satisfied now ev"
proof -
  define d where "d = (case ev_dependency ev of None \<Rightarrow> Dependency_Ready
      | Some pub \<Rightarrow> status_readiness (snapshot_status now pub))"
  have d: "d = Dependency_Ready \<longleftrightarrow> dependency_satisfied now ev"
    by (auto simp: d_def dependency_satisfied_def dependency_ready_iff split: option.splits)
  have dec: "evaluator_decision now app ev lifecycle = classify Ready (observe app d (ev_conditions ev))"
    by (simp add: evaluator_decision_def d_def assms)
  show "evaluator_decision now app ev lifecycle = Decision_Ready \<longleftrightarrow>
      dependency_satisfied now ev \<and> list_all (\<lambda>(_, satisfied). satisfied app) (ev_conditions ev)"
    unfolding dec d [symmetric] observe_ready_iff [symmetric]
    by (auto simp: classify_def split: observed.splits)
  show "evaluator_decision now app ev lifecycle = Decision_Unready (Unready_Condition c) \<longleftrightarrow>
      dependency_satisfied now ev \<and>
      (\<exists>pre satisfied post. ev_conditions ev = pre @ (c, satisfied) # post \<and> \<not> satisfied app \<and>
         list_all (\<lambda>(_, satisfied). satisfied app) pre)"
    unfolding dec d [symmetric] observe_condition_iff [symmetric]
    by (auto simp: classify_def split: observed.splits)
  show "(\<exists>reason. evaluator_decision now app ev lifecycle = Decision_Unready (Unready_Dependency reason)) \<longleftrightarrow>
      \<not> dependency_satisfied now ev"
    unfolding dec d [symmetric]
    by (auto simp: classify_def observe_def split: dependency_readiness.splits option.splits)
qed

lemma drained_not_ready:
  assumes "lifecycle_steps (lifecycle_new supervised) s" and "lifecycle_steps s u"
    and "Drain_Token \<in> sh_cancelled (ly_shared s)"
  shows "stopping (shared_readiness (ly_shared u))"
proof -
  have "announced k (sh_admission (ly_shared s))" if "k \<in> sh_cancelled (ly_shared s)" for k
    using that reachable_inv [OF assms(1)] by (simp add: lifecycle_inv_def tokens_due_def)
  then have "announced Drain_Token (sh_admission (ly_shared s))" using assms(3) by blast
  from forward_announced [OF conjunct1 [OF steps_forward [OF assms(2)]] this]
  have "stopping (as_readiness (sh_admission (ly_shared u)))" by simp
  moreover have "shared_ok (ly_shared u)"
    using reachable_inv [OF steps_trans [OF assms(2) assms(1)]] by (simp add: lifecycle_inv_def)
  ultimately show ?thesis by (simp add: shared_readiness_eq)
qed

section \<open>What the monitor publishes\<close>

lemma sample_probe_success:
  assumes "sample_probe deadline polls = Some (Some observation)" and "po_outcome observation = Probe_Succeeded"
  shows "po_completed_at observation < deadline \<and>
    (\<exists>p\<in>set polls. pp_work p = Some (Inr ()) \<and> pp_now p = po_completed_at observation \<and>
       \<not> pp_draining p \<and> \<not> pp_cancelled p \<and> \<not> pp_expired p)"
  using assms
proof (induction polls)
  case (Cons p polls)
  then show ?case
    by (auto split: if_splits option.splits sum.splits)
qed simp

text \<open>The observation a round publishes, if it publishes one.\<close>

definition round_observation :: "instant \<Rightarrow> health_policy \<Rightarrow> 'e health_round \<Rightarrow> 'e probe_observation option" where
  "round_observation limit policy r =
     (if hr_stopping r \<or> hr_stopping_after r then None
      else Option.bind (instant_add limit (hr_start r) (hp_probe_budget policy))
        (\<lambda>deadline. Option.bind (sample_probe deadline (hr_polls r)) id))"

lemma monitor_loop_nth:
  assumes "i < length (fst (monitor_loop limit policy rounds pub))"
  shows "i < length rounds \<and> (\<exists>observation. round_observation limit policy (rounds ! i) = Some observation \<and>
    fst (monitor_loop limit policy rounds pub) ! i = pub\<lparr>pb_last_probe := Some observation\<rparr>)"
  using assms
proof (induction rounds arbitrary: pub i)
  case (Cons r rounds)
  show ?case
  proof (cases i)
    case 0
    with Cons.prems show ?thesis
      by (auto simp: round_observation_def publish_def split: if_splits option.splits bool.splits)
  next
    case (Suc j)
    define pub' where "pub' = fst (monitor_loop limit policy (r # rounds) pub) ! 0"
    have step: "monitor_loop limit policy (r # rounds) pub = map_prod (Cons pub') id (monitor_loop limit policy rounds pub')
        \<and> (\<exists>observation. pub' = pub\<lparr>pb_last_probe := Some observation\<rparr>)"
      using Cons.prems unfolding Suc pub'_def
      by (auto simp: publish_def split: if_splits option.splits bool.splits)
    then have "j < length (fst (monitor_loop limit policy rounds pub'))"
      using Cons.prems Suc by (cases "monitor_loop limit policy rounds pub'") simp
    from Cons.IH [OF this] step show ?thesis
      unfolding Suc by (cases "monitor_loop limit policy rounds pub'") auto
  qed
qed simp

lemma monitor_loop_panic:
  assumes "snd (monitor_loop limit policy rounds pub) = Monitor_Panicked" and "pb_alive pub"
  shows "\<exists>r\<in>set rounds. limit < hr_start r + hp_probe_budget policy \<or> limit < hr_published r + hp_probe_delay policy"
  using assms
proof (induction rounds arbitrary: pub)
  case (Cons r rounds)
  show ?case
  proof (cases "limit < hr_start r + hp_probe_budget policy \<or> limit < hr_published r + hp_probe_delay policy")
    case False
    with Cons.prems obtain pub' where "snd (monitor_loop limit policy rounds pub') = Monitor_Panicked" "pb_alive pub'"
      by (auto simp: instant_add_def checked_add_def publish_def split: if_splits option.splits bool.splits)
    from Cons.IH [OF this] show ?thesis by auto
  qed auto
qed simp

lemma monitor_run_split:
  assumes "monitor_run limit policy stopped_first rounds = (pubs, ended)"
  obtains live where
    "live = fst (monitor_loop limit policy rounds (Publication_new (hp_maximum_age policy))) \<or> live = []"
    "pubs = (if ended = Monitor_Pending then live
       else live @ [publication_stop (last (Publication_new (hp_maximum_age policy) # live))])"
  using assms that
  by (auto simp: monitor_run_def Let_def split: prod.splits if_splits)

definition published_by ::
  "instant \<Rightarrow> health_policy \<Rightarrow> 'e health_round \<Rightarrow> 'e publication \<Rightarrow> bool" where
  "published_by limit policy r pub \<longleftrightarrow> pb_alive pub \<and> pb_maximum_age pub = hp_maximum_age policy \<and>
     pb_last_probe pub \<noteq> None \<and> pb_last_probe pub = round_observation limit policy r"

lemma monitor_run_nth:
  assumes "monitor_run limit policy stopped_first rounds = (pubs, ended)" and "i < length pubs"
  shows "i < length rounds \<and> published_by limit policy (rounds ! i) (pubs ! i) \<or>
    ended \<noteq> Monitor_Pending \<and> i = length pubs - 1 \<and> \<not> pb_alive (pubs ! i)"
proof -
  define pub :: "'a publication" where "pub = Publication_new (hp_maximum_age policy)"
  from assms(1) obtain live where live: "live = fst (monitor_loop limit policy rounds pub) \<or> live = []"
    and pubs: "pubs = (if ended = Monitor_Pending then live else live @ [publication_stop (last (pub # live))])"
    unfolding pub_def by (rule monitor_run_split)
  show ?thesis
  proof (cases "i < length live")
    case True
    with live have "i < length (fst (monitor_loop limit policy rounds pub))" and l: "live = fst (monitor_loop limit policy rounds pub)"
      by auto
    from monitor_loop_nth [OF this(1)] show ?thesis
      using True by (auto simp: pubs l nth_append published_by_def pub_def Publication_new_def)
  next
    case False
    then show ?thesis
      using assms(2) by (auto simp: pubs nth_append publication_stop_def split: if_splits)
  qed
qed

lemma round_observation_success:
  assumes "round_observation limit policy r = Some observation" and "po_outcome observation = Probe_Succeeded"
  shows "po_completed_at observation < hr_start r + hp_probe_budget policy \<and> \<not> hr_stopping r \<and> \<not> hr_stopping_after r \<and>
    (\<exists>p\<in>set (hr_polls r). pp_work p = Some (Inr ()) \<and> pp_now p = po_completed_at observation \<and>
       \<not> pp_draining p \<and> \<not> pp_cancelled p \<and> \<not> pp_expired p)"
proof -
  from assms(1) obtain deadline where d: "instant_add limit (hr_start r) (hp_probe_budget policy) = Some deadline"
    and s: "sample_probe deadline (hr_polls r) = Some (Some observation)" and "\<not> hr_stopping r" "\<not> hr_stopping_after r"
    by (auto simp: round_observation_def bind_eq_Some_conv split: if_splits)
  moreover have "deadline = hr_start r + hp_probe_budget policy"
    using d by (auto simp: instant_add_def checked_add_def split: if_splits)
  ultimately show ?thesis using sample_probe_success [OF s assms(2)] by simp
qed

section \<open>Properties\<close>

text \<open>
  C24: readiness decisions are exact and revoked by a drain. A process is reported ready exactly when
  its lifecycle is Ready, its dependency (if any) has a live writer whose latest probe succeeded less
  than the maximum age ago, and all its conditions hold; a lifecycle that is not Ready is always the
  reported reason; a condition is reported exactly when it is the first that fails and the dependency
  is fine. Once the drain token is cancelled in a reachable lifecycle, every later decision reports
  draining or stopped, whatever the dependency and the conditions say.
\<close>

theorem readiness_decision_exact:
  assumes "lifecycle_steps (lifecycle_new supervised) s" and "lifecycle_steps s u"
  shows "(evaluator_decision now app ev (ly_shared u) = Decision_Ready \<longleftrightarrow>
       shared_readiness (ly_shared u) = Ready \<and> dependency_satisfied now ev \<and>
       list_all (\<lambda>(_, satisfied). satisfied app) (ev_conditions ev)) \<and>
    (shared_readiness (ly_shared u) \<noteq> Ready \<longrightarrow>
       evaluator_decision now app ev (ly_shared u) = Decision_Unready (lifecycle_reason (shared_readiness (ly_shared u)))) \<and>
    (evaluator_decision now app ev (ly_shared u) = Decision_Unready (Unready_Condition c) \<longleftrightarrow>
       shared_readiness (ly_shared u) = Ready \<and> dependency_satisfied now ev \<and>
       (\<exists>pre satisfied post. ev_conditions ev = pre @ (c, satisfied) # post \<and> \<not> satisfied app \<and>
          list_all (\<lambda>(_, satisfied). satisfied app) pre)) \<and>
    (Drain_Token \<in> sh_cancelled (ly_shared s) \<longrightarrow>
       evaluator_decision now app ev (ly_shared u) \<in> {Decision_Unready Unready_Draining, Decision_Unready Unready_Stopped})"
proof (cases "shared_readiness (ly_shared u) = Ready")
  case True
  then show ?thesis
    using decision_ready_lifecycle [OF True, of now app ev] drained_not_ready [OF assms]
    by (auto simp: stopping_def)
next
  case False
  have "lifecycle_reason (shared_readiness (ly_shared u)) \<in> {Unready_Draining, Unready_Stopped}"
    if "Drain_Token \<in> sh_cancelled (ly_shared s)"
    using drained_not_ready [OF assms that] by (auto simp: stopping_def lifecycle_reason_def)
  moreover have "lifecycle_reason (shared_readiness (ly_shared u)) \<noteq> Unready_Condition c"
    by (simp add: lifecycle_reason_def split: readiness.split)
  ultimately show ?thesis
    using False decision_unready_lifecycle [OF False, of now app ev] by auto
qed

text \<open>
  C25: health is never claimed without evidence. Whatever the probe, the clock and the shutdown signal
  do, a publication of a monitor's run reads as healthy only if one of its probes returned success
  strictly before its budget ended, was not interrupted, and completed less than the maximum age ago.
  A run that has ended leaves every reader with a stopped writer, and it panics only if the platform
  cannot represent one of its timers.
\<close>

theorem health_evidence:
  assumes "monitor_run limit policy stopped_first rounds = (pubs, ended)"
  shows "(\<forall>pub\<in>set pubs. snapshot_status now pub = Healthy \<longrightarrow>
       (\<exists>r\<in>set rounds. \<exists>p\<in>set (hr_polls r).
          pp_work p = Some (Inr ()) \<and> \<not> pp_draining p \<and> \<not> pp_cancelled p \<and> \<not> pp_expired p \<and>
          \<not> hr_stopping r \<and> \<not> hr_stopping_after r \<and>
          pp_now p < hr_start r + hp_probe_budget policy \<and> now - pp_now p < hp_maximum_age policy)) \<and>
    (ended \<noteq> Monitor_Pending \<longrightarrow> pubs \<noteq> [] \<and> snapshot_status now (last pubs) = Health_Stopped) \<and>
    (ended = Monitor_Panicked \<longrightarrow>
       (\<exists>r\<in>set rounds. limit < hr_start r + hp_probe_budget policy \<or> limit < hr_published r + hp_probe_delay policy))"
proof (intro conjI ballI impI)
  fix pub
  assume "pub \<in> set pubs" and healthy: "snapshot_status now pub = Healthy"
  then obtain i where i: "i < length pubs" "pub = pubs ! i" by (auto simp: in_set_conv_nth)
  have alive: "fresh_success now pub"
    using healthy unfolding dependency_ready_iff [symmetric] by (simp add: status_readiness_def)
  then have r: "i < length rounds" "published_by limit policy (rounds ! i) pub"
    using monitor_run_nth [OF assms i(1)] i(2) by (auto simp: fresh_success_def)
  with alive obtain observation where "round_observation limit policy (rounds ! i) = Some observation"
    "po_outcome observation = Probe_Succeeded" "now - po_completed_at observation < hp_maximum_age policy"
    by (auto simp: fresh_success_def published_by_def split: option.splits)
  with round_observation_success [OF this(1,2)] nth_mem [OF r(1)]
  show "\<exists>r\<in>set rounds. \<exists>p\<in>set (hr_polls r).
      pp_work p = Some (Inr ()) \<and> \<not> pp_draining p \<and> \<not> pp_cancelled p \<and> \<not> pp_expired p \<and>
      \<not> hr_stopping r \<and> \<not> hr_stopping_after r \<and>
      pp_now p < hr_start r + hp_probe_budget policy \<and> now - pp_now p < hp_maximum_age policy"
    by metis
next
  assume "ended \<noteq> Monitor_Pending"
  with monitor_run_split [OF assms] show "pubs \<noteq> []" by (metis snoc_eq_iff_butlast)
next
  assume "ended \<noteq> Monitor_Pending"
  with monitor_run_split [OF assms] show "snapshot_status now (last pubs) = Health_Stopped"
    by (metis last_snoc stopped_unready publication_stop_def publication.select_convs(2) publication.surjective publication.update_convs(2))
next
  assume "ended = Monitor_Panicked"
  with assms have "snd (monitor_loop limit policy rounds (Publication_new (hp_maximum_age policy))) = Monitor_Panicked"
    by (auto simp: monitor_run_def Let_def split: prod.splits if_splits)
  then show "\<exists>r\<in>set rounds. limit < hr_start r + hp_probe_budget policy \<or> limit < hr_published r + hp_probe_delay policy"
    by (rule monitor_loop_panic) (simp add: Publication_new_def)
qed

text \<open>
  C26: a monitor that keeps its schedule is never stale. For every accepted policy, if between two
  publications of a run the monitor was late by less than the scheduling margin in total (publishing
  the first result, starting the next probe after the delay, and finishing that probe after its
  budget), then no reader sees the first result as stale at any time up to the completion of the
  second.
\<close>

theorem health_freshness:
  assumes "HealthPolicy_new limit clock budget delay maximum_age margin = Inr policy"
    and "monitor_run limit policy stopped_first rounds = (pubs, ended)"
    and "Suc i < length pubs" and "pb_last_probe (pubs ! i) = Some first"
    and "pb_alive (pubs ! Suc i)" and "pb_last_probe (pubs ! Suc i) = Some second"
    and "(hr_published (rounds ! i) - po_completed_at first) +
      (hr_start (rounds ! Suc i) - (hr_published (rounds ! i) + delay)) +
      (po_completed_at second - (hr_start (rounds ! Suc i) + budget)) < margin"
    and "now \<le> po_completed_at second"
  shows "snapshot_status now (pubs ! i) \<noteq> Stale \<and> hp_maximum_age policy \<ge> budget + delay + margin"
proof -
  have policy: "hp_maximum_age policy = maximum_age" "budget + delay + margin \<le> maximum_age"
    using assms(1)
    by (auto simp: HealthPolicy_new_def try_bind_eq_Inr ok_or_eq_Inr duration_add_def checked_add_def
        bind_eq_Some_conv split: if_splits)
  have "published_by limit policy (rounds ! i) (pubs ! i)"
    using monitor_run_nth [OF assms(2), of i] assms(3) by auto
  then have age: "pb_maximum_age (pubs ! i) = maximum_age" by (simp add: published_by_def policy)
  have "now - po_completed_at first < maximum_age"
    using assms(7,8) policy(2) by linarith
  then show ?thesis
    using assms(4) policy age by (auto simp: snapshot_status_def split: probe_outcome.splits)
qed


section \<open>Witnesses\<close>

text \<open>A monitor whose first probe succeeds, whose second one fails, and which is then asked to stop.\<close>

definition sample_health_policy :: health_policy where
  "sample_health_policy = \<lparr>hp_probe_budget = 10, hp_probe_delay = 20, hp_maximum_age = 40, hp_scheduling_margin = 5\<rparr>"

definition sample_health_round :: "instant \<Rightarrow> nat + unit \<Rightarrow> bool \<Rightarrow> nat health_round" where
  "sample_health_round start result stop =
     \<lparr>hr_stopping = False, hr_start = start,
      hr_polls = [\<lparr>pp_draining = False, pp_cancelled = False, pp_expired = False, pp_now = start + 1, pp_work = None\<rparr>,
        \<lparr>pp_draining = False, pp_cancelled = False, pp_expired = False, pp_now = start + 4, pp_work = Some result\<rparr>],
      hr_stopping_after = False, hr_published = start + 5,
      hr_wait = [\<lparr>wp_stopping = stop, wp_elapsed = True\<rparr>]\<rparr>"

definition sample_health_rounds :: "nat health_round list" where
  "sample_health_rounds = [sample_health_round 100 (Inr ()) False, sample_health_round 126 (Inl 7) True]"

definition sample_publication :: "bool \<Rightarrow> nat probe_observation \<Rightarrow> nat publication" where
  "sample_publication alive observation =
     \<lparr>pb_maximum_age = 40, pb_alive = alive, pb_last_probe = Some observation\<rparr>"

definition sample_first :: "nat probe_observation" where
  "sample_first = \<lparr>po_completed_at = 104, po_outcome = Probe_Succeeded\<rparr>"

definition sample_second :: "nat probe_observation" where
  "sample_second = \<lparr>po_completed_at = 130, po_outcome = Probe_Failed 7\<rparr>"

lemmas sample_health_defs = sample_health_policy_def sample_health_round_def sample_health_rounds_def
  sample_publication_def sample_first_def sample_second_def

lemma sample_policy_accepted: "HealthPolicy_new 1000 (\<lambda>_. 0) 10 20 40 5 = Inr sample_health_policy"
  by (simp add: HealthPolicy_new_def sample_health_policy_def positive_def representable_def instant_add_def
      duration_add_def checked_add_def ONE_YEAR_def DURATION_MAX_def NANOS_PER_SEC_def U64_MAX_def
      try_bind_def ok_or_def)

lemma sample_monitor_run:
  "monitor_run 1000 sample_health_policy False sample_health_rounds =
     ([sample_publication True sample_first, sample_publication True sample_second,
       sample_publication False sample_second], Monitor_Returned)"
  by (simp add: sample_health_defs monitor_run_def Publication_new_def publish_def publication_stop_def
      instant_add_def checked_add_def)

theorem readiness_decision_exact_witness:
  "evaluator_decision 0 True (with_condition (ReadinessCondition []) id lifecycle_only :: (nat, bool) evaluator)
      (ly_shared sample_ready) = Decision_Ready \<and>
   evaluator_decision 0 True (lifecycle_only :: (nat, bool) evaluator) (ly_shared sample_stopped) \<noteq> Decision_Ready"
  using readiness_decision_exact [OF sample_ready_reachable lifecycle_steps.refl, of 0 True
      "with_condition (ReadinessCondition []) id lifecycle_only :: (nat, bool) evaluator" "ReadinessCondition []"]
    readiness_decision_exact [OF steps_trans [OF sample_stopped_later sample_ready_reachable] lifecycle_steps.refl,
      of 0 True "lifecycle_only :: (nat, bool) evaluator" "ReadinessCondition []"]
    sample_ready_state(1)
  by (auto simp: with_condition_def lifecycle_only_def dependency_satisfied_def sample_stopped_def Let_def cancel_token_def)

theorem health_evidence_witness:
  "snapshot_status 110 (sample_publication True sample_first) = Healthy \<and>
   (\<exists>r\<in>set sample_health_rounds. \<exists>p\<in>set (hr_polls r). pp_work p = Some (Inr ()) \<and> 110 - pp_now p < 40) \<and>
   snapshot_status 140 (sample_publication False sample_second) = Health_Stopped"
proof -
  have healthy: "snapshot_status 110 (sample_publication True sample_first) = Healthy"
    by (simp add: sample_health_defs snapshot_status_def)
  show ?thesis
    using health_evidence [OF sample_monitor_run, of 110] health_evidence [OF sample_monitor_run, of 140] healthy
    by (auto simp: sample_health_policy_def)
qed

theorem health_freshness_witness: "snapshot_status 130 (sample_publication True sample_first) \<noteq> Stale"
  using health_freshness [OF sample_policy_accepted sample_monitor_run, of 0 sample_first sample_second 130]
  by (simp add: sample_publication_def)
    (simp add: sample_health_defs)

end
