(* ===== verification/Periodic_Component.thy ===== *)
theory Periodic_Component
  imports Lifecycle_State
begin

text \<open>
  Periodic components of \<open>batter-core\<close> (\<open>periodic/policy.rs\<close>, \<open>periodic/failure.rs\<close>,
  \<open>periodic/history.rs\<close>, \<open>periodic/schedule.rs\<close>, \<open>periodic/driver.rs\<close>, and the admission capability of
  \<open>lifecycle/capability.rs\<close>): policies, the retained evidence with its saturating counters, the cadence
  and the one serial loop that drives a component.

  One turn of the loop waits for the next tick, asks the lifecycle for admission, runs the work under a
  deadline and looks at the lifecycle again. What it observes on the way (polls of tokens and timers,
  clock readings, lifecycle states) are the fields of a turn; the loop consumes a list of turns and
  emits a record of every run it starts. The application's error is the type parameter.
\<close>

section \<open>Policies and failures\<close>

record periodic_startup =
  pt_allowance :: "duration option"

definition PeriodicStartup_immediate :: periodic_startup where
  "PeriodicStartup_immediate = \<lparr>pt_allowance = None\<rparr>"

definition after_first_success :: "instant \<Rightarrow> instant \<Rightarrow> duration \<Rightarrow> configuration_error + periodic_startup" where
  "after_first_success limit now allowance =
     try_bind (positive limit now allowance ''periodic initialization allowance'')
       (\<lambda>_. Inr \<lparr>pt_allowance = Some allowance\<rparr>)"

datatype periodic_shutdown = StopAtDrain | SupportThroughDrain

record periodic_policy =
  pp_interval :: duration
  pp_run_budget :: duration
  pp_startup :: periodic_startup
  pp_shutdown :: periodic_shutdown

definition PeriodicPolicy_new ::
  "instant \<Rightarrow> instant \<Rightarrow> instant \<Rightarrow> duration \<Rightarrow> duration \<Rightarrow> periodic_startup \<Rightarrow> periodic_shutdown \<Rightarrow>
   configuration_error + periodic_policy" where
  "PeriodicPolicy_new limit now now' interval run_budget startup shutdown =
     try_bind (positive limit now interval ''periodic interval'') (\<lambda>_.
     try_bind (positive limit now' run_budget ''periodic run budget'') (\<lambda>_.
       Inr \<lparr>pp_interval = interval, pp_run_budget = run_budget, pp_startup = startup, pp_shutdown = shutdown\<rparr>))"

datatype 'e periodic_failure = Recoverable 'e | Fatal 'e

definition is_fatal :: "'e periodic_failure \<Rightarrow> bool" where
  "is_fatal f = (case f of Recoverable _ \<Rightarrow> False | Fatal _ \<Rightarrow> True)"

definition failure_into_inner :: "'e periodic_failure \<Rightarrow> 'e" where
  "failure_into_inner f = (case f of Recoverable e \<Rightarrow> e | Fatal e \<Rightarrow> e)"

text \<open>A retained cause is an application error or the expired initialization of a named component.\<close>

datatype 'e cause = Application_Cause 'e | PeriodicInitializationExpired rstr

section \<open>Retained evidence\<close>

record 'e failure_sample =
  fs_invocation :: nat
  fs_error :: "'e cause"

datatype periodic_completion =
    Completion_Pending
  | AbandonedDuringStartup
  | Completion_InitializationExpired
  | Completion_Stopped
  | Completion_Fatal

record 'e periodic_summary =
  ps_invocations :: nat
  ps_succeeded :: nat
  ps_recoverable_failures :: nat
  ps_deadline_exceeded :: nat
  ps_stop_interrupted :: nat
  ps_unsampled_failures :: nat
  ps_saturated :: bool
  ps_first_failure :: "'e failure_sample option"
  ps_last_failure :: "'e failure_sample option"
  ps_terminal_failure :: "'e failure_sample option"
  ps_acknowledged :: bool
  ps_completion :: periodic_completion

definition History_new :: "'e periodic_summary" where
  "History_new =
     \<lparr>ps_invocations = 0, ps_succeeded = 0, ps_recoverable_failures = 0, ps_deadline_exceeded = 0,
      ps_stop_interrupted = 0, ps_unsampled_failures = 0, ps_saturated = False, ps_first_failure = None,
      ps_last_failure = None, ps_terminal_failure = None, ps_acknowledged = False,
      ps_completion = Completion_Pending\<rparr>"

definition is_complete :: "'e periodic_summary \<Rightarrow> bool" where
  "is_complete h \<longleftrightarrow> ps_completion h \<noteq> Completion_Pending"

definition has_failures :: "'e periodic_summary \<Rightarrow> bool" where
  "has_failures h \<longleftrightarrow> ps_recoverable_failures h \<noteq> 0 \<or> ps_deadline_exceeded h \<noteq> 0 \<or> ps_stop_interrupted h \<noteq> 0 \<or>
     ps_terminal_failure h \<noteq> None \<or> ps_completion h \<in> {Completion_Fatal, Completion_InitializationExpired}"

text \<open>A counter that cannot be incremented stays and marks the summary.\<close>

definition bump :: "nat \<Rightarrow> bool \<Rightarrow> nat \<times> bool" where
  "bump counter saturated =
     (case checked_add U64_MAX counter 1 of Some next \<Rightarrow> (next, saturated) | None \<Rightarrow> (counter, True))"

definition history_admitted :: "'e periodic_summary \<Rightarrow> 'e periodic_summary" where
  "history_admitted h = (let (n, s) = bump (ps_invocations h) (ps_saturated h)
     in h\<lparr>ps_invocations := n, ps_saturated := s\<rparr>)"

definition history_succeeded :: "'e periodic_summary \<Rightarrow> 'e periodic_summary" where
  "history_succeeded h = (let (n, s) = bump (ps_succeeded h) (ps_saturated h)
     in h\<lparr>ps_succeeded := n, ps_saturated := s\<rparr>)"

definition history_deadline_exceeded :: "'e periodic_summary \<Rightarrow> 'e periodic_summary" where
  "history_deadline_exceeded h = (let (n, s) = bump (ps_deadline_exceeded h) (ps_saturated h)
     in h\<lparr>ps_deadline_exceeded := n, ps_saturated := s\<rparr>)"

definition history_stop_interrupted :: "'e periodic_summary \<Rightarrow> 'e periodic_summary" where
  "history_stop_interrupted h = (let (n, s) = bump (ps_stop_interrupted h) (ps_saturated h)
     in h\<lparr>ps_stop_interrupted := n, ps_saturated := s\<rparr>)"

definition history_acknowledged :: "'e periodic_summary \<Rightarrow> 'e periodic_summary" where
  "history_acknowledged h = h\<lparr>ps_acknowledged := True\<rparr>"

definition history_finished :: "periodic_completion \<Rightarrow> 'e periodic_summary \<Rightarrow> 'e periodic_summary" where
  "history_finished completion h = h\<lparr>ps_completion := completion\<rparr>"

definition history_terminal :: "nat \<Rightarrow> 'e cause \<Rightarrow> 'e periodic_summary \<Rightarrow> 'e periodic_summary" where
  "history_terminal invocation error h =
     h\<lparr>ps_terminal_failure := Some \<lparr>fs_invocation = invocation, fs_error = error\<rparr>\<rparr>"

definition history_recoverable :: "nat \<Rightarrow> 'e cause \<Rightarrow> 'e periodic_summary \<Rightarrow> 'e periodic_summary" where
  "history_recoverable invocation error h =
     (let (n, s) = bump (ps_recoverable_failures h) (ps_saturated h);
          h = h\<lparr>ps_recoverable_failures := n, ps_saturated := s\<rparr>;
          sample = \<lparr>fs_invocation = invocation, fs_error = error\<rparr>
      in if ps_first_failure h = None then h\<lparr>ps_first_failure := Some sample\<rparr>
         else let displaced = ps_last_failure h;
                  h = h\<lparr>ps_last_failure := Some sample\<rparr>
              in if displaced \<noteq> None
                 then let (n, s) = bump (ps_unsampled_failures h) (ps_saturated h)
                      in h\<lparr>ps_unsampled_failures := n, ps_saturated := s\<rparr>
                 else h)"

text \<open>The report of a component whose runner was not joined is incomplete.\<close>

definition into_record :: "rstr list \<Rightarrow> rstr \<Rightarrow> 'e periodic_summary \<Rightarrow> rstr \<times> 'e periodic_summary" where
  "into_record unjoined name h =
     (name, if name \<in> set unjoined then h\<lparr>ps_completion := Completion_Pending\<rparr> else h)"

section \<open>The cadence\<close>

record schedule =
  sc_period :: duration
  sc_next :: "instant option"

definition Schedule_new :: "instant \<Rightarrow> duration \<Rightarrow> schedule" where
  "Schedule_new now period = \<lparr>sc_period = period, sc_next = Some now\<rparr>"

text \<open>
  The remainder is computed in 128 bits and split into 64-bit seconds and nanoseconds. A remainder by a
  zero period panics, which is the outer \<open>None\<close>; the inner one is an unrepresentable instant.
\<close>

definition following :: "instant \<Rightarrow> instant \<Rightarrow> instant \<Rightarrow> duration \<Rightarrow> instant option option" where
  "following limit due now period =
     (if period = 0 then None
      else let remainder = (now - due) mod period;
               remainder = ((remainder div NANOS_PER_SEC) mod 2 ^ 64) * NANOS_PER_SEC + remainder mod NANOS_PER_SEC
           in Some (instant_add limit now (period - remainder)))"

definition schedule_advance :: "instant \<Rightarrow> instant \<Rightarrow> instant \<Rightarrow> schedule \<Rightarrow> schedule option" where
  "schedule_advance limit due now sched =
     map_option (\<lambda>next. sched\<lparr>sc_next := next\<rparr>) (following limit due now (sc_period sched))"

section \<open>One turn of the driver\<close>

text \<open>The wait for the next tick: what each poll shows of the two tokens and the two timers.\<close>

record due_poll =
  du_draining :: bool
  du_stopping :: bool
  du_expired :: bool
  du_elapsed :: bool
  du_now :: instant

datatype due =
    Due_Run instant instant schedule
  | Due_Abandon
  | Due_Expired
  | Due_Stopped
  | Due_Panicked

fun next_due :: "instant \<Rightarrow> bool \<Rightarrow> schedule \<Rightarrow> due_poll list \<Rightarrow> due option" where
  "next_due limit initializing sched [] = None"
| "next_due limit initializing sched (p # polls) =
     (if initializing \<and> du_draining p then Some Due_Abandon
      else if \<not> initializing \<and> du_stopping p then Some Due_Stopped
      else if initializing \<and> du_expired p then Some Due_Expired
      else case sc_next sched of
          None \<Rightarrow> next_due limit initializing sched polls
        | Some due \<Rightarrow>
            if du_elapsed p
            then Some (case schedule_advance limit due (du_now p) sched of
                None \<Rightarrow> Due_Panicked
              | Some sched \<Rightarrow> Due_Run due (du_now p) sched)
            else next_due limit initializing sched polls)"

text \<open>A component that is still initializing is admitted as ordinary work.\<close>

definition periodic_admit ::
  "instant \<Rightarrow> instant \<Rightarrow> bool \<Rightarrow> periodic_role \<Rightarrow> duration \<Rightarrow> shared \<Rightarrow> periodic_admission" where
  "periodic_admit limit now initializing role graceful shared =
     admit_periodic limit now (if initializing then Ordinary else role) graceful shared"

definition run_deadline ::
  "instant \<Rightarrow> instant \<Rightarrow> instant \<Rightarrow> duration \<Rightarrow> instant option \<Rightarrow> instant option \<Rightarrow> instant" where
  "run_deadline limit now now' budget forced_at initialization =
     (let deadline = (case instant_add limit now budget of Some t \<Rightarrow> t | None \<Rightarrow> now');
          deadline = (case forced_at of Some cap \<Rightarrow> min deadline cap | None \<Rightarrow> deadline)
      in case initialization of Some cap \<Rightarrow> min deadline cap | None \<Rightarrow> deadline)"

text \<open>The work of a run publishes its evidence before its future is dropped.\<close>

definition retained ::
  "nat \<Rightarrow> 'e periodic_failure + unit \<Rightarrow> 'e periodic_summary \<Rightarrow> 'e periodic_summary" where
  "retained invocation result h =
     (case result of
        Inr _ \<Rightarrow> history_succeeded h
      | Inl (Recoverable e) \<Rightarrow> history_recoverable invocation (Application_Cause e) h
      | Inl (Fatal e) \<Rightarrow> history_terminal invocation (Application_Cause e) h)"

datatype 'e periodic_run =
    Run_Succeeded
  | Run_Recoverable 'e
  | Run_DeadlineExceeded
  | Run_Interrupted
  | Run_Fatal 'e

definition run_of_result :: "'e periodic_failure operation_error + unit \<Rightarrow> 'e periodic_run" where
  "run_of_result result =
     (case result of
        Inr _ \<Rightarrow> Run_Succeeded
      | Inl (Op_Failed (Recoverable e)) \<Rightarrow> Run_Recoverable e
      | Inl (Op_Failed (Fatal e)) \<Rightarrow> Run_Fatal e
      | Inl (Op_Interrupted DeadlineExceeded) \<Rightarrow> Run_DeadlineExceeded
      | Inl (Op_Interrupted Cancelled) \<Rightarrow> Run_Interrupted)"

text \<open>
  Each poll of a run looks at the component's stopping point first and polls the attempt only if it is
  not reached. The attempt checks its context at its own first poll.
\<close>

record 'e run_poll =
  up_draining :: bool
  up_stopping :: bool
  up_attempt :: "('e periodic_failure + unit) poll"

definition run_stops :: "bool \<Rightarrow> 'e run_poll \<Rightarrow> bool" where
  "run_stops initializing p \<longleftrightarrow> (if initializing then up_draining p else up_stopping p)"

definition periodic_execute ::
  "instant \<Rightarrow> bool \<Rightarrow> nat \<Rightarrow> bool \<times> instant \<Rightarrow> 'e run_poll list \<Rightarrow> 'e periodic_summary \<Rightarrow>
   ('e periodic_run \<times> 'e periodic_summary) option" where
  "periodic_execute deadline initializing invocation observed polls h =
     (let seen = takeWhile (\<lambda>p. \<not> run_stops initializing p) polls;
          interrupted = (if length seen < length polls then Some (Run_Interrupted, h) else None)
      in if seen = [] then interrupted
         else case context_run \<lparr>oc_deadline = deadline\<rparr> observed (map up_attempt seen) of
             None \<Rightarrow> interrupted
           | Some result \<Rightarrow>
               Some (run_of_result result,
                 case result of
                   Inr u \<Rightarrow> retained invocation (Inr u) h
                 | Inl (Op_Failed f) \<Rightarrow> retained invocation (Inl f) h
                 | Inl (Op_Interrupted _) \<Rightarrow> h))"

section \<open>The driver\<close>

datatype 'e ending = Abandoned | Ending_InitializationExpired | Ending_Stopped | Ending_Fatal 'e

text \<open>
  The state of the loop: the cadence, the initialization deadline while the component initializes, the
  number of the last run and the evidence. The number of a run saturates like the counters.
\<close>

record 'e drive_state =
  ds_schedule :: schedule
  ds_initialization :: "instant option"
  ds_invocation :: nat
  ds_history :: "'e periodic_summary"

definition component_running :: "'e drive_state \<Rightarrow> 'e drive_state" where
  "component_running st = st\<lparr>ds_initialization := None, ds_history := history_acknowledged (ds_history st)\<rparr>"

record 'e turn =
  tu_due :: "due_poll list"
  tu_shared :: shared
  tu_admitted_at :: instant
  tu_rejected :: "(bool \<times> bool) list"
  tu_now :: instant
  tu_now' :: instant
  tu_observed :: "bool \<times> instant"
  tu_polls :: "'e run_poll list"
  tu_shared_after :: shared
  tu_after :: instant

record 'e run_record =
  rr_invocation :: nat
  rr_due :: instant
  rr_woke :: instant
  rr_initialization :: "instant option"
  rr_forced_at :: "instant option"
  rr_started_at :: instant
  rr_deadline :: instant
  rr_outcome :: "'e periodic_run"

datatype 'e turn_end = Turn_Pending | Turn_Next | Turn_Ended "'e ending" | Turn_Panicked

definition shared_draining :: "shared \<Rightarrow> bool" where
  "shared_draining shared \<longleftrightarrow> shared_readiness shared \<in> {Draining, Stopped}"

text \<open>What the loop does with the outcome of a run.\<close>

definition after_run ::
  "'e periodic_run \<Rightarrow> shared \<Rightarrow> instant \<Rightarrow> 'e drive_state \<Rightarrow> 'e drive_state \<times> 'e turn_end" where
  "after_run outcome shared now st =
     (let initializing = ds_initialization st \<noteq> None
      in case outcome of
           Run_Succeeded \<Rightarrow>
             (case ds_initialization st of
                None \<Rightarrow> (st, Turn_Next)
              | Some deadline \<Rightarrow>
                  if shared_draining shared then (st, Turn_Ended Abandoned)
                  else if deadline \<le> now then (st, Turn_Ended Ending_InitializationExpired)
                  else (component_running st, Turn_Next))
         | Run_Recoverable _ \<Rightarrow> (st, Turn_Next)
         | Run_DeadlineExceeded \<Rightarrow> (st\<lparr>ds_history := history_deadline_exceeded (ds_history st)\<rparr>, Turn_Next)
         | Run_Interrupted \<Rightarrow> (st\<lparr>ds_history := history_stop_interrupted (ds_history st)\<rparr>,
             Turn_Ended (if initializing then Abandoned else Ending_Stopped))
         | Run_Fatal e \<Rightarrow> (st, Turn_Ended (Ending_Fatal e)))"

definition admitted_run ::
  "instant \<Rightarrow> periodic_policy \<Rightarrow> instant \<Rightarrow> instant \<Rightarrow> instant option \<Rightarrow> 'e turn \<Rightarrow> 'e drive_state \<Rightarrow>
   'e run_record list \<times> 'e drive_state \<times> 'e turn_end" where
  "admitted_run limit policy due woke forced_at turn st =
     (let st = st\<lparr>ds_invocation := min U64_MAX (ds_invocation st + 1), ds_history := history_admitted (ds_history st)\<rparr>;
          deadline = run_deadline limit (tu_now turn) (tu_now' turn) (pp_run_budget policy) forced_at (ds_initialization st)
      in case periodic_execute deadline (ds_initialization st \<noteq> None) (ds_invocation st)
             (tu_observed turn) (tu_polls turn) (ds_history st) of
           None \<Rightarrow> ([], st, Turn_Pending)
         | Some (outcome, h) \<Rightarrow>
             ([\<lparr>rr_invocation = ds_invocation st, rr_due = due, rr_woke = woke,
                rr_initialization = ds_initialization st, rr_forced_at = forced_at,
                rr_started_at = tu_now turn, rr_deadline = deadline, rr_outcome = outcome\<rparr>],
              after_run outcome (tu_shared_after turn) (tu_after turn) (st\<lparr>ds_history := h\<rparr>)))"

definition drive_turn ::
  "instant \<Rightarrow> periodic_policy \<Rightarrow> periodic_role \<Rightarrow> duration \<Rightarrow> 'e turn \<Rightarrow> 'e drive_state \<Rightarrow>
   'e run_record list \<times> 'e drive_state \<times> 'e turn_end" where
  "drive_turn limit policy role graceful turn st =
     (let initializing = ds_initialization st \<noteq> None
      in case next_due limit initializing (ds_schedule st) (tu_due turn) of
           None \<Rightarrow> ([], st, Turn_Pending)
         | Some Due_Abandon \<Rightarrow> ([], st, Turn_Ended Abandoned)
         | Some Due_Expired \<Rightarrow> ([], st, Turn_Ended Ending_InitializationExpired)
         | Some Due_Stopped \<Rightarrow> ([], st, Turn_Ended Ending_Stopped)
         | Some Due_Panicked \<Rightarrow> ([], st, Turn_Panicked)
         | Some (Due_Run due woke sched) \<Rightarrow>
             (let st = st\<lparr>ds_schedule := sched\<rparr>
              in case periodic_admit limit (tu_admitted_at turn) initializing role graceful (tu_shared turn) of
                   Periodic_Stopped \<Rightarrow>
                     if list_ex (\<lambda>(draining, stopping). if initializing then draining else stopping) (tu_rejected turn)
                     then ([], st, Turn_Ended (if initializing then Abandoned else Ending_Stopped))
                     else ([], st, Turn_Pending)
                 | Admitted forced_at \<Rightarrow> admitted_run limit policy due woke forced_at turn st))"

fun drive_loop ::
  "instant \<Rightarrow> periodic_policy \<Rightarrow> periodic_role \<Rightarrow> duration \<Rightarrow> 'e turn list \<Rightarrow> 'e drive_state \<Rightarrow>
   'e run_record list \<times> 'e drive_state \<times> 'e turn_end" where
  "drive_loop limit policy role graceful [] st = ([], st, Turn_Pending)"
| "drive_loop limit policy role graceful (turn # turns) st =
     (case drive_turn limit policy role graceful turn st of
        (runs, st, Turn_Next) \<Rightarrow>
          map_prod (append runs) id (drive_loop limit policy role graceful turns st)
      | stopped \<Rightarrow> stopped)"

datatype 'e drive_result = Drive_Pending | Drive_Panicked | Drive_Exited | Drive_Failed "'e cause"

definition drive_finish :: "rstr \<Rightarrow> 'e ending \<Rightarrow> 'e drive_state \<Rightarrow> 'e periodic_summary \<times> 'e drive_result" where
  "drive_finish name ending st =
     (let h = ds_history st
      in case ending of
           Ending_InitializationExpired \<Rightarrow>
             (history_finished Completion_InitializationExpired
                (history_terminal (ds_invocation st) (PeriodicInitializationExpired name) h),
              Drive_Failed (PeriodicInitializationExpired name))
         | Ending_Fatal e \<Rightarrow> (history_finished Completion_Fatal h, Drive_Failed (Application_Cause e))
         | _ \<Rightarrow>
             (history_finished (if ds_initialization st = None then Completion_Stopped else AbandonedDuringStartup) h,
              Drive_Exited))"

text \<open>
  Driving a component: \<open>observed\<close> is the lifecycle state it starts in, \<open>now\<close> and \<open>now'\<close> the readings for
  its initialization deadline and \<open>origin\<close> the first point of its cadence. The role of its runs follows
  from the policy.
\<close>

definition policy_role :: "periodic_policy \<Rightarrow> periodic_role" where
  "policy_role policy = (if pp_shutdown policy = SupportThroughDrain then Support else Ordinary)"

definition drive_start ::
  "instant \<Rightarrow> periodic_policy \<Rightarrow> instant \<Rightarrow> instant \<Rightarrow> instant \<Rightarrow> 'e drive_state" where
  "drive_start limit policy now now' origin =
     (let st = \<lparr>ds_schedule = Schedule_new origin (pp_interval policy), ds_initialization = None,
          ds_invocation = 0, ds_history = History_new\<rparr>
      in case pt_allowance (pp_startup policy) of
           Some allowance \<Rightarrow>
             st\<lparr>ds_initialization := Some (case instant_add limit now allowance of Some t \<Rightarrow> t | None \<Rightarrow> now')\<rparr>
         | None \<Rightarrow> component_running st)"

definition drive ::
  "rstr \<Rightarrow> instant \<Rightarrow> periodic_policy \<Rightarrow> duration \<Rightarrow> shared \<Rightarrow> instant \<Rightarrow> instant \<Rightarrow> instant \<Rightarrow> 'e turn list \<Rightarrow>
   'e run_record list \<times> 'e periodic_summary \<times> 'e drive_result" where
  "drive name limit policy graceful observed now now' origin turns =
     (if shared_draining observed then ([], history_finished AbandonedDuringStartup History_new, Drive_Exited)
      else case drive_loop limit policy (policy_role policy) graceful turns (drive_start limit policy now now' origin) of
          (runs, st, Turn_Ended ending) \<Rightarrow> (runs, drive_finish name ending st)
        | (runs, st, Turn_Panicked) \<Rightarrow> (runs, ds_history st, Drive_Panicked)
        | (runs, st, _) \<Rightarrow> (runs, ds_history st, Drive_Pending))"

end
