(* ===== verification/Periodic_Driver.thy ===== *)
theory Periodic_Driver
  imports Periodic_Component
begin

text \<open>
  Correctness of the periodic driver: its cadence, its evidence and its endings. Every turn of the loop
  is waiting, quiet or a run (\<open>drive_turn_cases\<close>); the loop's state after a sequence of runs is described
  by \<open>driving\<close>, the runs themselves by \<open>run_chain\<close>.
\<close>

section \<open>The cadence is kept\<close>

lemma following_eq:
  assumes "0 < period" "period \<le> DURATION_MAX"
  shows "following limit due now period = Some (instant_add limit now (period - (now - due) mod period))"
proof -
  define m where "m = (now - due) mod period"
  have "m < period" using assms(1) by (simp add: m_def)
  then have "m < (U64_MAX + 1) * NANOS_PER_SEC"
    using assms(2) by (simp add: DURATION_MAX_def NANOS_PER_SEC_def algebra_simps)
  then have "m div NANOS_PER_SEC < 2 ^ 64"
    by (simp add: less_mult_imp_div_less U64_MAX_def)
  then have "((m div NANOS_PER_SEC) mod 2 ^ 64) * NANOS_PER_SEC + m mod NANOS_PER_SEC = m" by simp
  then show ?thesis using assms(1) by (simp add: following_def Let_def m_def)
qed

text \<open>The next due time is the first point of the cadence strictly after the present.\<close>

lemma following_next:
  assumes "following limit due now period = Some (Some n)" "0 < period" "period \<le> DURATION_MAX" "due \<le> now"
  shows "now < n" "n \<le> now + period" "n = due + ((now - due) div period + 1) * period"
proof -
  have lt: "(now - due) mod period < period" using assms(2) by simp
  have n: "n = now + (period - (now - due) mod period)"
    using assms(1) following_eq [OF assms(2,3), of limit due now]
    by (auto simp: instant_add_def checked_add_def split: if_splits)
  show "now < n" and "n \<le> now + period" using n lt by simp_all
  have "now - due = (now - due) div period * period + (now - due) mod period" by simp
  then show "n = due + ((now - due) div period + 1) * period"
    using n lt assms(4) by (simp only: add_mult_distrib)
qed

lemma next_due_run:
  assumes "next_due limit initializing sched polls = Some (Due_Run due woke sched')"
  shows "sc_next sched = Some due \<and> sc_period sched' = sc_period sched \<and>
    following limit due woke (sc_period sched) = Some (sc_next sched')"
  using assms
  by (induction polls) (auto simp: schedule_advance_def split: if_splits option.splits)

lemma next_due_quiet:
  "next_due limit initializing sched polls = Some Due_Abandon \<Longrightarrow> initializing"
  "next_due limit initializing sched polls = Some Due_Expired \<Longrightarrow> initializing"
  "next_due limit initializing sched polls = Some Due_Stopped \<Longrightarrow> \<not> initializing"
  "next_due limit initializing sched polls = Some Due_Panicked \<Longrightarrow> sc_period sched = 0"
  by (induction polls) (auto simp: schedule_advance_def following_def Let_def split: if_splits option.splits)

section \<open>Evidence of a sequence of runs\<close>

definition failure_of :: "'e run_record \<Rightarrow> 'e failure_sample option" where
  "failure_of r = (case rr_outcome r of
     Run_Recoverable e \<Rightarrow> Some \<lparr>fs_invocation = rr_invocation r, fs_error = Application_Cause e\<rparr> | _ \<Rightarrow> None)"

definition failures :: "'e run_record list \<Rightarrow> 'e failure_sample list" where
  "failures runs = List.map_filter failure_of runs"

definition outcomes :: "'e periodic_run \<Rightarrow> 'e run_record list \<Rightarrow> nat" where
  "outcomes outcome runs = length (filter (\<lambda>r. rr_outcome r = outcome) runs)"

definition terminal_of :: "'e run_record list \<Rightarrow> 'e failure_sample option" where
  "terminal_of runs =
     (if runs = [] then None
      else case rr_outcome (last runs) of
          Run_Fatal e \<Rightarrow> Some \<lparr>fs_invocation = rr_invocation (last runs), fs_error = Application_Cause e\<rparr>
        | _ \<Rightarrow> None)"

text \<open>The counters are the numbers of runs with each outcome, as far as 64 bits reach.\<close>

definition tallies :: "'e run_record list \<Rightarrow> 'e periodic_summary \<Rightarrow> bool" where
  "tallies runs h \<longleftrightarrow>
     ps_invocations h = min U64_MAX (length runs) \<and>
     ps_succeeded h = min U64_MAX (outcomes Run_Succeeded runs) \<and>
     ps_recoverable_failures h = min U64_MAX (length (failures runs)) \<and>
     ps_deadline_exceeded h = min U64_MAX (outcomes Run_DeadlineExceeded runs) \<and>
     ps_stop_interrupted h = min U64_MAX (outcomes Run_Interrupted runs) \<and>
     ps_unsampled_failures h = min U64_MAX (length (failures runs) - 2) \<and>
     (ps_saturated h \<longleftrightarrow> U64_MAX < length runs)"

text \<open>The first failure and, from the second on, the latest one are kept.\<close>

definition sampled :: "'e run_record list \<Rightarrow> 'e periodic_summary \<Rightarrow> bool" where
  "sampled runs h \<longleftrightarrow>
     ps_first_failure h = (if failures runs = [] then None else Some (hd (failures runs))) \<and>
     ps_last_failure h = (if length (failures runs) < 2 then None else Some (last (failures runs)))"

lemma outcomes_simps [simp]:
  "outcomes x [] = 0" "outcomes x (runs @ [r]) = (if rr_outcome r = x then Suc (outcomes x runs) else outcomes x runs)"
  "failures [] = []" "failures (runs @ [r]) = failures runs @ (case failure_of r of None \<Rightarrow> [] | Some f \<Rightarrow> [f])"
  by (simp_all add: outcomes_def failures_def List.map_filter_def split: option.split)

lemma outcomes_le: "outcomes x runs \<le> length runs" "length (failures runs) \<le> length runs"
  by (simp_all add: outcomes_def failures_def List.map_filter_def)

lemma bump_min: "bump (min U64_MAX n) s = (min U64_MAX (Suc n), s \<or> U64_MAX \<le> n)"
  by (auto simp: bump_def checked_add_def min_def)

text \<open>What a run adds to the evidence.\<close>

definition record_run :: "'e run_record \<Rightarrow> 'e periodic_summary \<Rightarrow> 'e periodic_summary" where
  "record_run r h =
     (let h = history_admitted h
      in case rr_outcome r of
           Run_Succeeded \<Rightarrow> history_succeeded h
         | Run_Recoverable e \<Rightarrow> history_recoverable (rr_invocation r) (Application_Cause e) h
         | Run_DeadlineExceeded \<Rightarrow> history_deadline_exceeded h
         | Run_Interrupted \<Rightarrow> history_stop_interrupted h
         | Run_Fatal e \<Rightarrow> history_terminal (rr_invocation r) (Application_Cause e) h)"

lemmas history_defs = history_admitted_def history_succeeded_def history_recoverable_def
  history_deadline_exceeded_def history_stop_interrupted_def history_terminal_def

lemma bump_sel [simp]:
  "fst (bump (min U64_MAX n) s) = min U64_MAX (Suc n)" "snd (bump (min U64_MAX n) s) \<longleftrightarrow> s \<or> U64_MAX \<le> n"
  by (simp_all add: bump_min)

lemma bump_small [simp]:
  "bump 0 s = (Suc 0, s)" "bump (Suc 0) s = (2, s)" "min U64_MAX (Suc 0) = Suc 0" "min U64_MAX (Suc (Suc 0)) = 2"
  "0 < U64_MAX"
  by (simp_all add: bump_def checked_add_def U64_MAX_def)

lemma tallies_recoverable:
  assumes t: "tallies runs h" and s: "sampled runs h" and r: "rr_outcome r = Run_Recoverable e"
  shows "tallies (runs @ [r]) (record_run r h)"
proof -
  define f where "f = length (failures runs)"
  have le: "f \<le> length runs" using outcomes_le(2) [of runs] by (simp add: f_def)
  have first: "ps_first_failure h = None \<longleftrightarrow> f = 0" and last: "ps_last_failure h = None \<longleftrightarrow> f < 2"
    using s by (simp_all add: sampled_def f_def)
  note fields = t [unfolded tallies_def, folded f_def]
  consider "f = 0" | "f = 1" | g where "f = Suc (Suc g)"
    by (metis One_nat_def not0_implies_Suc)
  then show ?thesis
  proof cases
    case 1
    then show ?thesis
      using fields first le r by (auto simp: tallies_def record_run_def history_defs case_prod_unfold failure_of_def
          f_def [symmetric] Let_def simp del: One_nat_def)
  next
    case 2
    then show ?thesis
      using fields first last le r by (auto simp: tallies_def record_run_def history_defs case_prod_unfold failure_of_def
          f_def [symmetric] Let_def)
  next
    case 3
    then show ?thesis
      using fields first last le r by (auto simp: tallies_def record_run_def history_defs case_prod_unfold failure_of_def
          f_def [symmetric] Let_def)
  qed
qed

lemma tallies_record:
  assumes "tallies runs h" "sampled runs h"
  shows "tallies (runs @ [r]) (record_run r h)"
proof (cases "rr_outcome r")
  case (Run_Recoverable e)
  then show ?thesis by (rule tallies_recoverable [OF assms])
next
  case Run_Succeeded
  then show ?thesis
    using assms(1) outcomes_le(1) [of Run_Succeeded runs]
    by (auto simp: tallies_def record_run_def history_defs case_prod_unfold failure_of_def)
next
  case Run_DeadlineExceeded
  then show ?thesis
    using assms(1) outcomes_le(1) [of Run_DeadlineExceeded runs]
    by (auto simp: tallies_def record_run_def history_defs case_prod_unfold failure_of_def)
next
  case Run_Interrupted
  then show ?thesis
    using assms(1) outcomes_le(1) [of Run_Interrupted runs]
    by (auto simp: tallies_def record_run_def history_defs case_prod_unfold failure_of_def)
next
  case (Run_Fatal e)
  then show ?thesis
    using assms(1)
    by (auto simp: tallies_def record_run_def history_defs case_prod_unfold failure_of_def)
qed

lemma sampled_record:
  assumes "sampled runs h"
  shows "sampled (runs @ [r]) (record_run r h)"
  using assms
  by (cases "rr_outcome r")
    (auto simp: sampled_def record_run_def history_defs failure_of_def Let_def case_prod_unfold hd_append not_less)

lemma record_run_other [simp]:
  "ps_acknowledged (record_run r h) = ps_acknowledged h" "ps_completion (record_run r h) = ps_completion h"
  by (auto simp: record_run_def history_defs Let_def case_prod_unfold split: periodic_run.splits)

lemma record_run_terminal:
  "ps_terminal_failure (record_run r h) =
     (case rr_outcome r of Run_Fatal e \<Rightarrow> Some \<lparr>fs_invocation = rr_invocation r, fs_error = Application_Cause e\<rparr>
      | _ \<Rightarrow> ps_terminal_failure h)"
  by (auto simp: record_run_def history_defs Let_def case_prod_unfold split: periodic_run.splits)

section \<open>One turn\<close>

definition run_final :: "'e periodic_run \<Rightarrow> bool" where
  "run_final outcome = (case outcome of Run_Interrupted \<Rightarrow> True | Run_Fatal _ \<Rightarrow> True | _ \<Rightarrow> False)"

definition run_work :: "nat \<Rightarrow> 'e periodic_run \<Rightarrow> 'e periodic_summary \<Rightarrow> 'e periodic_summary" where
  "run_work invocation outcome h =
     (case outcome of
        Run_Succeeded \<Rightarrow> history_succeeded h
      | Run_Recoverable e \<Rightarrow> history_recoverable invocation (Application_Cause e) h
      | Run_Fatal e \<Rightarrow> history_terminal invocation (Application_Cause e) h
      | _ \<Rightarrow> h)"

lemma execute_history:
  "periodic_execute deadline initializing invocation observed polls h = Some (outcome, h') \<Longrightarrow>
   h' = run_work invocation outcome h"
  by (auto simp: periodic_execute_def run_work_def run_of_result_def retained_def Let_def
      split: if_splits option.splits sum.splits operation_error.splits periodic_failure.splits interruption.splits)

text \<open>How a run's outcome continues or ends the loop, given the initialization deadline before and after.\<close>

definition leads ::
  "'e periodic_run \<Rightarrow> instant option \<Rightarrow> instant option \<Rightarrow> 'e turn_end \<Rightarrow> bool" where
  "leads outcome init init' e \<longleftrightarrow>
     (case outcome of
        Run_Succeeded \<Rightarrow> e = Turn_Next \<and> init' = None \<or>
          init \<noteq> None \<and> init' = init \<and> e \<in> {Turn_Ended Abandoned, Turn_Ended Ending_InitializationExpired}
      | Run_Interrupted \<Rightarrow> init' = init \<and> e = Turn_Ended (if init \<noteq> None then Abandoned else Ending_Stopped)
      | Run_Fatal x \<Rightarrow> init' = init \<and> e = Turn_Ended (Ending_Fatal x)
      | _ \<Rightarrow> init' = init \<and> e = Turn_Next)"

definition acknowledge_if :: "bool \<Rightarrow> 'e periodic_summary \<Rightarrow> 'e periodic_summary" where
  "acknowledge_if b h = (if b then history_acknowledged h else h)"

lemma after_run_effect:
  assumes "after_run outcome shared now st = (st', e)"
  shows "leads outcome (ds_initialization st) (ds_initialization st') e \<and>
    ds_schedule st' = ds_schedule st \<and> ds_invocation st' = ds_invocation st \<and>
    ds_history st' = acknowledge_if (ds_initialization st \<noteq> None \<and> ds_initialization st' = None)
      (case outcome of Run_DeadlineExceeded \<Rightarrow> history_deadline_exceeded (ds_history st)
       | Run_Interrupted \<Rightarrow> history_stop_interrupted (ds_history st) | _ \<Rightarrow> ds_history st)"
  using assms
  by (auto simp: after_run_def leads_def acknowledge_if_def component_running_def Let_def
      split: periodic_run.splits option.splits if_splits)

definition admission_of ::
  "instant \<Rightarrow> periodic_policy \<Rightarrow> periodic_role \<Rightarrow> duration \<Rightarrow> 'e turn \<Rightarrow> 'e run_record \<Rightarrow> bool" where
  "admission_of limit policy role graceful turn r \<longleftrightarrow>
     periodic_admit limit (tu_admitted_at turn) (rr_initialization r \<noteq> None) role graceful (tu_shared turn) =
       Admitted (rr_forced_at r) \<and>
     rr_started_at r = tu_now turn \<and>
     rr_deadline r = run_deadline limit (tu_now turn) (tu_now' turn) (pp_run_budget policy) (rr_forced_at r) (rr_initialization r)"

lemma admitted_run_cases [consumes 1, case_names pending run]:
  assumes "admitted_run limit policy due woke forced_at turn st = (runs, st', e)"
  obtains (pending) "e = Turn_Pending" "runs = []" "ds_history st' = history_admitted (ds_history st)"
  | (run) r where "runs = [r]" "rr_due r = due" "rr_woke r = woke" "rr_initialization r = ds_initialization st"
      "rr_forced_at r = forced_at" "rr_started_at r = tu_now turn"
      "rr_deadline r = run_deadline limit (tu_now turn) (tu_now' turn) (pp_run_budget policy) forced_at (ds_initialization st)"
      "rr_invocation r = min U64_MAX (Suc (ds_invocation st))" "ds_invocation st' = rr_invocation r"
      "ds_schedule st' = ds_schedule st"
      "leads (rr_outcome r) (ds_initialization st) (ds_initialization st') e"
      "ds_history st' = acknowledge_if (ds_initialization st \<noteq> None \<and> ds_initialization st' = None)
         (record_run r (ds_history st))"
proof -
  define st1 where "st1 = st\<lparr>ds_invocation := min U64_MAX (ds_invocation st + 1), ds_history := history_admitted (ds_history st)\<rparr>"
  define deadline where "deadline = run_deadline limit (tu_now turn) (tu_now' turn) (pp_run_budget policy) forced_at (ds_initialization st)"
  define ex where "ex = periodic_execute deadline (ds_initialization st \<noteq> None) (ds_invocation st1)
    (tu_observed turn) (tu_polls turn) (ds_history st1)"
  have init: "ds_initialization st1 = ds_initialization st" by (simp add: st1_def)
  note A = assms [unfolded admitted_run_def Let_def, folded st1_def, unfolded init, folded deadline_def, folded ex_def]
  show thesis
  proof (cases ex)
    case None
    with A show thesis by (intro pending) (auto simp: st1_def)
  next
    case (Some x)
    obtain outcome h where x: "x = (outcome, h)" by (cases x)
    have h: "h = run_work (ds_invocation st1) outcome (ds_history st1)"
      using Some x execute_history unfolding ex_def by blast
    define r where "r = \<lparr>rr_invocation = ds_invocation st1, rr_due = due, rr_woke = woke,
      rr_initialization = ds_initialization st, rr_forced_at = forced_at, rr_started_at = tu_now turn,
      rr_deadline = deadline, rr_outcome = outcome\<rparr>"
    from A Some x have runs: "runs = [r]"
      and after: "after_run outcome (tu_shared_after turn) (tu_after turn) (st1\<lparr>ds_history := h\<rparr>) = (st', e)"
      by (simp_all add: r_def)
    from after_run_effect [OF after] have eff:
      "leads outcome (ds_initialization st) (ds_initialization st') e"
      "ds_schedule st' = ds_schedule st" "ds_invocation st' = ds_invocation st1"
      "ds_history st' = acknowledge_if (ds_initialization st \<noteq> None \<and> ds_initialization st' = None)
        (case outcome of Run_DeadlineExceeded \<Rightarrow> history_deadline_exceeded h
         | Run_Interrupted \<Rightarrow> history_stop_interrupted h | _ \<Rightarrow> h)"
      by (simp_all add: st1_def cong: periodic_run.case_cong)
    have "(case outcome of Run_DeadlineExceeded \<Rightarrow> history_deadline_exceeded h
         | Run_Interrupted \<Rightarrow> history_stop_interrupted h | _ \<Rightarrow> h) = record_run r (ds_history st)"
      by (cases outcome) (simp_all add: h run_work_def record_run_def r_def st1_def Let_def)
    with runs eff show thesis
      by (intro run [of r]) (simp_all add: r_def deadline_def st1_def)
  qed
qed

lemma drive_turn_cases [consumes 1, case_names pending quiet run]:
  assumes "drive_turn limit policy role graceful turn st = (runs, st', e)"
  obtains (pending) "e = Turn_Pending" "runs = []" "ds_history st' \<in> {ds_history st, history_admitted (ds_history st)}"
  | (quiet) "runs = []" "ds_history st' = ds_history st" "ds_initialization st' = ds_initialization st"
      "ds_invocation st' = ds_invocation st" "sc_period (ds_schedule st') = sc_period (ds_schedule st)"
      "e = Turn_Ended (if ds_initialization st \<noteq> None then Abandoned else Ending_Stopped) \<or>
       e = Turn_Ended Ending_InitializationExpired \<and> ds_initialization st \<noteq> None \<or>
       e = Turn_Panicked \<and> sc_period (ds_schedule st) = 0"
  | (run) r where "runs = [r]" "sc_next (ds_schedule st) = Some (rr_due r)"
      "following limit (rr_due r) (rr_woke r) (sc_period (ds_schedule st)) = Some (sc_next (ds_schedule st'))"
      "sc_period (ds_schedule st') = sc_period (ds_schedule st)"
      "rr_initialization r = ds_initialization st" "admission_of limit policy role graceful turn r"
      "rr_invocation r = min U64_MAX (Suc (ds_invocation st))" "ds_invocation st' = rr_invocation r"
      "leads (rr_outcome r) (ds_initialization st) (ds_initialization st') e"
      "ds_history st' = acknowledge_if (ds_initialization st \<noteq> None \<and> ds_initialization st' = None)
         (record_run r (ds_history st))"
proof -
  define init where "init = (ds_initialization st \<noteq> None)"
  define nd where "nd = next_due limit init (ds_schedule st) (tu_due turn)"
  note A = assms [unfolded drive_turn_def Let_def, folded init_def, folded nd_def]
  consider "nd = None" | "nd = Some Due_Abandon" | "nd = Some Due_Expired" | "nd = Some Due_Stopped"
    | "nd = Some Due_Panicked" | due woke sched where "nd = Some (Due_Run due woke sched)"
    by (metis due.exhaust option.exhaust)
  then show thesis
  proof cases
    case 1
    with A show thesis by (intro pending) auto
  next
    case 2
    with A next_due_quiet(1) [of limit init "ds_schedule st" "tu_due turn"] show thesis by (intro quiet) (auto simp: nd_def init_def)
  next
    case 3
    with A next_due_quiet(2) [of limit init "ds_schedule st" "tu_due turn"] show thesis by (intro quiet) (auto simp: nd_def init_def)
  next
    case 4
    with A next_due_quiet(3) [of limit init "ds_schedule st" "tu_due turn"] show thesis by (intro quiet) (auto simp: nd_def init_def)
  next
    case 5
    with A next_due_quiet(4) [of limit init "ds_schedule st" "tu_due turn"] show thesis by (intro quiet) (auto simp: nd_def init_def)
  next
    case 6
    have sched: "sc_next (ds_schedule st) = Some due" "sc_period sched = sc_period (ds_schedule st)"
      "following limit due woke (sc_period (ds_schedule st)) = Some (sc_next sched)"
      using next_due_run 6 unfolding nd_def by blast+
    show thesis
    proof (cases "periodic_admit limit (tu_admitted_at turn) init role graceful (tu_shared turn)")
      case (Admitted forced_at)
      with A 6 have "admitted_run limit policy due woke forced_at turn (st\<lparr>ds_schedule := sched\<rparr>) = (runs, st', e)"
        by simp
      then show thesis
      proof (cases rule: admitted_run_cases)
        case pending': pending
        then show thesis by (intro pending) simp_all
      next
        case run': (run r)
        then show thesis using sched Admitted
          by (intro run [of r]) (simp_all add: admission_of_def init_def)
      qed
    next
      case Periodic_Stopped
      show thesis
      proof (cases "list_ex (\<lambda>(draining, stopping). if init then draining else stopping) (tu_rejected turn)")
        case True
        with A 6 Periodic_Stopped sched show thesis
          by (intro quiet) (auto simp: init_def)
      next
        case False
        with A 6 Periodic_Stopped show thesis by (intro pending) auto
      qed
    qed
  qed
qed

section \<open>The whole loop\<close>

definition smooth :: "'e run_record list \<Rightarrow> bool" where
  "smooth runs \<longleftrightarrow> list_all (\<lambda>r. \<not> run_final (rr_outcome r)) runs"

text \<open>The state of the loop after a sequence of runs.\<close>

definition driving :: "duration \<Rightarrow> 'e run_record list \<Rightarrow> 'e drive_state \<Rightarrow> bool" where
  "driving interval runs st \<longleftrightarrow>
     tallies runs (ds_history st) \<and> sampled runs (ds_history st) \<and>
     ps_terminal_failure (ds_history st) = terminal_of runs \<and>
     ps_completion (ds_history st) = Completion_Pending \<and>
     (ps_acknowledged (ds_history st) \<longleftrightarrow> ds_initialization st = None) \<and>
     ds_invocation st = min U64_MAX (length runs) \<and> sc_period (ds_schedule st) = interval"

definition ends_with :: "duration \<Rightarrow> 'e run_record list \<Rightarrow> instant option \<Rightarrow> 'e turn_end \<Rightarrow> bool" where
  "ends_with interval runs init e \<longleftrightarrow>
     smooth (butlast runs) \<and>
     (case e of
        Turn_Ended (Ending_Fatal x) \<Rightarrow> runs \<noteq> [] \<and> rr_outcome (last runs) = Run_Fatal x
      | Turn_Ended Ending_Stopped \<Rightarrow> init = None \<and> terminal_of runs = None
      | Turn_Ended _ \<Rightarrow> init \<noteq> None \<and> terminal_of runs = None
      | Turn_Panicked \<Rightarrow> interval = 0
      | _ \<Rightarrow> False)"

lemma smooth_terminal: "smooth runs \<Longrightarrow> terminal_of runs = None"
  by (auto simp: smooth_def terminal_of_def run_final_def list_all_iff split: periodic_run.splits dest: last_in_set)

lemma smooth_snoc [simp]: "smooth (runs @ [r]) \<longleftrightarrow> smooth runs \<and> \<not> run_final (rr_outcome r)"
  by (auto simp: smooth_def)

lemma smooth_butlast: "smooth runs \<Longrightarrow> smooth (butlast runs)"
  by (auto simp: smooth_def list_all_iff dest: in_set_butlastD)

lemma terminal_snoc:
  "terminal_of (runs @ [r]) = (case rr_outcome r of
     Run_Fatal e \<Rightarrow> Some \<lparr>fs_invocation = rr_invocation r, fs_error = Application_Cause e\<rparr> | _ \<Rightarrow> None)"
  by (simp add: terminal_of_def cong: periodic_run.case_cong)

lemma acknowledge_if_sel [simp]:
  "tallies runs (acknowledge_if b h) = tallies runs h" "sampled runs (acknowledge_if b h) = sampled runs h"
  "ps_terminal_failure (acknowledge_if b h) = ps_terminal_failure h"
  "ps_completion (acknowledge_if b h) = ps_completion h" "ps_acknowledged (acknowledge_if b h) \<longleftrightarrow> b \<or> ps_acknowledged h"
  by (simp_all add: acknowledge_if_def history_acknowledged_def tallies_def sampled_def)

lemma leads_continues: "leads outcome init init' Turn_Next \<Longrightarrow> \<not> run_final outcome"
  by (auto simp: leads_def run_final_def split: periodic_run.splits)

lemma leads_ends:
  "leads (rr_outcome r) init init' e \<Longrightarrow> e \<noteq> Turn_Next \<Longrightarrow> smooth runs \<Longrightarrow> ends_with interval (runs @ [r]) init' e"
  by (auto simp: leads_def ends_with_def terminal_snoc split: periodic_run.splits)

lemma leads_not_pending: "leads outcome init init' e \<Longrightarrow> e \<noteq> Turn_Pending \<and> (init = None \<longrightarrow> init' = None)"
  by (auto simp: leads_def split: periodic_run.splits)

lemma driving_run:
  assumes "driving interval runs st" "smooth runs" "leads (rr_outcome r) (ds_initialization st) (ds_initialization st') e"
    and "rr_invocation r = min U64_MAX (Suc (ds_invocation st))" "ds_invocation st' = rr_invocation r"
    and "sc_period (ds_schedule st') = sc_period (ds_schedule st)"
    and "ds_history st' = acknowledge_if (ds_initialization st \<noteq> None \<and> ds_initialization st' = None)
      (record_run r (ds_history st))"
  shows "driving interval (runs @ [r]) st'"
  using assms tallies_record [of runs "ds_history st" r] sampled_record [of runs "ds_history st" r]
    smooth_terminal [OF assms(2)] leads_not_pending [OF assms(3)]
  by (auto simp: driving_def record_run_terminal terminal_snoc split: periodic_run.splits)

lemma drive_loop_history:
  assumes "drive_loop limit policy role graceful turns st = (new, st', e)"
    and "driving interval runs st" and "smooth runs"
  shows "e \<noteq> Turn_Pending \<Longrightarrow> driving interval (runs @ new) st' \<and> ends_with interval (runs @ new) (ds_initialization st') e"
    and "e = Turn_Pending \<Longrightarrow> smooth (runs @ new) \<and>
      (\<exists>before. driving interval (runs @ new) before \<and>
         ds_history st' \<in> {ds_history before, history_admitted (ds_history before)})"
  using assms
proof (induction turns arbitrary: st runs new)
  case Nil
  { case 1 then show ?case by simp next
    case 2 then show ?case by auto }
next
  case (Cons turn turns)
  have both: "if e = Turn_Pending
      then smooth (runs @ new) \<and> (\<exists>before. driving interval (runs @ new) before \<and>
         ds_history st' \<in> {ds_history before, history_admitted (ds_history before)})
      else driving interval (runs @ new) st' \<and> ends_with interval (runs @ new) (ds_initialization st') e"
    if loop: "drive_loop limit policy role graceful (turn # turns) st = (new, st', e)"
      and driving: "driving interval runs st" and smooth: "smooth runs" for st runs new
  proof -
    obtain rs s1 e1 where t: "drive_turn limit policy role graceful turn st = (rs, s1, e1)"
      by (metis prod_cases3)
    show ?thesis
    proof (cases "e1 = Turn_Next")
      case False
      with loop t have eq: "new = rs" "st' = s1" "e = e1" by (auto split: turn_end.splits)
      from t show ?thesis
      proof (cases rule: drive_turn_cases)
        case pending
        with eq driving smooth show ?thesis by auto
      next
        case quiet
        with eq driving smooth smooth_terminal [OF smooth] smooth_butlast [OF smooth] show ?thesis
          by (auto simp: driving_def ends_with_def)
      next
        case (run r)
        with eq driving_run [OF driving smooth run(9,7,8,4,10)] leads_ends [OF run(9) _ smooth, of interval] False
        show ?thesis using leads_not_pending [OF run(9)] by auto
      qed
    next
      case True
      obtain rs' where l: "drive_loop limit policy role graceful turns s1 = (rs', st', e)" and new: "new = rs @ rs'"
        using loop t True by (cases "drive_loop limit policy role graceful turns s1") auto
      from t True obtain r where r: "rs = [r]" "driving interval (runs @ [r]) s1" "smooth (runs @ [r])"
      proof (cases rule: drive_turn_cases)
        case (run r)
        with driving_run [OF driving smooth run(9,7,8,4,10)] leads_continues smooth True that show thesis by auto
      qed auto
      have "runs @ new = (runs @ [r]) @ rs'" using new r(1) by simp
      then show ?thesis
        using Cons.IH(1) [OF _ l r(2,3)] Cons.IH(2) [OF _ l r(2,3)] by auto
    qed
  qed
  { case 1 then show ?case using both by fastforce next
    case 2 then show ?case using both by fastforce }
qed

lemma drive_loop_admissions:
  assumes "drive_loop limit policy role graceful turns st = (new, st', e)" and "r \<in> set new"
  shows "\<exists>turn\<in>set turns. admission_of limit policy role graceful turn r"
  using assms
proof (induction turns arbitrary: st new)
  case (Cons turn turns)
  obtain rs s1 e1 where t: "drive_turn limit policy role graceful turn st = (rs, s1, e1)"
    by (metis prod_cases3)
  have first: "r \<in> set rs \<Longrightarrow> admission_of limit policy role graceful turn r"
    using t by (cases rule: drive_turn_cases) auto
  show ?case
  proof (cases "e1 = Turn_Next")
    case False
    with Cons.prems t first show ?thesis by (auto split: turn_end.splits)
  next
    case True
    obtain rs' where "drive_loop limit policy role graceful turns s1 = (rs', st', e)" "new = rs @ rs'"
      using Cons.prems(1) t True by (cases "drive_loop limit policy role graceful turns s1") auto
    with Cons first show ?thesis by auto
  qed
qed simp

lemma admit_periodic_forced:
  assumes "admit_periodic limit now role graceful shared = Admitted forced"
  shows "case forced of
      None \<Rightarrow> as_readiness (sh_admission shared) \<in> {Starting, Ready}
    | Some t \<Rightarrow> as_readiness (sh_admission shared) \<in> {Draining, Stopped} \<and>
        t \<le> (case as_stop_started (sh_admission shared) of Some w \<Rightarrow> w | None \<Rightarrow> now) + graceful"
  using assms
  by (cases "as_readiness (sh_admission shared)")
    (auto simp: admit_periodic_def instant_add_def checked_add_def Let_def split: if_splits option.splits)

text \<open>Every turn of the loop but the last makes exactly one run, so run \<open>i\<close> comes from turn \<open>i\<close>.\<close>

lemma drive_loop_nth:
  assumes "drive_loop limit policy role graceful turns st = (new, st', e)" and "i < length new"
  shows "i < length turns \<and> admission_of limit policy role graceful (turns ! i) (new ! i)"
  using assms
proof (induction turns arbitrary: st new i)
  case (Cons turn turns)
  obtain rs s1 e1 where t: "drive_turn limit policy role graceful turn st = (rs, s1, e1)"
    by (metis prod_cases3)
  have run: "rs = [] \<and> e1 \<noteq> Turn_Next \<or> (\<exists>r. rs = [r] \<and> admission_of limit policy role graceful turn r)"
    using t by (cases rule: drive_turn_cases) auto
  show ?case
  proof (cases "e1 = Turn_Next")
    case False
    then have "new = rs" using Cons.prems(1) t by (auto split: turn_end.splits)
    with run Cons.prems(2) show ?thesis by auto
  next
    case True
    obtain rs' where l: "drive_loop limit policy role graceful turns s1 = (rs', st', e)" "new = rs @ rs'"
      using Cons.prems(1) t True by (cases "drive_loop limit policy role graceful turns s1") auto
    with run True obtain r where r: "new = r # rs'" "admission_of limit policy role graceful turn r" by auto
    show ?thesis
    proof (cases i)
      case (Suc j)
      with Cons.IH [OF l(1), of j] Cons.prems(2) r(1) show ?thesis by simp
    qed (use r in simp)
  qed
qed simp

text \<open>
  The runs of a loop, one after the other: \<open>next\<close> is when the first is due and \<open>init\<close> the pending
  initialization deadline.
\<close>

fun run_chain :: "duration \<Rightarrow> nat \<Rightarrow> instant \<Rightarrow> instant option \<Rightarrow> 'e run_record list \<Rightarrow> bool" where
  "run_chain interval n next init [] = True"
| "run_chain interval n next init (r # rs) \<longleftrightarrow>
     rr_due r = next \<and> rr_initialization r = init \<and> rr_invocation r = min U64_MAX (Suc n) \<and>
     (rs = [] \<or> (\<exists>k. rr_woke r < next + k * interval \<and> next + k * interval \<le> rr_woke r + interval \<and>
        run_chain interval (Suc n) (next + k * interval) (if rr_outcome r = Run_Succeeded then None else init) rs))"

lemma leads_init: "leads outcome init init' Turn_Next \<Longrightarrow> init' = (if outcome = Run_Succeeded then None else init)"
  by (auto simp: leads_def split: periodic_run.splits)

lemma drive_loop_unscheduled:
  "drive_loop limit policy role graceful turns st = (new, st', e) \<Longrightarrow> sc_next (ds_schedule st) = None \<Longrightarrow> new = []"
proof (induction turns)
  case (Cons turn turns)
  obtain rs s1 e1 where t: "drive_turn limit policy role graceful turn st = (rs, s1, e1)"
    by (metis prod_cases3)
  have "rs = [] \<and> e1 \<noteq> Turn_Next"
    using t Cons.prems(2) by (cases rule: drive_turn_cases) auto
  with Cons.prems(1) t show ?case by (auto split: turn_end.splits)
qed simp

lemma drive_loop_chain:
  assumes "drive_loop limit policy role graceful turns st = (new, st', e)"
    and "sc_period (ds_schedule st) = interval" "0 < interval" "interval \<le> DURATION_MAX"
    and "ds_invocation st = min U64_MAX n" "sc_next (ds_schedule st) = Some next"
    and "\<forall>r\<in>set new. rr_due r \<le> rr_woke r"
  shows "run_chain interval n next (ds_initialization st) new"
  using assms
proof (induction turns arbitrary: st new n "next")
  case (Cons turn turns)
  obtain rs s1 e1 where t: "drive_turn limit policy role graceful turn st = (rs, s1, e1)"
    by (metis prod_cases3)
  have stop: "new = rs" if "e1 \<noteq> Turn_Next"
    using Cons.prems(1) t that by (auto split: turn_end.splits)
  from t show ?case
  proof (cases rule: drive_turn_cases)
    case pending
    with stop show ?thesis by simp
  next
    case quiet
    with stop show ?thesis by auto
  next
    case (run r)
    have r: "rr_due r = next" "rr_initialization r = ds_initialization st" "rr_invocation r = min U64_MAX (Suc n)"
      using run Cons.prems(5,6) by auto
    show ?thesis
    proof (cases "e1 = Turn_Next")
      case False
      with stop run r show ?thesis by simp
    next
      case True
      obtain rs' where l: "drive_loop limit policy role graceful turns s1 = (rs', st', e)" and new: "new = r # rs'"
        using Cons.prems(1) t True run(1) by (cases "drive_loop limit policy role graceful turns s1") auto
      show ?thesis
      proof (cases "rs' = []")
        case True
        with new r show ?thesis by simp
      next
        case False
        then obtain next' where next': "sc_next (ds_schedule s1) = Some next'"
          using drive_loop_unscheduled [OF l] by (cases "sc_next (ds_schedule s1)") auto
        have woke: "next \<le> rr_woke r" using Cons.prems(7) new r(1) by auto
        note f = following_next [OF _ Cons.prems(3,4) woke, of limit next']
        have "following limit next (rr_woke r) interval = Some (Some next')"
          using run(3) next' r(1) Cons.prems(2) by simp
        from f [OF this] obtain k where k: "next' = next + k * interval" "rr_woke r < next'" "next' \<le> rr_woke r + interval"
          by blast
        have "run_chain interval (Suc n) next' (ds_initialization s1) rs'"
          using Cons.prems run next' new r(3) by (intro Cons.IH [OF l]) auto
        moreover have "ds_initialization s1 = (if rr_outcome r = Run_Succeeded then None else ds_initialization st)"
          using leads_init run(9) True by metis
        ultimately show ?thesis using new r k by auto
      qed
    qed
  qed
qed simp

lemma run_chain_nth:
  assumes "run_chain interval n next init runs" "i < length runs"
  shows "rr_invocation (runs ! i) = min U64_MAX (Suc (n + i)) \<and> (\<exists>k. rr_due (runs ! i) = next + k * interval) \<and>
    (Suc i < length runs \<longrightarrow> rr_woke (runs ! i) < rr_due (runs ! Suc i) \<and>
       rr_due (runs ! Suc i) \<le> rr_woke (runs ! i) + interval \<and>
       rr_initialization (runs ! Suc i) =
         (if rr_outcome (runs ! i) = Run_Succeeded then None else rr_initialization (runs ! i)))"
  using assms
proof (induction runs arbitrary: n "next" init i)
  case (Cons r rs)
  show ?case
  proof (cases i)
    case 0
    have "\<exists>k. next = next + k * interval" by (rule exI [of _ 0]) simp
    then show ?thesis using Cons.prems 0 by (cases rs) auto
  next
    case (Suc j)
    then obtain k where chain: "run_chain interval (Suc n) (next + k * interval) (if rr_outcome r = Run_Succeeded then None else init) rs"
      and j: "j < length rs" using Cons.prems by auto
    have "\<exists>k'. rr_due (rs ! j) = next + k' * interval"
    proof -
      from Cons.IH [OF chain j] obtain k' where "rr_due (rs ! j) = next + k * interval + k' * interval" by blast
      then have "rr_due (rs ! j) = next + (k + k') * interval" by (simp add: add_mult_distrib)
      then show ?thesis ..
    qed
    with Cons.IH [OF chain j] Suc show ?thesis by simp
  qed
qed simp

lemma driving_start: "driving (pp_interval policy) [] (drive_start limit policy now now' origin)"
  by (simp add: driving_def drive_start_def component_running_def History_new_def history_acknowledged_def tallies_def
      sampled_def terminal_of_def Schedule_new_def Let_def split: option.split)

lemma drive_start_sel:
  "ds_schedule (drive_start limit policy now now' origin) = Schedule_new origin (pp_interval policy)"
  "ds_invocation (drive_start limit policy now now' origin) = 0"
  "ds_initialization (drive_start limit policy now now' origin) = None \<longleftrightarrow> pt_allowance (pp_startup policy) = None"
  by (simp_all add: drive_start_def component_running_def Let_def split: option.split)

lemma drive_cases [consumes 1, case_names abandoned loop]:
  assumes "drive name limit policy graceful observed now now' origin turns = (runs, h, result)"
  obtains (abandoned) "shared_draining observed" "runs = []" "h = history_finished AbandonedDuringStartup History_new"
      "result = Drive_Exited"
  | (loop) st e where "\<not> shared_draining observed"
      "drive_loop limit policy (policy_role policy) graceful turns (drive_start limit policy now now' origin) = (runs, st, e)"
      "(h, result) = (case e of Turn_Ended ending \<Rightarrow> drive_finish name ending st
         | Turn_Panicked \<Rightarrow> (ds_history st, Drive_Panicked) | _ \<Rightarrow> (ds_history st, Drive_Pending))"
  using assms
  by (auto simp: drive_def split: if_splits prod.splits turn_end.splits)

lemma drive_finish_sel:
  assumes "drive_finish name ending st = (h, result)"
  shows "tallies runs h = tallies runs (ds_history st)" "sampled runs h = sampled runs (ds_history st)"
    "ps_acknowledged h = ps_acknowledged (ds_history st)" "result \<noteq> Drive_Pending" "result \<noteq> Drive_Panicked"
  using assms
  by (auto simp: drive_finish_def history_finished_def history_terminal_def tallies_def sampled_def Let_def
      split: ending.splits)

lemma history_admitted_sampled [simp]: "sampled runs (history_admitted h) = sampled runs h"
  by (simp add: sampled_def history_admitted_def case_prod_unfold Let_def)

lemma outcomes_total:
  "length runs = outcomes Run_Succeeded runs + length (failures runs) + outcomes Run_DeadlineExceeded runs +
     outcomes Run_Interrupted runs + length (filter (\<lambda>r. \<exists>e. rr_outcome r = Run_Fatal e) runs)"
proof (induction runs rule: rev_induct)
  case (snoc r runs)
  then show ?case by (cases "rr_outcome r") (simp_all add: failure_of_def)
qed simp

lemma smooth_fatal:
  "smooth (butlast runs) \<Longrightarrow> runs \<noteq> [] \<Longrightarrow> rr_outcome (last runs) = Run_Fatal x \<Longrightarrow>
   length (filter (\<lambda>r. \<exists>e. rr_outcome r = Run_Fatal e) runs) = 1"
proof (induction runs rule: rev_induct)
  case (snoc r runs)
  have "filter (\<lambda>r. \<exists>e. rr_outcome r = Run_Fatal e) runs = []"
    using snoc.prems(1) by (auto simp: smooth_def list_all_iff run_final_def filter_empty_conv split: periodic_run.splits)
  with snoc.prems show ?case by simp
qed simp

lemma terminal_none_fatal:
  assumes "smooth (butlast runs)" "terminal_of runs = None"
  shows "filter (\<lambda>r. \<exists>e. rr_outcome r = Run_Fatal e) runs = []"
proof (cases runs rule: rev_cases)
  case (snoc ys y)
  have "filter (\<lambda>r. \<exists>e. rr_outcome r = Run_Fatal e) ys = []"
    using assms(1) by (auto simp: snoc smooth_def list_all_iff run_final_def filter_empty_conv split: periodic_run.splits)
  with assms(2) show ?thesis by (auto simp: snoc terminal_snoc split: periodic_run.splits)
qed simp

lemma ends_with_fatal:
  assumes "ends_with interval runs init e" and "0 < interval"
  shows "length (filter (\<lambda>r. \<exists>e. rr_outcome r = Run_Fatal e) runs) = (if \<exists>x. e = Turn_Ended (Ending_Fatal x) then 1 else 0)"
  using assms smooth_fatal [of runs] terminal_none_fatal [of runs]
  by (auto simp: ends_with_def split: turn_end.splits ending.splits)

lemma drive_loop_acknowledged:
  assumes "drive_loop limit policy role graceful turns st = (new, st', e)" "e \<noteq> Turn_Pending" "ds_initialization st' = None"
  shows "ds_initialization st = None \<or> (\<exists>r\<in>set new. rr_initialization r \<noteq> None \<and> rr_outcome r = Run_Succeeded)"
  using assms
proof (induction turns arbitrary: st new)
  case (Cons turn turns)
  obtain rs s1 e1 where t: "drive_turn limit policy role graceful turn st = (rs, s1, e1)"
    by (metis prod_cases3)
  have first: "ds_initialization s1 = None \<Longrightarrow> e1 \<noteq> Turn_Pending \<Longrightarrow>
    ds_initialization st = None \<or> (\<exists>r\<in>set rs. rr_initialization r \<noteq> None \<and> rr_outcome r = Run_Succeeded)"
    using t by (cases rule: drive_turn_cases) (auto simp: leads_def split: periodic_run.splits)
  show ?case
  proof (cases "e1 = Turn_Next")
    case False
    with Cons.prems t first show ?thesis by (auto split: turn_end.splits)
  next
    case True
    obtain rs' where l: "drive_loop limit policy role graceful turns s1 = (rs', st', e)" "new = rs @ rs'"
      using Cons.prems(1) t True by (cases "drive_loop limit policy role graceful turns s1") auto
    from Cons.IH [OF l(1) Cons.prems(2,3)] first True l(2) show ?thesis by auto
  qed
qed simp

section \<open>Properties\<close>

text \<open>
  C29: the evidence of a periodic component is exact. Whatever the application, the timers and the
  lifecycle do, the counters of a driven component are the numbers of its runs with each outcome,
  capped at 64 bits and marked as saturated exactly when a run was not counted; the first recoverable
  failure and, from the second on, the latest one are kept with the number of their run, and the
  others are counted as unsampled. For a component that ended unsaturated every run is accounted for
  exactly once. While a run is still pending it is counted as admitted only.
\<close>

theorem periodic_accounting:
  assumes "drive name limit policy graceful observed now now' origin turns = (runs, h, result)"
    and "0 < pp_interval policy"
  shows "sampled runs h \<and>
    (result \<noteq> Drive_Pending \<longrightarrow> tallies runs h) \<and>
    (result = Drive_Pending \<longrightarrow> (\<exists>before. tallies runs before \<and> (h = before \<or> h = history_admitted before))) \<and>
    (result \<noteq> Drive_Pending \<and> \<not> ps_saturated h \<longrightarrow>
       ps_invocations h = ps_succeeded h + ps_recoverable_failures h + ps_deadline_exceeded h + ps_stop_interrupted h +
         (if ps_completion h = Completion_Fatal then 1 else 0) \<and>
       ps_recoverable_failures h = ps_unsampled_failures h +
         (if ps_first_failure h = None then 0 else 1) + (if ps_last_failure h = None then 0 else 1))"
  using assms(1)
proof (cases rule: drive_cases)
  case abandoned
  then show ?thesis
    by (simp add: history_finished_def History_new_def tallies_def sampled_def)
next
  case (loop st e)
  let ?start = "drive_start limit policy now now' origin"
  note hist = drive_loop_history [OF loop(2) driving_start, unfolded append_Nil]
  have smooth: "smooth []" by (simp add: smooth_def)
  show ?thesis
  proof (cases "e = Turn_Pending")
    case True
    with hist(2) smooth loop(3) show ?thesis by (auto simp: driving_def)
  next
    case False
    from hist(1) [OF smooth False] have d: "driving (pp_interval policy) runs st"
      and ends: "ends_with (pp_interval policy) runs (ds_initialization st) e" by simp_all
    from ends loop(3) obtain ending where e: "e = Turn_Ended ending"
      using assms(2) by (cases e) (auto simp: ends_with_def)
    with loop(3) have fin: "drive_finish name ending st = (h, result)" by simp
    have t: "tallies runs h" and s: "sampled runs h" and r: "result \<noteq> Drive_Pending"
      using d drive_finish_sel [OF fin] by (simp_all add: driving_def)
    have fatal: "ps_completion h = Completion_Fatal \<longleftrightarrow> (\<exists>x. ending = Ending_Fatal x)"
      using fin by (auto simp: drive_finish_def history_finished_def history_terminal_def Let_def split: ending.splits if_splits)
    have count: "length (filter (\<lambda>r. \<exists>e. rr_outcome r = Run_Fatal e) runs) = (if ps_completion h = Completion_Fatal then 1 else 0)"
      using ends_with_fatal [OF ends assms(2)] by (simp add: e fatal)
    have "ps_invocations h = ps_succeeded h + ps_recoverable_failures h + ps_deadline_exceeded h + ps_stop_interrupted h +
         (if ps_completion h = Completion_Fatal then 1 else 0) \<and>
       ps_recoverable_failures h = ps_unsampled_failures h +
         (if ps_first_failure h = None then 0 else 1) + (if ps_last_failure h = None then 0 else 1)"
      if "\<not> ps_saturated h"
    proof -
      have le: "length runs \<le> U64_MAX" using t that by (simp add: tallies_def)
      have small: "min U64_MAX (outcomes x runs) = outcomes x runs" for x
        using le outcomes_le(1) [of x runs] by linarith
      have small': "min U64_MAX (length (failures runs)) = length (failures runs)"
        "min U64_MAX (length (failures runs) - 2) = length (failures runs) - 2"
        using le outcomes_le(2) [of runs] by linarith+
      have "length runs = ps_invocations h" using t le by (simp add: tallies_def)
      moreover have "ps_recoverable_failures h = length (failures runs)" "ps_unsampled_failures h = length (failures runs) - 2"
        "ps_succeeded h = outcomes Run_Succeeded runs" "ps_deadline_exceeded h = outcomes Run_DeadlineExceeded runs"
        "ps_stop_interrupted h = outcomes Run_Interrupted runs"
        using t by (simp_all add: tallies_def small small')
      moreover have "ps_first_failure h = None \<longleftrightarrow> length (failures runs) = 0" "ps_last_failure h = None \<longleftrightarrow> length (failures runs) < 2"
        using s by (simp_all add: sampled_def)
      moreover have "n = n - 2 + (if n = 0 then 0 else 1) + (if n < 2 then 0 else 1)" for n :: nat by auto
      note this [of "length (failures runs)"]
      ultimately show ?thesis using outcomes_total [of runs] count by (simp only: simp_thms)
    qed
    with t s r show ?thesis by blast
  qed
qed

text \<open>
  C27: runs keep their cadence and their bounds. With an accepted policy, and timers that do not fire
  early, the first run is due at the origin and every later one at the first point of the original
  cadence strictly after the previous tick was delivered, so missed points are skipped and never
  queued; runs are numbered consecutively, and a component is initializing until the first run that
  succeeds. Run \<open>i\<close> belongs to turn \<open>i\<close> of the loop and was admitted by the lifecycle state this
  turn observed: not after forced cancellation, not before the driver started, and as ordinary work
  (a component still initializing included) not once the process drains or a task failed. It is
  granted a forced-cancellation time exactly when the process is draining, at most the graceful
  period after the recorded stop (or after the admission, if none is recorded). Its deadline is at
  most its budget after it started and never after the forced-cancellation time it was granted or the
  initialization deadline.
\<close>

theorem periodic_cadence:
  assumes policy: "PeriodicPolicy_new limit clock clock' interval budget startup shutdown = Inr policy"
    and drive: "drive name limit policy graceful observed now now' origin turns = (runs, h, result)"
    and timers: "\<forall>r\<in>set runs. rr_due r \<le> rr_woke r"
    and i: "i < length runs"
  shows "rr_due (runs ! 0) = origin \<and> rr_invocation (runs ! i) = min U64_MAX (Suc i) \<and>
    (\<exists>k. rr_due (runs ! i) = origin + k * interval) \<and>
    (Suc i < length runs \<longrightarrow> rr_woke (runs ! i) < rr_due (runs ! Suc i) \<and>
       rr_due (runs ! Suc i) \<le> rr_woke (runs ! i) + interval \<and>
       rr_initialization (runs ! Suc i) =
         (if rr_outcome (runs ! i) = Run_Succeeded then None else rr_initialization (runs ! i))) \<and>
    i < length turns \<and>
    (let state = sh_admission (tu_shared (turns ! i)) in
       \<not> as_forced state \<and> as_driver_started state \<and>
       (rr_initialization (runs ! i) \<noteq> None \<or> shutdown = StopAtDrain \<longrightarrow>
          as_readiness state \<in> {Starting, Ready} \<and> \<not> as_failed state) \<and>
       (case rr_forced_at (runs ! i) of
          None \<Rightarrow> as_readiness state \<in> {Starting, Ready}
        | Some t \<Rightarrow> as_readiness state \<in> {Draining, Stopped} \<and>
            t \<le> (case as_stop_started state of Some w \<Rightarrow> w | None \<Rightarrow> tu_admitted_at (turns ! i)) + graceful)) \<and>
    rr_started_at (runs ! i) = tu_now (turns ! i) \<and>
    (rr_started_at (runs ! i) + budget \<le> limit \<longrightarrow> rr_deadline (runs ! i) \<le> rr_started_at (runs ! i) + budget) \<and>
    (\<forall>t. rr_forced_at (runs ! i) = Some t \<or> rr_initialization (runs ! i) = Some t \<longrightarrow> rr_deadline (runs ! i) \<le> t)"
proof -
  have p: "pp_interval policy = interval" "0 < interval" "interval \<le> DURATION_MAX" "pp_shutdown policy = shutdown"
    "pp_run_budget policy = budget"
    using policy
    by (auto simp: PeriodicPolicy_new_def try_bind_eq_Inr positive_ok ONE_YEAR_def DURATION_MAX_def
        NANOS_PER_SEC_def U64_MAX_def)
  from drive i obtain st e where
    loop: "drive_loop limit policy (policy_role policy) graceful turns (drive_start limit policy now now' origin) = (runs, st, e)"
    by (cases rule: drive_cases) auto
  obtain init where chain: "run_chain interval 0 origin init runs"
    using drive_loop_chain [OF loop, of interval 0 origin] p timers
    by (auto simp: drive_start_sel Schedule_new_def)
  have first: "rr_due (runs ! 0) = origin" using chain i by (cases runs) auto
  let ?state = "sh_admission (tu_shared (turns ! i))"
  have turn: "i < length turns" and of: "admission_of limit policy (policy_role policy) graceful (turns ! i) (runs ! i)"
    using drive_loop_nth [OF loop i] by simp_all
  note adm = of [unfolded admission_of_def p]
  have admitted: "\<not> as_forced ?state \<and> as_driver_started ?state \<and>
       (rr_initialization (runs ! i) \<noteq> None \<or> shutdown = StopAtDrain \<longrightarrow>
          as_readiness ?state \<in> {Starting, Ready} \<and> \<not> as_failed ?state)"
    using adm by (cases "as_readiness ?state"; cases shutdown)
      (auto simp: periodic_admit_def admit_periodic_def policy_role_def p Let_def split: if_splits)
  have forced: "case rr_forced_at (runs ! i) of
      None \<Rightarrow> as_readiness ?state \<in> {Starting, Ready}
    | Some t \<Rightarrow> as_readiness ?state \<in> {Draining, Stopped} \<and>
        t \<le> (case as_stop_started ?state of Some w \<Rightarrow> w | None \<Rightarrow> tu_admitted_at (turns ! i)) + graceful"
    using admit_periodic_forced [OF conjunct1 [OF adm, unfolded periodic_admit_def]] .
  have deadline: "(rr_started_at (runs ! i) + budget \<le> limit \<longrightarrow> rr_deadline (runs ! i) \<le> rr_started_at (runs ! i) + budget) \<and>
    (\<forall>t. rr_forced_at (runs ! i) = Some t \<or> rr_initialization (runs ! i) = Some t \<longrightarrow> rr_deadline (runs ! i) \<le> t)"
    using adm by (auto simp: run_deadline_def instant_add_def checked_add_def Let_def split: option.splits)
  from run_chain_nth [OF chain i] first turn admitted forced deadline adm show ?thesis by (simp add: Let_def)
qed

text \<open>
  C30: a periodic component ends and acknowledges its start truthfully. With an accepted policy driving
  never panics, and an ended component is complete. It was acknowledged only if it starts immediately or
  a run of it succeeded while it was initializing. It is abandoned or expired only before, and stopped only
  after its start was acknowledged; it fails exactly on an expired initialization or a fatal run, which
  is its last run and the terminal failure it keeps, and any retained evidence of a problem shows.
\<close>

theorem periodic_ending:
  assumes policy: "PeriodicPolicy_new limit clock clock' interval budget startup shutdown = Inr policy"
    and drive: "drive name limit policy graceful observed now now' origin turns = (runs, h, result)"
    and ended: "result \<noteq> Drive_Pending"
  shows "result \<noteq> Drive_Panicked \<and> is_complete h \<and> smooth (butlast runs) \<and>
    (ps_acknowledged h \<longrightarrow> pt_allowance startup = None \<or>
       (\<exists>r\<in>set runs. rr_initialization r \<noteq> None \<and> rr_outcome r = Run_Succeeded)) \<and>
    (case ps_completion h of
       Completion_Stopped \<Rightarrow> ps_acknowledged h \<and> result = Drive_Exited \<and> ps_terminal_failure h = None
     | AbandonedDuringStartup \<Rightarrow> \<not> ps_acknowledged h \<and> result = Drive_Exited \<and> ps_terminal_failure h = None
     | Completion_InitializationExpired \<Rightarrow> \<not> ps_acknowledged h \<and> has_failures h \<and>
         result = Drive_Failed (PeriodicInitializationExpired name) \<and>
         ps_terminal_failure h = Some \<lparr>fs_invocation = min U64_MAX (length runs), fs_error = PeriodicInitializationExpired name\<rparr>
     | Completion_Fatal \<Rightarrow> has_failures h \<and> (\<exists>x. runs \<noteq> [] \<and> rr_outcome (last runs) = Run_Fatal x \<and>
         result = Drive_Failed (Application_Cause x) \<and>
         ps_terminal_failure h = Some \<lparr>fs_invocation = rr_invocation (last runs), fs_error = Application_Cause x\<rparr>)
     | Completion_Pending \<Rightarrow> False)"
  using drive
proof (cases rule: drive_cases)
  case abandoned
  then show ?thesis
    by (simp add: history_finished_def History_new_def is_complete_def smooth_def)
next
  case (loop st e)
  have interval: "0 < pp_interval policy"
    using policy by (auto simp: PeriodicPolicy_new_def try_bind_eq_Inr positive_ok)
  have "e \<noteq> Turn_Pending" using loop(3) ended by auto
  with drive_loop_history(1) [OF loop(2) driving_start, unfolded append_Nil]
  have d: "driving (pp_interval policy) runs st" and ends: "ends_with (pp_interval policy) runs (ds_initialization st) e"
    by (simp_all add: smooth_def)
  from ends obtain ending where e: "e = Turn_Ended ending"
    using interval by (cases e) (auto simp: ends_with_def)
  with loop(3) have fin: "drive_finish name ending st = (h, result)" by simp
  have startup: "pp_startup policy = startup"
    using policy by (auto simp: PeriodicPolicy_new_def try_bind_eq_Inr)
  have ack: "pt_allowance startup = None \<or> (\<exists>r\<in>set runs. rr_initialization r \<noteq> None \<and> rr_outcome r = Run_Succeeded)"
    if "ps_acknowledged h"
    using drive_loop_acknowledged [OF loop(2)] that d drive_finish_sel(3) [OF fin] \<open>e \<noteq> Turn_Pending\<close>
    by (auto simp: driving_def drive_start_sel startup)
  note eqs = d [unfolded driving_def] ends [unfolded ends_with_def e]
  show ?thesis
    using fin eqs ack
    by (cases ending)
      (auto simp: drive_finish_def history_finished_def history_terminal_def is_complete_def has_failures_def
        terminal_of_def Let_def)
qed

section \<open>Witnesses\<close>

text \<open>
  A component that must succeed once before it is started: its first run fails, its second one, due two
  points of the cadence later, succeeds, and then it is asked to stop.
\<close>

definition sample_shared :: shared where
  "sample_shared =
     \<lparr>sh_admission = (sh_admission (Shared_new Driven))\<lparr>as_driver_started := True\<rparr>, sh_published = 0, sh_cancelled = {}\<rparr>"

definition sample_periodic_policy :: periodic_policy where
  "sample_periodic_policy = \<lparr>pp_interval = 10, pp_run_budget = 5, pp_startup = \<lparr>pt_allowance = Some 100\<rparr>,
     pp_shutdown = StopAtDrain\<rparr>"

definition sample_turn :: "instant \<Rightarrow> bool \<Rightarrow> nat periodic_failure + unit \<Rightarrow> nat turn" where
  "sample_turn time stop result =
     \<lparr>tu_due = [\<lparr>du_draining = False, du_stopping = stop, du_expired = False, du_elapsed = True, du_now = time\<rparr>],
      tu_shared = sample_shared, tu_admitted_at = time, tu_rejected = [], tu_now = time, tu_now' = time,
      tu_observed = (False, time),
      tu_polls = [\<lparr>up_draining = False, up_stopping = False,
        up_attempt = \<lparr>pl_cancelled = False, pl_expired = False, pl_work = Some result\<rparr>\<rparr>],
      tu_shared_after = sample_shared, tu_after = time + 1\<rparr>"

definition sample_turns :: "nat turn list" where
  "sample_turns = [sample_turn 1012 False (Inl (Recoverable 7)), sample_turn 1021 False (Inr ()), sample_turn 1040 True (Inr ())]"

definition sample_run :: "nat \<Rightarrow> instant \<Rightarrow> instant \<Rightarrow> nat periodic_run \<Rightarrow> nat run_record" where
  "sample_run n due time outcome =
     \<lparr>rr_invocation = n, rr_due = due, rr_woke = time, rr_initialization = Some 1100, rr_forced_at = None,
      rr_started_at = time, rr_deadline = time + 5, rr_outcome = outcome\<rparr>"

definition sample_summary :: "nat periodic_summary" where
  "sample_summary =
     \<lparr>ps_invocations = 2, ps_succeeded = 1, ps_recoverable_failures = 1, ps_deadline_exceeded = 0,
      ps_stop_interrupted = 0, ps_unsampled_failures = 0, ps_saturated = False,
      ps_first_failure = Some \<lparr>fs_invocation = 1, fs_error = Application_Cause 7\<rparr>,
      ps_last_failure = None, ps_terminal_failure = None, ps_acknowledged = True,
      ps_completion = Completion_Stopped\<rparr>"

lemma sample_shared_simps [simp]:
  "shared_draining sample_shared = False"
  "admit_periodic limit now Ordinary graceful sample_shared = Admitted None"
  by (simp_all add: sample_shared_def shared_draining_def shared_readiness_def admit_periodic_def Shared_new_def Let_def)

lemmas sample_turn_defs = drive_turn_def drive_start_def sample_turn_def sample_periodic_policy_def sample_run_def
  Schedule_new_def schedule_advance_def following_def instant_add_def checked_add_def NANOS_PER_SEC_def
  periodic_admit_def admitted_run_def run_deadline_def periodic_execute_def run_stops_def context_run_def
  run_tracked_def run_inner_def map_err_def run_of_result_def retained_def after_run_def component_running_def
  history_admitted_def history_recoverable_def history_succeeded_def history_acknowledged_def History_new_def
  bump_def U64_MAX_def Let_def

lemma sample_turn_fails:
  "drive_turn 5000 sample_periodic_policy Ordinary 10 (sample_turn 1012 False (Inl (Recoverable 7)))
     (drive_start 5000 sample_periodic_policy 1000 1000 1000) =
   ([sample_run 1 1000 1012 (Run_Recoverable 7)],
    \<lparr>ds_schedule = \<lparr>sc_period = 10, sc_next = Some 1020\<rparr>, ds_initialization = Some 1100, ds_invocation = 1,
     ds_history = History_new\<lparr>ps_invocations := 1, ps_recoverable_failures := 1,
       ps_first_failure := Some \<lparr>fs_invocation = 1, fs_error = Application_Cause 7\<rparr>\<rparr>\<rparr>, Turn_Next)"
  by (simp add: sample_turn_defs)

lemma sample_turn_succeeds:
  "drive_turn 5000 sample_periodic_policy Ordinary 10 (sample_turn 1021 False (Inr ()))
     \<lparr>ds_schedule = \<lparr>sc_period = 10, sc_next = Some 1020\<rparr>, ds_initialization = Some 1100, ds_invocation = 1,
      ds_history = History_new\<lparr>ps_invocations := 1, ps_recoverable_failures := 1,
        ps_first_failure := Some \<lparr>fs_invocation = 1, fs_error = Application_Cause 7\<rparr>\<rparr>\<rparr> =
   ([sample_run 2 1020 1021 Run_Succeeded],
    \<lparr>ds_schedule = \<lparr>sc_period = 10, sc_next = Some 1030\<rparr>, ds_initialization = None, ds_invocation = 2,
     ds_history = sample_summary\<lparr>ps_completion := Completion_Pending\<rparr>\<rparr>, Turn_Next)"
  by (simp add: sample_turn_defs sample_summary_def)

lemma sample_drive:
  "drive [98] 5000 sample_periodic_policy 10 sample_shared 1000 1000 1000 sample_turns =
     ([sample_run 1 1000 1012 (Run_Recoverable 7), sample_run 2 1020 1021 Run_Succeeded], sample_summary, Drive_Exited)"
proof -
  have role: "policy_role sample_periodic_policy = Ordinary" by (simp add: policy_role_def sample_periodic_policy_def)
  have stop: "drive_turn 5000 sample_periodic_policy Ordinary 10 (sample_turn 1040 True (Inr ()))
     \<lparr>ds_schedule = sched, ds_initialization = None, ds_invocation = n, ds_history = h\<rparr> =
     ([], \<lparr>ds_schedule = sched, ds_initialization = None, ds_invocation = n, ds_history = h\<rparr>, Turn_Ended Ending_Stopped)"
    for sched n h by (simp add: drive_turn_def sample_turn_def)
  show ?thesis
    by (simp add: drive_def role sample_turns_def sample_turn_fails sample_turn_succeeds stop drive_finish_def
        history_finished_def sample_summary_def del: One_nat_def)
qed

lemma sample_periodic_accepted:
  "PeriodicPolicy_new 5000 0 0 10 5 \<lparr>pt_allowance = Some 100\<rparr> StopAtDrain = Inr sample_periodic_policy"
  by (simp add: PeriodicPolicy_new_def sample_periodic_policy_def positive_def representable_def instant_add_def
      checked_add_def ONE_YEAR_def NANOS_PER_SEC_def try_bind_def ok_or_def)

theorem periodic_accounting_witness:
  "ps_invocations sample_summary =
     ps_succeeded sample_summary + ps_recoverable_failures sample_summary + ps_deadline_exceeded sample_summary +
     ps_stop_interrupted sample_summary \<and> ps_invocations sample_summary = 2"
  using periodic_accounting [OF sample_drive] by (simp add: sample_periodic_policy_def sample_summary_def)

theorem periodic_cadence_witness:
  "rr_woke (sample_run 1 1000 1012 (Run_Recoverable 7)) < rr_due (sample_run 2 1020 1021 Run_Succeeded) \<and>
   (\<exists>k. rr_due (sample_run 1 1000 1012 (Run_Recoverable 7)) = 1000 + k * 10)"
  using periodic_cadence [OF sample_periodic_accepted sample_drive, of 0] by (simp add: sample_run_def)

theorem periodic_ending_witness: "is_complete sample_summary \<and> ps_acknowledged sample_summary"
  using periodic_ending [OF sample_periodic_accepted sample_drive] by (simp add: sample_summary_def)

end
