(* ===== verification/Lifecycle_Gates.thy ===== *)
theory Lifecycle_Gates
  imports Core_Health Periodic_Driver
begin

text \<open>
  What the stopping points of a lifecycle promise to the components that rely on them. A gate refuses
  every request once it is stopped, and stays stopped; the four gates of a lifecycle are interpreted on
  the cancelled tokens of its state, with the requests that process submissions, periodic drivers and
  readiness evaluators make.
\<close>

section \<open>Gates\<close>

locale stop_gate =
  fixes later :: "'s \<Rightarrow> 's \<Rightarrow> bool" and stopped :: "'s \<Rightarrow> bool" and admits :: "'s \<Rightarrow> 'q \<Rightarrow> bool"
  assumes stays_stopped: "later s u \<Longrightarrow> stopped s \<Longrightarrow> stopped u"
    and refuses: "stopped s \<Longrightarrow> \<not> admits s q"
begin

lemma refused_later: "later s u \<Longrightarrow> stopped s \<Longrightarrow> \<not> admits u q"
  using stays_stopped refuses by blast

text \<open>In a sequence of later and later states, a request is admitted only before the first stop.\<close>

lemma admitted_before_stop:
  assumes "sorted_wrt later states" "j < length states" "k \<le> j" "admits (states ! j) q"
  shows "\<not> stopped (states ! k)"
proof (cases "k = j")
  case True
  with assms(4) refuses show ?thesis by blast
next
  case False
  with assms have "later (states ! k) (states ! j)" by (simp add: sorted_wrt_nth_less)
  with assms(4) refused_later show ?thesis by blast
qed

end

definition stopped_by :: "token \<Rightarrow> lifecycle \<Rightarrow> bool" where
  "stopped_by token s \<longleftrightarrow> lifecycle_inv s \<and> token \<in> sh_cancelled (ly_shared s)"

lemma stopped_by_later: "lifecycle_steps s u \<Longrightarrow> stopped_by token s \<Longrightarrow> stopped_by token u"
  using steps_inv steps_forward by (fastforce simp: stopped_by_def)

lemma stopped_by_announced: "stopped_by token s \<Longrightarrow> announced token (sh_admission (ly_shared s))"
  by (simp add: stopped_by_def lifecycle_inv_def tokens_due_def)

datatype gate_request = Submission "bool option" queue_state | Periodic_Run instant instant periodic_role duration

fun gate_admits :: "lifecycle \<Rightarrow> gate_request \<Rightarrow> bool" where
  "gate_admits s (Submission ancestor queue) \<longleftrightarrow> admission_check ancestor queue (ly_shared s) = Inr ()"
| "gate_admits s (Periodic_Run limit now role graceful) \<longleftrightarrow>
     (\<exists>forced_at. admit_periodic limit now role graceful (ly_shared s) = Admitted forced_at)"

definition drain_admits :: "lifecycle \<Rightarrow> gate_request \<Rightarrow> bool" where
  "drain_admits s q \<longleftrightarrow> gate_admits s q \<and>
     (case q of Submission ancestor _ \<Rightarrow> ancestor = None | Periodic_Run _ _ role _ \<Rightarrow> role = Ordinary)"

definition support_admits :: "lifecycle \<Rightarrow> gate_request \<Rightarrow> bool" where
  "support_admits s q \<longleftrightarrow> gate_admits s q \<and> (case q of Submission _ _ \<Rightarrow> False | Periodic_Run _ _ role _ \<Rightarrow> role = Support)"

definition reports_ready :: "lifecycle \<Rightarrow> instant \<times> 'app \<times> ('e, 'app) evaluator \<Rightarrow> bool" where
  "reports_ready s q = (case q of (now, app, ev) \<Rightarrow> evaluator_decision now app ev (ly_shared s) = Decision_Ready)"

lemma drain_refuses: "stopped_by Drain_Token s \<Longrightarrow> \<not> drain_admits s q"
  using stopped_by_announced [of Drain_Token s]
  by (cases q) (auto simp: drain_admits_def stopping_def admission_check_def admit_periodic_def Let_def split: if_splits)

lemma support_refuses: "stopped_by Support_Token s \<Longrightarrow> \<not> support_admits s q"
  using stopped_by_announced [of Support_Token s]
  by (cases q) (auto simp: support_admits_def admit_periodic_def Let_def split: if_splits)

lemma cancel_refuses: "stopped_by Cancel_Token s \<Longrightarrow> \<not> gate_admits s q"
  using stopped_by_announced [of Cancel_Token s]
  by (cases q) (auto simp: admission_check_def admit_periodic_def Let_def)

lemma ready_refuses: "stopped_by Drain_Token s \<Longrightarrow> \<not> reports_ready s q"
proof -
  assume s: "stopped_by Drain_Token s"
  have "shared_readiness (ly_shared s) = as_readiness (sh_admission (ly_shared s))"
    using s by (simp add: stopped_by_def lifecycle_inv_def shared_readiness_eq)
  then have "shared_readiness (ly_shared s) \<noteq> Ready"
    using stopped_by_announced [OF s] by (auto simp: stopping_def)
  then show ?thesis by (cases q) (simp add: reports_ready_def decision_unready_lifecycle)
qed

interpretation drain_gate: stop_gate lifecycle_steps "stopped_by Drain_Token" drain_admits
  by unfold_locales (simp_all add: stopped_by_later drain_refuses)

interpretation support_gate: stop_gate lifecycle_steps "stopped_by Support_Token" support_admits
  by unfold_locales (simp_all add: stopped_by_later support_refuses)

interpretation cancel_gate: stop_gate lifecycle_steps "stopped_by Cancel_Token" gate_admits
  by unfold_locales (simp_all add: stopped_by_later cancel_refuses)

interpretation ready_gate: stop_gate lifecycle_steps "stopped_by Drain_Token" reports_ready
  by unfold_locales (simp_all add: stopped_by_later ready_refuses)

section \<open>Periodic components under a lifecycle\<close>

lemma nth_turn_state:
  assumes "map tu_shared turns = map ly_shared states" "turn \<in> set turns"
  obtains j where "j < length states" "tu_shared turn = ly_shared (states ! j)" "turns ! j = turn"
  using assms by (metis in_set_conv_nth length_map nth_map that)

text \<open>
  C28: periodic work stops with its process. Let the turns of a driven component observe a reachable
  lifecycle at later and later times. Then every run that was started was admitted in a state before
  which no forced cancellation was announced; before which no drain was announced, if the component
  stops at drain or was still initializing; and before which support was not closed, if it is a
  started component that supports the drain.
\<close>

theorem periodic_stops_with_process:
  assumes drive: "drive name limit policy graceful observed now now' origin turns = (runs, h, result)"
    and reach: "\<forall>s\<in>set states. lifecycle_steps (lifecycle_new supervised) s"
    and order: "sorted_wrt lifecycle_steps states" and states: "map tu_shared turns = map ly_shared states"
    and r: "r \<in> set runs"
  shows "\<exists>j<length states. admission_of limit policy (policy_role policy) graceful (turns ! j) r \<and>
    (\<forall>k\<le>j. Cancel_Token \<notin> sh_cancelled (ly_shared (states ! k)) \<and>
       (pp_shutdown policy = StopAtDrain \<or> rr_initialization r \<noteq> None \<longrightarrow> Drain_Token \<notin> sh_cancelled (ly_shared (states ! k))) \<and>
       (pp_shutdown policy = SupportThroughDrain \<and> rr_initialization r = None \<longrightarrow>
          Support_Token \<notin> sh_cancelled (ly_shared (states ! k))))"
proof -
  from drive r obtain st e where
    "drive_loop limit policy (policy_role policy) graceful turns (drive_start limit policy now now' origin) = (runs, st, e)"
    by (cases rule: drive_cases) auto
  from drive_loop_admissions [OF this r] obtain turn
    where turn: "turn \<in> set turns" and adm: "admission_of limit policy (policy_role policy) graceful turn r"
    by blast
  from nth_turn_state [OF states turn] obtain j where j: "j < length states" "tu_shared turn = ly_shared (states ! j)" "turns ! j = turn"
    by blast
  define role where "role = (if rr_initialization r \<noteq> None then Ordinary else policy_role policy)"
  define q where "q = Periodic_Run limit (tu_admitted_at turn) role graceful"
  have q: "gate_admits (states ! j) q"
    using adm by (auto simp: q_def role_def admission_of_def periodic_admit_def j(2))
  have inv: "lifecycle_inv (states ! k)" if "k < length states" for k
    using reach that reachable_inv nth_mem by blast
  have refused: "token \<notin> sh_cancelled (ly_shared (states ! k))"
    if "k \<le> j" "\<not> stopped_by token (states ! k)" for token k
    using that inv [of k] j(1) by (simp add: stopped_by_def)
  have "Cancel_Token \<notin> sh_cancelled (ly_shared (states ! k))" if "k \<le> j" for k
    using refused [OF that] cancel_gate.admitted_before_stop [OF order j(1) that q] by blast
  moreover have "Drain_Token \<notin> sh_cancelled (ly_shared (states ! k))" if "k \<le> j" "role = Ordinary" for k
    using refused [OF that(1)] drain_gate.admitted_before_stop [OF order j(1) that(1), of q] q that(2)
    by (auto simp: drain_admits_def q_def)
  moreover have "Support_Token \<notin> sh_cancelled (ly_shared (states ! k))" if "k \<le> j" "role = Support" for k
    using refused [OF that(1)] support_gate.admitted_before_stop [OF order j(1) that(1), of q] q that(2)
    by (auto simp: support_admits_def q_def)
  ultimately show ?thesis
    using j adm by (intro exI [of _ j]) (auto simp: role_def policy_role_def)
qed

section \<open>Witnesses\<close>

definition sample_running :: lifecycle where
  "sample_running = (lifecycle_new Driven)\<lparr>ly_shared := start_driver 1 (ly_shared (lifecycle_new Driven))\<rparr>"

lemma sample_running_reachable: "lifecycle_steps (lifecycle_new Driven) sample_running"
  unfolding sample_running_def by (rule lifecycle_steps.step [OF lifecycle_steps.refl lifecycle_step.driver])

lemma sample_running_shared: "ly_shared sample_running = sample_shared"
  by (simp add: sample_running_def sample_shared_def lifecycle_new_def Shared_new_def start_driver_def
      publish_ready_def publish_readiness_def Let_def)

theorem periodic_stops_with_process_witness:
  "\<exists>j<3. admission_of 5000 sample_periodic_policy Ordinary 10 (sample_turns ! j) (sample_run 1 1000 1012 (Run_Recoverable 7)) \<and>
     Drain_Token \<notin> sh_cancelled sample_shared"
proof -
  let ?states = "[sample_running, sample_running, sample_running]"
  have states: "map tu_shared sample_turns = map ly_shared ?states"
    by (simp add: sample_turns_def sample_turn_def sample_running_shared)
  have role: "policy_role sample_periodic_policy = Ordinary" by (simp add: policy_role_def sample_periodic_policy_def)
  have reach: "\<forall>s\<in>set ?states. lifecycle_steps (lifecycle_new Driven) s" by (simp add: sample_running_reachable)
  have order: "sorted_wrt lifecycle_steps ?states" by (simp add: lifecycle_steps.refl)
  obtain j where "j < length ?states" "admission_of 5000 sample_periodic_policy Ordinary 10 (sample_turns ! j)
      (sample_run 1 1000 1012 (Run_Recoverable 7))"
    using periodic_stops_with_process [OF sample_drive reach order states list.set_intros(1)] unfolding role by blast
  moreover have "Drain_Token \<notin> sh_cancelled sample_shared" by (simp add: sample_shared_def)
  ultimately show ?thesis by (auto simp: numeral_3_eq_3)
qed

end
