(* ===== verification/Http_Fields.thy ===== *)
theory Http_Fields
  imports Decision
begin

text \<open>
  Rate-limit response fields of \<open>runlimit-http\<close> (\<open>draft_11.rs\<close>): the \<open>RateLimit-Policy\<close> and \<open>RateLimit\<close>
  fields as Structured Fields, a quoted policy name with integer parameters.

  The constructor of header values belongs to another crate; it is the parameter \<open>header_ok\<close>, the texts
  it accepts. The sources expect it to accept texts of visible ASCII characters.
\<close>

section \<open>Encoding\<close>

definition MAX_STRUCTURED_FIELD_INTEGER :: nat where
  "MAX_STRUCTURED_FIELD_INTEGER = 999999999999999"

definition MAX_POLICY_NAME_LENGTH :: nat where
  "MAX_POLICY_NAME_LENGTH = 128"

datatype encoding_error =
    EmptyPolicyName
  | PolicyNameTooLong nat nat
  | InvalidPolicyNameCharacter nat rchar
  | StructuredFieldIntegerTooLarge nat nat
  | QuotaPeriodNotWholeSeconds duration

datatype quota_state = Available allowance | Exhausted quota_denial

fun quota_state_of_admitted :: "admitted \<Rightarrow> quota_state" where
  "quota_state_of_admitted (Admitted_Allowed a) = Available a"
| "quota_state_of_admitted (Admitted_ShadowDenied d) = Exhausted d"

fun encode_chars :: "(nat \<times> rchar) list \<Rightarrow> rstr \<Rightarrow> encoding_error + rstr" where
  "encode_chars [] encoded = Inr encoded"
| "encode_chars ((index, c) # rest) encoded =
     (if \<not> (0x20 \<le> c \<and> c \<le> 0x7E) then Inl (InvalidPolicyNameCharacter index c)
      else encode_chars rest ((if c = 34 \<or> c = 92 then encoded @ [92] else encoded) @ [c]))"

definition encode_policy_name :: "rstr \<Rightarrow> encoding_error + rstr" where
  "encode_policy_name name =
     (if name = [] then Inl EmptyPolicyName
      else if MAX_POLICY_NAME_LENGTH < str_len name
      then Inl (PolicyNameTooLong (str_len name) MAX_POLICY_NAME_LENGTH)
      else map_ok (\<lambda>encoded. encoded @ [34]) (encode_chars (char_indices name) [34]))"

definition structured_integer :: "nat \<Rightarrow> encoding_error + nat" where
  "structured_integer n =
     (if MAX_STRUCTURED_FIELD_INTEGER < n then Inl (StructuredFieldIntegerTooLarge n MAX_STRUCTURED_FIELD_INTEGER)
      else Inr n)"

text \<open>The decimal digits of a number, as it is formatted.\<close>

fun decimal :: "nat \<Rightarrow> rstr" where
  "decimal n = (if n < 10 then [48 + n] else decimal (n div 10) @ [48 + n mod 10])"

definition field_value :: "rstr \<Rightarrow> rchar \<Rightarrow> nat \<Rightarrow> rchar \<Rightarrow> nat \<Rightarrow> rstr" where
  "field_value name k n l m = name @ [59, k, 61] @ decimal n @ [59, l, 61] @ decimal m"

definition header_value :: "(rstr \<Rightarrow> bool) \<Rightarrow> rstr \<Rightarrow> encoding_error failure + rstr" where
  "header_value header_ok text = (if header_ok text then Inr text else Inl Panicked)"

definition quota_policy ::
  "(rstr \<Rightarrow> bool) \<Rightarrow> 'p rate_limit_policy_trait \<Rightarrow> rstr \<Rightarrow> 'p \<Rightarrow> encoding_error failure + rstr \<times> rstr" where
  "quota_policy header_ok trait name p =
     try_bind (map_err Failure (encode_policy_name name)) (\<lambda>name.
     try_bind (map_err Failure (structured_integer (capacity_get (trait_quota trait p)))) (\<lambda>quota.
       let period = trait_quota_period trait p
       in if period_millis period mod 1000 \<noteq> 0 then Inl (Failure (QuotaPeriodNotWholeSeconds (period_duration period)))
          else try_bind (map_err Failure (structured_integer (period_millis period div 1000))) (\<lambda>period.
               try_bind (header_value header_ok (field_value name 113 quota 119 period)) (\<lambda>v.
                 Inr (lit ''ratelimit-policy'', v)))))"

definition state_numbers :: "quota_state \<Rightarrow> nat \<times> nat" where
  "state_numbers state =
     (case state of
        Available a \<Rightarrow> (al_available a, Delay_seconds (al_replenishes_after a))
      | Exhausted d \<Rightarrow> (0, Delay_seconds (qd_retry_after d)))"

definition service_limit ::
  "(rstr \<Rightarrow> bool) \<Rightarrow> rstr \<Rightarrow> quota_state \<Rightarrow> encoding_error failure + rstr \<times> rstr" where
  "service_limit header_ok name state =
     try_bind (map_err Failure (encode_policy_name name)) (\<lambda>name.
       let (available, effective_window) = state_numbers state
       in try_bind (map_err Failure (structured_integer available)) (\<lambda>available.
          try_bind (map_err Failure (structured_integer effective_window)) (\<lambda>effective_window.
          try_bind (header_value header_ok (field_value name 114 available 116 effective_window)) (\<lambda>v.
            Inr (lit ''ratelimit'', v)))))"

section \<open>A reference reader of Structured Fields\<close>

text \<open>An item is a quoted string with escapes, followed by parameters whose values are integers of at most 15 digits.\<close>

fun read_quoted :: "rstr \<Rightarrow> (rstr \<times> rstr) option" where
  "read_quoted [] = None"
| "read_quoted (c # cs) =
     (if c = 34 then Some ([], cs)
      else if c = 92 then
        (case cs of
           [] \<Rightarrow> None
         | d # ds \<Rightarrow> if d = 34 \<or> d = 92 then map_option (\<lambda>(s, r). (d # s, r)) (read_quoted ds) else None)
      else if 0x20 \<le> c \<and> c \<le> 0x7E then map_option (\<lambda>(s, r). (c # s, r)) (read_quoted cs)
      else None)"

definition digits_value :: "rstr \<Rightarrow> nat" where
  "digits_value ds = foldl (\<lambda>n d. n * 10 + (d - 48)) 0 ds"

fun read_params :: "nat \<Rightarrow> rstr \<Rightarrow> (rchar \<times> nat) list option" where
  "read_params 0 cs = (if cs = [] then Some [] else None)"
| "read_params (Suc n) cs =
     (case cs of
        [] \<Rightarrow> Some []
      | semicolon # key # equals # cs \<Rightarrow>
          (let ds = takeWhile is_ascii_digit cs
           in if semicolon = 59 \<and> equals = 61 \<and> ds \<noteq> [] \<and> length ds \<le> 15
              then map_option (Cons (key, digits_value ds)) (read_params n (dropWhile is_ascii_digit cs))
              else None)
      | _ \<Rightarrow> None)"

definition read_item :: "rstr \<Rightarrow> (rstr \<times> (rchar \<times> nat) list) option" where
  "read_item s =
     (case s of
        [] \<Rightarrow> None
      | c # cs \<Rightarrow>
          if c = 34 then Option.bind (read_quoted cs) (\<lambda>(name, rest). map_option (Pair name) (read_params (length rest) rest))
          else None)"

section \<open>Reading back what is encoded\<close>

definition visible :: "rstr \<Rightarrow> bool" where
  "visible s \<longleftrightarrow> list_all (\<lambda>c. 0x20 \<le> c \<and> c \<le> 0x7E) s"

definition escaped :: "rstr \<Rightarrow> rstr" where
  "escaped s = concat (map (\<lambda>c. if c = 34 \<or> c = 92 then [92, c] else [c]) s)"

lemma encode_chars_ok: "encode_chars xs acc = Inr e \<longleftrightarrow> visible (map snd xs) \<and> e = acc @ escaped (map snd xs)"
  by (induction xs acc rule: encode_chars.induct) (auto simp: visible_def escaped_def)

lemma encode_chars_total: "encode_chars xs acc = Inl err \<Longrightarrow> \<not> visible (map snd xs)"
  by (induction xs acc rule: encode_chars.induct) (auto simp: visible_def split: if_splits)

definition name_ok :: "rstr \<Rightarrow> bool" where
  "name_ok name \<longleftrightarrow> name \<noteq> [] \<and> str_len name \<le> MAX_POLICY_NAME_LENGTH \<and> visible name"

lemma encode_policy_name_ok: "encode_policy_name name = Inr e \<longleftrightarrow> name_ok name \<and> e = 34 # escaped name @ [34]"
  by (auto simp: encode_policy_name_def name_ok_def map_ok_eq_Inr encode_chars_ok char_indices_def not_less)

lemma visible_escaped: "visible s \<Longrightarrow> visible (escaped s)"
  by (induction s) (auto simp: visible_def escaped_def)

lemma read_quoted_escaped: "visible s \<Longrightarrow> read_quoted (escaped s @ 34 # rest) = Some (s, rest)"
  by (induction s) (auto simp: visible_def escaped_def)

declare decimal.simps [simp del]

lemma decimal_digits: "list_all is_ascii_digit (decimal n) \<and> decimal n \<noteq> []"
  by (induction n rule: decimal.induct) (subst (1 2) decimal.simps, auto simp: is_ascii_digit_def list_all_iff)

lemma decimal_value: "digits_value (decimal n) = n"
proof (induction n rule: decimal.induct)
  case (1 n)
  then show ?case
    by (subst decimal.simps) (auto simp: digits_value_def)
qed

lemma decimal_length: "n < 10 ^ Suc k \<Longrightarrow> length (decimal n) \<le> Suc k"
proof (induction k arbitrary: n)
  case 0
  then show ?case by (subst decimal.simps) simp
next
  case (Suc k)
  show ?case
  proof (cases "n < 10")
    case True
    then show ?thesis by (subst decimal.simps) simp
  next
    case False
    have "n div 10 < 10 ^ Suc k" using Suc.prems by (simp add: less_mult_imp_div_less mult.commute)
    from Suc.IH [OF this] False show ?thesis by (subst decimal.simps) simp
  qed
qed

lemma decimal_span:
  "takeWhile is_ascii_digit (decimal n @ 59 # cs) = decimal n" "dropWhile is_ascii_digit (decimal n @ 59 # cs) = 59 # cs"
  "takeWhile is_ascii_digit (decimal n) = decimal n" "dropWhile is_ascii_digit (decimal n) = []"
  using decimal_digits [of n]
  by (auto simp: list_all_iff takeWhile_append dropWhile_append is_ascii_digit_def [of 59] takeWhile_eq_all_conv dropWhile_eq_Nil_conv)

lemma decimal_small: "n \<le> MAX_STRUCTURED_FIELD_INTEGER \<Longrightarrow> length (decimal n) \<le> 15"
  using decimal_length [of n 14] by (simp add: MAX_STRUCTURED_FIELD_INTEGER_def)

lemma read_params_two:
  assumes "n \<le> MAX_STRUCTURED_FIELD_INTEGER" "m \<le> MAX_STRUCTURED_FIELD_INTEGER" "2 \<le> fuel"
  shows "read_params fuel ([59, k, 61] @ decimal n @ [59, l, 61] @ decimal m) = Some [(k, n), (l, m)]"
proof -
  obtain f where f: "fuel = Suc (Suc f)"
    using le_Suc_ex [OF assms(3)] by (auto simp: numeral_2_eq_2)
  have "read_params f [] = Some []" by (cases f) simp_all
  then have second: "read_params (Suc f) ([59, l, 61] @ decimal m) = Some [(l, m)]"
    using decimal_small [OF assms(2)] decimal_digits [of m] by (simp add: decimal_span decimal_value)
  show ?thesis
    using second decimal_small [OF assms(1)] decimal_digits [of n] unfolding f
    by (subst read_params.simps) (simp add: decimal_span decimal_value del: read_params.simps)
qed

lemma read_field_value:
  assumes "visible name" "n \<le> MAX_STRUCTURED_FIELD_INTEGER" "m \<le> MAX_STRUCTURED_FIELD_INTEGER"
  shows "read_item (field_value (34 # escaped name @ [34]) k n l m) = Some (name, [(k, n), (l, m)])"
proof -
  let ?rest = "[59, k, 61] @ decimal n @ [59, l, 61] @ decimal m"
  have eq: "field_value (34 # escaped name @ [34]) k n l m = 34 # escaped name @ 34 # ?rest"
    by (simp add: field_value_def)
  show ?thesis
    unfolding eq using read_quoted_escaped [OF assms(1), of ?rest] read_params_two [OF assms(2,3), of "length ?rest" k l]
    by (simp add: read_item_def)
qed

lemma field_value_visible:
  "visible name \<Longrightarrow> 0x20 \<le> k \<and> k \<le> 0x7E \<Longrightarrow> 0x20 \<le> l \<and> l \<le> 0x7E \<Longrightarrow>
   visible (field_value (34 # escaped name @ [34]) k n l m)"
  using decimal_digits [of n] decimal_digits [of m] visible_escaped [of name]
  by (auto simp: visible_def field_value_def list_all_iff is_ascii_digit_def)

lemma structured_integer_ok: "structured_integer n = Inr m \<longleftrightarrow> m = n \<and> n \<le> MAX_STRUCTURED_FIELD_INTEGER"
  by (auto simp: structured_integer_def)

section \<open>Properties\<close>

text \<open>
  C33: rate-limit fields are exact and can be read back. Given that header values of visible ASCII
  characters are accepted, encoding never panics. A policy field is produced exactly for a non-empty
  name of at most 128 visible ASCII characters, a quota of at most 15 digits and a period of whole
  seconds, and a reader of Structured Fields gets back the name, the quota and the period; a limit
  field is produced exactly for such a name and numbers, and reads back as the name, the available
  amount (zero for a denial, admitted in shadow mode or not) and the delay in whole seconds, rounded
  up: until the quota replenishes for an allowance, until a retry for a denial.
\<close>

theorem http_fields_roundtrip:
  assumes accepts: "\<And>s. visible s \<Longrightarrow> header_ok s"
    and available: "available = (case state of Available a \<Rightarrow> al_available a | Exhausted d \<Rightarrow> 0)"
    and delay: "delay = delay_duration (case state of Available a \<Rightarrow> al_replenishes_after a | Exhausted d \<Rightarrow> qd_retry_after d)"
    and seconds: "seconds = (if NANOS_PER_SEC dvd delay then delay div NANOS_PER_SEC
      else min U64_MAX (delay div NANOS_PER_SEC + 1))"
  shows "quota_policy header_ok trait name p \<noteq> Inl Panicked \<and>
    ((\<exists>v. quota_policy header_ok trait name p = Inr v) \<longleftrightarrow>
       name_ok name \<and> capacity_get (trait_quota trait p) \<le> MAX_STRUCTURED_FIELD_INTEGER \<and>
       1000 dvd period_millis (trait_quota_period trait p) \<and>
       period_millis (trait_quota_period trait p) div 1000 \<le> MAX_STRUCTURED_FIELD_INTEGER) \<and>
    (quota_policy header_ok trait name p = Inr (field, rendered) \<longrightarrow> field = lit ''ratelimit-policy'' \<and>
       read_item rendered = Some (name, [(113, capacity_get (trait_quota trait p)),
         (119, period_millis (trait_quota_period trait p) div 1000)])) \<and>
    service_limit header_ok name state \<noteq> Inl Panicked \<and>
    ((\<exists>v. service_limit header_ok name state = Inr v) \<longleftrightarrow>
       name_ok name \<and> available \<le> MAX_STRUCTURED_FIELD_INTEGER \<and> seconds \<le> MAX_STRUCTURED_FIELD_INTEGER) \<and>
    (service_limit header_ok name state = Inr (field, rendered) \<longrightarrow> field = lit ''ratelimit'' \<and>
       read_item rendered = Some (name, [(114, available), (116, seconds)]))"
proof -
  have numbers: "state_numbers state = (available, seconds)"
    by (cases state) (simp_all add: available delay seconds state_numbers_def Delay_seconds_def as_secs_def
        subsec_nanos_def saturating_add_def dvd_eq_mod_eq_0)
  have header: "header_value header_ok (field_value (34 # escaped name @ [34]) k n l m) =
      Inr (field_value (34 # escaped name @ [34]) k n l m)"
    if "name_ok name" "0x20 \<le> k \<and> k \<le> 0x7E" "0x20 \<le> l \<and> l \<le> 0x7E" for k n l m
    using that accepts field_value_visible by (simp add: header_value_def name_ok_def)
  have q: "quota_policy header_ok trait name p = Inr v \<longleftrightarrow>
      name_ok name \<and> capacity_get (trait_quota trait p) \<le> MAX_STRUCTURED_FIELD_INTEGER \<and>
      period_millis (trait_quota_period trait p) mod 1000 = 0 \<and>
      period_millis (trait_quota_period trait p) div 1000 \<le> MAX_STRUCTURED_FIELD_INTEGER \<and>
      v = (lit ''ratelimit-policy'', field_value (34 # escaped name @ [34]) 113 (capacity_get (trait_quota trait p))
        119 (period_millis (trait_quota_period trait p) div 1000))" for v
    by (auto simp: quota_policy_def try_bind_eq_Inr map_err_eq_Inr encode_policy_name_ok structured_integer_ok header Let_def)
  have s: "service_limit header_ok name state = Inr v \<longleftrightarrow>
      name_ok name \<and> available \<le> MAX_STRUCTURED_FIELD_INTEGER \<and> seconds \<le> MAX_STRUCTURED_FIELD_INTEGER \<and>
      v = (lit ''ratelimit'', field_value (34 # escaped name @ [34]) 114 available 116 seconds)" for v
    by (auto simp: service_limit_def numbers try_bind_eq_Inr map_err_eq_Inr encode_policy_name_ok structured_integer_ok header
        case_prod_unfold Let_def)
  have "quota_policy header_ok trait name p \<noteq> Inl Panicked" "service_limit header_ok name state \<noteq> Inl Panicked"
    by (auto simp: quota_policy_def service_limit_def numbers try_bind_def map_err_def encode_policy_name_ok structured_integer_ok
        header case_prod_unfold Let_def split: sum.splits if_splits)
  then show ?thesis
    using read_field_value [of name] by (auto simp: q s name_ok_def dvd_eq_mod_eq_0)
qed

definition sample_state :: quota_state where
  "sample_state = Exhausted \<lparr>qd_capacity = Capacity 5, qd_retry_after = Delay 1500000000\<rparr>"

lemma sample_state_numbers:
  "0 = (case sample_state of Available a \<Rightarrow> al_available a | Exhausted d \<Rightarrow> 0)"
  "1500000000 = delay_duration (case sample_state of Available a \<Rightarrow> al_replenishes_after a | Exhausted d \<Rightarrow> qd_retry_after d)"
  "2 = (if NANOS_PER_SEC dvd 1500000000 then 1500000000 div NANOS_PER_SEC else min U64_MAX (1500000000 div NANOS_PER_SEC + 1))"
  by (simp_all add: sample_state_def NANOS_PER_SEC_def U64_MAX_def)

lemma sample_name_ok: "name_ok (lit ''api'')"
  by (simp add: name_ok_def visible_def lit_def str_len_ascii MAX_POLICY_NAME_LENGTH_def)

theorem http_fields_roundtrip_witness:
  "\<exists>rendered. service_limit (\<lambda>_. True) (lit ''api'') sample_state = Inr (lit ''ratelimit'', rendered) \<and>
     read_item rendered = Some (lit ''api'', [(114, 0), (116, 2)])"
proof -
  note t = http_fields_roundtrip [where header_ok = "\<lambda>_. True" and trait = fixed_window_trait and
      name = "lit ''api''", OF TrueI sample_state_numbers]
  have "\<exists>v. service_limit (\<lambda>_. True) (lit ''api'') sample_state = Inr v"
    using t sample_name_ok by (simp add: MAX_STRUCTURED_FIELD_INTEGER_def)
  then obtain field rendered where run: "service_limit (\<lambda>_. True) (lit ''api'') sample_state = Inr (field, rendered)"
    by auto
  then show ?thesis using t [where field = field and rendered = rendered] by auto
qed

end
