(* ===== verification/Spec2Isabelle.thy ===== *)
theory Spec2Isabelle
  imports Fixed_Window_Store Gcra_Store Attempt_Store Workflow_Builders At_Rest_Crypto
    Core_Retry Core_Cleanup Lifecycle_Gates Http_Fields
begin

text \<open>
  Verification of the rate-limiting core of Batter.

  \<^item> \<open>Batter_Prelude\<close>, \<open>Rust_Text\<close>: machine integers, results, durations, bytes, ordered sets, maps
    and Unicode text as the Rust sources use them.
  \<^item> \<open>Identifier\<close>, \<open>Policy\<close>, \<open>Subject_Key\<close>, \<open>Decision\<close>, \<open>Check_Batch\<close>, \<open>Gcra_Core\<close>:
    \<open>runlimit-core\<close>.
\<close>

end
